(* ===== verification/Prelude.thy ===== *)
theory Prelude
  imports Main "HOL-Library.Word"
begin

text \<open>
  Shared vocabulary of the development.

  \<^item> Machine types: \<open>byte\<close>, \<open>u16\<close>, \<open>u32\<close>, \<open>u64\<close> are words of the width the source uses, so
    that \<open>as u8\<close> and \<open>as u16\<close> casts truncate as they do in Rust.  \<open>usize\<close> values are \<open>nat\<close>: they
    are all lengths of or positions in slices, which Rust keeps below \<open>2^63\<close>, so sums of two of
    them do not wrap; a subtraction that would go below zero is a panic and is written out.
  \<^item> \<open>result\<close>: Rust's \<open>Result<T, E>\<close> with one more value, \<open>Panic\<close>, for an index out of range, a
    failed \<open>unwrap\<close> or an arithmetic underflow.
  \<^item> \<open>comp\<close>: a computation that works on a mutable state (what the source passes as \<open>&mut\<close>) and
    ends in a \<open>result\<close>.  The state is returned in the error case too, because the source goes on
    using a buffer after a failed read.  \<open>bind\<close> is the \<open>?\<close> operator.
  \<^item> checked slices, indexing and stores;
  \<^item> big-endian encodings of 16, 24 and 32 bit integers;
  \<^item> postconditions of successful computations.
\<close>

unbundle bit_operations_syntax

type_synonym byte = "8 word"
type_synonym u16 = "16 word"
type_synonym u32 = "32 word"
type_synonym u64 = "64 word"
type_synonym bytes = "byte list"

named_theorems comp_simps \<open>evaluation of the computation combinators\<close>
named_theorems ensures_rules \<open>what successful computations guarantee\<close>

section \<open>Results and computations\<close>

datatype ('a, 'e) result = Ok 'a | Err 'e | Panic

type_synonym ('s, 'a, 'e) comp = "'s \<Rightarrow> ('a, 'e) result \<times> 's"

definition return :: "'a \<Rightarrow> ('s, 'a, 'e) comp" where
  "return a = (\<lambda>s. (Ok a, s))"

definition throw :: "'e \<Rightarrow> ('s, 'a, 'e) comp" where
  "throw e = (\<lambda>s. (Err e, s))"

definition panic :: "('s, 'a, 'e) comp" where
  "panic = (\<lambda>s. (Panic, s))"

definition bind :: "('s, 'a, 'e) comp \<Rightarrow> ('a \<Rightarrow> ('s, 'b, 'e) comp) \<Rightarrow> ('s, 'b, 'e) comp" where
  "bind m f = (\<lambda>s. case m s of
      (Ok a, s') \<Rightarrow> f a s'
    | (Err e, s') \<Rightarrow> (Err e, s')
    | (Panic, s') \<Rightarrow> (Panic, s'))"

definition next_do :: "('s, unit, 'e) comp \<Rightarrow> ('s, 'b, 'e) comp \<Rightarrow> ('s, 'b, 'e) comp" where
  "next_do m k = bind m (\<lambda>_. k)"

definition gets :: "('s \<Rightarrow> 'a) \<Rightarrow> ('s, 'a, 'e) comp" where
  "gets f = (\<lambda>s. (Ok (f s), s))"

definition modify :: "('s \<Rightarrow> 's) \<Rightarrow> ('s, unit, 'e) comp" where
  "modify f = (\<lambda>s. (Ok (), f s))"

definition lift_result :: "('a, 'e) result \<Rightarrow> ('s, 'a, 'e) comp" where
  "lift_result r = (\<lambda>s. (r, s))"

fun map_err_result :: "('e \<Rightarrow> 'f) \<Rightarrow> ('a, 'e) result \<Rightarrow> ('a, 'f) result" where
  "map_err_result g (Ok a) = Ok a"
| "map_err_result g (Err e) = Err (g e)"
| "map_err_result g Panic = Panic"

definition map_err :: "('e \<Rightarrow> 'f) \<Rightarrow> ('s, 'a, 'e) comp \<Rightarrow> ('s, 'a, 'f) comp" where
  "map_err g m = (\<lambda>s. case m s of (r, s') \<Rightarrow> (map_err_result g r, s'))"

text \<open>\<open>ok_or\<close>: an absent value becomes the given error.\<close>

definition ok_or :: "'e \<Rightarrow> 'a option \<Rightarrow> ('a, 'e) result" where
  "ok_or e v = (case v of None \<Rightarrow> Err e | Some a \<Rightarrow> Ok a)"

text \<open>\<open>unwrap\<close>: an absent value is a panic.\<close>

definition unwrap :: "'a option \<Rightarrow> ('a, 'e) result" where
  "unwrap v = (case v of None \<Rightarrow> Panic | Some a \<Rightarrow> Ok a)"

text \<open>Run a computation on one part of a larger state, as a method call on a field does.\<close>

definition on_part :: "('t \<Rightarrow> 's) \<Rightarrow> ('s \<Rightarrow> 't \<Rightarrow> 't) \<Rightarrow> ('s, 'a, 'e) comp \<Rightarrow> ('t, 'a, 'e) comp" where
  "on_part sel upd m = (\<lambda>t. case m (sel t) of (r, s') \<Rightarrow> (r, upd s' t))"

text \<open>\<open>for x in xs { f(x)? }\<close>.\<close>

fun for_each :: "('a \<Rightarrow> ('s, unit, 'e) comp) \<Rightarrow> 'a list \<Rightarrow> ('s, unit, 'e) comp" where
  "for_each f [] = return ()"
| "for_each f (x # xs) = next_do (f x) (for_each f xs)"

lemma return_apply [comp_simps, simp]: "return a s = (Ok a, s)"
  by (simp add: return_def)

lemma throw_apply [comp_simps, simp]: "throw e s = (Err e, s)"
  by (simp add: throw_def)

lemma panic_apply [comp_simps, simp]: "panic s = (Panic, s)"
  by (simp add: panic_def)

lemma gets_apply [comp_simps, simp]: "gets f s = (Ok (f s), s)"
  by (simp add: gets_def)

lemma modify_apply [comp_simps, simp]: "modify f s = (Ok (), f s)"
  by (simp add: modify_def)

lemma lift_result_apply [comp_simps, simp]: "lift_result r s = (r, s)"
  by (simp add: lift_result_def)

lemma bind_apply [comp_simps]:
  "bind m f s = (case m s of (Ok a, s') \<Rightarrow> f a s' | (Err e, s') \<Rightarrow> (Err e, s')
     | (Panic, s') \<Rightarrow> (Panic, s'))"
  by (simp add: bind_def)

lemma next_do_apply [comp_simps]:
  "next_do m k s = (case m s of (Ok _, s') \<Rightarrow> k s' | (Err e, s') \<Rightarrow> (Err e, s')
     | (Panic, s') \<Rightarrow> (Panic, s'))"
  by (simp add: next_do_def bind_def)

lemma map_err_apply [comp_simps]:
  "map_err g m s = (map_err_result g (fst (m s)), snd (m s))"
  by (simp add: map_err_def split: prod.split)

lemma on_part_apply [comp_simps]:
  "on_part sel upd m t = (fst (m (sel t)), upd (snd (m (sel t))) t)"
  by (simp add: on_part_def split: prod.split)

text \<open>Rewriting a bind once the outcome of its first step is known.\<close>

lemma bind_Ok: "m s = (Ok a, s') \<Longrightarrow> bind m f s = f a s'"
  by (simp add: bind_def)

lemma bind_Err: "m s = (Err e, s') \<Longrightarrow> bind m f s = (Err e, s')"
  by (simp add: bind_def)

lemma next_do_Ok: "m s = (Ok (), s') \<Longrightarrow> next_do m k s = k s'"
  by (simp add: next_do_def bind_def)

lemma next_do_Err: "m s = (Err e, s') \<Longrightarrow> next_do m k s = (Err e, s')"
  by (simp add: next_do_def bind_def)

lemma map_err_Ok: "m s = (Ok a, s') \<Longrightarrow> map_err g m s = (Ok a, s')"
  by (simp add: map_err_apply)

lemma map_err_Err: "m s = (Err e, s') \<Longrightarrow> map_err g m s = (Err (g e), s')"
  by (simp add: map_err_apply)

lemma bind_OkE:
  assumes "bind m f s = (Ok b, s'')"
  obtains a s' where "m s = (Ok a, s')" and "f a s' = (Ok b, s'')"
  using assms by (auto simp: bind_def split: prod.splits result.splits)

lemma next_do_OkE:
  assumes "next_do m k s = (Ok b, s'')"
  obtains s' where "m s = (Ok (), s')" and "k s' = (Ok b, s'')"
  using assms by (auto simp: next_do_def bind_def split: prod.splits result.splits)

lemma map_err_OkE:
  assumes "map_err g m s = (Ok a, s')"
  obtains "m s = (Ok a, s')"
  using assms by (cases "m s"; cases "fst (m s)") (auto simp: map_err_apply)

lemma on_part_OkE:
  assumes "on_part sel upd m t = (Ok a, t')"
  obtains s' where "m (sel t) = (Ok a, s')" and "t' = upd s' t"
  using assms by (cases "m (sel t)") (auto simp: on_part_apply)

lemma bind_assoc: "bind (bind m f) g = bind m (\<lambda>a. bind (f a) g)"
  by (rule ext) (simp add: bind_def split: prod.split result.split)

lemma return_bind [simp]: "bind (return a) f = f a"
  by (rule ext) (simp add: bind_def)

lemma throw_bind [simp]: "bind (throw e) f = throw e"
  by (rule ext) (simp add: bind_def)

lemma lift_result_Ok [simp]: "lift_result (Ok a) = return a"
  by (rule ext) simp

lemma lift_result_Err [simp]: "lift_result (Err e) = throw e"
  by (rule ext) simp

lemma next_do_return [simp]: "next_do (return ()) k = k"
  by (simp add: next_do_def)

lemma map_err_result_eq_Ok [simp]: "map_err_result g r = Ok a \<longleftrightarrow> r = Ok a"
  by (cases r) auto

lemma map_err_result_eq_Panic [simp]: "map_err_result g r = Panic \<longleftrightarrow> r = Panic"
  by (cases r) auto

lemma map_err_result_eq_Err: "map_err_result g r = Err e \<longleftrightarrow> (\<exists>e'. r = Err e' \<and> e = g e')"
  by (cases r) auto

lemma ok_or_eq_Ok [simp]: "ok_or e v = Ok a \<longleftrightarrow> v = Some a"
  by (simp add: ok_or_def split: option.split)

lemma ok_or_not_Panic [simp]: "ok_or e v \<noteq> Panic"
  by (simp add: ok_or_def split: option.split)

lemma ok_or_simps [simp]: "ok_or e None = Err e" "ok_or e (Some a) = Ok a"
  by (simp_all add: ok_or_def)

lemma unwrap_simps [simp]: "unwrap None = Panic" "unwrap (Some a) = Ok a"
  by (simp_all add: unwrap_def)

lemma for_each_map: "for_each f (map g xs) = for_each (f \<circ> g) xs"
  by (induction xs) simp_all

section \<open>Iterators\<close>

fun find_map :: "('a \<Rightarrow> 'b option) \<Rightarrow> 'a list \<Rightarrow> 'b option" where
  "find_map f [] = None"
| "find_map f (x # xs) = (case f x of Some b \<Rightarrow> Some b | None \<Rightarrow> find_map f xs)"

fun position :: "('a \<Rightarrow> bool) \<Rightarrow> 'a list \<Rightarrow> nat option" where
  "position P [] = None"
| "position P (x # xs) = (if P x then Some 0 else map_option Suc (position P xs))"

text \<open>The index of the last element that satisfies \<open>P\<close>, searched from the end.\<close>

fun rposition :: "('a \<Rightarrow> bool) \<Rightarrow> 'a list \<Rightarrow> nat option" where
  "rposition P [] = None"
| "rposition P (x # xs) =
     (case rposition P xs of Some i \<Rightarrow> Some (Suc i) | None \<Rightarrow> if P x then Some 0 else None)"

text \<open>\<open>chunks_exact(2)\<close>: a last odd element is left out.\<close>

fun chunks2 :: "'a list \<Rightarrow> 'a list list" where
  "chunks2 (a # b # rest) = [a, b] # chunks2 rest"
| "chunks2 _ = []"

lemma position_SomeD: "position P xs = Some i \<Longrightarrow> i < length xs \<and> P (xs ! i)"
  by (induction xs arbitrary: i) (auto split: if_splits)

lemma position_None_iff: "position P xs = None \<longleftrightarrow> (\<forall>x \<in> set xs. \<not> P x)"
  by (induction xs) auto

lemma rposition_None_iff: "rposition P xs = None \<longleftrightarrow> (\<forall>x \<in> set xs. \<not> P x)"
  by (induction xs) (auto split: option.splits)

lemma rposition_SomeD: "rposition P xs = Some i \<Longrightarrow> i < length xs \<and> P (xs ! i)"
  by (induction xs arbitrary: i) (auto split: option.splits if_splits)

lemma rposition_append_last:
  assumes "P x" and "list_all (\<lambda>y. \<not> P y) zs"
  shows "rposition P (xs @ x # zs) = Some (length xs)"
proof -
  have "rposition P zs = None" using assms(2) by (simp add: rposition_None_iff list_all_iff)
  then have "rposition P (x # zs) = Some 0" using assms(1) by simp
  then show ?thesis by (induction xs) simp_all
qed

section \<open>Checked access to slices\<close>

definition usub :: "nat \<Rightarrow> nat \<Rightarrow> (nat, 'e) result" where
  "usub a b = (if b \<le> a then Ok (a - b) else Panic)"

definition index_at :: "'a list \<Rightarrow> nat \<Rightarrow> ('a, 'e) result" where
  "index_at xs i = (if i < length xs then Ok (xs ! i) else Panic)"

text \<open>\<open>&xs[a..b]\<close>: a panic unless \<open>a \<le> b \<le> length xs\<close>.\<close>

definition subslice :: "'a list \<Rightarrow> nat \<Rightarrow> nat \<Rightarrow> ('a list, 'e) result" where
  "subslice xs a b = (if a \<le> b \<and> b \<le> length xs then Ok (take (b - a) (drop a xs)) else Panic)"

text \<open>\<open>xs[a..a + ys.len()].copy_from_slice(ys)\<close>.\<close>

definition overwrite :: "nat \<Rightarrow> 'a list \<Rightarrow> 'a list \<Rightarrow> 'a list" where
  "overwrite a ys xs = take a xs @ ys @ drop (a + length ys) xs"

definition store_slice :: "'a list \<Rightarrow> nat \<Rightarrow> 'a list \<Rightarrow> ('a list, 'e) result" where
  "store_slice xs a ys = (if a + length ys \<le> length xs then Ok (overwrite a ys xs) else Panic)"

definition store_at :: "'a list \<Rightarrow> nat \<Rightarrow> 'a \<Rightarrow> ('a list, 'e) result" where
  "store_at xs i v = (if i < length xs then Ok (xs[i := v]) else Panic)"

lemma length_overwrite [simp]: "a + length ys \<le> length xs \<Longrightarrow> length (overwrite a ys xs) = length xs"
  by (simp add: overwrite_def)

lemma take_overwrite: "n \<le> a \<Longrightarrow> a \<le> length xs \<Longrightarrow> take n (overwrite a ys xs) = take n xs"
  by (simp add: overwrite_def min_def)

lemma drop_overwrite:
  "a + length ys \<le> n \<Longrightarrow> a \<le> length xs \<Longrightarrow> drop n (overwrite a ys xs) = drop n xs"
  by (simp add: overwrite_def add.commute)

lemma overwrite_Nil [simp]: "overwrite a [] xs = xs"
  by (simp add: overwrite_def)

lemma overwrite_overwrite_adj:
  "a + length ys + length zs \<le> length xs \<Longrightarrow>
   overwrite (a + length ys) zs (overwrite a ys xs) = overwrite a (ys @ zs) xs"
  by (simp add: overwrite_def ac_simps)

lemma list_update_overwrite: "i < length xs \<Longrightarrow> xs[i := v] = overwrite i [v] xs"
  by (simp add: overwrite_def upd_conv_take_nth_drop)

lemma overwrite_at_length [simp]:
  "length ys = length zs \<Longrightarrow> overwrite (length pre) ys (pre @ zs @ post) = pre @ ys @ post"
  by (simp add: overwrite_def)

lemma take_add_drop: "take n (drop a xs) @ take m (drop (a + n) xs) = take (n + m) (drop a xs)"
  by (simp add: take_add drop_drop add.commute [of n a])

lemma subslice_full [simp]: "subslice xs 0 (length xs) = Ok xs"
  by (simp add: subslice_def)

lemma subslice_middle [simp]:
  "subslice (pre @ xs @ post) (length pre) (length pre + length xs) = Ok xs"
  by (simp add: subslice_def)

section \<open>Big-endian integers\<close>

definition be16 :: "u16 \<Rightarrow> bytes" where
  "be16 w = [ucast (drop_bit 8 w), ucast w]"

definition be24 :: "u32 \<Rightarrow> bytes" where
  "be24 w = [ucast (drop_bit 16 w), ucast (drop_bit 8 w), ucast w]"

definition be32 :: "u32 \<Rightarrow> bytes" where
  "be32 w = [ucast (drop_bit 24 w), ucast (drop_bit 16 w), ucast (drop_bit 8 w), ucast w]"

definition be64 :: "u64 \<Rightarrow> bytes" where
  "be64 w = map (\<lambda>i. ucast (drop_bit (8 * i) w)) [7, 6, 5, 4, 3, 2, 1, 0]"

definition of_be16 :: "byte \<Rightarrow> byte \<Rightarrow> u16" where
  "of_be16 a b = push_bit 8 (ucast a) OR ucast b"

definition of_be32 :: "byte \<Rightarrow> byte \<Rightarrow> byte \<Rightarrow> byte \<Rightarrow> u32" where
  "of_be32 a b c d =
     push_bit 24 (ucast a) OR push_bit 16 (ucast b) OR push_bit 8 (ucast c) OR ucast d"

text \<open>Length-prefixed byte vectors: the length is truncated to the width of the prefix.\<close>

definition vec8 :: "bytes \<Rightarrow> bytes" where
  "vec8 bs = word_of_nat (length bs) # bs"

definition vec16 :: "bytes \<Rightarrow> bytes" where
  "vec16 bs = be16 (word_of_nat (length bs)) @ bs"

definition vec24 :: "bytes \<Rightarrow> bytes" where
  "vec24 bs = be24 (word_of_nat (length bs)) @ bs"

lemma length_be [simp]:
  "length (be16 w) = 2" "length (be24 v) = 3" "length (be32 v) = 4" "length (be64 x) = 8"
  by (simp_all add: be16_def be24_def be32_def be64_def)

lemma be_nonempty [simp]: "be16 w \<noteq> []" "be24 v \<noteq> []" "be32 v \<noteq> []"
  by (simp_all add: be16_def be24_def be32_def)

lemma length_vec [simp]:
  "length (vec8 bs) = 1 + length bs" "length (vec16 bs) = 2 + length bs"
  "length (vec24 bs) = 3 + length bs"
  by (simp_all add: vec8_def vec16_def vec24_def)

lemma unat_word_of_nat: "n < 2 ^ LENGTH('a) \<Longrightarrow> unat (word_of_nat n :: 'a::len word) = n"
  by (simp add: unsigned_of_nat take_bit_nat_eq_self)

lemma bit_byte_high [simp]: "bit (b :: byte) (8 + n) = False"
  by (auto dest: bit_imp_le_length)

lemma bit_byte_high16 [simp]: "bit (b :: byte) (16 + n) = False"
  by (auto dest: bit_imp_le_length)

lemma of_be16_be16 [simp]: "of_be16 (ucast (drop_bit 8 w)) (ucast w) = w"
  unfolding of_be16_def by (rule bit_word_eqI) (auto simp: bit_simps)

lemma be16_of_be16 [simp]: "be16 (of_be16 a b) = [a, b]"
  unfolding of_be16_def be16_def
  by (auto intro!: bit_word_eqI simp: bit_simps)

lemma be16_inject [simp]: "be16 v = be16 w \<longleftrightarrow> v = w"
  by (metis be16_def list.inject of_be16_be16)

lemma of_be32_be32 [simp]:
  "of_be32 (ucast (drop_bit 24 w)) (ucast (drop_bit 16 w)) (ucast (drop_bit 8 w)) (ucast w) = w"
  unfolding of_be32_def
proof (rule bit_word_eqI)
  fix n :: nat assume "n < LENGTH(32)"
  then have "n < 8 \<or> 8 \<le> n \<and> n < 16 \<or> 16 \<le> n \<and> n < 24 \<or> 24 \<le> n \<and> n < 32"
    by auto
  then consider "n < 8" | "8 \<le> n" "n < 16" | "16 \<le> n" "n < 24" | "24 \<le> n" "n < 32"
    by fastforce
  then show "bit (push_bit 24 (ucast (ucast (drop_bit 24 w) :: byte) :: u32) OR
      push_bit 16 (ucast (ucast (drop_bit 16 w) :: byte) :: u32) OR
      push_bit 8 (ucast (ucast (drop_bit 8 w) :: byte) :: u32) OR
      ucast (ucast w :: byte)) n \<longleftrightarrow> bit w n"
    by cases (auto simp: bit_simps)
qed

lemma of_be32_be24:
  assumes "unat w < 2 ^ 24"
  shows "of_be32 0 (ucast (drop_bit 16 w)) (ucast (drop_bit 8 w)) (ucast w) = w"
proof -
  have "take_bit 24 w = w"
    using assms by (simp add: word_unat_eq_iff unsigned_take_bit_eq take_bit_nat_eq_self)
  then have hi: "\<not> bit w n" if "24 \<le> n" for n
    using that by (metis bit_take_bit_iff linorder_not_le)
  show ?thesis
    unfolding of_be32_def
  proof (rule bit_word_eqI)
    fix n :: nat
    have "n < 8 \<or> 8 \<le> n \<and> n < 16 \<or> 16 \<le> n \<and> n < 24 \<or> 24 \<le> n"
      by auto
    then consider "n < 8" | "8 \<le> n" "n < 16" | "16 \<le> n" "n < 24" | "24 \<le> n"
      by fastforce
    then show "bit (push_bit 24 (ucast (0 :: byte) :: u32) OR
        push_bit 16 (ucast (ucast (drop_bit 16 w) :: byte) :: u32) OR
        push_bit 8 (ucast (ucast (drop_bit 8 w) :: byte) :: u32) OR
        ucast (ucast w :: byte)) n \<longleftrightarrow> bit w n"
      by cases (auto simp: bit_simps dest: hi)
  qed
qed

lemma be24_of_be32 [simp]: "be24 (of_be32 0 a b c) = [a, b, c]"
  unfolding of_be32_def be24_def
  by (auto intro!: bit_word_eqI simp: bit_simps)

lemma unat_byte_less: "unat (b :: byte) < 256"
  by (rule order.strict_trans2 [OF unsigned_less]) simp

lemma unat_of_be16: "unat (of_be16 a b) = 256 * unat a + unat b"
proof -
  have "of_be16 a b = push_bit 8 (ucast a) + ucast b"
    unfolding of_be16_def
    by (rule disjunctive_add [symmetric]) (auto simp: bit_simps dest: bit_imp_le_length)
  then show ?thesis
    using unat_byte_less [of a] unat_byte_less [of b]
    by (simp add: push_bit_eq_mult unat_word_ariths unsigned_ucast_eq take_bit_nat_eq_self)
qed

section \<open>What a successful computation guarantees\<close>

text \<open>
  \<open>ensures m Q\<close>: whenever the computation succeeds, \<open>Q\<close> holds of its result and final state.  Errors
  and panics are excluded by other means (\<open>wf_parser\<close>, the \<open>_run\<close> lemmas).
\<close>

definition ensures :: "('s, 'a, 'e) comp \<Rightarrow> ('a \<Rightarrow> 's \<Rightarrow> bool) \<Rightarrow> bool" where
  "ensures m Q \<longleftrightarrow> (\<forall>s a s'. m s = (Ok a, s') \<longrightarrow> Q a s')"

lemma ensuresI: "(\<And>s a s'. m s = (Ok a, s') \<Longrightarrow> Q a s') \<Longrightarrow> ensures m Q"
  by (simp add: ensures_def)

lemma ensuresD: "ensures m Q \<Longrightarrow> m s = (Ok a, s') \<Longrightarrow> Q a s'"
  by (simp add: ensures_def)

lemma ensures_bind:
  "ensures m (\<lambda>a _. A a) \<Longrightarrow> (\<And>a. A a \<Longrightarrow> ensures (f a) Q) \<Longrightarrow> ensures (bind m f) Q"
  by (blast intro: ensuresI elim: bind_OkE dest: ensuresD)

lemma ensures_bind_last [ensures_rules]: "(\<And>a. ensures (f a) Q) \<Longrightarrow> ensures (bind m f) Q"
  by (blast intro: ensuresI elim: bind_OkE dest: ensuresD)

lemma ensures_return [ensures_rules]: "(\<And>s. Q a s) \<Longrightarrow> ensures (return a) Q"
  by (simp add: ensures_def)

lemma ensures_throw [ensures_rules]: "ensures (throw e) Q"
  by (simp add: ensures_def)

lemma ensures_if [ensures_rules]:
  "(b \<Longrightarrow> ensures m Q) \<Longrightarrow> (\<not> b \<Longrightarrow> ensures n Q) \<Longrightarrow> ensures (if b then m else n) Q"
  by simp

lemma ensures_map_err [ensures_rules]: "ensures m Q \<Longrightarrow> ensures (map_err g m) Q"
  by (auto simp: ensures_def map_err_def split: prod.splits elim!: map_err_result.elims)

lemma ensures_lift [ensures_rules]: "(\<And>a s. r = Ok a \<Longrightarrow> Q a s) \<Longrightarrow> ensures (lift_result r) Q"
  by (simp add: ensures_def)

section \<open>An operation seen through a view of its state\<close>

text \<open>
  \<open>through v m m'\<close>: on the part of the state that \<open>v\<close> reads off, \<open>m'\<close> does what \<open>m\<close> does on the whole;
  \<open>keeps f m\<close>: the operation does not change what \<open>f\<close> reads off.
\<close>

definition through :: "('s \<Rightarrow> 'h) \<Rightarrow> ('s, 'a, 'e) comp \<Rightarrow> ('h, 'a, 'e) comp \<Rightarrow> bool" where
  "through v m m' \<longleftrightarrow> (\<forall>s. m' (v s) = (fst (m s), v (snd (m s))))"

lemma through_bind:
  assumes "through v m m'" and "\<And>x. through v (f x) (f' x)"
  shows "through v (bind m f) (bind m' f')"
  unfolding through_def
proof
  fix s
  obtain r s' where m: "m s = (r, s')" by fastforce
  then have "m' (v s) = (r, v s')" using assms(1) by (simp add: through_def)
  with m assms(2) show "bind m' f' (v s) = (fst (bind m f s), v (snd (bind m f s)))"
    by (cases r) (simp_all add: bind_apply through_def)
qed

lemma through_next_do: "through v m m' \<Longrightarrow> through v k k' \<Longrightarrow> through v (next_do m k) (next_do m' k')"
  unfolding next_do_def by (rule through_bind) simp_all

lemma through_return [simp]: "through v (return x) (return x)"
  by (simp add: through_def return_def)

lemma through_throw [simp]: "through v (throw e) (throw e)"
  by (simp add: through_def throw_def)

lemma through_gets: "(\<And>s. f' (v s) = f s) \<Longrightarrow> through v (gets f) (gets f')"
  by (simp add: through_def gets_def)

lemma through_on_part:
  "(\<And>s. g' (v s) = g s) \<Longrightarrow> (\<And>x s. v (p x s) = p' x (v s)) \<Longrightarrow> through v (on_part g p m) (on_part g' p' m)"
  by (simp add: through_def on_part_apply split: prod.split)

definition keeps :: "('s \<Rightarrow> 'h) \<Rightarrow> ('s, 'a, 'e) comp \<Rightarrow> bool" where
  "keeps f m \<longleftrightarrow> (\<forall>s. f (snd (m s)) = f s)"

lemma keeps_bind: "keeps f m \<Longrightarrow> (\<And>x. keeps f (k x)) \<Longrightarrow> keeps f (bind m k)"
  by (simp add: keeps_def bind_def split: prod.split result.split) (metis snd_conv)

lemma keeps_next_do: "keeps f m \<Longrightarrow> keeps f k \<Longrightarrow> keeps f (next_do m k)"
  unfolding next_do_def by (rule keeps_bind) simp_all

lemma keeps_basic [simp]: "keeps f (return x)" "keeps f (throw e)" "keeps f (gets g)"
  by (simp_all add: keeps_def return_def throw_def gets_def)

lemma keeps_on_part: "(\<And>x s. f (p x s) = f s) \<Longrightarrow> keeps f (on_part g p m)"
  by (simp add: keeps_def on_part_apply)

lemma through_const: "(\<And>s. f' (v s) = f s) \<Longrightarrow> through v (\<lambda>s. (f s, s)) (\<lambda>x. (f' x, x))"
  by (simp add: through_def)

lemma keeps_const: "keeps f (\<lambda>s. (g s, s))"
  by (simp add: keeps_def)

lemma through_if: "(b \<Longrightarrow> through v m m') \<Longrightarrow> (\<not> b \<Longrightarrow> through v k k') \<Longrightarrow> through v (if b then m else k) (if b then m' else k')"
  by simp

lemma keeps_if: "(b \<Longrightarrow> keeps f m) \<Longrightarrow> (\<not> b \<Longrightarrow> keeps f k) \<Longrightarrow> keeps f (if b then m else k)"
  by simp

lemmas through_rules = through_bind through_next_do through_if through_gets through_on_part through_const
lemmas keeps_rules = keeps_bind keeps_next_do keeps_if keeps_on_part keeps_const

lemma through_on_part_at:
  "(\<And>s. g' (v s) = g s) \<Longrightarrow> (\<And>s. v (p (snd (m (g s))) s) = p' (snd (m (g s))) (v s)) \<Longrightarrow>
   through v (on_part g p m) (on_part g' p' m)"
  by (simp add: through_def on_part_apply)

lemma through_on_snd:
  assumes "through (\<lambda>s. snd (v s)) m m'" and "keeps (\<lambda>s. fst (v s)) m"
  shows "through v m (on_part snd (\<lambda>x (b, _). (b, x)) m')"
  using assms by (auto simp: through_def keeps_def on_part_apply split_beta intro: prod_eqI)

end
