(* ===== verification/Errors.thy ===== *)
theory Errors
  imports Prelude
begin

text \<open>
  The error values of the crate: \<open>ParseError\<close> (src/parse_buffer.rs), the alert enumerations
  (src/alert.rs) and \<open>TlsError\<close> (src/lib.rs).  Constructors keep the source's names; the alert
  enumerations carry a prefix because the source uses \<open>InternalError\<close> and \<open>DecodeError\<close> in two
  of them, and \<open>ParseError\<close> because it shares \<open>InsufficientSpace\<close> with \<open>TlsError\<close>.
\<close>

datatype parse_error = PInsufficientBytes | PInsufficientSpace | PInvalidData

datatype alert_level = AL_Warning | AL_Fatal

datatype alert_description =
    AD_CloseNotify | AD_UnexpectedMessage | AD_BadRecordMac | AD_RecordOverflow
  | AD_HandshakeFailure | AD_BadCertificate | AD_UnsupportedCertificate | AD_CertificateRevoked
  | AD_CertificateExpired | AD_CertificateUnknown | AD_IllegalParameter | AD_UnknownCa
  | AD_AccessDenied | AD_DecodeError | AD_DecryptError | AD_ProtocolVersion
  | AD_InsufficientSecurity | AD_InternalError | AD_InappropriateFallback | AD_UserCanceled
  | AD_MissingExtension | AD_UnsupportedExtension | AD_UnrecognizedName
  | AD_BadCertificateStatusResponse | AD_UnknownPskIdentity | AD_CertificateRequired
  | AD_NoApplicationProtocol

text \<open>
  \<open>embedded_io::ErrorKind\<close> belongs to the I/O crate; only its identity matters, so it is an
  opaque number here.
\<close>

type_synonym io_error_kind = nat

datatype tls_error =
    ConnectionClosed | Unimplemented | MissingHandshake
  | HandshakeAborted alert_level alert_description
  | AbortHandshake alert_level alert_description
  | IoError | InternalError | InvalidRecord | UnknownContentType | InvalidNonceLength
  | InvalidTicketLength | UnknownExtensionType | InsufficientSpace | InvalidHandshake
  | InvalidCipherSuite | InvalidSignatureScheme | InvalidSignature | InvalidExtensionsLength
  | InvalidSessionIdLength | InvalidSupportedVersions | InvalidApplicationData | InvalidKeyShare
  | InvalidCertificate | InvalidCertificateEntry | InvalidCertificateRequest | InvalidPrivateKey
  | UnableToInitializeCryptoEngine | ParseError parse_error | OutOfMemory | CryptoError
  | EncodeError | DecodeError | Io io_error_kind

text \<open>\<open>impl From<ParseError> for TlsError\<close>: what \<open>?\<close> applies to a parse error.\<close>

definition from_parse :: "('s, 'a, parse_error) comp \<Rightarrow> ('s, 'a, tls_error) comp" where
  "from_parse = map_err ParseError"

lemma from_parse_apply [comp_simps]:
  "from_parse m s = (map_err_result ParseError (fst (m s)), snd (m s))"
  by (simp add: from_parse_def map_err_apply)

abbreviation fatal :: "alert_description \<Rightarrow> tls_error" where
  "fatal d \<equiv> AbortHandshake AL_Fatal d"

end
