(* ===== verification/Parse_Buffer.thy ===== *)
theory Parse_Buffer
  imports Errors
begin

text \<open>
  The read cursor of src/parse_buffer.rs.  \<open>ParseBuffer\<close> is a slice and a position in it; every
  \<open>read_*\<close> method checks the remaining length first, so a parser built from them cannot run off
  the end.  \<open>wf_parser\<close> states that contract (no panic, the slice untouched, the cursor moving
  forward within it) and \<open>parses\<close> states what a parser makes of a given run of bytes; both are
  closed under \<open>bind\<close>, and the theories of the wire formats build on them.
\<close>

section \<open>The cursor and its operations\<close>

record parse_buffer =
  pos :: nat
  buffer :: bytes

type_synonym 'a parser = "(parse_buffer, 'a, parse_error) comp"
type_synonym 'a tls_parser = "(parse_buffer, 'a, tls_error) comp"

definition pb_new :: "bytes \<Rightarrow> parse_buffer" where
  "pb_new bs = \<lparr>pos = 0, buffer = bs\<rparr>"

definition is_empty :: "parse_buffer \<Rightarrow> bool" where
  "is_empty b \<longleftrightarrow> pos b = length (buffer b)"

definition remaining :: "parse_buffer \<Rightarrow> nat" where
  "remaining b = length (buffer b) - pos b"

text \<open>
  \<open>slice(len)\<close> yields a cursor over the next \<open>len\<close> bytes; the model returns those bytes, and a
  caller that reads from the slice starts a cursor with \<open>pb_new\<close>, as \<open>ParseBuffer::new\<close> does there.
\<close>

definition pb_slice :: "nat \<Rightarrow> bytes parser" where
  "pb_slice len = (\<lambda>b.
     if pos b + len \<le> length (buffer b)
     then (Ok (take len (drop (pos b) (buffer b))), b\<lparr>pos := pos b + len\<rparr>)
     else (Err PInsufficientBytes, b))"

definition read_u8 :: "byte parser" where
  "read_u8 = (\<lambda>b.
     if pos b < length (buffer b)
     then (Ok (buffer b ! pos b), b\<lparr>pos := pos b + 1\<rparr>)
     else (Err PInsufficientBytes, b))"

definition read_u16 :: "u16 parser" where
  "read_u16 = (\<lambda>b.
     if pos b + 2 \<le> length (buffer b)
     then (Ok (of_be16 (buffer b ! pos b) (buffer b ! (pos b + 1))), b\<lparr>pos := pos b + 2\<rparr>)
     else (Err PInsufficientBytes, b))"

definition read_u24 :: "u32 parser" where
  "read_u24 = (\<lambda>b.
     if pos b + 3 \<le> length (buffer b)
     then (Ok (of_be32 0 (buffer b ! pos b) (buffer b ! (pos b + 1)) (buffer b ! (pos b + 2))),
           b\<lparr>pos := pos b + 3\<rparr>)
     else (Err PInsufficientBytes, b))"

definition read_u32 :: "u32 parser" where
  "read_u32 = (\<lambda>b.
     if pos b + 4 \<le> length (buffer b)
     then (Ok (of_be32 (buffer b ! pos b) (buffer b ! (pos b + 1))
                 (buffer b ! (pos b + 2)) (buffer b ! (pos b + 3))), b\<lparr>pos := pos b + 4\<rparr>)
     else (Err PInsufficientBytes, b))"

text \<open>\<open>fill(dest)\<close> overwrites a destination of \<open>n\<close> bytes; the model returns its new contents.\<close>

definition pb_fill :: "nat \<Rightarrow> bytes parser" where
  "pb_fill n = (\<lambda>b.
     if pos b + n \<le> length (buffer b)
     then (Ok (take n (drop (pos b) (buffer b))), b\<lparr>pos := pos b + n\<rparr>)
     else (Err PInsufficientBytes, b))"

text \<open>
  \<open>copy(dest, num_bytes)\<close> appends to a \<open>heapless::Vec\<close> of capacity \<open>cap\<close>; the capacity is checked
  before the input.  The second capacity check of the source (in \<open>extend_from_slice\<close>) cannot
  fail after the first.
\<close>

definition pb_copy :: "nat \<Rightarrow> bytes \<Rightarrow> nat \<Rightarrow> bytes parser" where
  "pb_copy cap dest num_bytes = (\<lambda>b.
     if cap - length dest < num_bytes then (Err PInsufficientSpace, b)
     else if pos b + num_bytes \<le> length (buffer b)
     then (Ok (dest @ take num_bytes (drop (pos b) (buffer b))), b\<lparr>pos := pos b + num_bytes\<rparr>)
     else (Err PInsufficientBytes, b))"

text \<open>
  The loop of \<open>read_list\<close>: \<open>cap\<close> is the room left in the \<open>heapless::Vec\<close>.  An element is read
  before the push can fail, so a list longer than the capacity is an \<open>InsufficientSpace\<close> error.
\<close>

fun read_list_loop :: "'a parser \<Rightarrow> nat \<Rightarrow> 'a list \<Rightarrow> parse_buffer \<Rightarrow> ('a list, parse_error) result" where
  "read_list_loop rd cap acc data =
     (if is_empty data then Ok acc
      else case rd data of
        (Ok v, data') \<Rightarrow>
          (case cap of
             0 \<Rightarrow> Err PInsufficientSpace
           | Suc c \<Rightarrow> read_list_loop rd c (acc @ [v]) data')
      | (Err e, data') \<Rightarrow> Err e
      | (Panic, data') \<Rightarrow> Panic)"

declare read_list_loop.simps [simp del]

definition read_list :: "nat \<Rightarrow> nat \<Rightarrow> 'a parser \<Rightarrow> 'a list parser" where
  "read_list n data_length rd =
     bind (pb_slice data_length) (\<lambda>data. lift_result (read_list_loop rd n [] (pb_new data)))"

section \<open>The contract of a parser\<close>

definition pb_inv :: "parse_buffer \<Rightarrow> bool" where
  "pb_inv b \<longleftrightarrow> pos b \<le> length (buffer b)"

lemma pb_inv_new [simp]: "pb_inv (pb_new bs)"
  by (simp add: pb_inv_def pb_new_def)

lemma pb_new_simps [simp]: "pos (pb_new bs) = 0" "buffer (pb_new bs) = bs"
  by (simp_all add: pb_new_def)

definition wf_parser :: "(parse_buffer, 'a, 'e) comp \<Rightarrow> bool" where
  "wf_parser p \<longleftrightarrow> (\<forall>b. pb_inv b \<longrightarrow> (case p b of (r, b') \<Rightarrow>
     r \<noteq> Panic \<and> buffer b' = buffer b \<and> pos b \<le> pos b' \<and> pos b' \<le> length (buffer b)))"

lemma wf_parserI:
  assumes "\<And>b r b'. pb_inv b \<Longrightarrow> p b = (r, b') \<Longrightarrow>
     r \<noteq> Panic \<and> buffer b' = buffer b \<and> pos b \<le> pos b' \<and> pos b' \<le> length (buffer b)"
  shows "wf_parser p"
  using assms by (simp add: wf_parser_def split: prod.split)

lemma wf_parserD:
  assumes "wf_parser p" and "pb_inv b" and "p b = (r, b')"
  shows "r \<noteq> Panic" and "buffer b' = buffer b" and "pos b \<le> pos b'" and "pb_inv b'"
  using assms by (auto simp: wf_parser_def pb_inv_def)

lemmas parser_defs = pb_slice_def read_u8_def read_u16_def read_u24_def read_u32_def pb_fill_def
  pb_copy_def

named_theorems wf_parsers \<open>well-formed parsers\<close>

lemma wf_pb_slice [wf_parsers]: "wf_parser (pb_slice n)"
  by (auto simp: wf_parser_def pb_slice_def pb_inv_def)

lemma wf_read_u8 [wf_parsers]: "wf_parser read_u8"
  by (auto simp: wf_parser_def read_u8_def pb_inv_def)

lemma wf_read_u16 [wf_parsers]: "wf_parser read_u16"
  by (auto simp: wf_parser_def read_u16_def pb_inv_def)

lemma wf_read_u24 [wf_parsers]: "wf_parser read_u24"
  by (auto simp: wf_parser_def read_u24_def pb_inv_def)

lemma wf_read_u32 [wf_parsers]: "wf_parser read_u32"
  by (auto simp: wf_parser_def read_u32_def pb_inv_def)

lemma wf_pb_fill [wf_parsers]: "wf_parser (pb_fill n)"
  by (auto simp: wf_parser_def pb_fill_def pb_inv_def)

lemma wf_pb_copy [wf_parsers]: "wf_parser (pb_copy cap dest n)"
  by (auto simp: wf_parser_def pb_copy_def pb_inv_def)

lemma wf_return [wf_parsers]: "wf_parser (return a)"
  by (auto simp: wf_parser_def pb_inv_def)

lemma wf_throw [wf_parsers]: "wf_parser (throw e)"
  by (auto simp: wf_parser_def pb_inv_def)

lemma wf_gets [wf_parsers]: "wf_parser (gets f)"
  by (auto simp: wf_parser_def pb_inv_def)

lemma wf_lift_result [wf_parsers]: "r \<noteq> Panic \<Longrightarrow> wf_parser (lift_result r)"
  by (auto simp: wf_parser_def pb_inv_def)

lemma wf_if [wf_parsers]: "wf_parser p \<Longrightarrow> wf_parser q \<Longrightarrow> wf_parser (if c then p else q)"
  by simp

lemma wf_map_err [wf_parsers]:
  assumes "wf_parser p" shows "wf_parser (map_err g p)"
proof (rule wf_parserI)
  fix b r b' assume b: "pb_inv b" and run: "map_err g p b = (r, b')"
  obtain r0 where "p b = (r0, b')" and "r = map_err_result g r0"
    using run by (cases "p b") (auto simp: map_err_apply)
  with wf_parserD [OF assms b this(1)]
  show "r \<noteq> Panic \<and> buffer b' = buffer b \<and> pos b \<le> pos b' \<and> pos b' \<le> length (buffer b)"
    by (auto simp: pb_inv_def)
qed

lemma wf_from_parse [wf_parsers]: "wf_parser p \<Longrightarrow> wf_parser (from_parse p)"
  by (simp add: from_parse_def wf_map_err)

lemma wf_bind:
  assumes p: "wf_parser p" and f: "\<And>a b b'. p b = (Ok a, b') \<Longrightarrow> wf_parser (f a)"
  shows "wf_parser (bind p f)"
proof (rule wf_parserI)
  fix b r b'' assume b: "pb_inv b" and run: "bind p f b = (r, b'')"
  obtain r1 b' where 1: "p b = (r1, b')" by fastforce
  note P = wf_parserD [OF p b 1]
  show "r \<noteq> Panic \<and> buffer b'' = buffer b \<and> pos b \<le> pos b'' \<and> pos b'' \<le> length (buffer b)"
  proof (cases r1)
    case (Ok a)
    with run 1 have "f a b' = (r, b'')" by (simp add: bind_apply)
    from wf_parserD [OF f [OF 1 [unfolded Ok]] P(4) this] P show ?thesis
      by (auto simp: pb_inv_def)
  qed (use run 1 P in \<open>auto simp: bind_apply pb_inv_def\<close>)
qed

lemma wf_bind' [wf_parsers]: "wf_parser p \<Longrightarrow> (\<And>a. wf_parser (f a)) \<Longrightarrow> wf_parser (bind p f)"
  by (rule wf_bind)

lemma wf_next [wf_parsers]: "wf_parser p \<Longrightarrow> wf_parser q \<Longrightarrow> wf_parser (next_do p q)"
  by (simp add: next_do_def wf_bind')

lemma read_list_loop_no_panic:
  "wf_parser rd \<Longrightarrow> pb_inv data \<Longrightarrow> read_list_loop rd cap acc data \<noteq> Panic"
proof (induction rd cap acc data rule: read_list_loop.induct)
  case (1 rd cap acc data)
  show ?case
  proof (cases "rd data")
    case (Pair r data')
    note R = wf_parserD [OF "1.prems" Pair]
    with "1.IH" [OF _ Pair [symmetric]] "1.prems" Pair show ?thesis
      by (subst read_list_loop.simps) (auto split: result.split nat.split)
  qed
qed

lemma wf_read_list [wf_parsers]: "wf_parser rd \<Longrightarrow> wf_parser (read_list n k rd)"
  unfolding read_list_def by (intro wf_parsers read_list_loop_no_panic pb_inv_new)

section \<open>What a parser makes of a run of bytes\<close>

text \<open>
  \<open>parses p bs v\<close>: wherever \<open>bs\<close> stands in the input, with the cursor at its start, \<open>p\<close> consumes
  exactly \<open>bs\<close> and yields \<open>v\<close>.
\<close>

definition parses :: "(parse_buffer, 'a, 'e) comp \<Rightarrow> bytes \<Rightarrow> 'a \<Rightarrow> bool" where
  "parses p bs v \<longleftrightarrow> (\<forall>pre post.
     p \<lparr>pos = length pre, buffer = pre @ bs @ post\<rparr> =
       (Ok v, \<lparr>pos = length pre + length bs, buffer = pre @ bs @ post\<rparr>))"

lemma parsesI:
  assumes "\<And>pre post. p \<lparr>pos = length pre, buffer = pre @ bs @ post\<rparr> =
       (Ok v, \<lparr>pos = length pre + length bs, buffer = pre @ bs @ post\<rparr>)"
  shows "parses p bs v"
  using assms by (simp add: parses_def)

lemma parsesD:
  "parses p bs v \<Longrightarrow> p \<lparr>pos = length pre, buffer = pre @ bs @ post\<rparr> =
       (Ok v, \<lparr>pos = length pre + length bs, buffer = pre @ bs @ post\<rparr>)"
  by (simp add: parses_def)

lemma parses_new: "parses p bs v \<Longrightarrow> p (pb_new (bs @ post)) =
     (Ok v, \<lparr>pos = length bs, buffer = bs @ post\<rparr>)"
  using parsesD [of p bs v "[]" post] by (simp add: pb_new_def)

lemma parses_new_all: "parses p bs v \<Longrightarrow> p (pb_new bs) = (Ok v, \<lparr>pos = length bs, buffer = bs\<rparr>)"
  using parses_new [of p bs v "[]"] by simp

named_theorems parses_rules \<open>what the parsers read\<close>

lemma parses_return [parses_rules]: "parses (return v) [] v"
  by (simp add: parses_def)

lemma parses_bind:
  assumes "parses p xs a" and "parses (f a) ys v"
  shows "parses (bind p f) (xs @ ys) v"
proof (rule parsesI)
  fix pre post
  show "bind p f \<lparr>pos = length pre, buffer = pre @ (xs @ ys) @ post\<rparr> =
      (Ok v, \<lparr>pos = length pre + length (xs @ ys), buffer = pre @ (xs @ ys) @ post\<rparr>)"
    using parsesD [OF assms(1), of pre "ys @ post"] parsesD [OF assms(2), of "pre @ xs" post]
    by (simp add: bind_apply add.assoc)
qed

lemma parses_bind_last: "parses p xs a \<Longrightarrow> f a = return v \<Longrightarrow> parses (bind p f) xs v"
  using parses_bind [of p xs a f "[]" v] by (simp add: parses_return)

lemma parses_bind_Cons: "parses p [x] a \<Longrightarrow> parses (f a) ys v \<Longrightarrow> parses (bind p f) (x # ys) v"
  using parses_bind [of p "[x]"] by simp

lemma parses_bind_Nil: "parses p [] a \<Longrightarrow> parses (f a) ys v \<Longrightarrow> parses (bind p f) ys v"
  using parses_bind [of p "[]"] by simp

lemma parses_map_err: "parses p bs v \<Longrightarrow> parses (map_err g p) bs v"
  by (simp add: parses_def map_err_apply)

lemma parses_from_parse: "parses p bs v \<Longrightarrow> parses (from_parse p) bs v"
  by (simp add: from_parse_def parses_map_err)

lemma parses_read_u8 [parses_rules]: "parses read_u8 [b] b"
  by (simp add: parses_def read_u8_def)

lemma parses_read_u16 [parses_rules]: "parses read_u16 (be16 w) w"
  by (simp add: parses_def read_u16_def be16_def nth_append)

lemma parses_read_u24 [parses_rules]: "unat w < 2 ^ 24 \<Longrightarrow> parses read_u24 (be24 w) w"
  by (simp add: parses_def read_u24_def be24_def nth_append of_be32_be24)

lemma parses_read_u32 [parses_rules]: "parses read_u32 (be32 w) w"
  by (simp add: parses_def read_u32_def be32_def nth_append)

lemma parses_pb_slice [parses_rules]: "n = length bs \<Longrightarrow> parses (pb_slice n) bs bs"
  by (simp add: parses_def pb_slice_def)

lemma parses_pb_fill [parses_rules]: "n = length bs \<Longrightarrow> parses (pb_fill n) bs bs"
  by (simp add: parses_def pb_fill_def)

text \<open>Reading a length prefix: it is the length of the vector if that fits the prefix.\<close>

lemma parses_vec8:
  "length bs < 2 ^ 8 \<Longrightarrow> (\<And>n. unat n = length bs \<Longrightarrow> parses (f n) bs v) \<Longrightarrow>
   parses (bind read_u8 f) (vec8 bs) v"
  unfolding vec8_def
  by (rule parses_bind_Cons [OF parses_read_u8]) (simp add: unat_word_of_nat)

lemma parses_vec16:
  "length bs < 2 ^ 16 \<Longrightarrow> (\<And>n. unat n = length bs \<Longrightarrow> parses (f n) bs v) \<Longrightarrow>
   parses (bind read_u16 f) (vec16 bs) v"
  unfolding vec16_def
  by (rule parses_bind [OF parses_read_u16]) (simp add: unat_word_of_nat)

lemma parses_vec24:
  "length bs < 2 ^ 24 \<Longrightarrow> (\<And>n. unat n = length bs \<Longrightarrow> parses (f n) bs v) \<Longrightarrow>
   parses (bind read_u24 f) (vec24 bs) v"
  unfolding vec24_def
  by (rule parses_bind [OF parses_read_u24]) (simp_all add: unat_word_of_nat)

section \<open>Lists of elements\<close>

text \<open>
  The interface between \<open>read_list\<close> and the element formats: an element parser \<open>rd\<close> that reads
  back what the element encoder \<open>enc\<close> writes, for the elements in \<open>ok\<close>.  An encoding is never
  empty, which is why the loop reaches the end of its slice.
\<close>

locale list_codec =
  fixes rd :: "'a parser" and enc :: "'a \<Rightarrow> bytes" and ok :: "'a \<Rightarrow> bool"
  assumes rd_enc: "ok a \<Longrightarrow> parses rd (enc a) a"
    and enc_nonempty: "ok a \<Longrightarrow> enc a \<noteq> []"
begin

lemma loop_enc:
  assumes "list_all ok as" and "length as \<le> cap"
  shows "read_list_loop rd cap acc \<lparr>pos = length pre, buffer = pre @ concat (map enc as)\<rparr> =
     Ok (acc @ as)"
  using assms
proof (induction "as" arbitrary: cap acc pre)
  case Nil
  then show ?case by (subst read_list_loop.simps) (simp add: is_empty_def)
next
  case (Cons a "as")
  then obtain c where c: "cap = Suc c" by (cases cap) auto
  from Cons.prems have "parses rd (enc a) a" and ne: "enc a \<noteq> []"
    by (auto simp: rd_enc enc_nonempty)
  note step = parsesD [OF this(1), of pre "concat (map enc as)"]
  have "read_list_loop rd c (acc @ [a])
      \<lparr>pos = length (pre @ enc a), buffer = (pre @ enc a) @ concat (map enc as)\<rparr> =
      Ok ((acc @ [a]) @ as)"
    by (rule Cons.IH) (use Cons.prems c in auto)
  then show ?case
    using step ne c by (subst read_list_loop.simps) (simp add: is_empty_def)
qed

lemma loop_overflow:
  assumes "list_all ok as" and "cap < length as"
  shows "read_list_loop rd cap acc \<lparr>pos = length pre, buffer = pre @ concat (map enc as)\<rparr> =
     Err PInsufficientSpace"
  using assms
proof (induction "as" arbitrary: cap acc pre)
  case Nil
  then show ?case by simp
next
  case (Cons a "as")
  from Cons.prems have "parses rd (enc a) a" and ne: "enc a \<noteq> []"
    by (auto simp: rd_enc enc_nonempty)
  note step = parsesD [OF this(1), of pre "concat (map enc as)"]
  show ?case
  proof (cases cap)
    case 0
    then show ?thesis
      using step ne by (subst read_list_loop.simps) (simp add: is_empty_def)
  next
    case (Suc c)
    have "read_list_loop rd c (acc @ [a])
        \<lparr>pos = length (pre @ enc a), buffer = (pre @ enc a) @ concat (map enc as)\<rparr> =
        Err PInsufficientSpace"
      by (rule Cons.IH) (use Cons.prems Suc in auto)
    then show ?thesis
      using step ne Suc by (subst read_list_loop.simps) (simp add: is_empty_def)
  qed
qed

lemma read_list_enc:
  assumes "list_all ok as" and "length as \<le> n" and "k = length (concat (map enc as))"
  shows "parses (read_list n k rd) (concat (map enc as)) as"
  unfolding read_list_def
proof (rule parses_bind [where ys = "[]", simplified])
  show "parses (pb_slice k) (concat (map enc as)) (concat (map enc as))"
    by (rule parses_pb_slice) (simp add: assms(3))
  show "parses (lift_result (read_list_loop rd n [] (pb_new (concat (map enc as))))) [] as"
    using loop_enc [OF assms(1,2), of "[]" "[]"] by (simp add: parses_def pb_new_def)
qed

lemma read_list_overflow:
  assumes "list_all ok as" and "n < length as" and "k = length (concat (map enc as))"
  shows "fst (read_list n k rd \<lparr>pos = length pre, buffer = pre @ concat (map enc as) @ post\<rparr>) =
     Err PInsufficientSpace"
  using loop_overflow [OF assms(1,2), of "[]" "[]"] assms(3)
  by (simp add: read_list_def bind_apply pb_slice_def pb_new_def)

text \<open>A list behind a length prefix, the shape of most extension payloads.\<close>

lemma read_vec8:
  assumes "list_all ok as" and "length as \<le> n" and "length (concat (map enc as)) < 2 ^ 8"
  shows "parses (bind read_u8 (\<lambda>k. read_list n (unat k) rd)) (vec8 (concat (map enc as))) as"
  using assms by (intro parses_vec8 read_list_enc)

lemma read_vec16:
  assumes "list_all ok as" and "length as \<le> n" and "length (concat (map enc as)) < 2 ^ 16"
  shows "parses (bind read_u16 (\<lambda>k. read_list n (unat k) rd)) (vec16 (concat (map enc as))) as"
  using assms by (intro parses_vec16 read_list_enc)

lemma read_vec8_overflow:
  assumes "list_all ok as" and "n < length as" and "length (concat (map enc as)) < 2 ^ 8"
  shows "fst (bind read_u8 (\<lambda>k. read_list n (unat k) rd)
     (pb_new (vec8 (concat (map enc as)) @ post))) = Err PInsufficientSpace"
  using read_list_overflow [OF assms(1,2) refl, of "[word_of_nat (length (concat (map enc as)))]" post]
    unat_word_of_nat [where 'a = 8, of "length (concat (map enc as))"] assms(3)
  by (simp add: bind_apply read_u8_def pb_new_def vec8_def)

end

end
