(* ===== verification/Crypto_Buffer.thy ===== *)
theory Crypto_Buffer
  imports Errors
begin

text \<open>
  The write buffer of src/buffer.rs.  \<open>CryptoBuffer\<close> is a caller's slice with a window
  \<open>offset .. offset + len\<close> of bytes written so far; pushes extend the window, \<open>with_u8_length\<close>,
  \<open>with_u16_length\<close> and \<open>with_u24_length\<close> write a length prefix and patch it afterwards, and
  \<open>offset\<close>, \<open>forward\<close> and \<open>rewind\<close> move the window's start.

  \<open>encodes m bs\<close> is the refinement relation the encoders are stated with: an encoder \<open>m\<close> appends
  exactly \<open>bs\<close> to the window when there is room, and fails without a panic when there is not.  It
  is closed under sequencing and under the length-prefixed combinators, so a message encoder is
  related to a plain function from messages to bytes.
\<close>

section \<open>The buffer and its operations\<close>

record crypto_buffer =
  cb_buf :: bytes
  cb_offset :: nat
  cb_len :: nat

type_synonym 'a encoder = "(crypto_buffer, 'a, tls_error) comp"

definition cb_wrap :: "bytes \<Rightarrow> crypto_buffer" where
  "cb_wrap bs = \<lparr>cb_buf = bs, cb_offset = 0, cb_len = 0\<rparr>"

definition cb_wrap_with_pos :: "bytes \<Rightarrow> nat \<Rightarrow> crypto_buffer" where
  "cb_wrap_with_pos bs p = \<lparr>cb_buf = bs, cb_offset = 0, cb_len = p\<rparr>"

definition cb_capacity :: "crypto_buffer \<Rightarrow> nat" where
  "cb_capacity b = length (cb_buf b)"

definition cb_space :: "crypto_buffer \<Rightarrow> (nat, 'e) result" where
  "cb_space b = usub (cb_capacity b) (cb_offset b + cb_len b)"

text \<open>The two buffer writes of the source, each a panic out of range.\<close>

definition cb_store :: "nat \<Rightarrow> byte \<Rightarrow> unit encoder" where
  "cb_store i v = (\<lambda>b. case store_at (cb_buf b) i v of
      Ok bs \<Rightarrow> (Ok (), b\<lparr>cb_buf := bs\<rparr>) | Err e \<Rightarrow> (Err e, b) | Panic \<Rightarrow> (Panic, b))"

definition cb_copy :: "nat \<Rightarrow> bytes \<Rightarrow> unit encoder" where
  "cb_copy i vs = (\<lambda>b. case store_slice (cb_buf b) i vs of
      Ok bs \<Rightarrow> (Ok (), b\<lparr>cb_buf := bs\<rparr>) | Err e \<Rightarrow> (Err e, b) | Panic \<Rightarrow> (Panic, b))"

definition push :: "byte \<Rightarrow> unit encoder" where
  "push v = bind (\<lambda>b. (cb_space b, b)) (\<lambda>sp.
     if sp > 0
     then bind (gets (\<lambda>b. cb_offset b + cb_len b)) (\<lambda>i.
            next_do (cb_store i v) (modify (\<lambda>b. b\<lparr>cb_len := cb_len b + 1\<rparr>)))
     else throw InsufficientSpace)"

definition extend_internal :: "bytes \<Rightarrow> unit encoder" where
  "extend_internal other = bind (\<lambda>b. (cb_space b, b)) (\<lambda>sp.
     if sp < length other then throw InsufficientSpace
     else bind (gets (\<lambda>b. cb_offset b + cb_len b)) (\<lambda>start.
            next_do (cb_copy start other)
              (modify (\<lambda>b. b\<lparr>cb_len := cb_len b + length other\<rparr>))))"

definition extend_from_slice :: "bytes \<Rightarrow> unit encoder" where
  "extend_from_slice other = extend_internal other"

definition push_u16 :: "u16 \<Rightarrow> unit encoder" where
  "push_u16 num = extend_from_slice (be16 num)"

definition push_u24 :: "u32 \<Rightarrow> unit encoder" where
  "push_u24 num = extend_from_slice (be24 num)"

definition push_u32 :: "u32 \<Rightarrow> unit encoder" where
  "push_u32 num = extend_from_slice (be32 num)"

definition cb_set :: "nat \<Rightarrow> byte \<Rightarrow> unit encoder" where
  "cb_set idx val = bind (gets cb_len) (\<lambda>n.
     if idx < n then bind (gets cb_offset) (\<lambda>off. cb_store (off + idx) val)
     else throw InsufficientSpace)"

definition cb_set_u16 :: "nat \<Rightarrow> u16 \<Rightarrow> unit encoder" where
  "cb_set_u16 idx val =
     next_do (cb_set idx (be16 val ! 0)) (next_do (cb_set (idx + 1) (be16 val ! 1)) (return ()))"

definition cb_set_u24 :: "nat \<Rightarrow> u32 \<Rightarrow> unit encoder" where
  "cb_set_u24 idx val =
     next_do (cb_set idx (be24 val ! 0))
    (next_do (cb_set (idx + 1) (be24 val ! 1))
    (next_do (cb_set (idx + 2) (be24 val ! 2)) (return ())))"

definition cb_as_slice :: "crypto_buffer \<Rightarrow> (bytes, 'e) result" where
  "cb_as_slice b = subslice (cb_buf b) (cb_offset b) (cb_offset b + cb_len b)"

text \<open>\<open>truncate\<close> only checks the new length against the slice, so it can also grow the window.\<close>

definition cb_truncate :: "nat \<Rightarrow> (crypto_buffer, unit, 'e) comp" where
  "cb_truncate n = bind (\<lambda>b. (usub (cb_capacity b) (cb_offset b), b)) (\<lambda>m.
     if n \<le> m then modify (\<lambda>b. b\<lparr>cb_len := n\<rparr>) else return ())"

definition cb_move :: "nat \<Rightarrow> crypto_buffer \<Rightarrow> (crypto_buffer, 'e) result" where
  "cb_move off b = (case usub (cb_len b + cb_offset b) off of
      Ok n \<Rightarrow> Ok (b\<lparr>cb_len := n, cb_offset := off\<rparr>) | Err e \<Rightarrow> Err e | Panic \<Rightarrow> Panic)"

text \<open>\<open>forward\<close> passes the current length as the new offset, and \<open>rewind\<close> passes 0.\<close>

definition cb_forward :: "crypto_buffer \<Rightarrow> (crypto_buffer, 'e) result" where
  "cb_forward b = cb_move (cb_len b) b"

definition cb_rewind :: "crypto_buffer \<Rightarrow> (crypto_buffer, 'e) result" where
  "cb_rewind b = cb_move 0 b"

definition with_u8_length :: "unit encoder \<Rightarrow> unit encoder" where
  "with_u8_length op =
     bind (gets cb_len) (\<lambda>len_pos.
     next_do (push 0)
    (bind (gets cb_len) (\<lambda>start.
     next_do op
    (bind (\<lambda>b. (usub (cb_len b) start, b)) (\<lambda>n. cb_set len_pos (word_of_nat n))))))"

definition with_u16_length :: "unit encoder \<Rightarrow> unit encoder" where
  "with_u16_length op =
     bind (gets cb_len) (\<lambda>len_pos.
     next_do (push_u16 0)
    (bind (gets cb_len) (\<lambda>start.
     next_do op
    (bind (\<lambda>b. (usub (cb_len b) start, b)) (\<lambda>n. cb_set_u16 len_pos (word_of_nat n))))))"

definition with_u24_length :: "unit encoder \<Rightarrow> unit encoder" where
  "with_u24_length op =
     bind (gets cb_len) (\<lambda>len_pos.
     next_do (push_u24 0)
    (bind (gets cb_len) (\<lambda>start.
     next_do op
    (bind (\<lambda>b. (usub (cb_len b) start, b)) (\<lambda>n. cb_set_u24 len_pos (word_of_nat n))))))"

section \<open>The window, its invariant and the basic operations\<close>

definition cb_inv :: "crypto_buffer \<Rightarrow> bool" where
  "cb_inv b \<longleftrightarrow> cb_offset b + cb_len b \<le> length (cb_buf b)"

definition cb_view :: "crypto_buffer \<Rightarrow> bytes" where
  "cb_view b = take (cb_len b) (drop (cb_offset b) (cb_buf b))"

definition cb_room :: "crypto_buffer \<Rightarrow> nat" where
  "cb_room b = length (cb_buf b) - (cb_offset b + cb_len b)"

definition cb_append :: "bytes \<Rightarrow> crypto_buffer \<Rightarrow> crypto_buffer" where
  "cb_append bs b = b\<lparr>cb_buf := overwrite (cb_offset b + cb_len b) bs (cb_buf b),
                      cb_len := cb_len b + length bs\<rparr>"

lemma cb_append_simps [simp]:
  "cb_offset (cb_append bs b) = cb_offset b"
  "cb_len (cb_append bs b) = cb_len b + length bs"
  by (simp_all add: cb_append_def)

lemma cb_append_Nil [simp]: "cb_append [] b = b"
  by (simp add: cb_append_def)

lemma length_cb_append [simp]:
  "cb_inv b \<Longrightarrow> length bs \<le> cb_room b \<Longrightarrow> length (cb_buf (cb_append bs b)) = length (cb_buf b)"
  by (simp add: cb_append_def cb_inv_def cb_room_def)

lemma cb_inv_append [simp]: "cb_inv b \<Longrightarrow> length bs \<le> cb_room b \<Longrightarrow> cb_inv (cb_append bs b)"
  by (simp add: cb_inv_def cb_room_def cb_append_def)

lemma cb_room_append [simp]:
  "cb_inv b \<Longrightarrow> length bs \<le> cb_room b \<Longrightarrow> cb_room (cb_append bs b) = cb_room b - length bs"
  by (simp add: cb_room_def cb_append_def cb_inv_def)

lemma cb_append_append:
  "cb_inv b \<Longrightarrow> length xs + length ys \<le> cb_room b \<Longrightarrow>
   cb_append ys (cb_append xs b) = cb_append (xs @ ys) b"
  using overwrite_overwrite_adj [of "cb_offset b + cb_len b" xs ys "cb_buf b"]
  by (simp add: cb_append_def cb_inv_def cb_room_def add.assoc)

lemma cb_view_append:
  "cb_inv b \<Longrightarrow> length bs \<le> cb_room b \<Longrightarrow> cb_view (cb_append bs b) = cb_view b @ bs"
  by (simp add: cb_view_def cb_append_def cb_inv_def cb_room_def overwrite_def drop_take)

lemma length_cb_view [simp]: "cb_inv b \<Longrightarrow> length (cb_view b) = cb_len b"
  by (simp add: cb_inv_def cb_view_def)

lemma cb_as_slice_view: "cb_inv b \<Longrightarrow> cb_as_slice b = Ok (cb_view b)"
  by (simp add: cb_as_slice_def subslice_def cb_inv_def cb_view_def)

lemma cb_space_room: "cb_inv b \<Longrightarrow> cb_space b = Ok (cb_room b)"
  by (simp add: cb_space_def usub_def cb_capacity_def cb_inv_def cb_room_def)

lemma push_run:
  "cb_inv b \<Longrightarrow> push v b =
     (if 0 < cb_room b then (Ok (), cb_append [v] b) else (Err InsufficientSpace, b))"
  by (auto simp: push_def comp_simps cb_space_room cb_store_def store_at_def cb_append_def
      list_update_overwrite cb_room_def)

lemma extend_run:
  "cb_inv b \<Longrightarrow> extend_from_slice bs b =
     (if length bs \<le> cb_room b then (Ok (), cb_append bs b) else (Err InsufficientSpace, b))"
  by (auto simp: extend_from_slice_def extend_internal_def comp_simps cb_space_room cb_copy_def
      store_slice_def cb_append_def cb_room_def cb_inv_def)

lemma overwrite_update:
  "i < length ys \<Longrightarrow> a + length ys \<le> length xs \<Longrightarrow>
   (overwrite a ys xs)[a + i := v] = overwrite a (ys[i := v]) xs"
  by (simp add: overwrite_def list_update_append)

lemma cb_set_append:
  "cb_inv b \<Longrightarrow> length bs \<le> cb_room b \<Longrightarrow> i < length bs \<Longrightarrow> j = cb_len b + i \<Longrightarrow>
   cb_set j v (cb_append bs b) = (Ok (), cb_append (bs[i := v]) b)"
  using overwrite_update [of i bs "cb_offset b + cb_len b" "cb_buf b" v]
  by (simp add: cb_set_def comp_simps cb_store_def store_at_def cb_inv_def cb_room_def
      cb_append_def add.assoc)

section \<open>Encoders as functions from messages to bytes\<close>

definition encodes :: "unit encoder \<Rightarrow> bytes \<Rightarrow> bool" where
  "encodes m bs \<longleftrightarrow> (\<forall>b. cb_inv b \<longrightarrow>
     (if length bs \<le> cb_room b then m b = (Ok (), cb_append bs b)
      else (\<exists>e b'. m b = (Err e, b') \<and> cb_inv b' \<and> cb_offset b' = cb_offset b \<and>
              length (cb_buf b') = length (cb_buf b))))"

named_theorems encodes_rules \<open>what the encoders write\<close>

lemma encodesI:
  assumes "\<And>b. cb_inv b \<Longrightarrow> length bs \<le> cb_room b \<Longrightarrow> m b = (Ok (), cb_append bs b)"
    and "\<And>b. cb_inv b \<Longrightarrow> cb_room b < length bs \<Longrightarrow>
       \<exists>e b'. m b = (Err e, b') \<and> cb_inv b' \<and> cb_offset b' = cb_offset b \<and>
         length (cb_buf b') = length (cb_buf b)"
  shows "encodes m bs"
  using assms by (simp add: encodes_def not_le)

lemma encodes_fits:
  "encodes m bs \<Longrightarrow> cb_inv b \<Longrightarrow> length bs \<le> cb_room b \<Longrightarrow> m b = (Ok (), cb_append bs b)"
  by (simp add: encodes_def)

lemma encodes_full:
  assumes "encodes m bs" and "cb_inv b" and "cb_room b < length bs"
  obtains e b' where "m b = (Err e, b')" and "cb_inv b'" and "cb_offset b' = cb_offset b"
    and "length (cb_buf b') = length (cb_buf b)"
  using assms unfolding encodes_def by (metis not_le)

lemma encodes_Ok:
  assumes "encodes m bs" and "cb_inv b" and "m b = (Ok (), b')"
  shows "length bs \<le> cb_room b" and "b' = cb_append bs b"
  using assms by (auto simp: encodes_def split: if_splits)

lemma encodes_no_panic: "encodes m bs \<Longrightarrow> cb_inv b \<Longrightarrow> fst (m b) \<noteq> Panic"
  by (fastforce simp: encodes_def split: if_splits)

lemma encodes_return [encodes_rules]: "encodes (return ()) []"
  by (simp add: encodes_def)

lemma encodes_push [encodes_rules]: "encodes (push v) [v]"
  by (rule encodesI) (auto simp: push_run)

lemma encodes_extend [encodes_rules]: "encodes (extend_from_slice bs) bs"
  by (rule encodesI) (auto simp: extend_run)

lemma encodes_push_u16 [encodes_rules]: "encodes (push_u16 w) (be16 w)"
  by (simp add: push_u16_def encodes_extend)

lemma encodes_push_u24 [encodes_rules]: "encodes (push_u24 w) (be24 w)"
  by (simp add: push_u24_def encodes_extend)

lemma encodes_push_u32 [encodes_rules]: "encodes (push_u32 w) (be32 w)"
  by (simp add: push_u32_def encodes_extend)

lemma encodes_map_err [encodes_rules]: "encodes m bs \<Longrightarrow> encodes (map_err g m) bs"
  by (rule encodesI)
    (auto simp: map_err_apply encodes_fits elim: encodes_full)

lemma encodes_next [encodes_rules]:
  assumes m: "encodes m xs" and k: "encodes k ys"
  shows "encodes (next_do m k) (xs @ ys)"
proof (rule encodesI)
  fix b assume b: "cb_inv b" and "length (xs @ ys) \<le> cb_room b"
  then have fx: "length xs \<le> cb_room b" and fy: "length ys \<le> cb_room b - length xs" by auto
  have "m b = (Ok (), cb_append xs b)" by (rule encodes_fits [OF m b fx])
  moreover have "k (cb_append xs b) = (Ok (), cb_append ys (cb_append xs b))"
    by (rule encodes_fits [OF k]) (use b fx fy in auto)
  ultimately show "next_do m k b = (Ok (), cb_append (xs @ ys) b)"
    using b fx fy by (simp add: next_do_Ok cb_append_append)
next
  fix b assume b: "cb_inv b" and full: "cb_room b < length (xs @ ys)"
  show "\<exists>e b'. next_do m k b = (Err e, b') \<and> cb_inv b' \<and> cb_offset b' = cb_offset b \<and>
      length (cb_buf b') = length (cb_buf b)"
  proof (cases "length xs \<le> cb_room b")
    case True
    then have m1: "m b = (Ok (), cb_append xs b)" by (rule encodes_fits [OF m b])
    have "cb_room (cb_append xs b) < length ys" using b True full by simp
    with b True obtain e b' where "k (cb_append xs b) = (Err e, b')" "cb_inv b'"
        "cb_offset b' = cb_offset (cb_append xs b)"
        "length (cb_buf b') = length (cb_buf (cb_append xs b))"
      by (elim encodes_full [OF k, rotated]) auto
    with m1 b True show ?thesis by (simp add: next_do_Ok)
  next
    case False
    then obtain e b' where "m b = (Err e, b')" "cb_inv b'" "cb_offset b' = cb_offset b"
        "length (cb_buf b') = length (cb_buf b)"
      by (elim encodes_full [OF m b, rotated]) auto
    then show ?thesis by (simp add: next_do_Err)
  qed
qed

lemma encodes_next_last: "encodes m xs \<Longrightarrow> encodes (next_do m (return ())) xs"
  using encodes_next [OF _ encodes_return] by fastforce

lemma encodes_for_each [encodes_rules]:
  assumes "\<And>x. x \<in> set xs \<Longrightarrow> encodes (f x) (g x)"
  shows "encodes (for_each f xs) (concat (map g xs))"
  using assms by (induction xs) (auto intro!: encodes_rules)

text \<open>
  A length-prefixed block: the prefix is reserved, the body written, and the prefix patched with
  the body's length truncated to the prefix's width.
\<close>

lemma with_length_encodes:
  assumes hdr: "encodes hdr z" and op: "encodes op body"
    and patch: "\<And>b n. cb_inv b \<Longrightarrow> length (z @ body) \<le> cb_room b \<Longrightarrow>
       patch (cb_len b) n (cb_append (z @ body) b) = (Ok (), cb_append (pfx n @ body) b)"
    and pfx: "\<And>n. length (pfx n) = length z"
  shows "encodes (bind (gets cb_len) (\<lambda>len_pos. next_do hdr (bind (gets cb_len) (\<lambda>start.
     next_do op (bind (\<lambda>b. (usub (cb_len b) start, b)) (\<lambda>n. patch len_pos n))))))
     (pfx (length body) @ body)" (is "encodes ?m _")
proof (rule encodesI)
  fix b assume b: "cb_inv b" and fit: "length (pfx (length body) @ body) \<le> cb_room b"
  then have fz: "length z \<le> cb_room b" and fb: "length (z @ body) \<le> cb_room b"
    by (auto simp: pfx)
  have 1: "hdr b = (Ok (), cb_append z b)" by (rule encodes_fits [OF hdr b fz])
  have 2: "op (cb_append z b) = (Ok (), cb_append (z @ body) b)"
    using encodes_fits [OF op, of "cb_append z b"] b fz fb by (simp add: cb_append_append)
  show "?m b = (Ok (), cb_append (pfx (length body) @ body) b)"
    using 1 2 patch [OF b fb] by (simp add: bind_apply next_do_apply usub_def)
next
  fix b assume b: "cb_inv b" and full: "cb_room b < length (pfx (length body) @ body)"
  then have "cb_room b < length (z @ body)" by (simp add: pfx)
  from encodes_full [OF encodes_next [OF hdr op] b this] obtain e b' where
    *: "next_do hdr op b = (Err e, b')" "cb_inv b'" "cb_offset b' = cb_offset b"
      "length (cb_buf b') = length (cb_buf b)" .
  then have "?m b = (Err e, b')"
    by (auto simp: bind_apply next_do_apply split: prod.splits result.splits)
  with * show "\<exists>e b'. ?m b = (Err e, b') \<and> cb_inv b' \<and> cb_offset b' = cb_offset b \<and>
      length (cb_buf b') = length (cb_buf b)" by blast
qed

lemma encodes_with_u8 [encodes_rules]:
  assumes "encodes op body"
  shows "encodes (with_u8_length op) (vec8 body)"
  using with_length_encodes [OF encodes_push [of 0] assms,
      where patch = "\<lambda>i n. cb_set i (word_of_nat n)" and pfx = "\<lambda>n. [word_of_nat n]"]
  by (simp add: vec8_def with_u8_length_def cb_set_append [where i = 0])

lemma cb_set_u16_append:
  assumes "cb_inv b" and "Suc (Suc (length body)) \<le> cb_room b"
  shows "cb_set_u16 (cb_len b) v (cb_append (x # y # body) b) =
     (Ok (), cb_append (be16 v @ body) b)"
  using assms
  by (simp add: cb_set_u16_def next_do_apply cb_set_append [where i = 0]
      cb_set_append [where i = 1] be16_def)

lemma encodes_with_u16 [encodes_rules]:
  assumes "encodes op body"
  shows "encodes (with_u16_length op) (vec16 body)"
  using with_length_encodes [OF encodes_push_u16 [of 0] assms,
      where patch = "\<lambda>i n. cb_set_u16 i (word_of_nat n)" and pfx = "\<lambda>n. be16 (word_of_nat n)"]
  by (simp add: vec16_def with_u16_length_def cb_set_u16_append be16_def [of 0])

lemma cb_set_u24_append:
  assumes "cb_inv b" and "Suc (Suc (Suc (length body))) \<le> cb_room b"
  shows "cb_set_u24 (cb_len b) v (cb_append (x # y # z # body) b) =
     (Ok (), cb_append (be24 v @ body) b)"
  using assms
  by (simp add: cb_set_u24_def next_do_apply cb_set_append [where i = 0]
      cb_set_append [where i = 1] cb_set_append [where i = 2] be24_def numeral_2_eq_2)

lemma encodes_with_u24 [encodes_rules]:
  assumes "encodes op body"
  shows "encodes (with_u24_length op) (vec24 body)"
  using with_length_encodes [OF encodes_push_u24 [of 0] assms,
      where patch = "\<lambda>i n. cb_set_u24 i (word_of_nat n)" and pfx = "\<lambda>n. be24 (word_of_nat n)"]
  by (simp add: vec24_def with_u24_length_def cb_set_u24_append be24_def [of 0])

end
