(* ===== verification/Wire_Types.thy ===== *)
theory Wire_Types
  imports Parse_Buffer Crypto_Buffer
begin

text \<open>
  The small enumerations of the wire format and their code points: record content types
  (src/content_types.rs), alerts (src/alert.rs), change-cipher-spec (src/change_cipher_spec.rs),
  cipher suites (src/cipher_suites.rs), handshake message types (src/handshake/mod.rs) and the
  flush policy (src/flush_policy.rs).  \<open>*_code\<close> is the \<open>as u8\<close> or \<open>as u16\<close> cast of the source, \<open>*_of\<close>
  and \<open>*_parse\<close> its decoders; each pair is shown to be inverse in both directions.
\<close>

section \<open>Content types\<close>

datatype content_type = CT_Invalid | CT_ChangeCipherSpec | CT_Alert | CT_Handshake | CT_ApplicationData

fun content_type_code :: "content_type \<Rightarrow> byte" where
  "content_type_code CT_Invalid = 0"
| "content_type_code CT_ChangeCipherSpec = 20"
| "content_type_code CT_Alert = 21"
| "content_type_code CT_Handshake = 22"
| "content_type_code CT_ApplicationData = 23"

definition content_type_of :: "byte \<Rightarrow> content_type option" where
  "content_type_of num =
     (if num = 0 then Some CT_Invalid
      else if num = 20 then Some CT_ChangeCipherSpec
      else if num = 21 then Some CT_Alert
      else if num = 22 then Some CT_Handshake
      else if num = 23 then Some CT_ApplicationData
      else None)"

lemma content_type_of_code [simp]: "content_type_of (content_type_code t) = Some t"
  by (cases t) (simp_all add: content_type_of_def)

lemma content_type_code_of: "content_type_of n = Some t \<Longrightarrow> content_type_code t = n"
  by (auto simp: content_type_of_def split: if_splits)

section \<open>Alerts\<close>

fun alert_level_code :: "alert_level \<Rightarrow> byte" where
  "alert_level_code AL_Warning = 1"
| "alert_level_code AL_Fatal = 2"

definition alert_level_of :: "byte \<Rightarrow> alert_level option" where
  "alert_level_of num =
     (if num = 1 then Some AL_Warning else if num = 2 then Some AL_Fatal else None)"

fun alert_description_code :: "alert_description \<Rightarrow> byte" where
  "alert_description_code AD_CloseNotify = 0"
| "alert_description_code AD_UnexpectedMessage = 10"
| "alert_description_code AD_BadRecordMac = 20"
| "alert_description_code AD_RecordOverflow = 22"
| "alert_description_code AD_HandshakeFailure = 40"
| "alert_description_code AD_BadCertificate = 42"
| "alert_description_code AD_UnsupportedCertificate = 43"
| "alert_description_code AD_CertificateRevoked = 44"
| "alert_description_code AD_CertificateExpired = 45"
| "alert_description_code AD_CertificateUnknown = 46"
| "alert_description_code AD_IllegalParameter = 47"
| "alert_description_code AD_UnknownCa = 48"
| "alert_description_code AD_AccessDenied = 49"
| "alert_description_code AD_DecodeError = 50"
| "alert_description_code AD_DecryptError = 51"
| "alert_description_code AD_ProtocolVersion = 70"
| "alert_description_code AD_InsufficientSecurity = 71"
| "alert_description_code AD_InternalError = 80"
| "alert_description_code AD_InappropriateFallback = 86"
| "alert_description_code AD_UserCanceled = 90"
| "alert_description_code AD_MissingExtension = 109"
| "alert_description_code AD_UnsupportedExtension = 110"
| "alert_description_code AD_UnrecognizedName = 112"
| "alert_description_code AD_BadCertificateStatusResponse = 113"
| "alert_description_code AD_UnknownPskIdentity = 115"
| "alert_description_code AD_CertificateRequired = 116"
| "alert_description_code AD_NoApplicationProtocol = 120"

definition alert_description_of :: "byte \<Rightarrow> alert_description option" where
  "alert_description_of num =
     (if num = 0 then Some AD_CloseNotify
      else if num = 10 then Some AD_UnexpectedMessage
      else if num = 20 then Some AD_BadRecordMac
      else if num = 22 then Some AD_RecordOverflow
      else if num = 40 then Some AD_HandshakeFailure
      else if num = 42 then Some AD_BadCertificate
      else if num = 43 then Some AD_UnsupportedCertificate
      else if num = 44 then Some AD_CertificateRevoked
      else if num = 45 then Some AD_CertificateExpired
      else if num = 46 then Some AD_CertificateUnknown
      else if num = 47 then Some AD_IllegalParameter
      else if num = 48 then Some AD_UnknownCa
      else if num = 49 then Some AD_AccessDenied
      else if num = 50 then Some AD_DecodeError
      else if num = 51 then Some AD_DecryptError
      else if num = 70 then Some AD_ProtocolVersion
      else if num = 71 then Some AD_InsufficientSecurity
      else if num = 80 then Some AD_InternalError
      else if num = 86 then Some AD_InappropriateFallback
      else if num = 90 then Some AD_UserCanceled
      else if num = 109 then Some AD_MissingExtension
      else if num = 110 then Some AD_UnsupportedExtension
      else if num = 112 then Some AD_UnrecognizedName
      else if num = 113 then Some AD_BadCertificateStatusResponse
      else if num = 115 then Some AD_UnknownPskIdentity
      else if num = 116 then Some AD_CertificateRequired
      else if num = 120 then Some AD_NoApplicationProtocol
      else None)"

record alert =
  alert_level :: alert_level
  alert_description :: alert_description

definition alert_new :: "alert_level \<Rightarrow> alert_description \<Rightarrow> alert" where
  "alert_new l d = \<lparr>alert_level = l, alert_description = d\<rparr>"

definition alert_parse :: "alert tls_parser" where
  "alert_parse =
     bind (from_parse read_u8) (\<lambda>level.
     bind (from_parse read_u8) (\<lambda>desc.
     bind (lift_result (ok_or DecodeError (alert_level_of level))) (\<lambda>l.
     bind (lift_result (ok_or DecodeError (alert_description_of desc))) (\<lambda>d.
     return \<lparr>alert_level = l, alert_description = d\<rparr>))))"

definition alert_encode :: "alert \<Rightarrow> unit encoder" where
  "alert_encode a =
     next_do (map_err (\<lambda>_. EncodeError) (push (alert_level_code (alert_level a))))
    (next_do (map_err (\<lambda>_. EncodeError) (push (alert_description_code (alert_description a))))
    (return ()))"

lemma alert_level_of_code [simp]: "alert_level_of (alert_level_code l) = Some l"
  by (cases l) (simp_all add: alert_level_of_def)

lemma alert_level_code_of: "alert_level_of n = Some l \<Longrightarrow> alert_level_code l = n"
  by (auto simp: alert_level_of_def split: if_splits)

lemma alert_description_of_code [simp]:
  "alert_description_of (alert_description_code d) = Some d"
  by (cases d) (simp_all add: alert_description_of_def)

lemma alert_description_code_of:
  "alert_description_of n = Some d \<Longrightarrow> alert_description_code d = n"
  by (auto simp: alert_description_of_def split: if_splits)

definition alert_bytes :: "alert \<Rightarrow> bytes" where
  "alert_bytes a = [alert_level_code (alert_level a), alert_description_code (alert_description a)]"

lemma wf_alert_parse [wf_parsers]: "wf_parser alert_parse"
  unfolding alert_parse_def by (intro wf_parsers) simp_all

lemma encodes_alert [encodes_rules]: "encodes (alert_encode a) (alert_bytes a)"
  unfolding alert_encode_def alert_bytes_def
  using encodes_next [OF encodes_map_err [OF encodes_push]
      encodes_next_last [OF encodes_map_err [OF encodes_push]]]
  by (metis append_Cons append_Nil)

lemma parses_alert [parses_rules]: "parses alert_parse (alert_bytes a) a"
  unfolding alert_parse_def alert_bytes_def
  by (rule parses_bind_Cons, rule parses_from_parse, rule parses_read_u8)+
    (simp add: parses_def)

section \<open>Change cipher spec\<close>

definition change_cipher_spec_read :: "bytes \<Rightarrow> (unit, tls_error) result" where
  "change_cipher_spec_read rx_buf = Ok ()"

definition change_cipher_spec_encode :: "unit encoder" where
  "change_cipher_spec_encode = next_do (map_err (\<lambda>_. EncodeError) (push 1)) (return ())"

section \<open>Cipher suites\<close>

datatype cipher_suite =
    TlsAes128GcmSha256 | TlsAes256GcmSha384 | TlsChacha20Poly1305Sha256
  | TlsAes128CcmSha256 | TlsAes128Ccm8Sha256 | TlsPskAes128GcmSha256

fun cipher_suite_code :: "cipher_suite \<Rightarrow> u16" where
  "cipher_suite_code TlsAes128GcmSha256 = 0x1301"
| "cipher_suite_code TlsAes256GcmSha384 = 0x1302"
| "cipher_suite_code TlsChacha20Poly1305Sha256 = 0x1303"
| "cipher_suite_code TlsAes128CcmSha256 = 0x1304"
| "cipher_suite_code TlsAes128Ccm8Sha256 = 0x1305"
| "cipher_suite_code TlsPskAes128GcmSha256 = 0x00A8"

definition cipher_suite_parse :: "cipher_suite parser" where
  "cipher_suite_parse = bind read_u16 (\<lambda>v.
     if v = cipher_suite_code TlsAes128GcmSha256 then return TlsAes128GcmSha256
     else if v = cipher_suite_code TlsAes256GcmSha384 then return TlsAes256GcmSha384
     else if v = cipher_suite_code TlsChacha20Poly1305Sha256 then return TlsChacha20Poly1305Sha256
     else if v = cipher_suite_code TlsAes128CcmSha256 then return TlsAes128CcmSha256
     else if v = cipher_suite_code TlsAes128Ccm8Sha256 then return TlsAes128Ccm8Sha256
     else if v = cipher_suite_code TlsPskAes128GcmSha256 then return TlsPskAes128GcmSha256
     else throw PInvalidData)"

lemma wf_cipher_suite_parse [wf_parsers]: "wf_parser cipher_suite_parse"
  unfolding cipher_suite_parse_def by (intro wf_parsers)

lemma parses_cipher_suite [parses_rules]: "parses cipher_suite_parse (be16 (cipher_suite_code c)) c"
  unfolding cipher_suite_parse_def
  by (rule parses_bind_last [OF parses_read_u16]) (cases c; simp)

section \<open>Handshake message types\<close>

datatype handshake_type =
    HT_ClientHello | HT_ServerHello | HT_NewSessionTicket | HT_EndOfEarlyData
  | HT_EncryptedExtensions | HT_Certificate | HT_CertificateRequest | HT_CertificateVerify
  | HT_Finished | HT_KeyUpdate | HT_MessageHash

fun handshake_type_code :: "handshake_type \<Rightarrow> byte" where
  "handshake_type_code HT_ClientHello = 1"
| "handshake_type_code HT_ServerHello = 2"
| "handshake_type_code HT_NewSessionTicket = 4"
| "handshake_type_code HT_EndOfEarlyData = 5"
| "handshake_type_code HT_EncryptedExtensions = 8"
| "handshake_type_code HT_Certificate = 11"
| "handshake_type_code HT_CertificateRequest = 13"
| "handshake_type_code HT_CertificateVerify = 15"
| "handshake_type_code HT_Finished = 20"
| "handshake_type_code HT_KeyUpdate = 24"
| "handshake_type_code HT_MessageHash = 254"

definition handshake_type_parse :: "handshake_type parser" where
  "handshake_type_parse = bind read_u8 (\<lambda>v.
     if v = 1 then return HT_ClientHello
     else if v = 2 then return HT_ServerHello
     else if v = 4 then return HT_NewSessionTicket
     else if v = 5 then return HT_EndOfEarlyData
     else if v = 8 then return HT_EncryptedExtensions
     else if v = 11 then return HT_Certificate
     else if v = 13 then return HT_CertificateRequest
     else if v = 15 then return HT_CertificateVerify
     else if v = 20 then return HT_Finished
     else if v = 24 then return HT_KeyUpdate
     else if v = 254 then return HT_MessageHash
     else throw PInvalidData)"

lemma wf_handshake_type_parse [wf_parsers]: "wf_parser handshake_type_parse"
  unfolding handshake_type_parse_def by (intro wf_parsers)

lemma parses_handshake_type [parses_rules]:
  "parses handshake_type_parse [handshake_type_code t] t"
  unfolding handshake_type_parse_def
  by (rule parses_bind_last [OF parses_read_u8]) (cases t; simp)

section \<open>Flush policy\<close>

datatype flush_policy = Relaxed | Strict

fun flush_transport :: "flush_policy \<Rightarrow> bool" where
  "flush_transport Relaxed = False"
| "flush_transport Strict = True"

definition flush_policy_default :: flush_policy where
  "flush_policy_default = Strict"

end
