(* ===== verification/Extension_Data.thy ===== *)
theory Extension_Data
  imports Wire_Types
begin

text \<open>
  The extension payloads of src/extensions/extension_data/: for each type its constructors, its
  parser and its encoder.  A struct that only wraps a \<open>heapless::Vec<T, N>\<close> is the list itself,
  with the capacity \<open>N\<close> as an argument of the parser; slices and strings are byte lists.  The
  lemmas show that no parser panics on any input, that each encoder writes the bytes the pure
  function \<open>*_bytes\<close> gives, and that the parser reads those bytes back.
\<close>

section \<open>Named groups (supported\_groups.rs)\<close>

datatype named_group =
    Secp256r1 | Secp384r1 | Secp521r1 | X25519 | X448
  | Ffdhe2048 | Ffdhe3072 | Ffdhe4096 | Ffdhe6144 | Ffdhe8192
  | X25519MLKEM768 | SecP256r1MLKEM768 | SecP384r1MLKEM1024

fun named_group_code :: "named_group \<Rightarrow> u16" where
  "named_group_code Secp256r1 = 0x0017"
| "named_group_code Secp384r1 = 0x0018"
| "named_group_code Secp521r1 = 0x0019"
| "named_group_code X25519 = 0x001D"
| "named_group_code X448 = 0x001E"
| "named_group_code Ffdhe2048 = 0x0100"
| "named_group_code Ffdhe3072 = 0x0101"
| "named_group_code Ffdhe4096 = 0x0102"
| "named_group_code Ffdhe6144 = 0x0103"
| "named_group_code Ffdhe8192 = 0x0104"
| "named_group_code SecP256r1MLKEM768 = 0x11EB"
| "named_group_code X25519MLKEM768 = 0x11EC"
| "named_group_code SecP384r1MLKEM1024 = 0x11ED"

definition named_group_parse :: "named_group parser" where
  "named_group_parse = bind read_u16 (\<lambda>v.
     if v = 0x0017 then return Secp256r1
     else if v = 0x0018 then return Secp384r1
     else if v = 0x0019 then return Secp521r1
     else if v = 0x001D then return X25519
     else if v = 0x001E then return X448
     else if v = 0x0100 then return Ffdhe2048
     else if v = 0x0101 then return Ffdhe3072
     else if v = 0x0102 then return Ffdhe4096
     else if v = 0x0103 then return Ffdhe6144
     else if v = 0x0104 then return Ffdhe8192
     else if v = 0x11EB then return SecP256r1MLKEM768
     else if v = 0x11EC then return X25519MLKEM768
     else if v = 0x11ED then return SecP384r1MLKEM1024
     else throw PInvalidData)"

definition named_group_encode :: "named_group \<Rightarrow> unit encoder" where
  "named_group_encode g = map_err (\<lambda>_. EncodeError) (push_u16 (named_group_code g))"

definition supported_groups_parse :: "nat \<Rightarrow> named_group list parser" where
  "supported_groups_parse n =
     bind read_u16 (\<lambda>data_length. read_list n (unat data_length) named_group_parse)"

definition supported_groups_encode :: "named_group list \<Rightarrow> unit encoder" where
  "supported_groups_encode gs = with_u16_length (for_each named_group_encode gs)"

section \<open>Signature schemes (signature\_algorithms.rs, signature\_algorithms\_cert.rs)\<close>

datatype signature_scheme =
    RsaPkcs1Sha256 | RsaPkcs1Sha384 | RsaPkcs1Sha512
  | EcdsaSecp256r1Sha256 | EcdsaSecp384r1Sha384 | EcdsaSecp521r1Sha512
  | RsaPssRsaeSha256 | RsaPssRsaeSha384 | RsaPssRsaeSha512
  | Ed25519 | Ed448
  | RsaPssPssSha256 | RsaPssPssSha384 | RsaPssPssSha512
  | Sha224Ecdsa | Sha224Rsa | Sha224Dsa
  | RsaPkcs1Sha1 | EcdsaSha1
  | Sha256BrainpoolP256r1 | Sha384BrainpoolP384r1 | Sha512BrainpoolP512r1
  | MlDsa44 | MlDsa65 | MlDsa87

fun signature_scheme_code :: "signature_scheme \<Rightarrow> u16" where
  "signature_scheme_code RsaPkcs1Sha256 = 0x0401"
| "signature_scheme_code RsaPkcs1Sha384 = 0x0501"
| "signature_scheme_code RsaPkcs1Sha512 = 0x0601"
| "signature_scheme_code EcdsaSecp256r1Sha256 = 0x0403"
| "signature_scheme_code EcdsaSecp384r1Sha384 = 0x0503"
| "signature_scheme_code EcdsaSecp521r1Sha512 = 0x0603"
| "signature_scheme_code RsaPssRsaeSha256 = 0x0804"
| "signature_scheme_code RsaPssRsaeSha384 = 0x0805"
| "signature_scheme_code RsaPssRsaeSha512 = 0x0806"
| "signature_scheme_code Ed25519 = 0x0807"
| "signature_scheme_code Ed448 = 0x0808"
| "signature_scheme_code RsaPssPssSha256 = 0x0809"
| "signature_scheme_code RsaPssPssSha384 = 0x080a"
| "signature_scheme_code RsaPssPssSha512 = 0x080b"
| "signature_scheme_code Sha224Ecdsa = 0x0303"
| "signature_scheme_code Sha224Rsa = 0x0301"
| "signature_scheme_code Sha224Dsa = 0x0302"
| "signature_scheme_code RsaPkcs1Sha1 = 0x0201"
| "signature_scheme_code EcdsaSha1 = 0x0203"
| "signature_scheme_code Sha256BrainpoolP256r1 = 0x081A"
| "signature_scheme_code Sha384BrainpoolP384r1 = 0x081B"
| "signature_scheme_code Sha512BrainpoolP512r1 = 0x081C"
| "signature_scheme_code MlDsa44 = 0x0904"
| "signature_scheme_code MlDsa65 = 0x0905"
| "signature_scheme_code MlDsa87 = 0x0906"

definition signature_scheme_parse :: "signature_scheme parser" where
  "signature_scheme_parse = bind read_u16 (\<lambda>v.
     if v = 0x0401 then return RsaPkcs1Sha256
     else if v = 0x0501 then return RsaPkcs1Sha384
     else if v = 0x0601 then return RsaPkcs1Sha512
     else if v = 0x0403 then return EcdsaSecp256r1Sha256
     else if v = 0x0503 then return EcdsaSecp384r1Sha384
     else if v = 0x0603 then return EcdsaSecp521r1Sha512
     else if v = 0x0804 then return RsaPssRsaeSha256
     else if v = 0x0805 then return RsaPssRsaeSha384
     else if v = 0x0806 then return RsaPssRsaeSha512
     else if v = 0x0807 then return Ed25519
     else if v = 0x0808 then return Ed448
     else if v = 0x0809 then return RsaPssPssSha256
     else if v = 0x080a then return RsaPssPssSha384
     else if v = 0x080b then return RsaPssPssSha512
     else if v = 0x0303 then return Sha224Ecdsa
     else if v = 0x0301 then return Sha224Rsa
     else if v = 0x0302 then return Sha224Dsa
     else if v = 0x0201 then return RsaPkcs1Sha1
     else if v = 0x0203 then return EcdsaSha1
     else if v = 0x081A then return Sha256BrainpoolP256r1
     else if v = 0x081B then return Sha384BrainpoolP384r1
     else if v = 0x081C then return Sha512BrainpoolP512r1
     else if v = 0x0904 then return MlDsa44
     else if v = 0x0905 then return MlDsa65
     else if v = 0x0906 then return MlDsa87
     else throw PInvalidData)"

lemma wf_signature_scheme_parse [wf_parsers]: "wf_parser signature_scheme_parse"
  unfolding signature_scheme_parse_def by (intro wf_parsers)

text \<open>Whenever a scheme is read or skipped, two bytes are consumed.\<close>

lemma signature_scheme_parse_decreases:
  assumes "signature_scheme_parse data = (r, data')"
    and "r = Ok s \<or> r = Err PInvalidData"
  shows "remaining data' < remaining data"
proof (cases "pos data + 2 \<le> length (buffer data)")
  case True
  then have "read_u16 data = (Ok (of_be16 (buffer data ! pos data) (buffer data ! (pos data + 1))),
      data\<lparr>pos := pos data + 2\<rparr>)"
    by (simp add: read_u16_def)
  with assms(1) have "data' = data\<lparr>pos := pos data + 2\<rparr>"
    by (simp add: signature_scheme_parse_def bind_Ok split: if_splits)
  with True show ?thesis by (simp add: remaining_def)
next
  case False
  then have "signature_scheme_parse data = (Err PInsufficientBytes, data)"
    by (simp add: signature_scheme_parse_def bind_apply read_u16_def)
  with assms show ?thesis by auto
qed

text \<open>The tolerant loop: unknown codes are skipped, and pushes beyond the capacity are dropped.\<close>

function signature_algorithms_loop ::
  "nat \<Rightarrow> signature_scheme list \<Rightarrow> parse_buffer \<Rightarrow> (signature_scheme list, parse_error) result" where
  "signature_algorithms_loop n acc data =
     (if is_empty data then Ok acc
      else case signature_scheme_parse data of
        (Ok scheme, data') \<Rightarrow>
          signature_algorithms_loop n (if length acc < n then acc @ [scheme] else acc) data'
      | (Err PInvalidData, data') \<Rightarrow> signature_algorithms_loop n acc data'
      | (Err e, data') \<Rightarrow> Err e
      | (Panic, data') \<Rightarrow> Panic)"
  by pat_completeness auto

termination
  by (relation "measure (\<lambda>(n, acc, data). remaining data)")
    (auto dest: signature_scheme_parse_decreases [OF sym])

declare signature_algorithms_loop.simps [simp del]

definition signature_algorithms_parse :: "nat \<Rightarrow> signature_scheme list parser" where
  "signature_algorithms_parse n = bind read_u16 (\<lambda>data_length.
     bind (pb_slice (unat data_length)) (\<lambda>data.
     lift_result (signature_algorithms_loop n [] (pb_new data))))"

definition signature_algorithms_encode :: "signature_scheme list \<Rightarrow> unit encoder" where
  "signature_algorithms_encode xs = with_u16_length
     (for_each (\<lambda>a. map_err (\<lambda>_. EncodeError) (push_u16 (signature_scheme_code a))) xs)"

definition signature_algorithms_cert_parse :: "nat \<Rightarrow> signature_scheme list parser" where
  "signature_algorithms_cert_parse n =
     bind read_u16 (\<lambda>data_length. read_list n (unat data_length) signature_scheme_parse)"

definition signature_algorithms_cert_encode :: "signature_scheme list \<Rightarrow> unit encoder" where
  "signature_algorithms_cert_encode xs = with_u16_length
     (for_each (\<lambda>a. map_err (\<lambda>_. EncodeError) (push_u16 (signature_scheme_code a))) xs)"

section \<open>Key shares (key\_share.rs)\<close>

record key_share_entry =
  ks_group :: named_group
  ks_opaque :: bytes

definition key_share_entry_parse :: "key_share_entry parser" where
  "key_share_entry_parse =
     bind named_group_parse (\<lambda>group.
     bind read_u16 (\<lambda>opaque_len.
     bind (pb_slice (unat opaque_len)) (\<lambda>opaque.
     return \<lparr>ks_group = group, ks_opaque = opaque\<rparr>)))"

definition key_share_entry_encode :: "key_share_entry \<Rightarrow> unit encoder" where
  "key_share_entry_encode e =
     next_do (named_group_encode (ks_group e))
       (map_err (\<lambda>_. EncodeError) (with_u16_length (extend_from_slice (ks_opaque e))))"

definition key_share_server_hello_parse :: "key_share_entry parser" where
  "key_share_server_hello_parse = key_share_entry_parse"

definition key_share_server_hello_encode :: "key_share_entry \<Rightarrow> unit encoder" where
  "key_share_server_hello_encode e = key_share_entry_encode e"

definition key_share_client_hello_parse :: "nat \<Rightarrow> key_share_entry list parser" where
  "key_share_client_hello_parse n =
     bind read_u16 (\<lambda>len. read_list n (unat len) key_share_entry_parse)"

definition key_share_client_hello_encode :: "key_share_entry list \<Rightarrow> unit encoder" where
  "key_share_client_hello_encode shares = with_u16_length (for_each key_share_entry_encode shares)"

definition key_share_hrr_parse :: "named_group parser" where
  "key_share_hrr_parse = named_group_parse"

definition key_share_hrr_encode :: "named_group \<Rightarrow> unit encoder" where
  "key_share_hrr_encode g = named_group_encode g"

section \<open>Supported versions (supported\_versions.rs)\<close>

type_synonym protocol_version = u16

definition TLS13 :: protocol_version where
  "TLS13 = 0x0304"

definition protocol_version_parse :: "protocol_version parser" where
  "protocol_version_parse = read_u16"

definition protocol_version_encode :: "protocol_version \<Rightarrow> unit encoder" where
  "protocol_version_encode v = map_err (\<lambda>_. EncodeError) (push_u16 v)"

definition supported_versions_ch_parse :: "nat \<Rightarrow> protocol_version list parser" where
  "supported_versions_ch_parse n =
     bind read_u8 (\<lambda>data_length. read_list n (unat data_length) protocol_version_parse)"

definition supported_versions_ch_encode :: "protocol_version list \<Rightarrow> unit encoder" where
  "supported_versions_ch_encode vs = with_u8_length (for_each protocol_version_encode vs)"

definition supported_versions_sh_parse :: "protocol_version parser" where
  "supported_versions_sh_parse = protocol_version_parse"

definition supported_versions_sh_encode :: "protocol_version \<Rightarrow> unit encoder" where
  "supported_versions_sh_encode v = protocol_version_encode v"

section \<open>PSK key exchange modes (psk\_key\_exchange\_modes.rs)\<close>

datatype psk_key_exchange_mode = PskKe | PskDheKe

fun psk_mode_code :: "psk_key_exchange_mode \<Rightarrow> byte" where
  "psk_mode_code PskKe = 0"
| "psk_mode_code PskDheKe = 1"

definition psk_mode_parse :: "psk_key_exchange_mode parser" where
  "psk_mode_parse = bind read_u8 (\<lambda>v.
     if v = 0 then return PskKe else if v = 1 then return PskDheKe else throw PInvalidData)"

definition psk_mode_encode :: "psk_key_exchange_mode \<Rightarrow> unit encoder" where
  "psk_mode_encode m = map_err (\<lambda>_. EncodeError) (push (psk_mode_code m))"

definition psk_modes_parse :: "nat \<Rightarrow> psk_key_exchange_mode list parser" where
  "psk_modes_parse n = bind read_u8 (\<lambda>data_length. read_list n (unat data_length) psk_mode_parse)"

definition psk_modes_encode :: "psk_key_exchange_mode list \<Rightarrow> unit encoder" where
  "psk_modes_encode ms = with_u8_length (for_each psk_mode_encode ms)"

section \<open>Server name (server\_name.rs)\<close>

datatype name_type = HostName

fun name_type_code :: "name_type \<Rightarrow> byte" where
  "name_type_code HostName = 0"

definition name_type_parse :: "name_type parser" where
  "name_type_parse = bind read_u8 (\<lambda>v. if v = 0 then return HostName else throw PInvalidData)"

definition name_type_encode :: "name_type \<Rightarrow> unit encoder" where
  "name_type_encode t = map_err (\<lambda>_. EncodeError) (push (name_type_code t))"

record server_name =
  sn_name_type :: name_type
  sn_name :: bytes

definition is_ascii :: "bytes \<Rightarrow> bool" where
  "is_ascii bs \<longleftrightarrow> list_all (\<lambda>b. b < 0x80) bs"

text \<open>\<open>from_utf8\<close> succeeds on every ASCII slice, so only the ASCII test can reject a name.\<close>

definition server_name_parse :: "server_name parser" where
  "server_name_parse =
     bind name_type_parse (\<lambda>name_type.
     bind read_u16 (\<lambda>name_len.
     bind (pb_slice (unat name_len)) (\<lambda>name.
     if is_ascii name then return \<lparr>sn_name_type = name_type, sn_name = name\<rparr>
     else throw PInvalidData)))"

definition server_name_encode :: "server_name \<Rightarrow> unit encoder" where
  "server_name_encode s =
     next_do (name_type_encode (sn_name_type s))
       (map_err (\<lambda>_. EncodeError) (with_u16_length (extend_from_slice (sn_name s))))"

definition server_name_list_single :: "bytes \<Rightarrow> server_name list" where
  "server_name_list_single name = [\<lparr>sn_name_type = HostName, sn_name = name\<rparr>]"

definition server_name_list_parse :: "nat \<Rightarrow> server_name list parser" where
  "server_name_list_parse n =
     bind read_u16 (\<lambda>data_length. read_list n (unat data_length) server_name_parse)"

definition server_name_list_encode :: "server_name list \<Rightarrow> unit encoder" where
  "server_name_list_encode names = with_u16_length (for_each server_name_encode names)"

definition server_name_response_parse :: "unit parser" where
  "server_name_response_parse =
     bind (gets is_empty) (\<lambda>e. if e then return () else throw PInvalidData)"

definition server_name_response_encode :: "unit encoder" where
  "server_name_response_encode = return ()"

section \<open>Maximum fragment length, ALPN, unimplemented extensions\<close>

datatype max_fragment_length = Bits9 | Bits10 | Bits11 | Bits12

fun max_fragment_length_code :: "max_fragment_length \<Rightarrow> byte" where
  "max_fragment_length_code Bits9 = 1"
| "max_fragment_length_code Bits10 = 2"
| "max_fragment_length_code Bits11 = 3"
| "max_fragment_length_code Bits12 = 4"

definition max_fragment_length_parse :: "max_fragment_length parser" where
  "max_fragment_length_parse = bind read_u8 (\<lambda>v.
     if v = 1 then return Bits9
     else if v = 2 then return Bits10
     else if v = 3 then return Bits11
     else if v = 4 then return Bits12
     else throw PInvalidData)"

definition max_fragment_length_encode :: "max_fragment_length \<Rightarrow> unit encoder" where
  "max_fragment_length_encode m = map_err (\<lambda>_. EncodeError) (push (max_fragment_length_code m))"

text \<open>One round of the ALPN loop: a non-empty protocol name, which is skipped.\<close>

definition alpn_name_parse :: "bytes parser" where
  "alpn_name_parse = bind read_u8 (\<lambda>name_len.
     if unat name_len = 0 then throw PInvalidData else pb_slice (unat name_len))"

lemma alpn_name_parse_decreases:
  "alpn_name_parse data = (Ok s, data') \<Longrightarrow> remaining data' < remaining data"
  by (auto simp: alpn_name_parse_def bind_apply read_u8_def pb_slice_def remaining_def
      split: if_splits)

function alpn_loop :: "parse_buffer \<Rightarrow> (unit, parse_error) result" where
  "alpn_loop data =
     (if is_empty data then Ok ()
      else case alpn_name_parse data of
        (Ok name, data') \<Rightarrow> alpn_loop data'
      | (Err e, data') \<Rightarrow> Err e
      | (Panic, data') \<Rightarrow> Panic)"
  by pat_completeness auto

termination
  by (relation "measure remaining") (auto dest: alpn_name_parse_decreases [OF sym])

declare alpn_loop.simps [simp del]

text \<open>The names are checked but not kept: the parsed list is empty.\<close>

definition alpn_parse :: "bytes list parser" where
  "alpn_parse = bind read_u16 (\<lambda>list_len.
     bind (pb_slice (unat list_len)) (\<lambda>list_buf.
     bind (lift_result (alpn_loop (pb_new list_buf))) (\<lambda>_.
     return [])))"

definition alpn_encode :: "bytes list \<Rightarrow> unit encoder" where
  "alpn_encode protocols = with_u16_length
     (for_each (\<lambda>protocol.
        next_do (map_err (\<lambda>_. EncodeError) (push (word_of_nat (length protocol))))
          (extend_from_slice protocol)) protocols)"

definition unimplemented_parse :: "bytes parser" where
  "unimplemented_parse = gets buffer"

definition unimplemented_encode :: "bytes \<Rightarrow> unit encoder" where
  "unimplemented_encode data = extend_from_slice data"

section \<open>Pre-shared keys (pre\_shared\_key.rs)\<close>

record pre_shared_key_ch =
  psk_identities :: "bytes list"
  psk_binders :: "bytes list"
  psk_hash_size :: nat

definition psk_identity_parse :: "bytes parser" where
  "psk_identity_parse = bind read_u16 (\<lambda>id_len.
     if unat id_len < 1 then throw PInvalidData else pb_slice (unat id_len))"

text \<open>
  The identity loop; \<open>cap\<close> is the room left in the vector.  An identity is pushed before its
  ticket age is read, so a full vector is reported before a truncated age.
\<close>

fun psk_identities_loop :: "nat \<Rightarrow> bytes list \<Rightarrow> parse_buffer \<Rightarrow> (bytes list, parse_error) result" where
  "psk_identities_loop cap acc id_buf =
     (if is_empty id_buf then Ok acc
      else case psk_identity_parse id_buf of
        (Ok id_data, id_buf1) \<Rightarrow>
          (case cap of
             0 \<Rightarrow> Err PInsufficientSpace
           | Suc c \<Rightarrow>
               (case read_u32 id_buf1 of
                  (Ok age, id_buf2) \<Rightarrow> psk_identities_loop c (acc @ [id_data]) id_buf2
                | (Err e, id_buf2) \<Rightarrow> Err e
                | (Panic, id_buf2) \<Rightarrow> Panic))
      | (Err e, id_buf1) \<Rightarrow> Err e
      | (Panic, id_buf1) \<Rightarrow> Panic)"

declare psk_identities_loop.simps [simp del]

definition psk_binder_parse :: "bytes parser" where
  "psk_binder_parse = bind read_u8 (\<lambda>b_len.
     if unat b_len < 32 then throw PInvalidData else pb_slice (unat b_len))"

text \<open>The binder loop: every binder must have the length of the first.\<close>

fun psk_binders_loop ::
  "nat \<Rightarrow> bytes list \<Rightarrow> nat \<Rightarrow> parse_buffer \<Rightarrow> (bytes list \<times> nat, parse_error) result" where
  "psk_binders_loop cap acc hash_size bind_buf =
     (if is_empty bind_buf then Ok (acc, hash_size)
      else case psk_binder_parse bind_buf of
        (Ok b_data, bind_buf1) \<Rightarrow>
          (case cap of
             0 \<Rightarrow> Err PInsufficientSpace
           | Suc c \<Rightarrow>
               if hash_size = 0 then psk_binders_loop c (acc @ [b_data]) (length b_data) bind_buf1
               else if hash_size \<noteq> length b_data then Err PInvalidData
               else psk_binders_loop c (acc @ [b_data]) hash_size bind_buf1)
      | (Err e, bind_buf1) \<Rightarrow> Err e
      | (Panic, bind_buf1) \<Rightarrow> Panic)"

declare psk_binders_loop.simps [simp del]

definition psk_ch_parse :: "nat \<Rightarrow> pre_shared_key_ch parser" where
  "psk_ch_parse n = bind read_u16 (\<lambda>identities_len.
     if unat identities_len < 7 then throw PInvalidData
     else bind (pb_slice (unat identities_len)) (\<lambda>id_buf.
     bind (lift_result (psk_identities_loop n [] (pb_new id_buf))) (\<lambda>identities.
     if identities = [] then throw PInvalidData
     else bind read_u16 (\<lambda>binders_total_len.
     if unat binders_total_len < 33 then throw PInvalidData
     else bind (pb_slice (unat binders_total_len)) (\<lambda>bind_buf.
     bind (lift_result (psk_binders_loop n [] 0 (pb_new bind_buf))) (\<lambda>(binders, hash_size).
     if length binders \<noteq> length identities then throw PInvalidData
     else return \<lparr>psk_identities = identities, psk_binders = binders,
                   psk_hash_size = hash_size\<rparr>))))))"

definition psk_ch_encode :: "pre_shared_key_ch \<Rightarrow> unit encoder" where
  "psk_ch_encode p =
     next_do (map_err (\<lambda>_. EncodeError) (with_u16_length
       (for_each (\<lambda>identity.
          next_do (map_err (\<lambda>_. EncodeError) (with_u16_length (extend_from_slice identity)))
            (map_err (\<lambda>_. EncodeError) (push_u32 0))) (psk_identities p))))
    (let binders_len = (1 + psk_hash_size p) * length (psk_identities p) in
     next_do (map_err (\<lambda>_. EncodeError) (push_u16 (word_of_nat binders_len)))
       (for_each (\<lambda>_. map_err (\<lambda>_. EncodeError) (push 0)) [0..<binders_len]))"

definition psk_sh_parse :: "u16 parser" where
  "psk_sh_parse = read_u16"

definition psk_sh_encode :: "u16 \<Rightarrow> unit encoder" where
  "psk_sh_encode selected_identity = map_err (\<lambda>_. EncodeError) (push_u16 selected_identity)"

section \<open>No parser panics\<close>

lemma wf_named_group_parse [wf_parsers]: "wf_parser named_group_parse"
  unfolding named_group_parse_def by (intro wf_parsers)

lemma wf_psk_mode_parse [wf_parsers]: "wf_parser psk_mode_parse"
  unfolding psk_mode_parse_def by (intro wf_parsers)

lemma wf_protocol_version_parse [wf_parsers]: "wf_parser protocol_version_parse"
  unfolding protocol_version_parse_def by (intro wf_parsers)

lemma wf_key_share_entry_parse [wf_parsers]: "wf_parser key_share_entry_parse"
  unfolding key_share_entry_parse_def by (intro wf_parsers)

lemma wf_server_name_parse [wf_parsers]: "wf_parser server_name_parse"
  unfolding server_name_parse_def name_type_parse_def by (intro wf_parsers)

lemma wf_list_payloads [wf_parsers]:
  "wf_parser (supported_groups_parse n)" "wf_parser (signature_algorithms_cert_parse n)"
  "wf_parser (key_share_client_hello_parse n)" "wf_parser (supported_versions_ch_parse n)"
  "wf_parser (psk_modes_parse n)" "wf_parser (server_name_list_parse n)"
  unfolding supported_groups_parse_def signature_algorithms_cert_parse_def
    key_share_client_hello_parse_def supported_versions_ch_parse_def psk_modes_parse_def
    server_name_list_parse_def
  by (intro wf_parsers)+

lemma wf_plain_payloads [wf_parsers]:
  "wf_parser key_share_server_hello_parse" "wf_parser key_share_hrr_parse"
  "wf_parser supported_versions_sh_parse" "wf_parser server_name_response_parse"
  "wf_parser max_fragment_length_parse" "wf_parser unimplemented_parse" "wf_parser psk_sh_parse"
  unfolding key_share_server_hello_parse_def key_share_hrr_parse_def
    supported_versions_sh_parse_def server_name_response_parse_def max_fragment_length_parse_def
    unimplemented_parse_def psk_sh_parse_def
  by (intro wf_parsers)+

lemma wf_alpn_name_parse [wf_parsers]: "wf_parser alpn_name_parse"
  unfolding alpn_name_parse_def by (intro wf_parsers)

lemma wf_psk_items [wf_parsers]: "wf_parser psk_identity_parse" "wf_parser psk_binder_parse"
  unfolding psk_identity_parse_def psk_binder_parse_def by (intro wf_parsers)+

lemma alpn_loop_no_panic: "pb_inv data \<Longrightarrow> alpn_loop data \<noteq> Panic"
proof (induction data rule: alpn_loop.induct)
  case (1 data)
  obtain r data' where run: "alpn_name_parse data = (r, data')" by fastforce
  note R = wf_parserD [OF wf_alpn_name_parse "1.prems" run]
  with "1.IH" [OF _ run [symmetric]] run show ?case
    by (subst alpn_loop.simps) (auto split: result.split)
qed

lemma signature_algorithms_loop_no_panic:
  "pb_inv data \<Longrightarrow> signature_algorithms_loop n acc data \<noteq> Panic"
proof (induction n acc data rule: signature_algorithms_loop.induct)
  case (1 n acc data)
  obtain r data' where run: "signature_scheme_parse data = (r, data')" by fastforce
  note R = wf_parserD [OF wf_signature_scheme_parse "1.prems" run]
  with "1.IH" [OF _ run [symmetric]] run show ?case
    by (subst signature_algorithms_loop.simps) (auto split: result.split parse_error.split)
qed

lemma psk_identities_loop_no_panic:
  "pb_inv data \<Longrightarrow> psk_identities_loop cap acc data \<noteq> Panic"
proof (induction cap acc data rule: psk_identities_loop.induct)
  case (1 cap acc data)
  obtain r d1 where run: "psk_identity_parse data = (r, d1)" by fastforce
  note R = wf_parserD [OF wf_psk_items(1) "1.prems" run]
  obtain r2 d2 where run2: "read_u32 d1 = (r2, d2)" by fastforce
  note R2 = wf_parserD [OF wf_read_u32 R(4) run2]
  from R R2 "1.IH" [OF _ run [symmetric]] run run2 show ?case
    by (subst psk_identities_loop.simps) (auto split: result.split nat.split)
qed

lemma psk_binders_loop_no_panic:
  "pb_inv data \<Longrightarrow> psk_binders_loop cap acc hs data \<noteq> Panic"
proof (induction cap acc hs data rule: psk_binders_loop.induct)
  case (1 cap acc hs data)
  obtain r d1 where run: "psk_binder_parse data = (r, d1)" by fastforce
  note R = wf_parserD [OF wf_psk_items(2) "1.prems" run]
  with "1.IH" [OF _ run [symmetric]] run show ?case
    by (subst psk_binders_loop.simps) (auto split: result.split nat.split)
qed

lemma wf_loop_payloads [wf_parsers]:
  "wf_parser (signature_algorithms_parse n)" "wf_parser alpn_parse"
  unfolding signature_algorithms_parse_def alpn_parse_def
  by (intro wf_parsers signature_algorithms_loop_no_panic alpn_loop_no_panic pb_inv_new)+

lemma wf_case_prod [wf_parsers]: "(\<And>a b. wf_parser (f a b)) \<Longrightarrow> wf_parser (case x of (a, b) \<Rightarrow> f a b)"
  by (cases x) simp

lemma wf_psk_ch_parse [wf_parsers]: "wf_parser (psk_ch_parse n)"
  unfolding psk_ch_parse_def
  by (intro wf_parsers psk_identities_loop_no_panic psk_binders_loop_no_panic pb_inv_new)

section \<open>What the encoders write\<close>

definition key_share_entry_bytes :: "key_share_entry \<Rightarrow> bytes" where
  "key_share_entry_bytes e = be16 (named_group_code (ks_group e)) @ vec16 (ks_opaque e)"

definition server_name_bytes :: "server_name \<Rightarrow> bytes" where
  "server_name_bytes s = name_type_code (sn_name_type s) # vec16 (sn_name s)"

definition alpn_name_bytes :: "bytes \<Rightarrow> bytes" where
  "alpn_name_bytes p = vec8 p"

definition psk_identity_bytes :: "bytes \<times> u32 \<Rightarrow> bytes" where
  "psk_identity_bytes = (\<lambda>(identity, age). vec16 identity @ be32 age)"

text \<open>The pre_shared_key payload on the wire: identities with ticket ages, then the binders.\<close>

definition psk_ch_bytes :: "(bytes \<times> u32) list \<Rightarrow> bytes list \<Rightarrow> bytes" where
  "psk_ch_bytes ids binders =
     vec16 (concat (map psk_identity_bytes ids)) @ vec16 (concat (map vec8 binders))"

text \<open>The payload as the client writes it first: zero ages and zeroed room for the binders.\<close>

definition psk_ch_placeholder :: "bytes list \<Rightarrow> nat \<Rightarrow> bytes" where
  "psk_ch_placeholder ids hash_size =
     vec16 (concat (map (\<lambda>i. vec16 i @ be32 0) ids)) @
     (let n = (1 + hash_size) * length ids in be16 (word_of_nat n) @ replicate n 0)"

lemma encodes_named_group [encodes_rules]:
  "encodes (named_group_encode g) (be16 (named_group_code g))"
  unfolding named_group_encode_def by (intro encodes_rules)

lemma encodes_protocol_version [encodes_rules]: "encodes (protocol_version_encode v) (be16 v)"
  unfolding protocol_version_encode_def by (intro encodes_rules)

lemma encodes_psk_mode [encodes_rules]: "encodes (psk_mode_encode m) [psk_mode_code m]"
  unfolding psk_mode_encode_def by (intro encodes_rules)

lemma encodes_key_share_entry [encodes_rules]:
  "encodes (key_share_entry_encode e) (key_share_entry_bytes e)"
  unfolding key_share_entry_encode_def key_share_entry_bytes_def by (intro encodes_rules)

lemma encodes_server_name [encodes_rules]: "encodes (server_name_encode s) (server_name_bytes s)"
  unfolding server_name_encode_def server_name_bytes_def name_type_encode_def
  using encodes_next [where xs = "[name_type_code (sn_name_type s)]"]
  by (simp add: encodes_rules)

lemma encodes_supported_groups [encodes_rules]:
  "encodes (supported_groups_encode gs) (vec16 (concat (map (\<lambda>g. be16 (named_group_code g)) gs)))"
  unfolding supported_groups_encode_def by (intro encodes_rules)

lemma encodes_signature_algorithms [encodes_rules]:
  "encodes (signature_algorithms_encode xs)
     (vec16 (concat (map (\<lambda>a. be16 (signature_scheme_code a)) xs)))"
  unfolding signature_algorithms_encode_def by (intro encodes_rules)

lemma encodes_signature_algorithms_cert [encodes_rules]:
  "encodes (signature_algorithms_cert_encode xs)
     (vec16 (concat (map (\<lambda>a. be16 (signature_scheme_code a)) xs)))"
  unfolding signature_algorithms_cert_encode_def by (intro encodes_rules)

lemma encodes_key_share_client_hello [encodes_rules]:
  "encodes (key_share_client_hello_encode es) (vec16 (concat (map key_share_entry_bytes es)))"
  unfolding key_share_client_hello_encode_def by (intro encodes_rules)

lemma encodes_supported_versions_ch [encodes_rules]:
  "encodes (supported_versions_ch_encode vs) (vec8 (concat (map be16 vs)))"
  unfolding supported_versions_ch_encode_def by (intro encodes_rules)

lemma encodes_psk_modes [encodes_rules]:
  "encodes (psk_modes_encode ms) (vec8 (map psk_mode_code ms))"
  unfolding psk_modes_encode_def
  using encodes_with_u8 [OF encodes_for_each [of ms psk_mode_encode "\<lambda>m. [psk_mode_code m]"]]
  by (simp add: encodes_psk_mode)

lemma encodes_server_name_list [encodes_rules]:
  "encodes (server_name_list_encode names) (vec16 (concat (map server_name_bytes names)))"
  unfolding server_name_list_encode_def by (intro encodes_rules)

lemma encodes_alpn [encodes_rules]:
  "encodes (alpn_encode ps) (vec16 (concat (map alpn_name_bytes ps)))"
  unfolding alpn_encode_def alpn_name_bytes_def vec8_def
  using encodes_next [OF encodes_map_err [OF encodes_push] encodes_extend]
  by (intro encodes_rules) simp

lemma encodes_max_fragment_length [encodes_rules]:
  "encodes (max_fragment_length_encode m) [max_fragment_length_code m]"
  unfolding max_fragment_length_encode_def by (intro encodes_rules)

lemma encodes_plain_payloads [encodes_rules]:
  "encodes (key_share_server_hello_encode e) (key_share_entry_bytes e)"
  "encodes (key_share_hrr_encode g) (be16 (named_group_code g))"
  "encodes (supported_versions_sh_encode v) (be16 v)"
  "encodes server_name_response_encode []"
  "encodes (unimplemented_encode d) d"
  "encodes (psk_sh_encode i) (be16 i)"
  unfolding key_share_server_hello_encode_def key_share_hrr_encode_def
    supported_versions_sh_encode_def server_name_response_encode_def unimplemented_encode_def
    psk_sh_encode_def
  by (intro encodes_rules)+

lemma encodes_psk_ch [encodes_rules]:
  "encodes (psk_ch_encode p) (psk_ch_placeholder (psk_identities p) (psk_hash_size p))"
proof -
  have zeros: "encodes (for_each (\<lambda>_. map_err (\<lambda>_. EncodeError) (push 0)) [0..<n]) (replicate n 0)"
    for n
    using encodes_for_each [of "[0..<n]" "\<lambda>_. map_err (\<lambda>_. EncodeError) (push 0)" "\<lambda>_. [0]"]
    by (simp add: encodes_rules map_replicate_const)
  show ?thesis
    unfolding psk_ch_encode_def psk_ch_placeholder_def Let_def
    by (intro encodes_rules zeros)
qed

section \<open>Reading back what was written\<close>

lemma record_etas [simp]:
  "\<lparr>ks_group = ks_group e, ks_opaque = ks_opaque e\<rparr> = e"
  "\<lparr>sn_name_type = sn_name_type s, sn_name = sn_name s\<rparr> = s"
  by simp_all

lemma parses_named_group [parses_rules]: "parses named_group_parse (be16 (named_group_code g)) g"
  unfolding named_group_parse_def
  by (rule parses_bind_last [OF parses_read_u16]) (cases g; simp)

lemma parses_signature_scheme [parses_rules]:
  "parses signature_scheme_parse (be16 (signature_scheme_code s)) s"
  unfolding signature_scheme_parse_def
  by (rule parses_bind_last [OF parses_read_u16]) (cases s; simp)

lemma parses_protocol_version [parses_rules]: "parses protocol_version_parse (be16 v) v"
  unfolding protocol_version_parse_def by (rule parses_read_u16)

lemma parses_psk_mode [parses_rules]: "parses psk_mode_parse [psk_mode_code m] m"
  unfolding psk_mode_parse_def
  by (rule parses_bind_last [OF parses_read_u8]) (cases m; simp)

lemma parses_max_fragment_length [parses_rules]:
  "parses max_fragment_length_parse [max_fragment_length_code m] m"
  unfolding max_fragment_length_parse_def
  by (rule parses_bind_last [OF parses_read_u8]) (cases m; simp)

lemma parses_key_share_entry [parses_rules]:
  assumes "length (ks_opaque e) < 2 ^ 16"
  shows "parses key_share_entry_parse (key_share_entry_bytes e) e"
  unfolding key_share_entry_parse_def key_share_entry_bytes_def
  by (rule parses_bind [OF parses_named_group], rule parses_vec16 [OF assms],
      rule parses_bind_last [OF parses_pb_slice]) simp_all

lemma parses_server_name [parses_rules]:
  assumes "length (sn_name s) < 2 ^ 16" and "is_ascii (sn_name s)"
  shows "parses server_name_parse (server_name_bytes s) s"
proof -
  have "parses name_type_parse [name_type_code (sn_name_type s)] (sn_name_type s)"
    unfolding name_type_parse_def
    by (rule parses_bind_last [OF parses_read_u8]) (cases "sn_name_type s"; simp)
  then show ?thesis
    unfolding server_name_parse_def server_name_bytes_def
    by (rule parses_bind_Cons, intro parses_vec16 [OF assms(1)])
      (rule parses_bind_last [OF parses_pb_slice], simp_all add: assms(2))
qed

interpretation group_codec: list_codec named_group_parse "\<lambda>g. be16 (named_group_code g)" "\<lambda>_. True"
  by unfold_locales (simp_all add: parses_rules)

interpretation scheme_codec:
  list_codec signature_scheme_parse "\<lambda>s. be16 (signature_scheme_code s)" "\<lambda>_. True"
  by unfold_locales (simp_all add: parses_rules)

interpretation version_codec: list_codec protocol_version_parse be16 "\<lambda>_. True"
  by unfold_locales (simp_all add: parses_rules)

interpretation mode_codec: list_codec psk_mode_parse "\<lambda>m. [psk_mode_code m]" "\<lambda>_. True"
  by unfold_locales (simp_all add: parses_rules)

interpretation share_codec:
  list_codec key_share_entry_parse key_share_entry_bytes "\<lambda>e. length (ks_opaque e) < 2 ^ 16"
  by unfold_locales (simp_all add: parses_key_share_entry, simp add: key_share_entry_bytes_def)

interpretation name_codec:
  list_codec server_name_parse server_name_bytes
    "\<lambda>s. length (sn_name s) < 2 ^ 16 \<and> is_ascii (sn_name s)"
  by unfold_locales (simp_all add: parses_server_name, simp add: server_name_bytes_def)

lemma length_concat_const: "(\<And>x. length (f x) = k) \<Longrightarrow> length (concat (map f xs)) = k * length xs"
  by (induction xs) simp_all

lemma parses_supported_groups:
  assumes "length gs \<le> n" and "length gs < 2 ^ 15"
  shows "parses (supported_groups_parse n)
     (vec16 (concat (map (\<lambda>g. be16 (named_group_code g)) gs))) gs"
  unfolding supported_groups_parse_def
  by (rule group_codec.read_vec16)
    (use assms length_concat_const [of "\<lambda>g. be16 (named_group_code g)" 2] in
      \<open>simp_all add: list_all_iff\<close>)

lemma parses_signature_algorithms_cert:
  assumes "length xs \<le> n" and "length xs < 2 ^ 15"
  shows "parses (signature_algorithms_cert_parse n)
     (vec16 (concat (map (\<lambda>a. be16 (signature_scheme_code a)) xs))) xs"
  unfolding signature_algorithms_cert_parse_def
  by (rule scheme_codec.read_vec16)
    (use assms length_concat_const [of "\<lambda>g. be16 (signature_scheme_code g)" 2] in
      \<open>simp_all add: list_all_iff\<close>)

lemma parses_supported_versions_ch:
  assumes "length vs \<le> n" and "length vs < 2 ^ 7"
  shows "parses (supported_versions_ch_parse n) (vec8 (concat (map be16 vs))) vs"
  unfolding supported_versions_ch_parse_def
  by (rule version_codec.read_vec8)
    (use assms length_concat_const [of be16 2] in \<open>simp_all add: list_all_iff\<close>)

lemma parses_psk_modes:
  assumes "length ms \<le> n" and "length ms < 2 ^ 8"
  shows "parses (psk_modes_parse n) (vec8 (map psk_mode_code ms)) ms"
  unfolding psk_modes_parse_def
  using mode_codec.read_vec8 [of ms n] assms by (simp add: list_all_iff)

lemma parses_key_share_client_hello:
  assumes "length es \<le> n" and "length (concat (map key_share_entry_bytes es)) < 2 ^ 16"
    and "list_all (\<lambda>e. length (ks_opaque e) < 2 ^ 16) es"
  shows "parses (key_share_client_hello_parse n) (vec16 (concat (map key_share_entry_bytes es))) es"
  unfolding key_share_client_hello_parse_def
  by (rule share_codec.read_vec16 [OF assms(3,1,2)])

lemma parses_server_name_list:
  assumes "length ns \<le> n" and "length (concat (map server_name_bytes ns)) < 2 ^ 16"
    and "list_all (\<lambda>s. length (sn_name s) < 2 ^ 16 \<and> is_ascii (sn_name s)) ns"
  shows "parses (server_name_list_parse n) (vec16 (concat (map server_name_bytes ns))) ns"
  unfolding server_name_list_parse_def
  by (rule name_codec.read_vec16 [OF assms(3,1,2)])

lemma parses_psk_identity:
  assumes "i \<noteq> []" and "length i < 2 ^ 16"
  shows "parses psk_identity_parse (vec16 i) i"
  unfolding psk_identity_parse_def
  by (rule parses_vec16 [OF assms(2)]) (use assms in \<open>simp add: parses_pb_slice Suc_le_eq\<close>)

lemma parses_psk_binder:
  assumes "32 \<le> length b" and "length b < 2 ^ 8"
  shows "parses psk_binder_parse (vec8 b) b"
  unfolding psk_binder_parse_def
  by (rule parses_vec8 [OF assms(2)]) (use assms in \<open>simp add: parses_pb_slice\<close>)

lemma psk_identities_loop_enc:
  assumes "list_all (\<lambda>(i, age). i \<noteq> [] \<and> length i < 2 ^ 16) ids" and "length ids \<le> cap"
  shows "psk_identities_loop cap acc
     \<lparr>pos = length pre, buffer = pre @ concat (map psk_identity_bytes ids)\<rparr> =
     Ok (acc @ map fst ids)"
  using assms
proof (induction ids arbitrary: cap acc pre)
  case Nil
  then show ?case by (subst psk_identities_loop.simps) (simp add: is_empty_def)
next
  case (Cons x ids)
  obtain i age where x: "x = (i, age)" by fastforce
  from Cons.prems obtain c where c: "cap = Suc c" by (cases cap) auto
  let ?rest = "concat (map psk_identity_bytes ids)"
  have i: "parses psk_identity_parse (vec16 i) i"
    using Cons.prems x by (intro parses_psk_identity) auto
  note 1 = parsesD [OF i, of pre "be32 age @ ?rest"]
  note 2 = parsesD [OF parses_read_u32 [of age], of "pre @ vec16 i" ?rest]
  have "psk_identities_loop c (acc @ [i])
      \<lparr>pos = length (pre @ vec16 i @ be32 age), buffer = (pre @ vec16 i @ be32 age) @ ?rest\<rparr> =
      Ok ((acc @ [i]) @ map fst ids)"
    by (rule Cons.IH) (use Cons.prems c in auto)
  with 1 2 c x show ?case
    by (subst psk_identities_loop.simps)
      (simp add: is_empty_def psk_identity_bytes_def ac_simps)
qed

lemma psk_binders_loop_enc:
  assumes "list_all (\<lambda>b. length b = h) bs" and "32 \<le> h" and "h < 2 ^ 8" and "length bs \<le> cap"
    and "hs = (if acc = [] then 0 else h)"
  shows "psk_binders_loop cap acc hs
     \<lparr>pos = length pre, buffer = pre @ concat (map vec8 bs)\<rparr> =
     Ok (acc @ bs, if acc @ bs = [] then 0 else h)"
  using assms
proof (induction bs arbitrary: cap acc hs pre)
  case Nil
  then show ?case by (subst psk_binders_loop.simps) (simp add: is_empty_def)
next
  case (Cons b bs)
  from Cons.prems obtain c where c: "cap = Suc c" by (cases cap) auto
  let ?rest = "concat (map vec8 bs)"
  have b: "parses psk_binder_parse (vec8 b) b"
    using Cons.prems by (intro parses_psk_binder) auto
  note 1 = parsesD [OF b, of pre ?rest]
  have "psk_binders_loop c (acc @ [b]) h
      \<lparr>pos = length (pre @ vec8 b), buffer = (pre @ vec8 b) @ ?rest\<rparr> =
      Ok ((acc @ [b]) @ bs, if (acc @ [b]) @ bs = [] then 0 else h)"
    by (rule Cons.IH) (use Cons.prems c in auto)
  with 1 c Cons.prems show ?case
    by (subst psk_binders_loop.simps) (simp add: is_empty_def)
qed

text \<open>What a peer may send as a pre_shared_key payload, and that the parser accepts exactly it.\<close>

definition psk_ch_ok :: "nat \<Rightarrow> (bytes \<times> u32) list \<Rightarrow> bytes list \<Rightarrow> nat \<Rightarrow> bool" where
  "psk_ch_ok n ids binders h \<longleftrightarrow>
     ids \<noteq> [] \<and> length ids \<le> n \<and> length binders = length ids \<and>
     list_all (\<lambda>(i, age). i \<noteq> [] \<and> length i < 2 ^ 16) ids \<and>
     list_all (\<lambda>b. length b = h) binders \<and> 32 \<le> h \<and> h < 2 ^ 8 \<and>
     length (concat (map psk_identity_bytes ids)) < 2 ^ 16 \<and>
     length (concat (map vec8 binders)) < 2 ^ 16"

lemma psk_identities_min_length:
  "ids \<noteq> [] \<Longrightarrow> list_all (\<lambda>(i, age). i \<noteq> [] \<and> length i < 2 ^ 16) ids \<Longrightarrow>
   7 \<le> length (concat (map psk_identity_bytes ids))"
  by (cases ids) (auto simp: psk_identity_bytes_def Suc_le_eq)

lemma psk_binders_min_length:
  "bs \<noteq> [] \<Longrightarrow> list_all (\<lambda>b. length b = h) bs \<Longrightarrow> 32 \<le> h \<Longrightarrow>
   33 \<le> length (concat (map vec8 bs))"
  by (cases bs) auto

lemma parses_psk_ch:
  assumes ok: "psk_ch_ok n ids binders h"
  shows "parses (psk_ch_parse n) (psk_ch_bytes ids binders)
     \<lparr>psk_identities = map fst ids, psk_binders = binders, psk_hash_size = h\<rparr>"
proof -
  let ?I = "concat (map psk_identity_bytes ids)" and ?B = "concat (map vec8 binders)"
  have ne: "ids \<noteq> []" "binders \<noteq> []" using ok by (auto simp: psk_ch_ok_def)
  have lens: "\<not> length ?I < 7" "\<not> length ?B < 33" "length ?I < 2 ^ 16" "length ?B < 2 ^ 16"
    using ok ne psk_identities_min_length [of ids] psk_binders_min_length [of binders h]
    by (auto simp: psk_ch_ok_def not_less)
  have ids_run: "psk_identities_loop n [] (pb_new ?I) = Ok (map fst ids)"
    using psk_identities_loop_enc [of ids n "[]" "[]"] ok
    by (simp add: psk_ch_ok_def pb_new_def)
  have binders_run: "psk_binders_loop n [] 0 (pb_new ?B) = Ok (binders, h)"
    using psk_binders_loop_enc [of h binders n 0 "[]" "[]"] ok ne
    by (simp add: psk_ch_ok_def pb_new_def)
  note steps = parses_bind [OF parses_read_u16] parses_bind [OF parses_pb_slice]
  have len: "length binders = length ids" using ok by (simp add: psk_ch_ok_def)
  have n: "unat (word_of_nat (length ?I) :: u16) = length ?I"
    "unat (word_of_nat (length ?B) :: u16) = length ?B"
    using lens by (simp_all add: unat_word_of_nat)
  have tail: "parses (bind read_u16 (\<lambda>binders_total_len.
       if unat binders_total_len < 33 then throw PInvalidData
       else bind (pb_slice (unat binders_total_len)) (\<lambda>bind_buf.
       bind (lift_result (psk_binders_loop n [] 0 (pb_new bind_buf))) (\<lambda>(binders, hash_size).
       if length binders \<noteq> length (map fst ids) then throw PInvalidData
       else return \<lparr>psk_identities = map fst ids, psk_binders = binders,
                     psk_hash_size = hash_size\<rparr>)))) (vec16 ?B)
     \<lparr>psk_identities = map fst ids, psk_binders = binders, psk_hash_size = h\<rparr>"
    by (rule parses_vec16 [OF lens(4)])
      (simp only: lens if_False, rule parses_bind_last [OF parses_pb_slice],
        simp_all add: binders_run len return_def bind_def)
  show ?thesis
    unfolding psk_ch_parse_def psk_ch_bytes_def vec16_def [of ?I] append_assoc
    by (rule parses_bind [OF parses_read_u16], simp only: n lens if_False,
        rule parses_bind [OF parses_pb_slice], rule refl,
        rule parses_bind_Nil [where a = "map fst ids"])
      (use tail ne in \<open>simp_all add: ids_run parses_return\<close>)
qed

lemma signature_algorithms_loop_enc:
  assumes "length acc + length xs \<le> n"
  shows "signature_algorithms_loop n acc
     \<lparr>pos = length pre, buffer = pre @ concat (map (\<lambda>a. be16 (signature_scheme_code a)) xs)\<rparr> =
     Ok (acc @ xs)"
  using assms
proof (induction xs arbitrary: acc pre)
  case Nil
  then show ?case by (subst signature_algorithms_loop.simps) (simp add: is_empty_def)
next
  case (Cons x xs)
  note step = parsesD [OF parses_signature_scheme, of pre x
      "concat (map (\<lambda>a. be16 (signature_scheme_code a)) xs)"]
  from Cons.IH [of "acc @ [x]" "pre @ be16 (signature_scheme_code x)"] Cons.prems step
  show ?case by (subst signature_algorithms_loop.simps) (simp add: is_empty_def)
qed

lemma parses_signature_algorithms:
  assumes "length xs \<le> n" and "length xs < 2 ^ 15"
  shows "parses (signature_algorithms_parse n)
     (vec16 (concat (map (\<lambda>a. be16 (signature_scheme_code a)) xs))) xs"
  unfolding signature_algorithms_parse_def
proof (rule parses_vec16)
  show "length (concat (map (\<lambda>a. be16 (signature_scheme_code a)) xs)) < 2 ^ 16"
    using assms length_concat_const [of "\<lambda>g. be16 (signature_scheme_code g)" 2] by simp
  fix k :: u16
  assume k: "unat k = length (concat (map (\<lambda>a. be16 (signature_scheme_code a)) xs))"
  show "parses (bind (pb_slice (unat k)) (\<lambda>data.
      lift_result (signature_algorithms_loop n [] (pb_new data))))
      (concat (map (\<lambda>a. be16 (signature_scheme_code a)) xs)) xs"
    using signature_algorithms_loop_enc [of "[]" xs n "[]"] assms(1)
    by (intro parses_bind_last [OF parses_pb_slice [OF k]]) (simp add: pb_new_def)
qed

end
