(* ===== verification/Extensions.thy ===== *)
theory Extensions
  imports Extension_Data
begin

text \<open>
  src/extensions/mod.rs (\<open>ExtensionType\<close>), src/extensions/extension_group_macro.rs (the methods the
  macro generates for every group) and src/extensions/messages.rs (the groups: which extension may
  appear in which message, and with which payload).  The macro's methods are written once, over the
  group's dispatch function; each group then is a datatype with the source's variants, its dispatch
  and its encoder.  The locale \<open>extension_group\<close> is the contract a group has to meet for the vector
  parser to be total and to read back what was written; it is interpreted for all seven groups.
\<close>

section \<open>Extension types\<close>

datatype extension_type =
    ET_ServerName | ET_MaxFragmentLength | ET_StatusRequest | ET_SupportedGroups
  | ET_SignatureAlgorithms | ET_UseSrtp | ET_Heartbeat | ET_ApplicationLayerProtocolNegotiation
  | ET_SignedCertificateTimestamp | ET_ClientCertificateType | ET_ServerCertificateType
  | ET_Padding | ET_CompressCertificate | ET_PreSharedKey | ET_EarlyData | ET_SupportedVersions
  | ET_Cookie | ET_PskKeyExchangeModes | ET_CertificateAuthorities | ET_OidFilters
  | ET_PostHandshakeAuth | ET_SignatureAlgorithmsCert | ET_KeyShare

fun extension_type_code :: "extension_type \<Rightarrow> u16" where
  "extension_type_code ET_ServerName = 0"
| "extension_type_code ET_MaxFragmentLength = 1"
| "extension_type_code ET_StatusRequest = 5"
| "extension_type_code ET_SupportedGroups = 10"
| "extension_type_code ET_SignatureAlgorithms = 13"
| "extension_type_code ET_UseSrtp = 14"
| "extension_type_code ET_Heartbeat = 15"
| "extension_type_code ET_ApplicationLayerProtocolNegotiation = 16"
| "extension_type_code ET_SignedCertificateTimestamp = 18"
| "extension_type_code ET_ClientCertificateType = 19"
| "extension_type_code ET_ServerCertificateType = 20"
| "extension_type_code ET_Padding = 21"
| "extension_type_code ET_CompressCertificate = 27"
| "extension_type_code ET_PreSharedKey = 41"
| "extension_type_code ET_EarlyData = 42"
| "extension_type_code ET_SupportedVersions = 43"
| "extension_type_code ET_Cookie = 44"
| "extension_type_code ET_PskKeyExchangeModes = 45"
| "extension_type_code ET_CertificateAuthorities = 47"
| "extension_type_code ET_OidFilters = 48"
| "extension_type_code ET_PostHandshakeAuth = 49"
| "extension_type_code ET_SignatureAlgorithmsCert = 50"
| "extension_type_code ET_KeyShare = 51"

definition extension_type_of :: "u16 \<Rightarrow> extension_type option" where
  "extension_type_of v =
     (if v = 0 then Some ET_ServerName
      else if v = 1 then Some ET_MaxFragmentLength
      else if v = 5 then Some ET_StatusRequest
      else if v = 10 then Some ET_SupportedGroups
      else if v = 13 then Some ET_SignatureAlgorithms
      else if v = 14 then Some ET_UseSrtp
      else if v = 15 then Some ET_Heartbeat
      else if v = 16 then Some ET_ApplicationLayerProtocolNegotiation
      else if v = 18 then Some ET_SignedCertificateTimestamp
      else if v = 19 then Some ET_ClientCertificateType
      else if v = 20 then Some ET_ServerCertificateType
      else if v = 21 then Some ET_Padding
      else if v = 27 then Some ET_CompressCertificate
      else if v = 41 then Some ET_PreSharedKey
      else if v = 42 then Some ET_EarlyData
      else if v = 43 then Some ET_SupportedVersions
      else if v = 44 then Some ET_Cookie
      else if v = 45 then Some ET_PskKeyExchangeModes
      else if v = 47 then Some ET_CertificateAuthorities
      else if v = 48 then Some ET_OidFilters
      else if v = 49 then Some ET_PostHandshakeAuth
      else if v = 50 then Some ET_SignatureAlgorithmsCert
      else if v = 51 then Some ET_KeyShare
      else None)"

definition extension_type_parse :: "extension_type parser" where
  "extension_type_parse =
     bind read_u16 (\<lambda>v. lift_result (ok_or PInvalidData (extension_type_of v)))"

definition extension_type_encode :: "extension_type \<Rightarrow> unit encoder" where
  "extension_type_encode t = map_err (\<lambda>_. EncodeError) (push_u16 (extension_type_code t))"

section \<open>The methods of an extension group\<close>

text \<open>\<open>encode\<close>: the type, then the payload behind a 16-bit length.\<close>

definition extension_encode :: "extension_type \<Rightarrow> unit encoder \<Rightarrow> unit encoder" where
  "extension_encode t payload = next_do (extension_type_encode t) (with_u16_length payload)"

fun extension_type_error :: "parse_error \<Rightarrow> tls_error" where
  "extension_type_error PInvalidData = UnknownExtensionType"
| "extension_type_error _ = DecodeError"

text \<open>
  \<open>parse\<close>: the result of reading the type is only looked at after the payload has been consumed,
  so an unknown type leaves the cursor at the next extension.  \<open>dispatch\<close> is the \<open>match\<close> on the
  type that the macro expands to.
\<close>

definition extension_parse :: "(extension_type \<Rightarrow> 'x parser option) \<Rightarrow> 'x tls_parser" where
  "extension_parse dispatch = (\<lambda>buf.
     case extension_type_parse buf of (extension_type, buf') \<Rightarrow>
       bind (map_err (\<lambda>_. DecodeError) read_u16) (\<lambda>data_len.
       bind (map_err (\<lambda>_. DecodeError) (pb_slice (unat data_len))) (\<lambda>ext_data.
       bind (lift_result (map_err_result extension_type_error extension_type)) (\<lambda>ext_type.
       case dispatch ext_type of
         Some p \<Rightarrow> lift_result (map_err_result (\<lambda>_. DecodeError) (fst (p (pb_new ext_data))))
       | None \<Rightarrow> throw (fatal AD_IllegalParameter)))) buf')"

lemma extension_parse_decreases:
  assumes "extension_parse dispatch b = (r, b')" and "r = Ok x \<or> r = Err UnknownExtensionType"
  shows "remaining b' < remaining b"
proof -
  obtain t b1 where t: "extension_type_parse b = (t, b1)" by fastforce
  have b1: "b1 = b \<and> \<not> pos b + 2 \<le> length (buffer b) \<or> b1 = b\<lparr>pos := pos b + 2\<rparr>"
    using t by (auto simp: extension_type_parse_def bind_apply read_u16_def split: if_splits)
  obtain n b2 where n: "read_u16 b1 = (Ok n, b2)"
    using assms t by (cases "read_u16 b1"; cases "fst (read_u16 b1)")
      (auto simp: extension_parse_def bind_apply map_err_apply)
  then have b2: "b2 = b1\<lparr>pos := pos b1 + 2\<rparr>" and fits: "pos b1 + 2 \<le> length (buffer b1)"
    by (auto simp: read_u16_def split: if_splits)
  obtain d b3 where d: "pb_slice (unat n) b2 = (Ok d, b3)"
    using assms t n by (cases "pb_slice (unat n) b2"; cases "fst (pb_slice (unat n) b2)")
      (auto simp: extension_parse_def bind_apply map_err_apply)
  then have b3: "b3 = b2\<lparr>pos := pos b2 + unat n\<rparr>"
    by (auto simp: pb_slice_def split: if_splits)
  have "b' = b3"
    using assms(1) t n d by (auto simp: extension_parse_def bind_apply map_err_apply
        split: result.splits option.splits)
  with b1 b2 b3 fits show ?thesis by (auto simp: remaining_def)
qed

text \<open>
  The loop of \<open>parse_vector\<close>: unrecognised types are skipped, any other error ends it, and so does
  an extension too many for the vector's capacity \<open>n\<close>.
\<close>

function extension_vector_loop ::
  "(extension_type \<Rightarrow> 'x parser option) \<Rightarrow> nat \<Rightarrow> 'x list \<Rightarrow> parse_buffer \<Rightarrow>
   ('x list, tls_error) result" where
  "extension_vector_loop dispatch n acc ext_buf =
     (if is_empty ext_buf then Ok acc
      else case extension_parse dispatch ext_buf of
        (Ok extension, ext_buf') \<Rightarrow>
          (if length acc < n
           then extension_vector_loop dispatch n (acc @ [extension]) ext_buf'
           else Err DecodeError)
      | (Err e, ext_buf') \<Rightarrow>
          (if e = UnknownExtensionType then extension_vector_loop dispatch n acc ext_buf'
           else Err e)
      | (Panic, ext_buf') \<Rightarrow> Panic)"
  by pat_completeness auto

termination
  by (relation "measure (\<lambda>(dispatch, n, acc, ext_buf). remaining ext_buf)")
    (auto dest: extension_parse_decreases [OF sym])

declare extension_vector_loop.simps [simp del]

definition extension_parse_vector ::
  "(extension_type \<Rightarrow> 'x parser option) \<Rightarrow> nat \<Rightarrow> 'x list tls_parser" where
  "extension_parse_vector dispatch n =
     bind (map_err (\<lambda>_. InvalidExtensionsLength) read_u16) (\<lambda>extensions_len.
     bind (from_parse (pb_slice (unat extensions_len))) (\<lambda>ext_buf.
     lift_result (extension_vector_loop dispatch n [] (pb_new ext_buf))))"

definition pmap :: "('a \<Rightarrow> 'b) \<Rightarrow> 'a parser \<Rightarrow> 'b parser" where
  "pmap f p = bind p (\<lambda>a. return (f a))"

section \<open>The groups\<close>

datatype client_hello_extension =
    CHE_ServerName "server_name list"
  | CHE_SupportedVersions "protocol_version list"
  | CHE_SignatureAlgorithms "signature_scheme list"
  | CHE_SupportedGroups "named_group list"
  | CHE_KeyShare "key_share_entry list"
  | CHE_PreSharedKey pre_shared_key_ch
  | CHE_PskKeyExchangeModes "psk_key_exchange_mode list"
  | CHE_SignatureAlgorithmsCert "signature_scheme list"
  | CHE_MaxFragmentLength max_fragment_length
  | CHE_StatusRequest bytes
  | CHE_UseSrtp bytes
  | CHE_Heartbeat bytes
  | CHE_ApplicationLayerProtocolNegotiation "bytes list"
  | CHE_SignedCertificateTimestamp bytes
  | CHE_ClientCertificateType bytes
  | CHE_ServerCertificateType bytes
  | CHE_Padding bytes
  | CHE_EarlyData bytes
  | CHE_Cookie bytes
  | CHE_CertificateAuthorities bytes
  | CHE_OidFilters bytes
  | CHE_PostHandshakeAuth bytes

fun che_type :: "client_hello_extension \<Rightarrow> extension_type" where
  "che_type (CHE_ServerName _) = ET_ServerName"
| "che_type (CHE_SupportedVersions _) = ET_SupportedVersions"
| "che_type (CHE_SignatureAlgorithms _) = ET_SignatureAlgorithms"
| "che_type (CHE_SupportedGroups _) = ET_SupportedGroups"
| "che_type (CHE_KeyShare _) = ET_KeyShare"
| "che_type (CHE_PreSharedKey _) = ET_PreSharedKey"
| "che_type (CHE_PskKeyExchangeModes _) = ET_PskKeyExchangeModes"
| "che_type (CHE_SignatureAlgorithmsCert _) = ET_SignatureAlgorithmsCert"
| "che_type (CHE_MaxFragmentLength _) = ET_MaxFragmentLength"
| "che_type (CHE_StatusRequest _) = ET_StatusRequest"
| "che_type (CHE_UseSrtp _) = ET_UseSrtp"
| "che_type (CHE_Heartbeat _) = ET_Heartbeat"
| "che_type (CHE_ApplicationLayerProtocolNegotiation _) = ET_ApplicationLayerProtocolNegotiation"
| "che_type (CHE_SignedCertificateTimestamp _) = ET_SignedCertificateTimestamp"
| "che_type (CHE_ClientCertificateType _) = ET_ClientCertificateType"
| "che_type (CHE_ServerCertificateType _) = ET_ServerCertificateType"
| "che_type (CHE_Padding _) = ET_Padding"
| "che_type (CHE_EarlyData _) = ET_EarlyData"
| "che_type (CHE_Cookie _) = ET_Cookie"
| "che_type (CHE_CertificateAuthorities _) = ET_CertificateAuthorities"
| "che_type (CHE_OidFilters _) = ET_OidFilters"
| "che_type (CHE_PostHandshakeAuth _) = ET_PostHandshakeAuth"

fun che_dispatch :: "extension_type \<Rightarrow> client_hello_extension parser option" where
  "che_dispatch ET_ServerName = Some (pmap CHE_ServerName (server_name_list_parse 1))"
| "che_dispatch ET_SupportedVersions =
     Some (pmap CHE_SupportedVersions (supported_versions_ch_parse 1))"
| "che_dispatch ET_SignatureAlgorithms =
     Some (pmap CHE_SignatureAlgorithms (signature_algorithms_parse 25))"
| "che_dispatch ET_SupportedGroups = Some (pmap CHE_SupportedGroups (supported_groups_parse 13))"
| "che_dispatch ET_KeyShare = Some (pmap CHE_KeyShare (key_share_client_hello_parse 4))"
| "che_dispatch ET_PreSharedKey = Some (pmap CHE_PreSharedKey (psk_ch_parse 4))"
| "che_dispatch ET_PskKeyExchangeModes = Some (pmap CHE_PskKeyExchangeModes (psk_modes_parse 4))"
| "che_dispatch ET_SignatureAlgorithmsCert =
     Some (pmap CHE_SignatureAlgorithmsCert (signature_algorithms_cert_parse 25))"
| "che_dispatch ET_MaxFragmentLength = Some (pmap CHE_MaxFragmentLength max_fragment_length_parse)"
| "che_dispatch ET_StatusRequest = Some (pmap CHE_StatusRequest unimplemented_parse)"
| "che_dispatch ET_UseSrtp = Some (pmap CHE_UseSrtp unimplemented_parse)"
| "che_dispatch ET_Heartbeat = Some (pmap CHE_Heartbeat unimplemented_parse)"
| "che_dispatch ET_ApplicationLayerProtocolNegotiation =
     Some (pmap CHE_ApplicationLayerProtocolNegotiation alpn_parse)"
| "che_dispatch ET_SignedCertificateTimestamp =
     Some (pmap CHE_SignedCertificateTimestamp unimplemented_parse)"
| "che_dispatch ET_ClientCertificateType = Some (pmap CHE_ClientCertificateType unimplemented_parse)"
| "che_dispatch ET_ServerCertificateType = Some (pmap CHE_ServerCertificateType unimplemented_parse)"
| "che_dispatch ET_Padding = Some (pmap CHE_Padding unimplemented_parse)"
| "che_dispatch ET_EarlyData = Some (pmap CHE_EarlyData unimplemented_parse)"
| "che_dispatch ET_Cookie = Some (pmap CHE_Cookie unimplemented_parse)"
| "che_dispatch ET_CertificateAuthorities =
     Some (pmap CHE_CertificateAuthorities unimplemented_parse)"
| "che_dispatch ET_OidFilters = Some (pmap CHE_OidFilters unimplemented_parse)"
| "che_dispatch ET_PostHandshakeAuth = Some (pmap CHE_PostHandshakeAuth unimplemented_parse)"
| "che_dispatch ET_CompressCertificate = None"

fun che_payload_encode :: "client_hello_extension \<Rightarrow> unit encoder" where
  "che_payload_encode (CHE_ServerName d) = server_name_list_encode d"
| "che_payload_encode (CHE_SupportedVersions d) = supported_versions_ch_encode d"
| "che_payload_encode (CHE_SignatureAlgorithms d) = signature_algorithms_encode d"
| "che_payload_encode (CHE_SupportedGroups d) = supported_groups_encode d"
| "che_payload_encode (CHE_KeyShare d) = key_share_client_hello_encode d"
| "che_payload_encode (CHE_PreSharedKey d) = psk_ch_encode d"
| "che_payload_encode (CHE_PskKeyExchangeModes d) = psk_modes_encode d"
| "che_payload_encode (CHE_SignatureAlgorithmsCert d) = signature_algorithms_cert_encode d"
| "che_payload_encode (CHE_MaxFragmentLength d) = max_fragment_length_encode d"
| "che_payload_encode (CHE_StatusRequest d) = unimplemented_encode d"
| "che_payload_encode (CHE_UseSrtp d) = unimplemented_encode d"
| "che_payload_encode (CHE_Heartbeat d) = unimplemented_encode d"
| "che_payload_encode (CHE_ApplicationLayerProtocolNegotiation d) = alpn_encode d"
| "che_payload_encode (CHE_SignedCertificateTimestamp d) = unimplemented_encode d"
| "che_payload_encode (CHE_ClientCertificateType d) = unimplemented_encode d"
| "che_payload_encode (CHE_ServerCertificateType d) = unimplemented_encode d"
| "che_payload_encode (CHE_Padding d) = unimplemented_encode d"
| "che_payload_encode (CHE_EarlyData d) = unimplemented_encode d"
| "che_payload_encode (CHE_Cookie d) = unimplemented_encode d"
| "che_payload_encode (CHE_CertificateAuthorities d) = unimplemented_encode d"
| "che_payload_encode (CHE_OidFilters d) = unimplemented_encode d"
| "che_payload_encode (CHE_PostHandshakeAuth d) = unimplemented_encode d"

definition che_encode :: "client_hello_extension \<Rightarrow> unit encoder" where
  "che_encode e = extension_encode (che_type e) (che_payload_encode e)"

datatype server_hello_extension =
    SHE_KeyShare key_share_entry
  | SHE_PreSharedKey u16
  | SHE_Cookie bytes
  | SHE_SupportedVersions protocol_version

fun she_type :: "server_hello_extension \<Rightarrow> extension_type" where
  "she_type (SHE_KeyShare _) = ET_KeyShare"
| "she_type (SHE_PreSharedKey _) = ET_PreSharedKey"
| "she_type (SHE_Cookie _) = ET_Cookie"
| "she_type (SHE_SupportedVersions _) = ET_SupportedVersions"

definition she_dispatch :: "extension_type \<Rightarrow> server_hello_extension parser option" where
  "she_dispatch t = (case t of
     ET_KeyShare \<Rightarrow> Some (pmap SHE_KeyShare key_share_server_hello_parse)
   | ET_PreSharedKey \<Rightarrow> Some (pmap SHE_PreSharedKey psk_sh_parse)
   | ET_Cookie \<Rightarrow> Some (pmap SHE_Cookie unimplemented_parse)
   | ET_SupportedVersions \<Rightarrow> Some (pmap SHE_SupportedVersions supported_versions_sh_parse)
   | _ \<Rightarrow> None)"

fun she_payload_encode :: "server_hello_extension \<Rightarrow> unit encoder" where
  "she_payload_encode (SHE_KeyShare d) = key_share_server_hello_encode d"
| "she_payload_encode (SHE_PreSharedKey d) = psk_sh_encode d"
| "she_payload_encode (SHE_Cookie d) = unimplemented_encode d"
| "she_payload_encode (SHE_SupportedVersions d) = supported_versions_sh_encode d"

definition she_encode :: "server_hello_extension \<Rightarrow> unit encoder" where
  "she_encode e = extension_encode (she_type e) (she_payload_encode e)"

datatype encrypted_extensions_extension =
    EEE_ServerName unit
  | EEE_MaxFragmentLength max_fragment_length
  | EEE_SupportedGroups "named_group list"
  | EEE_UseSrtp bytes
  | EEE_Heartbeat bytes
  | EEE_ApplicationLayerProtocolNegotiation "bytes list"
  | EEE_ClientCertificateType bytes
  | EEE_ServerCertificateType bytes
  | EEE_EarlyData bytes

fun eee_type :: "encrypted_extensions_extension \<Rightarrow> extension_type" where
  "eee_type (EEE_ServerName _) = ET_ServerName"
| "eee_type (EEE_MaxFragmentLength _) = ET_MaxFragmentLength"
| "eee_type (EEE_SupportedGroups _) = ET_SupportedGroups"
| "eee_type (EEE_UseSrtp _) = ET_UseSrtp"
| "eee_type (EEE_Heartbeat _) = ET_Heartbeat"
| "eee_type (EEE_ApplicationLayerProtocolNegotiation _) = ET_ApplicationLayerProtocolNegotiation"
| "eee_type (EEE_ClientCertificateType _) = ET_ClientCertificateType"
| "eee_type (EEE_ServerCertificateType _) = ET_ServerCertificateType"
| "eee_type (EEE_EarlyData _) = ET_EarlyData"

definition eee_dispatch :: "extension_type \<Rightarrow> encrypted_extensions_extension parser option" where
  "eee_dispatch t = (case t of
     ET_ServerName \<Rightarrow> Some (pmap EEE_ServerName server_name_response_parse)
   | ET_MaxFragmentLength \<Rightarrow> Some (pmap EEE_MaxFragmentLength max_fragment_length_parse)
   | ET_SupportedGroups \<Rightarrow> Some (pmap EEE_SupportedGroups (supported_groups_parse 13))
   | ET_UseSrtp \<Rightarrow> Some (pmap EEE_UseSrtp unimplemented_parse)
   | ET_Heartbeat \<Rightarrow> Some (pmap EEE_Heartbeat unimplemented_parse)
   | ET_ApplicationLayerProtocolNegotiation \<Rightarrow>
       Some (pmap EEE_ApplicationLayerProtocolNegotiation alpn_parse)
   | ET_ClientCertificateType \<Rightarrow> Some (pmap EEE_ClientCertificateType unimplemented_parse)
   | ET_ServerCertificateType \<Rightarrow> Some (pmap EEE_ServerCertificateType unimplemented_parse)
   | ET_EarlyData \<Rightarrow> Some (pmap EEE_EarlyData unimplemented_parse)
   | _ \<Rightarrow> None)"

fun eee_payload_encode :: "encrypted_extensions_extension \<Rightarrow> unit encoder" where
  "eee_payload_encode (EEE_ServerName _) = server_name_response_encode"
| "eee_payload_encode (EEE_MaxFragmentLength d) = max_fragment_length_encode d"
| "eee_payload_encode (EEE_SupportedGroups d) = supported_groups_encode d"
| "eee_payload_encode (EEE_UseSrtp d) = unimplemented_encode d"
| "eee_payload_encode (EEE_Heartbeat d) = unimplemented_encode d"
| "eee_payload_encode (EEE_ApplicationLayerProtocolNegotiation d) = alpn_encode d"
| "eee_payload_encode (EEE_ClientCertificateType d) = unimplemented_encode d"
| "eee_payload_encode (EEE_ServerCertificateType d) = unimplemented_encode d"
| "eee_payload_encode (EEE_EarlyData d) = unimplemented_encode d"

datatype certificate_request_extension =
    CRE_StatusRequest bytes
  | CRE_SignatureAlgorithms "signature_scheme list"
  | CRE_SignedCertificateTimestamp bytes
  | CRE_CertificateAuthorities bytes
  | CRE_OidFilters bytes
  | CRE_SignatureAlgorithmsCert bytes
  | CRE_CompressCertificate bytes

fun cre_type :: "certificate_request_extension \<Rightarrow> extension_type" where
  "cre_type (CRE_StatusRequest _) = ET_StatusRequest"
| "cre_type (CRE_SignatureAlgorithms _) = ET_SignatureAlgorithms"
| "cre_type (CRE_SignedCertificateTimestamp _) = ET_SignedCertificateTimestamp"
| "cre_type (CRE_CertificateAuthorities _) = ET_CertificateAuthorities"
| "cre_type (CRE_OidFilters _) = ET_OidFilters"
| "cre_type (CRE_SignatureAlgorithmsCert _) = ET_SignatureAlgorithmsCert"
| "cre_type (CRE_CompressCertificate _) = ET_CompressCertificate"

definition cre_dispatch :: "extension_type \<Rightarrow> certificate_request_extension parser option" where
  "cre_dispatch t = (case t of
     ET_StatusRequest \<Rightarrow> Some (pmap CRE_StatusRequest unimplemented_parse)
   | ET_SignatureAlgorithms \<Rightarrow> Some (pmap CRE_SignatureAlgorithms (signature_algorithms_parse 25))
   | ET_SignedCertificateTimestamp \<Rightarrow> Some (pmap CRE_SignedCertificateTimestamp unimplemented_parse)
   | ET_CertificateAuthorities \<Rightarrow> Some (pmap CRE_CertificateAuthorities unimplemented_parse)
   | ET_OidFilters \<Rightarrow> Some (pmap CRE_OidFilters unimplemented_parse)
   | ET_SignatureAlgorithmsCert \<Rightarrow> Some (pmap CRE_SignatureAlgorithmsCert unimplemented_parse)
   | ET_CompressCertificate \<Rightarrow> Some (pmap CRE_CompressCertificate unimplemented_parse)
   | _ \<Rightarrow> None)"

datatype certificate_extension =
    CTE_StatusRequest bytes
  | CTE_SignedCertificateTimestamp bytes

fun cte_type :: "certificate_extension \<Rightarrow> extension_type" where
  "cte_type (CTE_StatusRequest _) = ET_StatusRequest"
| "cte_type (CTE_SignedCertificateTimestamp _) = ET_SignedCertificateTimestamp"

definition cte_dispatch :: "extension_type \<Rightarrow> certificate_extension parser option" where
  "cte_dispatch t = (case t of
     ET_StatusRequest \<Rightarrow> Some (pmap CTE_StatusRequest unimplemented_parse)
   | ET_SignedCertificateTimestamp \<Rightarrow> Some (pmap CTE_SignedCertificateTimestamp unimplemented_parse)
   | _ \<Rightarrow> None)"

fun cte_payload_encode :: "certificate_extension \<Rightarrow> unit encoder" where
  "cte_payload_encode (CTE_StatusRequest d) = unimplemented_encode d"
| "cte_payload_encode (CTE_SignedCertificateTimestamp d) = unimplemented_encode d"

datatype new_session_ticket_extension = NSTE_EarlyData bytes

fun nste_type :: "new_session_ticket_extension \<Rightarrow> extension_type" where
  "nste_type (NSTE_EarlyData _) = ET_EarlyData"

definition nste_dispatch :: "extension_type \<Rightarrow> new_session_ticket_extension parser option" where
  "nste_dispatch t = (case t of
     ET_EarlyData \<Rightarrow> Some (pmap NSTE_EarlyData unimplemented_parse)
   | _ \<Rightarrow> None)"

datatype hello_retry_request_extension =
    HRRE_KeyShare bytes
  | HRRE_Cookie bytes
  | HRRE_SupportedVersions bytes

fun hrre_type :: "hello_retry_request_extension \<Rightarrow> extension_type" where
  "hrre_type (HRRE_KeyShare _) = ET_KeyShare"
| "hrre_type (HRRE_Cookie _) = ET_Cookie"
| "hrre_type (HRRE_SupportedVersions _) = ET_SupportedVersions"

definition hrre_dispatch :: "extension_type \<Rightarrow> hello_retry_request_extension parser option" where
  "hrre_dispatch t = (case t of
     ET_KeyShare \<Rightarrow> Some (pmap HRRE_KeyShare unimplemented_parse)
   | ET_Cookie \<Rightarrow> Some (pmap HRRE_Cookie unimplemented_parse)
   | ET_SupportedVersions \<Rightarrow> Some (pmap HRRE_SupportedVersions unimplemented_parse)
   | _ \<Rightarrow> None)"

section \<open>The contract of a group\<close>

definition extension_bytes :: "u16 \<Rightarrow> bytes \<Rightarrow> bytes" where
  "extension_bytes code payload = be16 code @ vec16 payload"

text \<open>
  One extension as a peer may send it: one of the group's own, or one with a code this library does
  not know.
\<close>

datatype 'x wire_extension = Known 'x | Unknown u16 bytes

fun known_extensions :: "'x wire_extension list \<Rightarrow> 'x list" where
  "known_extensions [] = []"
| "known_extensions (Known x # es) = x # known_extensions es"
| "known_extensions (Unknown c p # es) = known_extensions es"

definition wire_bytes :: "('x \<Rightarrow> extension_type) \<Rightarrow> ('x \<Rightarrow> bytes) \<Rightarrow> 'x wire_extension \<Rightarrow> bytes" where
  "wire_bytes ty wire e = (case e of
     Known x \<Rightarrow> extension_bytes (extension_type_code (ty x)) (wire x)
   | Unknown c p \<Rightarrow> extension_bytes c p)"

definition wire_ok :: "('x \<Rightarrow> bool) \<Rightarrow> 'x wire_extension \<Rightarrow> bool" where
  "wire_ok ok e = (case e of
     Known x \<Rightarrow> ok x
   | Unknown c p \<Rightarrow> extension_type_of c = None \<and> length p < 2 ^ 16)"

lemma extension_type_of_code [simp]: "extension_type_of (extension_type_code t) = Some t"
  by (cases t) (simp_all add: extension_type_of_def)

lemma extension_type_code_of: "extension_type_of c = Some t \<Longrightarrow> extension_type_code t = c"
  by (auto simp: extension_type_of_def split: if_splits)

lemma wf_extension_type_parse [wf_parsers]: "wf_parser extension_type_parse"
  unfolding extension_type_parse_def by (intro wf_parsers) simp

lemma wf_pmap [wf_parsers]: "wf_parser p \<Longrightarrow> wf_parser (pmap f p)"
  unfolding pmap_def by (intro wf_parsers)

lemma pmap_fst: "fst (p b) = Ok a \<Longrightarrow> fst (pmap f p b) = Ok (f a)"
  by (cases "p b") (simp add: pmap_def bind_apply)

lemma pmap_OkD: "pmap f p b = (Ok x, b') \<Longrightarrow> \<exists>a. x = f a \<and> p b = (Ok a, b')"
  by (auto simp: pmap_def elim!: bind_OkE)

lemma encodes_extension [encodes_rules]:
  "encodes payload bs \<Longrightarrow>
   encodes (extension_encode t payload) (extension_bytes (extension_type_code t) bs)"
  unfolding extension_encode_def extension_bytes_def extension_type_encode_def
  by (intro encodes_rules)

lemma extension_bytes_nonempty [simp]: "extension_bytes c p \<noteq> []"
  by (simp add: extension_bytes_def)

lemma length_extension_bytes [simp]: "length (extension_bytes c p) = 4 + length p"
  by (simp add: extension_bytes_def)

lemma wire_bytes_nonempty [simp]: "wire_bytes ty wire e \<noteq> []"
  by (simp add: wire_bytes_def split: wire_extension.split)

text \<open>How one extension is read, whatever its type.\<close>

lemma extension_parse_run:
  assumes "length payload < 2 ^ 16"
  shows "extension_parse dispatch
      \<lparr>pos = length pre, buffer = pre @ extension_bytes c payload @ post\<rparr> =
     ((case extension_type_of c of
         None \<Rightarrow> Err UnknownExtensionType
       | Some t \<Rightarrow> (case dispatch t of
           None \<Rightarrow> Err (fatal AD_IllegalParameter)
         | Some p \<Rightarrow> map_err_result (\<lambda>_. DecodeError) (fst (p (pb_new payload))))),
      \<lparr>pos = length pre + length (extension_bytes c payload),
       buffer = pre @ extension_bytes c payload @ post\<rparr>)" (is "_ = (?r, _)")
proof -
  have len: "unat (word_of_nat (length payload) :: u16) = length payload"
    using assms by (simp add: unat_word_of_nat)
  have 1: "extension_type_parse \<lparr>pos = length pre, buffer = pre @ be16 c @ vec16 payload @ post\<rparr> =
      (ok_or PInvalidData (extension_type_of c),
       \<lparr>pos = length pre + 2, buffer = pre @ be16 c @ vec16 payload @ post\<rparr>)"
    using parsesD [OF parses_read_u16, of pre c "vec16 payload @ post"]
    by (simp add: extension_type_parse_def bind_apply)
  have 2: "read_u16 \<lparr>pos = length pre + 2, buffer = pre @ be16 c @ vec16 payload @ post\<rparr> =
      (Ok (word_of_nat (length payload)),
       \<lparr>pos = length pre + 4, buffer = pre @ be16 c @ vec16 payload @ post\<rparr>)"
    using parsesD [OF parses_read_u16, of "pre @ be16 c" "word_of_nat (length payload)" "payload @ post"]
    by (simp add: vec16_def)
  have 3: "pb_slice (length payload)
       \<lparr>pos = length pre + 4, buffer = pre @ be16 c @ vec16 payload @ post\<rparr> =
      (Ok payload, \<lparr>pos = length pre + 4 + length payload,
                    buffer = pre @ be16 c @ vec16 payload @ post\<rparr>)"
    using parsesD [OF parses_pb_slice [OF refl, of payload], of
        "pre @ be16 c @ be16 (word_of_nat (length payload))" post]
    by (simp add: vec16_def)
  show ?thesis
    using 2 3 unfolding extension_parse_def extension_bytes_def append_assoc 1
    by (simp add: bind_apply map_err_apply len split: option.split)
qed

locale extension_group =
  fixes dispatch :: "extension_type \<Rightarrow> 'x parser option"
    and ty :: "'x \<Rightarrow> extension_type"
    and wire :: "'x \<Rightarrow> bytes"
    and ok :: "'x \<Rightarrow> bool"
  assumes dispatch_wf: "dispatch t = Some p \<Longrightarrow> wf_parser p"
    and dispatch_type: "dispatch t = Some p \<Longrightarrow> p b = (Ok x, b') \<Longrightarrow> ty x = t"
    and dispatch_wire: "ok x \<Longrightarrow> \<exists>p. dispatch (ty x) = Some p \<and> fst (p (pb_new (wire x))) = Ok x"
    and wire_fits: "ok x \<Longrightarrow> length (wire x) < 2 ^ 16"
begin

lemma wf_extension_parse: "wf_parser (extension_parse dispatch)"
proof (rule wf_parserI)
  fix b r b' assume b: "pb_inv b" and run: "extension_parse dispatch b = (r, b')"
  obtain t b1 where t: "extension_type_parse b = (t, b1)" by fastforce
  note T = wf_parserD [OF wf_extension_type_parse b t]
  have cont: "wf_parser (bind (map_err (\<lambda>_. DecodeError) read_u16) (\<lambda>data_len.
       bind (map_err (\<lambda>_. DecodeError) (pb_slice (unat data_len))) (\<lambda>ext_data.
       bind (lift_result (map_err_result extension_type_error t)) (\<lambda>ext_type.
       case dispatch ext_type of
         Some p \<Rightarrow> lift_result (map_err_result (\<lambda>_. DecodeError) (fst (p (pb_new ext_data))))
       | None \<Rightarrow> throw (fatal AD_IllegalParameter)))))"
  proof (intro wf_parsers)
    show "map_err_result extension_type_error t \<noteq> Panic" using T(1) by simp
  next
    fix d ext_data ext_type
    show "wf_parser (case dispatch ext_type of
         Some p \<Rightarrow> lift_result (map_err_result (\<lambda>_. DecodeError) (fst (p (pb_new ext_data))))
       | None \<Rightarrow> throw (fatal AD_IllegalParameter))"
    proof (cases "dispatch ext_type")
      case (Some p)
      then have "fst (p (pb_new ext_data)) \<noteq> Panic"
        using wf_parserD(1) [OF dispatch_wf [OF Some] pb_inv_new]
        by (cases "p (pb_new ext_data)") auto
      with Some show ?thesis by (auto intro!: wf_parsers)
    qed (simp add: wf_throw)
  qed
  from wf_parserD [OF cont T(4)] run t T(2,3)
  show "r \<noteq> Panic \<and> buffer b' = buffer b \<and> pos b \<le> pos b' \<and> pos b' \<le> length (buffer b)"
    by (fastforce simp: extension_parse_def pb_inv_def)
qed

lemma vector_loop_no_panic: "pb_inv b \<Longrightarrow> extension_vector_loop dispatch n acc b \<noteq> Panic"
proof (induction "remaining b" arbitrary: acc b rule: less_induct)
  case less
  obtain r b' where run: "extension_parse dispatch b = (r, b')" by fastforce
  note R = wf_parserD [OF wf_extension_parse less.prems run]
  note dec = extension_parse_decreases [OF run]
  show ?case
  proof (cases r)
    case (Ok x)
    then show ?thesis using less.hyps [OF dec [of x] R(4)] run
      by (subst extension_vector_loop.simps) simp
  next
    case (Err e)
    then show ?thesis using less.hyps [OF dec R(4)] run
      by (subst extension_vector_loop.simps) simp
  qed (use R in simp)
qed

lemma wf_parse_vector: "wf_parser (extension_parse_vector dispatch n)"
  unfolding extension_parse_vector_def
  by (intro wf_parsers vector_loop_no_panic pb_inv_new)

lemma extension_parse_wire:
  assumes "ok x"
  shows "parses (extension_parse dispatch) (extension_bytes (extension_type_code (ty x)) (wire x)) x"
proof (rule parsesI)
  fix pre post
  obtain p where "dispatch (ty x) = Some p" "fst (p (pb_new (wire x))) = Ok x"
    using dispatch_wire [OF assms] by blast
  then show "extension_parse dispatch \<lparr>pos = length pre,
      buffer = pre @ extension_bytes (extension_type_code (ty x)) (wire x) @ post\<rparr> =
    (Ok x, \<lparr>pos = length pre + length (extension_bytes (extension_type_code (ty x)) (wire x)),
      buffer = pre @ extension_bytes (extension_type_code (ty x)) (wire x) @ post\<rparr>)"
    using extension_parse_run [OF wire_fits [OF assms], of dispatch pre
        "extension_type_code (ty x)" post] by simp
qed

lemma vector_loop_wire:
  assumes "list_all (wire_ok ok) es" and "length acc + length (known_extensions es) \<le> n"
  shows "extension_vector_loop dispatch n acc
     \<lparr>pos = length pre, buffer = pre @ concat (map (wire_bytes ty wire) es)\<rparr> = Ok (acc @ known_extensions es)"
  using assms
proof (induction es arbitrary: acc pre)
  case Nil
  then show ?case by (subst extension_vector_loop.simps) (simp add: is_empty_def)
next
  case (Cons e es)
  let ?b = "\<lparr>pos = length pre, buffer = pre @ wire_bytes ty wire e @ concat (map (wire_bytes ty wire) es)\<rparr>"
  let ?b' = "\<lparr>pos = length (pre @ wire_bytes ty wire e),
    buffer = (pre @ wire_bytes ty wire e) @ concat (map (wire_bytes ty wire) es)\<rparr>"
  have ne: "\<not> is_empty ?b" by (simp add: is_empty_def)
  show ?case
  proof (cases e)
    case (Known x)
    then have "extension_parse dispatch ?b = (Ok x, ?b')"
      using extension_parse_wire [of x] Cons.prems
      by (simp add: parses_def wire_ok_def wire_bytes_def)
    with Known ne Cons.IH [of "acc @ [x]" "pre @ wire_bytes ty wire e"] Cons.prems show ?thesis
      by (subst extension_vector_loop.simps) simp
  next
    case (Unknown c p)
    then have "extension_parse dispatch ?b = (Err UnknownExtensionType, ?b')"
      using extension_parse_run [of p dispatch pre c] Cons.prems
      by (simp add: wire_ok_def wire_bytes_def)
    with Unknown ne Cons.IH [of acc "pre @ wire_bytes ty wire e"] Cons.prems show ?thesis
      by (subst extension_vector_loop.simps) simp
  qed
qed

lemma parses_vector_wire:
  assumes "list_all (wire_ok ok) es" and "length (known_extensions es) \<le> n"
    and "length (concat (map (wire_bytes ty wire) es)) < 2 ^ 16"
  shows "parses (extension_parse_vector dispatch n) (vec16 (concat (map (wire_bytes ty wire) es)))
     (known_extensions es)"
proof -
  have run: "extension_vector_loop dispatch n [] (pb_new (concat (map (wire_bytes ty wire) es))) =
      Ok (known_extensions es)"
    using vector_loop_wire [OF assms(1), of "[]" n "[]"] assms(2) by (simp add: pb_new_def)
  have len: "unat (word_of_nat (length (concat (map (wire_bytes ty wire) es))) :: u16) =
      length (concat (map (wire_bytes ty wire) es))"
    using assms(3) by (simp add: unat_word_of_nat)
  show ?thesis
    unfolding extension_parse_vector_def vec16_def
    by (rule parses_bind [OF parses_map_err [OF parses_read_u16]],
        rule parses_bind_last [OF parses_from_parse [OF parses_pb_slice]])
      (simp_all add: run len)
qed

end

section \<open>The groups meet the contract\<close>

text \<open>
  The complete payload of each extension on the wire.  For \<open>pre_shared_key\<close> this is the payload with
  the binders in place and zero ticket ages; the encoder itself leaves room for the binders.
\<close>

fun che_wire :: "client_hello_extension \<Rightarrow> bytes" where
  "che_wire (CHE_ServerName d) = vec16 (concat (map server_name_bytes d))"
| "che_wire (CHE_SupportedVersions d) = vec8 (concat (map be16 d))"
| "che_wire (CHE_SignatureAlgorithms d) = vec16 (concat (map (\<lambda>a. be16 (signature_scheme_code a)) d))"
| "che_wire (CHE_SupportedGroups d) = vec16 (concat (map (\<lambda>g. be16 (named_group_code g)) d))"
| "che_wire (CHE_KeyShare d) = vec16 (concat (map key_share_entry_bytes d))"
| "che_wire (CHE_PreSharedKey d) =
     psk_ch_bytes (map (\<lambda>i. (i, 0)) (psk_identities d)) (psk_binders d)"
| "che_wire (CHE_PskKeyExchangeModes d) = vec8 (map psk_mode_code d)"
| "che_wire (CHE_SignatureAlgorithmsCert d) =
     vec16 (concat (map (\<lambda>a. be16 (signature_scheme_code a)) d))"
| "che_wire (CHE_MaxFragmentLength d) = [max_fragment_length_code d]"
| "che_wire (CHE_StatusRequest d) = d"
| "che_wire (CHE_UseSrtp d) = d"
| "che_wire (CHE_Heartbeat d) = d"
| "che_wire (CHE_ApplicationLayerProtocolNegotiation d) = vec16 (concat (map alpn_name_bytes d))"
| "che_wire (CHE_SignedCertificateTimestamp d) = d"
| "che_wire (CHE_ClientCertificateType d) = d"
| "che_wire (CHE_ServerCertificateType d) = d"
| "che_wire (CHE_Padding d) = d"
| "che_wire (CHE_EarlyData d) = d"
| "che_wire (CHE_Cookie d) = d"
| "che_wire (CHE_CertificateAuthorities d) = d"
| "che_wire (CHE_OidFilters d) = d"
| "che_wire (CHE_PostHandshakeAuth d) = d"

text \<open>The extensions the parser accepts: within the capacities, and an ALPN list that it keeps.\<close>

definition che_ok :: "client_hello_extension \<Rightarrow> bool" where
  "che_ok e \<longleftrightarrow> length (che_wire e) < 2 ^ 16 \<and> (case e of
     CHE_ServerName d \<Rightarrow> length d \<le> 1 \<and>
       list_all (\<lambda>s. length (sn_name s) < 2 ^ 16 \<and> is_ascii (sn_name s)) d
   | CHE_SupportedVersions d \<Rightarrow> length d \<le> 1
   | CHE_SignatureAlgorithms d \<Rightarrow> length d \<le> 25
   | CHE_SupportedGroups d \<Rightarrow> length d \<le> 13
   | CHE_KeyShare d \<Rightarrow> length d \<le> 4 \<and> list_all (\<lambda>e. length (ks_opaque e) < 2 ^ 16) d
   | CHE_PreSharedKey d \<Rightarrow>
       psk_ch_ok 4 (map (\<lambda>i. (i, 0)) (psk_identities d)) (psk_binders d) (psk_hash_size d)
   | CHE_PskKeyExchangeModes d \<Rightarrow> length d \<le> 4
   | CHE_SignatureAlgorithmsCert d \<Rightarrow> length d \<le> 25
   | CHE_ApplicationLayerProtocolNegotiation d \<Rightarrow> d = []
   | _ \<Rightarrow> True)"

lemma parses_fst: "parses p bs v \<Longrightarrow> fst (p (pb_new bs)) = Ok v"
  by (simp add: parses_new_all)

lemma pmap_parses: "parses p bs v \<Longrightarrow> fst (pmap f p (pb_new bs)) = Ok (f v)"
  by (intro pmap_fst parses_fst)

lemma unimplemented_fst: "fst (pmap f unimplemented_parse (pb_new d)) = Ok (f d)"
  by (rule pmap_fst) (simp add: unimplemented_parse_def)

lemma alpn_fst: "fst (pmap f alpn_parse (pb_new (vec16 []))) = Ok (f [])"
proof -
  have "alpn_loop (pb_new []) = Ok ()"
    by (subst alpn_loop.simps) (simp add: is_empty_def)
  then have "parses alpn_parse (vec16 []) []"
    unfolding alpn_parse_def
    by (intro parses_vec16 parses_bind_last [OF parses_pb_slice])
      (simp_all add: return_def bind_def)
  then show ?thesis by (rule pmap_parses)
qed

lemma record_eta_psk [simp]:
  "\<lparr>psk_identities = psk_identities d, psk_binders = psk_binders d, psk_hash_size = psk_hash_size d\<rparr> = d"
  by simp

lemma che_dispatch_wire:
  "che_ok x \<Longrightarrow> \<exists>p. che_dispatch (che_type x) = Some p \<and> fst (p (pb_new (che_wire x))) = Ok x"
proof (cases x)
  case (CHE_PreSharedKey d)
  moreover assume "che_ok x"
  ultimately have "parses (psk_ch_parse 4) (che_wire x) d"
    using parses_psk_ch [of 4 "map (\<lambda>i. (i, 0)) (psk_identities d)" "psk_binders d"
        "psk_hash_size d"]
    by (simp add: che_ok_def comp_def)
  with CHE_PreSharedKey show ?thesis by (auto intro!: pmap_parses)
qed (auto simp: che_ok_def unimplemented_fst alpn_fst intro!: pmap_parses
      parses_server_name_list parses_supported_versions_ch parses_signature_algorithms
      parses_supported_groups parses_key_share_client_hello parses_psk_modes
      parses_signature_algorithms_cert parses_max_fragment_length)

lemma che_dispatch_wf: "che_dispatch t = Some p \<Longrightarrow> wf_parser p"
  by (cases t) (auto intro!: wf_parsers)

lemma che_dispatch_type:
  "che_dispatch t = Some p \<Longrightarrow> p b = (Ok x, b') \<Longrightarrow> che_type x = t"
  by (cases t) (auto dest!: pmap_OkD)

interpretation che: extension_group che_dispatch che_type che_wire che_ok
  by unfold_locales
    (simp_all add: che_dispatch_wf che_dispatch_type che_dispatch_wire, simp add: che_ok_def)

text \<open>The encoder writes the complete payload of every extension but \<open>pre_shared_key\<close>.\<close>

fun che_written :: "client_hello_extension \<Rightarrow> bytes" where
  "che_written (CHE_PreSharedKey d) = psk_ch_placeholder (psk_identities d) (psk_hash_size d)"
| "che_written e = che_wire e"

lemma encodes_che [encodes_rules]:
  "encodes (che_encode e) (extension_bytes (extension_type_code (che_type e)) (che_written e))"
proof -
  have "encodes (che_payload_encode e) (che_written e)"
    by (cases e) (auto intro!: encodes_rules)
  then show ?thesis unfolding che_encode_def by (rule encodes_extension)
qed

fun she_wire :: "server_hello_extension \<Rightarrow> bytes" where
  "she_wire (SHE_KeyShare d) = key_share_entry_bytes d"
| "she_wire (SHE_PreSharedKey d) = be16 d"
| "she_wire (SHE_Cookie d) = d"
| "she_wire (SHE_SupportedVersions d) = be16 d"

definition she_ok :: "server_hello_extension \<Rightarrow> bool" where
  "she_ok e \<longleftrightarrow> length (she_wire e) < 2 ^ 16"

lemma key_share_entry_bytes_fits:
  "length (key_share_entry_bytes e) < 65536 \<Longrightarrow> length (ks_opaque e) < 65536"
  by (simp add: key_share_entry_bytes_def)

lemma she_dispatch_wire:
  "she_ok x \<Longrightarrow> \<exists>p. she_dispatch (she_type x) = Some p \<and> fst (p (pb_new (she_wire x))) = Ok x"
  by (cases x) (auto simp: she_ok_def she_dispatch_def unimplemented_fst
      key_share_server_hello_parse_def psk_sh_parse_def supported_versions_sh_parse_def
      intro!: pmap_parses parses_rules dest: key_share_entry_bytes_fits)

interpretation she: extension_group she_dispatch she_type she_wire she_ok
proof unfold_locales
  show "she_dispatch t = Some p \<Longrightarrow> wf_parser p" for t p
    by (cases t) (auto simp: she_dispatch_def intro!: wf_parsers)
  show "she_dispatch t = Some p \<Longrightarrow> p b = (Ok x, b') \<Longrightarrow> she_type x = t" for t p b x b'
    by (cases t) (auto simp: she_dispatch_def dest!: pmap_OkD)
qed (simp_all add: she_dispatch_wire, simp add: she_ok_def)

lemma encodes_she [encodes_rules]:
  "encodes (she_encode e) (extension_bytes (extension_type_code (she_type e)) (she_wire e))"
proof -
  have "encodes (she_payload_encode e) (she_wire e)"
    by (cases e) (auto intro!: encodes_rules)
  then show ?thesis unfolding she_encode_def by (rule encodes_extension)
qed

fun eee_wire :: "encrypted_extensions_extension \<Rightarrow> bytes" where
  "eee_wire (EEE_ServerName _) = []"
| "eee_wire (EEE_MaxFragmentLength d) = [max_fragment_length_code d]"
| "eee_wire (EEE_SupportedGroups d) = vec16 (concat (map (\<lambda>g. be16 (named_group_code g)) d))"
| "eee_wire (EEE_UseSrtp d) = d"
| "eee_wire (EEE_Heartbeat d) = d"
| "eee_wire (EEE_ApplicationLayerProtocolNegotiation d) = vec16 (concat (map alpn_name_bytes d))"
| "eee_wire (EEE_ClientCertificateType d) = d"
| "eee_wire (EEE_ServerCertificateType d) = d"
| "eee_wire (EEE_EarlyData d) = d"

definition eee_ok :: "encrypted_extensions_extension \<Rightarrow> bool" where
  "eee_ok e \<longleftrightarrow> length (eee_wire e) < 2 ^ 16 \<and> (case e of
     EEE_SupportedGroups d \<Rightarrow> length d \<le> 13
   | EEE_ApplicationLayerProtocolNegotiation d \<Rightarrow> d = []
   | _ \<Rightarrow> True)"

lemma server_name_response_fst: "fst (pmap f server_name_response_parse (pb_new [])) = Ok (f ())"
  by (rule pmap_fst) (simp add: server_name_response_parse_def bind_apply is_empty_def)

lemma eee_dispatch_wire:
  "eee_ok x \<Longrightarrow> \<exists>p. eee_dispatch (eee_type x) = Some p \<and> fst (p (pb_new (eee_wire x))) = Ok x"
  by (cases x) (auto simp: eee_ok_def eee_dispatch_def unimplemented_fst alpn_fst
      server_name_response_fst intro!: pmap_parses parses_max_fragment_length
      parses_supported_groups)

interpretation eee: extension_group eee_dispatch eee_type eee_wire eee_ok
proof unfold_locales
  show "eee_dispatch t = Some p \<Longrightarrow> wf_parser p" for t p
    by (cases t) (auto simp: eee_dispatch_def intro!: wf_parsers)
  show "eee_dispatch t = Some p \<Longrightarrow> p b = (Ok x, b') \<Longrightarrow> eee_type x = t" for t p b x b'
    by (cases t) (auto simp: eee_dispatch_def dest!: pmap_OkD)
qed (simp_all add: eee_dispatch_wire, simp add: eee_ok_def)

fun cre_wire :: "certificate_request_extension \<Rightarrow> bytes" where
  "cre_wire (CRE_StatusRequest d) = d"
| "cre_wire (CRE_SignatureAlgorithms d) = vec16 (concat (map (\<lambda>a. be16 (signature_scheme_code a)) d))"
| "cre_wire (CRE_SignedCertificateTimestamp d) = d"
| "cre_wire (CRE_CertificateAuthorities d) = d"
| "cre_wire (CRE_OidFilters d) = d"
| "cre_wire (CRE_SignatureAlgorithmsCert d) = d"
| "cre_wire (CRE_CompressCertificate d) = d"

definition cre_ok :: "certificate_request_extension \<Rightarrow> bool" where
  "cre_ok e \<longleftrightarrow> length (cre_wire e) < 2 ^ 16 \<and> (case e of
     CRE_SignatureAlgorithms d \<Rightarrow> length d \<le> 25 | _ \<Rightarrow> True)"

interpretation cre: extension_group cre_dispatch cre_type cre_wire cre_ok
proof unfold_locales
  show "cre_dispatch t = Some p \<Longrightarrow> wf_parser p" for t p
    by (cases t) (auto simp: cre_dispatch_def intro!: wf_parsers)
  show "cre_dispatch t = Some p \<Longrightarrow> p b = (Ok x, b') \<Longrightarrow> cre_type x = t" for t p b x b'
    by (cases t) (auto simp: cre_dispatch_def dest!: pmap_OkD)
  show "\<exists>p. cre_dispatch (cre_type x) = Some p \<and> fst (p (pb_new (cre_wire x))) = Ok x"
    if "cre_ok x" for x
    using that by (cases x) (auto simp: cre_ok_def cre_dispatch_def unimplemented_fst
        intro!: pmap_parses parses_signature_algorithms)
qed (simp add: cre_ok_def)

fun cte_wire :: "certificate_extension \<Rightarrow> bytes" where
  "cte_wire (CTE_StatusRequest d) = d"
| "cte_wire (CTE_SignedCertificateTimestamp d) = d"

interpretation cte: extension_group cte_dispatch cte_type cte_wire "\<lambda>e. length (cte_wire e) < 2 ^ 16"
proof unfold_locales
  show "cte_dispatch t = Some p \<Longrightarrow> wf_parser p" for t p
    by (cases t) (auto simp: cte_dispatch_def intro!: wf_parsers)
  show "cte_dispatch t = Some p \<Longrightarrow> p b = (Ok x, b') \<Longrightarrow> cte_type x = t" for t p b x b'
    by (cases t) (auto simp: cte_dispatch_def dest!: pmap_OkD)
  show "\<exists>p. cte_dispatch (cte_type x) = Some p \<and> fst (p (pb_new (cte_wire x))) = Ok x"
    if "length (cte_wire x) < 2 ^ 16" for x
    by (cases x) (auto simp: cte_dispatch_def unimplemented_fst)
qed

interpretation nste: extension_group nste_dispatch nste_type "\<lambda>e. case e of NSTE_EarlyData d \<Rightarrow> d"
    "\<lambda>e. case e of NSTE_EarlyData d \<Rightarrow> length d < 2 ^ 16"
proof unfold_locales
  show "nste_dispatch t = Some p \<Longrightarrow> wf_parser p" for t p
    by (cases t) (auto simp: nste_dispatch_def intro!: wf_parsers)
  show "nste_dispatch t = Some p \<Longrightarrow> p b = (Ok x, b') \<Longrightarrow> nste_type x = t" for t p b x b'
    by (cases t) (auto simp: nste_dispatch_def dest!: pmap_OkD)
  show "\<exists>p. nste_dispatch (nste_type x) = Some p \<and>
      fst (p (pb_new (case x of NSTE_EarlyData d \<Rightarrow> d))) = Ok x" for x
    by (cases x) (auto simp: nste_dispatch_def unimplemented_fst)
qed (simp split: new_session_ticket_extension.splits)

fun hrre_wire :: "hello_retry_request_extension \<Rightarrow> bytes" where
  "hrre_wire (HRRE_KeyShare d) = d"
| "hrre_wire (HRRE_Cookie d) = d"
| "hrre_wire (HRRE_SupportedVersions d) = d"

interpretation hrre: extension_group hrre_dispatch hrre_type hrre_wire
    "\<lambda>e. length (hrre_wire e) < 2 ^ 16"
proof unfold_locales
  show "hrre_dispatch t = Some p \<Longrightarrow> wf_parser p" for t p
    by (cases t) (auto simp: hrre_dispatch_def intro!: wf_parsers)
  show "hrre_dispatch t = Some p \<Longrightarrow> p b = (Ok x, b') \<Longrightarrow> hrre_type x = t" for t p b x b'
    by (cases t) (auto simp: hrre_dispatch_def dest!: pmap_OkD)
  show "\<exists>p. hrre_dispatch (hrre_type x) = Some p \<and> fst (p (pb_new (hrre_wire x))) = Ok x" for x
    by (cases x) (auto simp: hrre_dispatch_def unimplemented_fst)
qed

end
