(* ===== verification/Crypto.thy ===== *)
theory Crypto
  imports Wire_Types
begin

text \<open>
  The interface to the cryptographic crates.  \<open>TlsCipherSuite\<close> of src/config.rs bundles a hash, an
  AEAD cipher and their sizes; here it is the record \<open>cipher_suite_params\<close>, whose function fields are
  the third-party primitives and so parameters of the development.  A running digest is the list of
  bytes fed to it.  \<open>crypto_laws\<close> states the documented behaviour of the primitives the proofs rely
  on: output lengths, that HKDF-Expand succeeds up to its limit, and that the AEAD opens what it
  sealed.  No law speaks about secrecy or forgery.  \<open>toy_suite\<close> satisfies the laws and is the concrete
  instance used by the witnesses.
\<close>

section \<open>Cipher suites as parameters\<close>

record cipher_suite_params =
  code_point :: u16
  key_len :: nat
  iv_len :: nat
  tag_len :: nat
  hash_len :: nat
  hash :: "bytes \<Rightarrow> bytes"
  hmac :: "bytes \<Rightarrow> bytes \<Rightarrow> bytes"
  hkdf_extract :: "bytes \<Rightarrow> bytes \<Rightarrow> bytes"
  hkdf_expand :: "bytes \<Rightarrow> bytes \<Rightarrow> nat \<Rightarrow> bytes option"
  aead_seal :: "bytes \<Rightarrow> bytes \<Rightarrow> bytes \<Rightarrow> bytes \<Rightarrow> (bytes \<times> bytes) option"
  aead_open :: "bytes \<Rightarrow> bytes \<Rightarrow> bytes \<Rightarrow> bytes \<Rightarrow> bytes \<Rightarrow> bytes option"

text \<open>\<open>LabelBufferSize\<close>: the hash output plus the longest label (12) and the overhead (10).\<close>

definition label_buffer_size :: "cipher_suite_params \<Rightarrow> nat" where
  "label_buffer_size C = hash_len C + (12 + 10)"

text \<open>The sizes of the two suites the library defines.\<close>

definition aes_128_gcm_sha256 :: "cipher_suite_params \<Rightarrow> bool" where
  "aes_128_gcm_sha256 C \<longleftrightarrow> code_point C = cipher_suite_code TlsAes128GcmSha256 \<and>
     key_len C = 16 \<and> iv_len C = 12 \<and> hash_len C = 32 \<and> tag_len C = 16"

definition aes_256_gcm_sha384 :: "cipher_suite_params \<Rightarrow> bool" where
  "aes_256_gcm_sha384 C \<longleftrightarrow> code_point C = cipher_suite_code TlsAes256GcmSha384 \<and>
     key_len C = 32 \<and> iv_len C = 12 \<and> hash_len C = 48 \<and> tag_len C = 16"

section \<open>Laws of the primitives\<close>

definition hash_laws :: "cipher_suite_params \<Rightarrow> bool" where
  "hash_laws C \<longleftrightarrow>
     (\<forall>m. length (hash C m) = hash_len C) \<and>
     (\<forall>k m. length (hmac C k m) = hash_len C) \<and>
     (\<forall>salt ikm. length (hkdf_extract C salt ikm) = hash_len C) \<and>
     (\<forall>prk info n. n \<le> 255 * hash_len C \<longrightarrow>
        (\<exists>okm. hkdf_expand C prk info n = Some okm \<and> length okm = n))"

text \<open>
  Sealing succeeds for every plaintext a record can hold, keeps the length, and opening with the
  same key, nonce and associated data gives the plaintext back.
\<close>

definition aead_laws :: "cipher_suite_params \<Rightarrow> bool" where
  "aead_laws C \<longleftrightarrow>
     (\<forall>k n aad pt. length pt < 2 ^ 16 \<longrightarrow>
        (\<exists>ct tag. aead_seal C k n aad pt = Some (ct, tag) \<and>
           length ct = length pt \<and> length tag = tag_len C \<and>
           aead_open C k n aad ct tag = Some pt)) \<and>
     (\<forall>k n aad ct tag pt. aead_open C k n aad ct tag = Some pt \<longrightarrow> length pt = length ct)"

definition suite_sizes :: "cipher_suite_params \<Rightarrow> bool" where
  "suite_sizes C \<longleftrightarrow> aes_128_gcm_sha256 C \<or> aes_256_gcm_sha384 C"

definition crypto_laws :: "cipher_suite_params \<Rightarrow> bool" where
  "crypto_laws C \<longleftrightarrow> hash_laws C \<and> aead_laws C \<and> suite_sizes C"

lemma suite_sizesD:
  assumes "suite_sizes C"
  shows "iv_len C = 12" and "tag_len C = 16" and "32 \<le> hash_len C" and "hash_len C \<le> 48"
    and "key_len C \<le> 32"
  using assms by (auto simp: suite_sizes_def aes_128_gcm_sha256_def aes_256_gcm_sha384_def)

lemma crypto_lawsD:
  assumes "crypto_laws C"
  shows "hash_laws C" and "aead_laws C" and "suite_sizes C"
  using assms by (auto simp: crypto_laws_def)

lemma hash_length:
  assumes "hash_laws C"
  shows "length (hash C m) = hash_len C" and "length (hmac C k m) = hash_len C"
    and "length (hkdf_extract C salt ikm) = hash_len C"
  using assms by (auto simp: hash_laws_def)

lemma expand_succeeds:
  assumes "hash_laws C" and "n \<le> 255 * hash_len C"
  obtains okm where "hkdf_expand C prk info n = Some okm" and "length okm = n"
  using assms unfolding hash_laws_def by blast

lemma seal_open:
  assumes "aead_laws C" and "length pt < 2 ^ 16"
  obtains ct tag where "aead_seal C k n aad pt = Some (ct, tag)" and "length ct = length pt"
    and "length tag = tag_len C" and "aead_open C k n aad ct tag = Some pt"
  using assms unfolding aead_laws_def by blast

lemma open_length:
  assumes "aead_laws C" and "aead_open C k n aad ct tag = Some pt"
  shows "length pt = length ct"
  using assms unfolding aead_laws_def by blast

text \<open>ASCII byte strings, as in \<open>b"tls13 "\<close>.\<close>

definition ascii :: "string \<Rightarrow> bytes" where
  "ascii s = map of_char s"

lemma length_ascii [simp]: "length (ascii s) = length s"
  by (simp add: ascii_def)

section \<open>A concrete instance\<close>

text \<open>
  Checksums in place of hashes and a keyed checksum as the AEAD tag: executable functions that
  satisfy the laws, so that statements with the laws as hypotheses can be evaluated.
\<close>

definition toy_digest :: "bytes \<Rightarrow> bytes" where
  "toy_digest m = replicate 31 0 @ [fold (\<lambda>b acc. acc * 31 + b + 1) m 7]"

definition toy_suite :: cipher_suite_params where
  "toy_suite = \<lparr>code_point = cipher_suite_code TlsAes128GcmSha256, key_len = 16, iv_len = 12,
     tag_len = 16, hash_len = 32,
     hash = toy_digest,
     hmac = (\<lambda>k m. toy_digest (k @ m)),
     hkdf_extract = (\<lambda>salt ikm. toy_digest (salt @ ikm)),
     hkdf_expand = (\<lambda>prk info n.
        if n \<le> 255 * 32 then Some (replicate n (last (toy_digest (prk @ info)))) else None),
     aead_seal = (\<lambda>k n aad pt. Some (pt, drop 16 (toy_digest (k @ n @ aad @ pt)))),
     aead_open = (\<lambda>k n aad ct tag.
        if tag = drop 16 (toy_digest (k @ n @ aad @ ct)) then Some ct else None)\<rparr>"

lemma length_toy_digest [simp]: "length (toy_digest m) = 32"
  by (simp add: toy_digest_def)

lemma toy_suite_laws: "crypto_laws toy_suite"
  by (auto simp: crypto_laws_def hash_laws_def aead_laws_def suite_sizes_def
      aes_128_gcm_sha256_def toy_suite_def)

end
