(* ===== verification/Key_Schedule.thy ===== *)
theory Key_Schedule
  imports Crypto
begin

text \<open>
  src/key_schedule.rs, with the message types of src/handshake/finished.rs and
  src/handshake/binder.rs it produces.  The state records and every operation are in the order of
  the source; an \<open>Hkdf\<close> object is its pseudo-random key, a digest the bytes fed to it.  The second
  half defines the key schedule of RFC 8446 section 7.1 as pure functions of the PSK, the shared
  secret and the transcripts, and shows that the operations compute exactly those values, that the
  label buffer is always large enough, and that nonces never repeat under a key.
\<close>

section \<open>Secrets and labels\<close>

datatype secret = Uninitialized | Initialized bytes

datatype context_type = CtxNone | CtxHash bytes

definition ctx_transcript_hash :: "cipher_suite_params \<Rightarrow> bytes \<Rightarrow> context_type" where
  "ctx_transcript_hash C transcript = CtxHash (hash C transcript)"

definition ctx_empty_hash :: "cipher_suite_params \<Rightarrow> context_type" where
  "ctx_empty_hash C = CtxHash (hash C [])"

fun secret_as_ref :: "secret \<Rightarrow> (bytes, tls_error) result" where
  "secret_as_ref (Initialized prk) = Ok prk"
| "secret_as_ref Uninitialized = Err InternalError"

text \<open>\<open>extend_from_slice\<close> on the fixed-capacity label vector.\<close>

definition label_extend :: "nat \<Rightarrow> bytes \<Rightarrow> (bytes, unit, tls_error) comp" where
  "label_extend cap bs = (\<lambda>v.
     if length v + length bs \<le> cap then (Ok (), v @ bs) else (Err InternalError, v))"

definition label_build ::
  "cipher_suite_params \<Rightarrow> nat \<Rightarrow> bytes \<Rightarrow> context_type \<Rightarrow> (bytes, unit, tls_error) comp" where
  "label_build C n label context =
     (let ext = label_extend (label_buffer_size C) in
      next_do (ext (be16 (word_of_nat n)))
     (next_do (ext [6 + word_of_nat (length label)])
     (next_do (ext (ascii ''tls13 ''))
     (next_do (ext label)
     (case context of
        CtxNone \<Rightarrow> ext [0]
      | CtxHash ctx \<Rightarrow> next_do (ext [word_of_nat (length ctx)]) (ext ctx))))))"

definition make_expanded_hkdf_label ::
  "cipher_suite_params \<Rightarrow> nat \<Rightarrow> secret \<Rightarrow> bytes \<Rightarrow> context_type \<Rightarrow> (bytes, tls_error) result" where
  "make_expanded_hkdf_label C n secret label context =
     (case label_build C n label context [] of
        (Ok _, hkdf_label) \<Rightarrow>
          (case secret_as_ref secret of
             Ok prk \<Rightarrow> ok_or CryptoError (hkdf_expand C prk hkdf_label n)
           | Err e \<Rightarrow> Err e
           | Panic \<Rightarrow> Panic)
      | (Err e, _) \<Rightarrow> Err e
      | (Panic, _) \<Rightarrow> Panic)"

text \<open>\<open>Hkdf::from_prk\<close> refuses a key shorter than the hash output.\<close>

definition hkdf_from_prk :: "cipher_suite_params \<Rightarrow> bytes \<Rightarrow> (secret, tls_error) result" where
  "hkdf_from_prk C prk =
     (if length prk < hash_len C then Err InternalError else Ok (Initialized prk))"

section \<open>State\<close>

record shared_state =
  sh_secret :: bytes
  sh_hkdf :: secret

record key_schedule_state =
  traffic_secret :: secret
  counter :: u64
  key :: bytes
  iv :: bytes

record write_key_schedule =
  w_state :: key_schedule_state
  binder_key :: secret

record read_key_schedule =
  r_state :: key_schedule_state
  transcript_hash :: bytes

record key_schedule =
  shared :: shared_state
  client_state :: write_key_schedule
  server_state :: read_key_schedule

record finished =
  fin_verify :: bytes
  fin_hash :: "bytes option"

type_synonym 'a ks_op = "(key_schedule, 'a, tls_error) comp"

definition shared_new :: "cipher_suite_params \<Rightarrow> shared_state" where
  "shared_new C = \<lparr>sh_secret = replicate (hash_len C) 0, sh_hkdf = Uninitialized\<rparr>"

definition shared_initialize :: "cipher_suite_params \<Rightarrow> bytes \<Rightarrow> shared_state \<Rightarrow> shared_state" where
  "shared_initialize C ikm s =
     (let prk = hkdf_extract C (sh_secret s) ikm in \<lparr>sh_secret = prk, sh_hkdf = Initialized prk\<rparr>)"

definition derive_secret ::
  "cipher_suite_params \<Rightarrow> bytes \<Rightarrow> context_type \<Rightarrow> shared_state \<Rightarrow> (bytes, tls_error) result" where
  "derive_secret C label context s =
     make_expanded_hkdf_label C (hash_len C) (sh_hkdf s) label context"

definition shared_derived :: "cipher_suite_params \<Rightarrow> (shared_state, unit, tls_error) comp" where
  "shared_derived C = (\<lambda>s. case derive_secret C (ascii ''derived'') (ctx_empty_hash C) s of
      Ok v \<Rightarrow> (Ok (), s\<lparr>sh_secret := v\<rparr>)
    | Err e \<Rightarrow> (Err e, s)
    | Panic \<Rightarrow> (Panic, s))"

definition ks_state_new :: "cipher_suite_params \<Rightarrow> key_schedule_state" where
  "ks_state_new C = \<lparr>traffic_secret = Uninitialized, counter = 0,
     key = replicate (key_len C) 0, iv = replicate (iv_len C) 0\<rparr>"

section \<open>Nonces\<close>

text \<open>\<open>pad\<close>: the bytes are stored from the right end; \<open>index\<close> counts them.\<close>

fun pad_loop :: "nat \<Rightarrow> nat \<Rightarrow> bytes \<Rightarrow> bytes \<Rightarrow> (bytes, tls_error) result" where
  "pad_loop n index [] padded = Ok padded"
| "pad_loop n index (b # rest) padded =
     (if index < n then pad_loop n (index + 1) rest (padded[n - index - 1 := b]) else Panic)"

definition pad :: "nat \<Rightarrow> bytes \<Rightarrow> (bytes, tls_error) result" where
  "pad n input = pad_loop n 0 (rev input) (replicate n 0)"

definition get_nonce :: "cipher_suite_params \<Rightarrow> u64 \<Rightarrow> bytes \<Rightarrow> (bytes, tls_error) result" where
  "get_nonce C ctr ivb = (case pad (iv_len C) (be64 ctr) of
      Ok padded \<Rightarrow>
        (case subslice ivb 0 (iv_len C) of
           Ok ivs \<Rightarrow> Ok (map2 (XOR) ivs padded)
         | Err e \<Rightarrow> Err e
         | Panic \<Rightarrow> Panic)
    | Err e \<Rightarrow> Err e
    | Panic \<Rightarrow> Panic)"

definition state_get_nonce :: "cipher_suite_params \<Rightarrow> key_schedule_state \<Rightarrow> (bytes, tls_error) result" where
  "state_get_nonce C s = get_nonce C (counter s) (iv s)"

text \<open>\<open>checked_add(1)\<close> followed by \<open>unwrap\<close>: the counter panics rather than wraps.\<close>

definition increment_counter :: "(key_schedule_state, unit, tls_error) comp" where
  "increment_counter = (\<lambda>s.
     if counter s = - 1 then (Panic, s) else (Ok (), s\<lparr>counter := counter s + 1\<rparr>))"

definition calculate_traffic_secret ::
  "cipher_suite_params \<Rightarrow> bytes \<Rightarrow> shared_state \<Rightarrow> bytes \<Rightarrow> (key_schedule_state, unit, tls_error) comp" where
  "calculate_traffic_secret C label sh transcript =
     bind (lift_result (derive_secret C label (ctx_transcript_hash C transcript) sh)) (\<lambda>sec.
     bind (lift_result (hkdf_from_prk C sec)) (\<lambda>ts.
     next_do (modify (\<lambda>s. s\<lparr>traffic_secret := ts\<rparr>))
    (bind (lift_result (make_expanded_hkdf_label C (key_len C) ts (ascii ''key'') CtxNone)) (\<lambda>k.
     next_do (modify (\<lambda>s. s\<lparr>key := k\<rparr>))
    (bind (lift_result (make_expanded_hkdf_label C (iv_len C) ts (ascii ''iv'') CtxNone)) (\<lambda>v.
     modify (\<lambda>s. s\<lparr>iv := v, counter := 0\<rparr>)))))))"

section \<open>The key schedule\<close>

definition ks_new :: "cipher_suite_params \<Rightarrow> key_schedule" where
  "ks_new C = \<lparr>shared = shared_new C,
     client_state = \<lparr>w_state = ks_state_new C, binder_key = Uninitialized\<rparr>,
     server_state = \<lparr>r_state = ks_state_new C, transcript_hash = []\<rparr>\<rparr>"

definition ks_transcript :: "key_schedule \<Rightarrow> bytes" where
  "ks_transcript ks = transcript_hash (server_state ks)"

definition replace_transcript_hash :: "bytes \<Rightarrow> key_schedule \<Rightarrow> key_schedule" where
  "replace_transcript_hash h ks = ks\<lparr>server_state := (server_state ks)\<lparr>transcript_hash := h\<rparr>\<rparr>"

text \<open>\<open>transcript_hash().update(bs)\<close>.\<close>

definition transcript_update :: "bytes \<Rightarrow> key_schedule \<Rightarrow> key_schedule" where
  "transcript_update bs ks = replace_transcript_hash (ks_transcript ks @ bs) ks"

definition zero_hash :: "cipher_suite_params \<Rightarrow> bytes" where
  "zero_hash C = replicate (hash_len C) 0"

definition on_shared :: "(shared_state, 'a, tls_error) comp \<Rightarrow> 'a ks_op" where
  "on_shared = on_part shared (\<lambda>s ks. ks\<lparr>shared := s\<rparr>)"

definition on_client :: "(key_schedule_state, 'a, tls_error) comp \<Rightarrow> 'a ks_op" where
  "on_client = on_part (\<lambda>ks. w_state (client_state ks))
     (\<lambda>s ks. ks\<lparr>client_state := (client_state ks)\<lparr>w_state := s\<rparr>\<rparr>)"

definition on_server :: "(key_schedule_state, 'a, tls_error) comp \<Rightarrow> 'a ks_op" where
  "on_server = on_part (\<lambda>ks. r_state (server_state ks))
     (\<lambda>s ks. ks\<lparr>server_state := (server_state ks)\<lparr>r_state := s\<rparr>\<rparr>)"

text \<open>The MAC under the \<open>finished\<close> key of a secret, which four operations share.\<close>

definition finished_key :: "cipher_suite_params \<Rightarrow> secret \<Rightarrow> (bytes, tls_error) result" where
  "finished_key C s = make_expanded_hkdf_label C (hash_len C) s (ascii ''finished'') CtxNone"

definition finished_mac :: "cipher_suite_params \<Rightarrow> secret \<Rightarrow> bytes \<Rightarrow> (bytes, tls_error) result" where
  "finished_mac C s transcript_digest = (case finished_key C s of
      Ok k \<Rightarrow> Ok (hmac C k transcript_digest)
    | Err e \<Rightarrow> Err e
    | Panic \<Rightarrow> Panic)"

definition create_client_finished :: "cipher_suite_params \<Rightarrow> finished ks_op" where
  "create_client_finished C =
     bind (gets (\<lambda>ks. traffic_secret (w_state (client_state ks)))) (\<lambda>ts.
     bind (gets ks_transcript) (\<lambda>t.
     bind (lift_result (finished_mac C ts (hash C t))) (\<lambda>verify.
     return \<lparr>fin_verify = verify, fin_hash = None\<rparr>)))"

definition verify_psk_binder :: "cipher_suite_params \<Rightarrow> bytes \<Rightarrow> bytes \<Rightarrow> bool ks_op" where
  "verify_psk_binder C transcript received =
     bind (gets (\<lambda>ks. binder_key (client_state ks))) (\<lambda>bk.
     bind (lift_result (finished_mac C bk (hash C transcript))) (\<lambda>mac.
     return (mac = received)))"

definition create_server_finished :: "cipher_suite_params \<Rightarrow> finished ks_op" where
  "create_server_finished C =
     bind (gets (\<lambda>ks. traffic_secret (r_state (server_state ks)))) (\<lambda>ts.
     bind (gets ks_transcript) (\<lambda>t.
     bind (lift_result (finished_mac C ts (hash C t))) (\<lambda>verify.
     return \<lparr>fin_verify = verify, fin_hash = None\<rparr>)))"

text \<open>Both verifications derive the key first and then require the transcript snapshot.\<close>

definition verify_finished :: "cipher_suite_params \<Rightarrow> secret \<Rightarrow> finished \<Rightarrow> (bool, tls_error) result" where
  "verify_finished C ts fin = (case finished_key C ts of
      Ok k \<Rightarrow>
        (case fin_hash fin of
           None \<Rightarrow> Err InternalError
         | Some h \<Rightarrow> Ok (hmac C k h = fin_verify fin))
    | Err e \<Rightarrow> Err e
    | Panic \<Rightarrow> Panic)"

definition verify_client_finished :: "cipher_suite_params \<Rightarrow> finished \<Rightarrow> bool ks_op" where
  "verify_client_finished C fin =
     bind (gets (\<lambda>ks. traffic_secret (w_state (client_state ks)))) (\<lambda>ts.
     lift_result (verify_finished C ts fin))"

definition verify_server_finished :: "cipher_suite_params \<Rightarrow> finished \<Rightarrow> bool ks_op" where
  "verify_server_finished C fin =
     bind (gets (\<lambda>ks. traffic_secret (r_state (server_state ks)))) (\<lambda>ts.
     lift_result (verify_finished C ts fin))"

definition initialize_early_secret :: "cipher_suite_params \<Rightarrow> bytes option \<Rightarrow> unit ks_op" where
  "initialize_early_secret C psk =
     next_do (on_shared (modify (shared_initialize C
       (case psk of None \<Rightarrow> zero_hash C | Some k \<Rightarrow> k))))
    (bind (gets shared) (\<lambda>sh.
     bind (lift_result (derive_secret C (ascii ''ext binder'') (ctx_empty_hash C) sh)) (\<lambda>bk.
     bind (lift_result (hkdf_from_prk C bk)) (\<lambda>sec.
     next_do (modify (\<lambda>ks. ks\<lparr>client_state := (client_state ks)\<lparr>binder_key := sec\<rparr>\<rparr>))
       (on_shared (shared_derived C))))))"

definition calculate_traffic_secrets :: "cipher_suite_params \<Rightarrow> bytes \<Rightarrow> bytes \<Rightarrow> unit ks_op" where
  "calculate_traffic_secrets C client_label server_label =
     bind (gets shared) (\<lambda>sh.
     bind (gets ks_transcript) (\<lambda>t.
     next_do (on_client (calculate_traffic_secret C client_label sh t))
       (on_server (calculate_traffic_secret C server_label sh t))))"

definition initialize_handshake_secret :: "cipher_suite_params \<Rightarrow> bytes \<Rightarrow> unit ks_op" where
  "initialize_handshake_secret C ikm =
     next_do (on_shared (modify (shared_initialize C ikm)))
    (next_do (calculate_traffic_secrets C (ascii ''c hs traffic'') (ascii ''s hs traffic''))
       (on_shared (shared_derived C)))"

definition initialize_handshake_secret_psk_ke :: "cipher_suite_params \<Rightarrow> unit ks_op" where
  "initialize_handshake_secret_psk_ke C = initialize_handshake_secret C (zero_hash C)"

definition initialize_master_secret :: "cipher_suite_params \<Rightarrow> unit ks_op" where
  "initialize_master_secret C =
     next_do (on_shared (modify (shared_initialize C (zero_hash C))))
    (next_do (calculate_traffic_secrets C (ascii ''c ap traffic'') (ascii ''s ap traffic''))
       (on_shared (shared_derived C)))"

definition create_psk_binder ::
  "cipher_suite_params \<Rightarrow> bytes \<Rightarrow> write_key_schedule \<Rightarrow> (bytes, tls_error) result" where
  "create_psk_binder C transcript w = finished_mac C (binder_key w) (hash C transcript)"

definition psk_binder_encode :: "bytes \<Rightarrow> unit encoder" where
  "psk_binder_encode verify =
     next_do (map_err (\<lambda>_. EncodeError) (push (word_of_nat (length verify))))
    (next_do (map_err (\<lambda>_. EncodeError) (extend_from_slice verify)) (return ()))"

definition finished_parse :: "cipher_suite_params \<Rightarrow> finished tls_parser" where
  "finished_parse C = bind (from_parse (pb_fill (hash_len C))) (\<lambda>verify.
     return \<lparr>fin_verify = verify, fin_hash = None\<rparr>)"

definition finished_encode :: "finished \<Rightarrow> unit encoder" where
  "finished_encode f =
     next_do (map_err (\<lambda>_. EncodeError) (extend_from_slice (fin_verify f))) (return ())"

section \<open>The key schedule of RFC 8446, section 7.1\<close>

definition hkdf_label :: "nat \<Rightarrow> bytes \<Rightarrow> bytes \<Rightarrow> bytes" where
  "hkdf_label n label context =
     be16 (word_of_nat n) @ vec8 (ascii ''tls13 '' @ label) @ vec8 context"

definition hkdf_expand_label :: "cipher_suite_params \<Rightarrow> bytes \<Rightarrow> bytes \<Rightarrow> bytes \<Rightarrow> nat \<Rightarrow> bytes" where
  "hkdf_expand_label C secret label context n =
     (case hkdf_expand C secret (hkdf_label n label context) n of Some okm \<Rightarrow> okm | None \<Rightarrow> [])"

definition rfc_derive_secret :: "cipher_suite_params \<Rightarrow> bytes \<Rightarrow> string \<Rightarrow> bytes \<Rightarrow> bytes" where
  "rfc_derive_secret C secret label messages =
     hkdf_expand_label C secret (ascii label) (hash C messages) (hash_len C)"

definition rfc_early_secret :: "cipher_suite_params \<Rightarrow> bytes \<Rightarrow> bytes" where
  "rfc_early_secret C psk = hkdf_extract C (zero_hash C) psk"

definition rfc_binder_key :: "cipher_suite_params \<Rightarrow> bytes \<Rightarrow> bytes" where
  "rfc_binder_key C psk = rfc_derive_secret C (rfc_early_secret C psk) ''ext binder'' []"

definition rfc_handshake_secret :: "cipher_suite_params \<Rightarrow> bytes \<Rightarrow> bytes \<Rightarrow> bytes" where
  "rfc_handshake_secret C psk dhe =
     hkdf_extract C (rfc_derive_secret C (rfc_early_secret C psk) ''derived'' []) dhe"

definition rfc_master_secret :: "cipher_suite_params \<Rightarrow> bytes \<Rightarrow> bytes \<Rightarrow> bytes" where
  "rfc_master_secret C psk dhe =
     hkdf_extract C (rfc_derive_secret C (rfc_handshake_secret C psk dhe) ''derived'' []) (zero_hash C)"

definition rfc_traffic_keys :: "cipher_suite_params \<Rightarrow> bytes \<Rightarrow> key_schedule_state" where
  "rfc_traffic_keys C secret = \<lparr>traffic_secret = Initialized secret, counter = 0,
     key = hkdf_expand_label C secret (ascii ''key'') [] (key_len C),
     iv = hkdf_expand_label C secret (ascii ''iv'') [] (iv_len C)\<rparr>"

text \<open>The traffic secrets of either phase, by label and transcript.\<close>

definition rfc_handshake_traffic :: "cipher_suite_params \<Rightarrow> bytes \<Rightarrow> bytes \<Rightarrow> string \<Rightarrow> bytes \<Rightarrow> bytes" where
  "rfc_handshake_traffic C psk ikm label t = rfc_derive_secret C (rfc_handshake_secret C psk ikm) label t"

definition rfc_application_traffic :: "cipher_suite_params \<Rightarrow> bytes \<Rightarrow> bytes \<Rightarrow> string \<Rightarrow> bytes \<Rightarrow> bytes" where
  "rfc_application_traffic C psk ikm label t = rfc_derive_secret C (rfc_master_secret C psk ikm) label t"

definition rfc_finished_mac :: "cipher_suite_params \<Rightarrow> bytes \<Rightarrow> bytes \<Rightarrow> bytes" where
  "rfc_finished_mac C secret digest =
     hmac C (hkdf_expand_label C secret (ascii ''finished'') [] (hash_len C)) digest"

section \<open>Labels\<close>

fun context_bytes :: "context_type \<Rightarrow> bytes" where
  "context_bytes CtxNone = []"
| "context_bytes (CtxHash h) = h"

lemma label_build_run:
  assumes "length label \<le> 12" and "length (context_bytes ctx) \<le> hash_len C"
  shows "label_build C n label ctx [] = (Ok (), hkdf_label n label (context_bytes ctx))"
  using assms
  by (cases ctx)
    (simp_all add: label_build_def label_extend_def label_buffer_size_def hkdf_label_def
      next_do_apply vec8_def)

lemma hkdf_expand_label_length:
  assumes "hash_laws C" and "n \<le> 255 * hash_len C"
  shows "length (hkdf_expand_label C s label ctx n) = n"
  using expand_succeeds [OF assms, of s "hkdf_label n label ctx"]
  by (metis hkdf_expand_label_def option.simps(5))

lemma make_expanded_run:
  assumes "hash_laws C" and "n \<le> 255 * hash_len C"
    and "length label \<le> 12" and "length (context_bytes ctx) \<le> hash_len C"
  shows "make_expanded_hkdf_label C n (Initialized prk) label ctx =
     Ok (hkdf_expand_label C prk label (context_bytes ctx) n)"
proof -
  obtain okm where "hkdf_expand C prk (hkdf_label n label (context_bytes ctx)) n = Some okm"
    by (rule expand_succeeds [OF assms(1,2)])
  then show ?thesis
    by (simp add: make_expanded_hkdf_label_def label_build_run [OF assms(3,4)]
        hkdf_expand_label_def)
qed

lemma make_expanded_uninitialized:
  assumes "length label \<le> 12" and "length (context_bytes ctx) \<le> hash_len C"
  shows "make_expanded_hkdf_label C n Uninitialized label ctx = Err InternalError"
  by (simp add: make_expanded_hkdf_label_def label_build_run [OF assms])

lemma derive_secret_run:
  assumes "hash_laws C" and "length label \<le> 12"
  shows "derive_secret C (ascii label) (CtxHash (hash C messages)) \<lparr>sh_secret = s, sh_hkdf = Initialized prk\<rparr> =
     Ok (rfc_derive_secret C prk label messages)"
  using assms by (simp add: derive_secret_def make_expanded_run hash_length rfc_derive_secret_def)

lemma rfc_derive_secret_length:
  "hash_laws C \<Longrightarrow> length (rfc_derive_secret C s label m) = hash_len C"
  by (simp add: rfc_derive_secret_def hkdf_expand_label_length)

lemma hkdf_from_prk_run: "length prk = hash_len C \<Longrightarrow> hkdf_from_prk C prk = Ok (Initialized prk)"
  by (simp add: hkdf_from_prk_def)

lemma finished_key_run:
  assumes "hash_laws C"
  shows "finished_key C (Initialized s) = Ok (hkdf_expand_label C s (ascii ''finished'') [] (hash_len C))"
  using make_expanded_run [OF assms, of "hash_len C" "ascii ''finished''" CtxNone]
  by (simp add: finished_key_def)

lemma finished_mac_run:
  assumes "hash_laws C"
  shows "finished_mac C (Initialized s) d = Ok (rfc_finished_mac C s d)"
  by (simp add: finished_mac_def finished_key_run [OF assms] rfc_finished_mac_def)

section \<open>The operations compute the RFC values\<close>

lemma calculate_traffic_secret_run:
  assumes "hash_laws C" and "suite_sizes C" and "length label \<le> 12"
  shows "calculate_traffic_secret C (ascii label) \<lparr>sh_secret = s, sh_hkdf = Initialized prk\<rparr> t st =
     (Ok (), rfc_traffic_keys C (rfc_derive_secret C prk label t))"
proof -
  note sizes = suite_sizesD [OF assms(2)]
  have k: "make_expanded_hkdf_label C (key_len C) (Initialized x) (ascii ''key'') CtxNone =
      Ok (hkdf_expand_label C x (ascii ''key'') [] (key_len C))" for x
    using make_expanded_run [OF assms(1), of "key_len C" "ascii ''key''" CtxNone] sizes by simp
  have v: "make_expanded_hkdf_label C (iv_len C) (Initialized x) (ascii ''iv'') CtxNone =
      Ok (hkdf_expand_label C x (ascii ''iv'') [] (iv_len C))" for x
    using make_expanded_run [OF assms(1), of "iv_len C" "ascii ''iv''" CtxNone] sizes by simp
  show ?thesis
    using assms
    by (simp add: calculate_traffic_secret_def ctx_transcript_hash_def derive_secret_run bind_apply
        next_do_apply hkdf_from_prk_run rfc_derive_secret_length k v rfc_traffic_keys_def)
qed

text \<open>The shared state after one extraction and the \<open>derived\<close> step that follows it.\<close>

definition shared_after :: "cipher_suite_params \<Rightarrow> bytes \<Rightarrow> shared_state" where
  "shared_after C prk = \<lparr>sh_secret = rfc_derive_secret C prk ''derived'' [], sh_hkdf = Initialized prk\<rparr>"

lemma shared_derived_run:
  assumes "hash_laws C"
  shows "shared_derived C \<lparr>sh_secret = s, sh_hkdf = Initialized prk\<rparr> = (Ok (), shared_after C prk)"
  using assms
  by (simp add: shared_derived_def ctx_empty_hash_def derive_secret_run shared_after_def)

lemma early_secret_run:
  assumes "hash_laws C"
  shows "initialize_early_secret C (Some psk) ks = (Ok (),
     (let prk = hkdf_extract C (sh_secret (shared ks)) psk in
      ks\<lparr>shared := shared_after C prk,
         client_state := (client_state ks)\<lparr>binder_key :=
           Initialized (rfc_derive_secret C prk ''ext binder'' [])\<rparr>\<rparr>))"
  using assms
  by (simp add: initialize_early_secret_def on_shared_def on_part_apply shared_initialize_def
      bind_apply next_do_apply ctx_empty_hash_def derive_secret_run hkdf_from_prk_run
      rfc_derive_secret_length shared_derived_run Let_def)

lemma handshake_secret_run:
  assumes "hash_laws C" and "suite_sizes C"
  shows "initialize_handshake_secret C ikm ks = (Ok (),
     (let prk = hkdf_extract C (sh_secret (shared ks)) ikm in
      ks\<lparr>shared := shared_after C prk,
         client_state := (client_state ks)\<lparr>w_state :=
           rfc_traffic_keys C (rfc_derive_secret C prk ''c hs traffic'' (ks_transcript ks))\<rparr>,
         server_state := (server_state ks)\<lparr>r_state :=
           rfc_traffic_keys C (rfc_derive_secret C prk ''s hs traffic'' (ks_transcript ks))\<rparr>\<rparr>))"
  using assms
  by (simp add: initialize_handshake_secret_def calculate_traffic_secrets_def on_shared_def
      on_client_def on_server_def on_part_apply shared_initialize_def bind_apply next_do_apply
      calculate_traffic_secret_run shared_derived_run ks_transcript_def Let_def)

lemma master_secret_run:
  assumes "hash_laws C" and "suite_sizes C"
  shows "initialize_master_secret C ks = (Ok (),
     (let prk = hkdf_extract C (sh_secret (shared ks)) (zero_hash C) in
      ks\<lparr>shared := shared_after C prk,
         client_state := (client_state ks)\<lparr>w_state :=
           rfc_traffic_keys C (rfc_derive_secret C prk ''c ap traffic'' (ks_transcript ks))\<rparr>,
         server_state := (server_state ks)\<lparr>r_state :=
           rfc_traffic_keys C (rfc_derive_secret C prk ''s ap traffic'' (ks_transcript ks))\<rparr>\<rparr>))"
  using assms
  by (simp add: initialize_master_secret_def calculate_traffic_secrets_def on_shared_def
      on_client_def on_server_def on_part_apply shared_initialize_def bind_apply next_do_apply
      calculate_traffic_secret_run shared_derived_run ks_transcript_def Let_def)

lemmas ks_runs = early_secret_run handshake_secret_run master_secret_run

lemma transcript_update_simps [simp]:
  "shared (transcript_update bs ks) = shared ks"
  "client_state (transcript_update bs ks) = client_state ks"
  "r_state (server_state (transcript_update bs ks)) = r_state (server_state ks)"
  "ks_transcript (transcript_update bs ks) = ks_transcript ks @ bs"
  by (simp_all add: transcript_update_def replace_transcript_hash_def ks_transcript_def)

section \<open>Nonces\<close>

lemma pad_loop_run:
  assumes "length rest + index \<le> n"
  shows "pad_loop n index rest (replicate (n - index) 0 @ suffix) =
     Ok (replicate (n - index - length rest) 0 @ rev rest @ suffix)"
  using assms
proof (induction rest arbitrary: index suffix)
  case (Cons b rest)
  from Cons.prems obtain m where m: "n - index = Suc m" by (cases "n - index") auto
  have "(replicate (n - index) 0 @ suffix)[n - index - 1 := b] =
      replicate (n - (index + 1)) 0 @ b # suffix"
  proof -
    have "(replicate (Suc m) 0 @ suffix)[m := b] = replicate m 0 @ b # suffix"
      by (simp add: list_update_append replicate_append_same [symmetric] del: replicate_Suc)
        (simp add: list_update_append replicate_append_same [symmetric])
    with m show ?thesis by simp
  qed
  with Cons.IH [of "index + 1" "b # suffix"] Cons.prems show ?case by simp
qed simp

lemma pad_run: "length input \<le> n \<Longrightarrow> pad n input = Ok (replicate (n - length input) 0 @ input)"
  using pad_loop_run [of "rev input" 0 n "[]"] by (simp add: pad_def)

lemma get_nonce_run:
  assumes "iv_len C = 12" and "length ivb = 12"
  shows "get_nonce C ctr ivb = Ok (map2 (XOR) ivb (replicate 4 0 @ be64 ctr))"
  using assms by (simp add: get_nonce_def pad_run subslice_def)

lemma be64_inject:
  assumes "be64 a = be64 b" shows "a = b"
proof (rule bit_word_eqI)
  fix n assume n: "n < LENGTH(64)"
  have "n div 8 \<in> set [7, 6, 5, 4, 3, 2, 1, 0 :: nat]"
    using n by (simp add: less_mult_imp_div_less) presburger
  then have "(ucast (drop_bit (8 * (n div 8)) a) :: byte) = ucast (drop_bit (8 * (n div 8)) b)"
    using assms by (auto simp: be64_def)
  then have "bit (ucast (drop_bit (8 * (n div 8)) a) :: byte) (n mod 8) =
      bit (ucast (drop_bit (8 * (n div 8)) b) :: byte) (n mod 8)"
    by simp
  then show "bit a n = bit b n" by (simp add: bit_simps)
qed

lemma xor_cancel: "x XOR y = x XOR z \<Longrightarrow> y = (z :: byte)"
  by (metis xor.assoc xor.left_neutral xor_self_eq)

lemma map2_xor_inject:
  fixes xs ys zs :: bytes
  assumes "length xs = length ys" and "length xs = length zs"
    and "map2 (XOR) xs ys = map2 (XOR) xs zs"
  shows "ys = zs"
  using assms
proof (induction xs arbitrary: ys zs)
  case (Cons x xs)
  then obtain y ys' z zs' where "ys = y # ys'" "zs = z # zs'"
    by (metis length_Suc_conv)
  with Cons show ?case by (auto dest: xor_cancel)
qed simp

text \<open>Two counter values never give the same nonce under one IV.\<close>

lemma get_nonce_inject:
  assumes "iv_len C = 12" and "length ivb = 12" and "get_nonce C a ivb = get_nonce C b ivb"
  shows "a = b"
proof -
  have "replicate 4 0 @ be64 a = replicate 4 0 @ be64 b"
    by (rule map2_xor_inject [of ivb]) (use assms get_nonce_run in auto)
  then show ?thesis by (auto dest: be64_inject)
qed

section \<open>Properties\<close>

text \<open>
  C7: run from a fresh \<open>KeySchedule\<close>, the three initialisations with the transcript extended in between
  compute exactly the secrets of RFC 8446 section 7.1: the binder key, then the handshake traffic
  secrets, keys and IVs over the first part of the transcript, then the application ones over all of
  it, with every record counter at zero.
\<close>

theorem key_schedule_refines_rfc8446:
  assumes "hash_laws C" and "suite_sizes C"
  shows "\<exists>ks1 ks2 ks3.
    initialize_early_secret C (Some psk) (ks_new C) = (Ok (), ks1) \<and>
    binder_key (client_state ks1) = Initialized (rfc_binder_key C psk) \<and>
    initialize_handshake_secret C dhe (transcript_update t1 ks1) = (Ok (), ks2) \<and>
    w_state (client_state ks2) =
      rfc_traffic_keys C (rfc_derive_secret C (rfc_handshake_secret C psk dhe) ''c hs traffic'' t1) \<and>
    r_state (server_state ks2) =
      rfc_traffic_keys C (rfc_derive_secret C (rfc_handshake_secret C psk dhe) ''s hs traffic'' t1) \<and>
    initialize_master_secret C (transcript_update t2 ks2) = (Ok (), ks3) \<and>
    w_state (client_state ks3) =
      rfc_traffic_keys C (rfc_derive_secret C (rfc_master_secret C psk dhe) ''c ap traffic'' (t1 @ t2)) \<and>
    r_state (server_state ks3) =
      rfc_traffic_keys C (rfc_derive_secret C (rfc_master_secret C psk dhe) ''s ap traffic'' (t1 @ t2)) \<and>
    ks_transcript ks3 = t1 @ t2"
  using assms
  by (simp add: ks_runs ks_new_def shared_new_def shared_after_def rfc_master_secret_def
      rfc_handshake_secret_def rfc_early_secret_def rfc_binder_key_def zero_hash_def
      transcript_update_def replace_transcript_hash_def ks_transcript_def Let_def)

theorem key_schedule_refines_rfc8446_witness:
  "hash_laws toy_suite \<and> suite_sizes toy_suite \<and>
   (\<exists>ks1. initialize_early_secret toy_suite (Some [1]) (ks_new toy_suite) = (Ok (), ks1) \<and>
      binder_key (client_state ks1) = Initialized (rfc_binder_key toy_suite [1]))"
  using key_schedule_refines_rfc8446 [of toy_suite "[1]" "[2]" "[3]" "[4]"]
    crypto_lawsD [OF toy_suite_laws] by blast

lemma word_less_succ:
  fixes x :: u64
  assumes "x \<noteq> - 1"
  shows "x < x + 1"
proof -
  have "unat x \<noteq> 2 ^ 64 - 1"
    using assms by (simp add: word_unat_eq_iff unsigned_minus_1_eq_mask mask_eq_exp_minus_1)
  moreover have "unat x < 2 ^ 64" using unsigned_less [of x] by simp
  ultimately have "unat (x + 1) = unat x + 1" by (simp add: unat_word_ariths)
  then show ?thesis by (simp add: word_less_nat_alt)
qed

end
