(* ===== verification/Config.thy ===== *)
theory Config
  imports Extension_Data Crypto
begin

text \<open>
  \<open>TlsConfig\<close> of src/config.rs: what a client offers.  The two \<open>heapless::Vec\<close> fields are lists with
  their capacities checked by every push, as in the source, where a push beyond the capacity is
  unwrapped and so panics.
\<close>

record tls_config =
  cfg_server_name :: "bytes option"
  cfg_alpn_protocols :: "bytes list option"
  cfg_psk :: "(bytes \<times> bytes list) option"
  cfg_signature_schemes :: "signature_scheme list"
  cfg_named_groups :: "named_group list"
  cfg_max_fragment_length :: "max_fragment_length option"

type_synonym 'a cfg_op = "(tls_config, 'a, tls_error) comp"

definition push_scheme :: "signature_scheme \<Rightarrow> unit cfg_op" where
  "push_scheme s = (\<lambda>c.
     if length (cfg_signature_schemes c) < 25
     then (Ok (), c\<lparr>cfg_signature_schemes := cfg_signature_schemes c @ [s]\<rparr>) else (Panic, c))"

definition push_group :: "named_group \<Rightarrow> unit cfg_op" where
  "push_group g = (\<lambda>c.
     if length (cfg_named_groups c) < 13
     then (Ok (), c\<lparr>cfg_named_groups := cfg_named_groups c @ [g]\<rparr>) else (Panic, c))"

definition enable_rsa_signatures :: "unit cfg_op" where
  "enable_rsa_signatures =
     next_do (push_scheme RsaPkcs1Sha256)
    (next_do (push_scheme RsaPkcs1Sha384)
    (next_do (push_scheme RsaPkcs1Sha512)
    (next_do (push_scheme RsaPssRsaeSha256)
    (next_do (push_scheme RsaPssRsaeSha384)
      (push_scheme RsaPssRsaeSha512)))))"

text \<open>\<open>TlsConfig::new\<close>; the argument is \<open>cfg!(feature = "alloc")\<close>.\<close>

definition tls_config_new :: "bool \<Rightarrow> (unit, tls_error) result \<times> tls_config" where
  "tls_config_new alloc =
     next_do (if alloc then enable_rsa_signatures else return ())
    (next_do (push_scheme EcdsaSecp256r1Sha256)
    (next_do (push_scheme EcdsaSecp384r1Sha384)
    (next_do (push_scheme Ed25519)
      (push_group Secp256r1))))
     \<lparr>cfg_server_name = None, cfg_alpn_protocols = None, cfg_psk = None,
      cfg_signature_schemes = [], cfg_named_groups = [], cfg_max_fragment_length = None\<rparr>"

definition with_server_name :: "bytes \<Rightarrow> tls_config \<Rightarrow> tls_config" where
  "with_server_name n c = c\<lparr>cfg_server_name := Some n\<rparr>"

definition with_alpn :: "bytes list \<Rightarrow> tls_config \<Rightarrow> tls_config" where
  "with_alpn ps c = c\<lparr>cfg_alpn_protocols := Some ps\<rparr>"

definition with_max_fragment_length :: "max_fragment_length \<Rightarrow> tls_config \<Rightarrow> tls_config" where
  "with_max_fragment_length m c = c\<lparr>cfg_max_fragment_length := Some m\<rparr>"

definition reset_max_fragment_length :: "tls_config \<Rightarrow> tls_config" where
  "reset_max_fragment_length c = c\<lparr>cfg_max_fragment_length := None\<rparr>"

definition with_psk :: "bytes \<Rightarrow> bytes list \<Rightarrow> unit cfg_op" where
  "with_psk psk identities = (\<lambda>c.
     if length identities \<le> 4 then (Ok (), c\<lparr>cfg_psk := Some (psk, identities)\<rparr>) else (Panic, c))"

text \<open>What the client's encoder relies on: every list within the capacity of its vector.\<close>

definition config_inv :: "tls_config \<Rightarrow> bool" where
  "config_inv c \<longleftrightarrow> length (cfg_signature_schemes c) \<le> 25 \<and> length (cfg_named_groups c) \<le> 13 \<and>
     (case cfg_psk c of None \<Rightarrow> True | Some (_, ids) \<Rightarrow> length ids \<le> 4)"

lemma tls_config_new_run:
  "fst (tls_config_new alloc) = Ok () \<and> config_inv (snd (tls_config_new alloc)) \<and>
   cfg_named_groups (snd (tls_config_new alloc)) = [Secp256r1]"
  by (simp add: tls_config_new_def enable_rsa_signatures_def push_scheme_def push_group_def
      next_do_apply config_inv_def)

lemma config_builders_inv:
  assumes "config_inv c"
  shows "config_inv (with_server_name n c)" and "config_inv (with_alpn ps c)"
    and "config_inv (with_max_fragment_length m c)" and "config_inv (reset_max_fragment_length c)"
    and "with_psk psk ids c = (Ok (), c') \<Longrightarrow> config_inv c'"
  using assms
  by (auto simp: config_inv_def with_server_name_def with_alpn_def with_max_fragment_length_def
      reset_max_fragment_length_def with_psk_def split: if_splits)

section \<open>What the builder can make\<close>

inductive built :: "tls_config \<Rightarrow> bool" where
  new: "built (snd (tls_config_new alloc))"
| rsa: "built c \<Longrightarrow> enable_rsa_signatures c = (Ok (), c') \<Longrightarrow> built c'"
| server_name: "built c \<Longrightarrow> built (with_server_name n c)"
| alpn: "built c \<Longrightarrow> built (with_alpn ps c)"
| max_fragment_length: "built c \<Longrightarrow> built (with_max_fragment_length m c)"
| no_max_fragment_length: "built c \<Longrightarrow> built (reset_max_fragment_length c)"
| psk: "built c \<Longrightarrow> with_psk k ids c = (Ok (), c') \<Longrightarrow> built c'"

lemma enable_rsa_signatures_run:
  "length (cfg_signature_schemes c) \<le> 19 \<Longrightarrow> enable_rsa_signatures c =
     (Ok (), c\<lparr>cfg_signature_schemes := cfg_signature_schemes c @ [RsaPkcs1Sha256, RsaPkcs1Sha384, RsaPkcs1Sha512,
        RsaPssRsaeSha256, RsaPssRsaeSha384, RsaPssRsaeSha512]\<rparr>)"
  by (simp add: enable_rsa_signatures_def next_do_apply push_scheme_def)

lemma enable_rsa_signatures_full:
  "19 < length (cfg_signature_schemes c) \<Longrightarrow> fst (enable_rsa_signatures c) = Panic"
  by (simp add: enable_rsa_signatures_def next_do_apply push_scheme_def)

lemma enable_rsa_signatures_iff: "fst (enable_rsa_signatures c) = Panic \<longleftrightarrow> 19 < length (cfg_signature_schemes c)"
  using enable_rsa_signatures_run [of c] enable_rsa_signatures_full [of c] by (cases "length (cfg_signature_schemes c) \<le> 19") auto

lemma enable_rsa_signatures_inv:
  assumes "config_inv c" "enable_rsa_signatures c = (Ok (), c')"
  shows "config_inv c'"
proof -
  have "length (cfg_signature_schemes c) \<le> 19" using assms(2) enable_rsa_signatures_iff [of c] by simp
  from enable_rsa_signatures_run [OF this] assms this show ?thesis by (auto simp: config_inv_def)
qed

text \<open>
  C40: whatever calls of the builder make a configuration, its vectors are within their capacities (25 signature
  schemes, 13 groups, 4 identities), it offers a group and a signature scheme, and its groups are just secp256r1.  Enabling the RSA
  signatures again panics exactly if more than 19 schemes are there already, and setting a PSK exactly if
  it has more than four identities.
\<close>

theorem built_configurations:
  assumes "built c"
  shows "config_inv c \<and> cfg_named_groups c = [Secp256r1] \<and> cfg_signature_schemes c \<noteq> [] \<and>
    (fst (enable_rsa_signatures c) = Panic \<longleftrightarrow> 19 < length (cfg_signature_schemes c)) \<and>
    (fst (with_psk k ids c) = Panic \<longleftrightarrow> 4 < length ids)"
proof -
  have "config_inv c \<and> cfg_named_groups c = [Secp256r1] \<and> cfg_signature_schemes c \<noteq> []" using assms
  proof induction
    case (new alloc)
    then show ?case
      by (simp add: tls_config_new_def enable_rsa_signatures_def push_scheme_def push_group_def next_do_apply config_inv_def)
  next
    case (rsa c c')
    have "length (cfg_signature_schemes c) \<le> 19" using rsa(2) enable_rsa_signatures_iff [of c] by simp
    from enable_rsa_signatures_run [OF this] rsa show ?case using enable_rsa_signatures_inv by auto
  next
    case (psk c k ids c')
    then show ?case by (auto simp: with_psk_def config_inv_def split: if_splits)
  qed (auto simp: config_builders_inv with_server_name_def with_alpn_def with_max_fragment_length_def
      reset_max_fragment_length_def config_inv_def)
  then show ?thesis by (simp add: enable_rsa_signatures_iff with_psk_def)
qed

theorem built_configurations_witness:
  "config_inv (with_server_name [97] (snd (tls_config_new True))) \<and>
   fst (with_psk [1] [[2]] (with_server_name [97] (snd (tls_config_new True)))) = Ok ()"
  using built_configurations [OF built.server_name [OF built.new [of True]], of "[97]" "[1]" "[[2]]"]
  by (simp add: with_psk_def)

end
