(* ===== verification/Handshake.thy ===== *)
theory Handshake
  imports Extensions Key_Schedule Config
begin

text \<open>
  The handshake messages of src/handshake/: \<open>ClientHello\<close> with its two-step encoding (placeholder
  binders, then \<open>finalize\<close>), the server-side view \<open>ClientHelloRef\<close>, \<open>ServerHello\<close> in both directions,
  \<open>EncryptedExtensions\<close>, the certificate messages, \<open>NewSessionTicket\<close>, \<open>Finished\<close>, and the two
  sums \<open>ClientHandshake\<close> and \<open>ServerHandshake\<close>.  The lemmas: no parser panics on any input, the encoders
  write the stated bytes, and each parser reads back what the peer's encoder wrote.
\<close>

text \<open>\<open>.map_err(|_| e)\<close>.\<close>

abbreviation or_err :: "'f \<Rightarrow> ('s, 'a, 'e) comp \<Rightarrow> ('s, 'a, 'f) comp" where
  "or_err e m \<equiv> map_err (\<lambda>_. e) m"

definition LEGACY_VERSION :: u16 where
  "LEGACY_VERSION = 0x0303"

section \<open>ClientHello, client side (client\_hello.rs)\<close>

text \<open>
  The ephemeral key enters only through its public point, so the model keeps the secret and takes
  the SEC1 encoding of the public key as a function of it.
\<close>

record client_hello =
  ch_config :: tls_config
  ch_random :: bytes
  ch_secret :: bytes

definition client_hello_new :: "tls_config \<Rightarrow> bytes \<Rightarrow> bytes \<Rightarrow> client_hello" where
  "client_hello_new config rng_random rng_secret =
     \<lparr>ch_config = config, ch_random = rng_random, ch_secret = rng_secret\<rparr>"

definition encode_some :: "('a \<Rightarrow> unit encoder) \<Rightarrow> 'a option \<Rightarrow> unit encoder" where
  "encode_some f v = (case v of None \<Rightarrow> return () | Some a \<Rightarrow> f a)"

definition client_hello_encode ::
  "cipher_suite_params \<Rightarrow> (bytes \<Rightarrow> bytes) \<Rightarrow> client_hello \<Rightarrow> unit encoder" where
  "client_hello_encode C p256_public ch =
     (let config = ch_config ch; public_key = p256_public (ch_secret ch);
          enc = map_err (\<lambda>_. EncodeError) in
      next_do (enc (push_u16 LEGACY_VERSION))
     (next_do (enc (extend_from_slice (ch_random ch)))
     (next_do (enc (push 0))
     (next_do (enc (push_u16 2))
     (next_do (enc (push_u16 (code_point C)))
     (next_do (enc (push 1))
     (next_do (enc (push 0))
     (next_do (with_u16_length
        (next_do (che_encode (CHE_SupportedVersions [TLS13]))
        (next_do (che_encode (CHE_SignatureAlgorithms (cfg_signature_schemes config)))
        (next_do (encode_some (\<lambda>m. che_encode (CHE_MaxFragmentLength m))
                    (cfg_max_fragment_length config))
        (next_do (che_encode (CHE_SupportedGroups (cfg_named_groups config)))
        (next_do (che_encode (CHE_PskKeyExchangeModes [PskDheKe]))
        (next_do (che_encode (CHE_KeyShare [\<lparr>ks_group = Secp256r1, ks_opaque = public_key\<rparr>]))
        (next_do (encode_some (\<lambda>n. che_encode (CHE_ServerName (server_name_list_single n)))
                    (cfg_server_name config))
        (next_do (encode_some (\<lambda>ps. che_encode (CHE_ApplicationLayerProtocolNegotiation ps))
                    (cfg_alpn_protocols config))
        (next_do (encode_some (\<lambda>(_, identities). che_encode (CHE_PreSharedKey
                    \<lparr>psk_identities = identities, psk_binders = [], psk_hash_size = hash_len C\<rparr>))
                    (cfg_psk config))
           (return ())))))))))))
        (return ())))))))))"

text \<open>
  \<open>finalize\<close> works on the encoded message in place and on the transcript digest; its state is the
  pair of both.  The binders are written through a \<open>CryptoBuffer\<close> wrapped around the tail.
\<close>

definition client_hello_finalize ::
  "cipher_suite_params \<Rightarrow> client_hello \<Rightarrow> write_key_schedule \<Rightarrow> (bytes \<times> bytes, unit, tls_error) comp" where
  "client_hello_finalize C ch w =
     (case cfg_psk (ch_config ch) of
        Some (_, identities) \<Rightarrow>
          (let binders_len = length identities * (1 + hash_len C) in
           bind (gets fst) (\<lambda>enc_buf.
           bind (lift_result (usub (length enc_buf) binders_len)) (\<lambda>binders_pos.
           bind (lift_result (usub binders_pos 2)) (\<lambda>prefix_end.
           bind (lift_result (subslice enc_buf 0 prefix_end)) (\<lambda>prefix.
           next_do (modify (\<lambda>(e, t). (e, t @ prefix)))
          (bind (gets snd) (\<lambda>transcript.
           next_do (on_part (\<lambda>(e, t). cb_wrap (drop binders_pos e))
                      (\<lambda>b (e, t). (take binders_pos e @ cb_buf b, t))
                      (for_each (\<lambda>identity. bind (lift_result (create_psk_binder C transcript w))
                         psk_binder_encode) identities))
             (modify (\<lambda>(e, t). (e, t @ drop prefix_end e))))))))))
      | None \<Rightarrow> modify (\<lambda>(e, t). (e, t @ e)))"

section \<open>ClientHello, server side (client\_hello.rs)\<close>

record client_hello_ref =
  cr_legacy_version :: u16
  cr_random :: bytes
  cr_legacy_session_id :: bytes
  cr_cipher_suites :: bytes
  cr_legacy_compression_methods :: bytes
  cr_extensions :: "client_hello_extension list"
  cr_binders_start_offset :: nat

fun is_psk :: "client_hello_extension \<Rightarrow> bool" where
  "is_psk (CHE_PreSharedKey _) = True"
| "is_psk _ = False"

text \<open>The wire size of the binder list: its length prefix and the length-prefixed binders.\<close>

definition binders_wire_len :: "bytes list \<Rightarrow> nat" where
  "binders_wire_len binders = fold (\<lambda>binder wire_len. wire_len + (1 + length binder)) binders 2"

definition binders_start :: "nat \<Rightarrow> client_hello_extension list \<Rightarrow> (nat, tls_error) result" where
  "binders_start msg_len extensions =
     (let psk_indices = filter (\<lambda>i. is_psk (extensions ! i)) [0..<length extensions] in
      if length psk_indices > 1 then Err (fatal AD_IllegalParameter)
      else case psk_indices of
        [] \<Rightarrow> Ok msg_len
      | idx # _ \<Rightarrow>
          if idx \<noteq> length extensions - 1 then Err (fatal AD_IllegalParameter)
          else (case extensions ! idx of
            CHE_PreSharedKey psk \<Rightarrow>
              if binders_wire_len (psk_binders psk) > msg_len then Err InvalidHandshake
              else Ok (msg_len - binders_wire_len (psk_binders psk))
          | _ \<Rightarrow> Ok msg_len))"

definition client_hello_ref_parse :: "nat \<Rightarrow> client_hello_ref tls_parser" where
  "client_hello_ref_parse next_cap =
     (bind (or_err InvalidHandshake read_u8) (\<lambda>msg_type_raw.
      if msg_type_raw \<noteq> handshake_type_code HT_ClientHello then throw InvalidHandshake
      else bind (or_err InvalidHandshake read_u24) (\<lambda>body_len.
      bind (gets pos) (\<lambda>body_start.
      let total_message_length = body_start + unat body_len in
      bind (or_err InvalidHandshake read_u16) (\<lambda>legacy_version.
      bind (or_err InvalidHandshake (pb_fill 32)) (\<lambda>random.
      bind (or_err InvalidHandshake read_u8) (\<lambda>session_id_len.
      if unat session_id_len > 32 then throw InvalidSessionIdLength
      else bind (or_err InvalidHandshake (pb_slice (unat session_id_len))) (\<lambda>legacy_session_id.
      bind (or_err InvalidHandshake read_u16) (\<lambda>cipher_suites_len.
      if unat cipher_suites_len < 2 \<or> unat cipher_suites_len mod 2 \<noteq> 0 then throw InvalidHandshake
      else bind (or_err InvalidHandshake (pb_slice (unat cipher_suites_len))) (\<lambda>cipher_suites.
      bind (or_err InvalidHandshake read_u8) (\<lambda>comp_len.
      if unat comp_len < 1 then throw InvalidHandshake
      else bind (or_err InvalidHandshake (pb_slice (unat comp_len))) (\<lambda>legacy_compression_methods.
      bind (extension_parse_vector che_dispatch next_cap) (\<lambda>extensions.
      bind (gets pos) (\<lambda>offset.
      if offset \<noteq> total_message_length then throw InvalidHandshake
      else bind (lift_result (binders_start total_message_length extensions)) (\<lambda>binders_start_offset.
      return \<lparr>cr_legacy_version = legacy_version, cr_random = random,
              cr_legacy_session_id = legacy_session_id, cr_cipher_suites = cipher_suites,
              cr_legacy_compression_methods = legacy_compression_methods,
              cr_extensions = extensions,
              cr_binders_start_offset = binders_start_offset\<rparr>)))))))))))))))"

section \<open>ServerHello (server\_hello.rs)\<close>

definition server_hello_parse :: "server_hello_extension list tls_parser" where
  "server_hello_parse =
     bind (map_err (\<lambda>_. InvalidHandshake) read_u16) (\<lambda>version.
     bind (from_parse (pb_fill 32)) (\<lambda>random.
     bind (map_err (\<lambda>_. InvalidSessionIdLength) read_u8) (\<lambda>session_id_length.
     bind (map_err (\<lambda>_. InvalidSessionIdLength) (pb_slice (unat session_id_length))) (\<lambda>session_id.
     bind (map_err (\<lambda>_. InvalidCipherSuite) cipher_suite_parse) (\<lambda>cipher_suite.
     bind (from_parse read_u8) (\<lambda>compression.
     extension_parse_vector she_dispatch 4))))))"

fun server_hello_key_share :: "server_hello_extension list \<Rightarrow> key_share_entry option" where
  "server_hello_key_share [] = None"
| "server_hello_key_share (SHE_KeyShare entry # _) = Some entry"
| "server_hello_key_share (_ # es) = server_hello_key_share es"

text \<open>\<open>calculate_shared_secret\<close>; the P-256 operation fails when the share is no valid point.\<close>

definition calculate_shared_secret ::
  "(bytes \<Rightarrow> bytes \<Rightarrow> bytes option) \<Rightarrow> bytes \<Rightarrow> server_hello_extension list \<Rightarrow> bytes option" where
  "calculate_shared_secret p256_dh secret es =
     (case server_hello_key_share es of
        None \<Rightarrow> None
      | Some server_key_share \<Rightarrow> p256_dh secret (ks_opaque server_key_share))"

record server_hello_emit =
  she_random :: bytes
  she_legacy_session_id_echo :: bytes
  she_cipher_suite :: u16
  she_extensions :: "server_hello_extension list"

definition server_hello_emit_encode :: "server_hello_emit \<Rightarrow> unit encoder" where
  "server_hello_emit_encode sh =
     (let enc = map_err (\<lambda>_. EncodeError) in
      if length (she_legacy_session_id_echo sh) > 32 then throw EncodeError
      else
      next_do (enc (push_u16 LEGACY_VERSION))
     (next_do (enc (extend_from_slice (she_random sh)))
     (next_do (enc (push (word_of_nat (length (she_legacy_session_id_echo sh)))))
     (next_do (enc (extend_from_slice (she_legacy_session_id_echo sh)))
     (next_do (enc (push_u16 (she_cipher_suite sh)))
     (next_do (enc (push 0))
     (next_do (with_u16_length (for_each she_encode (she_extensions sh)))
        (return ()))))))))"

section \<open>EncryptedExtensions, NewSessionTicket\<close>

definition encrypted_extensions_parse :: "unit tls_parser" where
  "encrypted_extensions_parse =
     bind (extension_parse_vector eee_dispatch 16) (\<lambda>_. return ())"

definition eee_encode :: "encrypted_extensions_extension \<Rightarrow> unit encoder" where
  "eee_encode e = extension_encode (eee_type e) (eee_payload_encode e)"

definition encrypted_extensions_emit_encode :: "encrypted_extensions_extension list \<Rightarrow> unit encoder" where
  "encrypted_extensions_emit_encode es = with_u16_length (for_each eee_encode es)"

definition new_session_ticket_parse :: "unit tls_parser" where
  "new_session_ticket_parse =
     bind (from_parse read_u32) (\<lambda>lifetime.
     bind (from_parse read_u32) (\<lambda>age_add.
     bind (from_parse read_u8) (\<lambda>nonce_length.
     bind (map_err (\<lambda>_. InvalidNonceLength) (pb_slice (unat nonce_length))) (\<lambda>nonce.
     bind (from_parse read_u16) (\<lambda>ticket_length.
     bind (map_err (\<lambda>_. InvalidTicketLength) (pb_slice (unat ticket_length))) (\<lambda>ticket.
     bind (extension_parse_vector nste_dispatch 1) (\<lambda>extensions.
     return ())))))))"

section \<open>Certificate messages\<close>

datatype certificate_entry_ref = X509 bytes | RawPublicKey bytes

record certificate_ref =
  raw_entries :: bytes
  request_context :: bytes
  cert_entries :: "certificate_entry_ref list"

definition certificate_with_context :: "bytes \<Rightarrow> certificate_ref" where
  "certificate_with_context ctx = \<lparr>raw_entries = [], request_context = ctx, cert_entries = []\<rparr>"

definition certificate_add :: "certificate_entry_ref \<Rightarrow> (certificate_ref, unit, tls_error) comp" where
  "certificate_add entry = (\<lambda>c.
     if length (cert_entries c) < 16 then (Ok (), c\<lparr>cert_entries := cert_entries c @ [entry]\<rparr>)
     else (Err InsufficientSpace, c))"

definition certificate_entry_parse :: "certificate_entry_ref tls_parser" where
  "certificate_entry_parse =
     bind (map_err (\<lambda>_. InvalidCertificateEntry) read_u24) (\<lambda>entry_len.
     bind (map_err (\<lambda>_. InvalidCertificateEntry) (pb_slice (unat entry_len))) (\<lambda>cert.
     bind (extension_parse_vector cte_dispatch 2) (\<lambda>_.
     return (X509 cert))))"

text \<open>The loop of \<open>parse_vector\<close>; \<open>cap\<close> is the room left in the vector.\<close>

fun certificate_entries_loop ::
  "nat \<Rightarrow> certificate_entry_ref list \<Rightarrow> parse_buffer \<Rightarrow>
   (certificate_entry_ref list, tls_error) result \<times> parse_buffer" where
  "certificate_entries_loop cap acc buf =
     (if is_empty buf then (Ok acc, buf)
      else case certificate_entry_parse buf of
        (Ok e, buf') \<Rightarrow>
          (case cap of
             0 \<Rightarrow> (Err DecodeError, buf')
           | Suc c \<Rightarrow> certificate_entries_loop c (acc @ [e]) buf')
      | (Err e, buf') \<Rightarrow> (Err e, buf')
      | (Panic, buf') \<Rightarrow> (Panic, buf'))"

declare certificate_entries_loop.simps [simp del]

definition certificate_ref_parse :: "certificate_ref tls_parser" where
  "certificate_ref_parse =
     (bind (or_err InvalidCertificate read_u8) (\<lambda>request_context_len.
      bind (or_err InvalidCertificate (pb_slice (unat request_context_len))) (\<lambda>ctx.
      bind (or_err InvalidCertificate read_u24) (\<lambda>entries_len.
      bind (or_err InvalidCertificate (pb_slice (unat entries_len))) (\<lambda>raw.
      bind (lift_result (fst (certificate_entries_loop 16 [] (pb_new raw)))) (\<lambda>entries.
      return \<lparr>raw_entries = raw, request_context = ctx, cert_entries = entries\<rparr>))))))"

text \<open>Encoding a raw public key is a \<open>todo!()\<close> in the source, that is, a panic.\<close>

definition certificate_entry_encode :: "certificate_entry_ref \<Rightarrow> unit encoder" where
  "certificate_entry_encode e =
     next_do (case e of
        RawPublicKey _ \<Rightarrow> panic
      | X509 cert \<Rightarrow> with_u24_length (extend_from_slice cert))
    (next_do (push_u16 0) (return ()))"

definition certificate_ref_encode :: "certificate_ref \<Rightarrow> unit encoder" where
  "certificate_ref_encode c =
     next_do (with_u8_length (extend_from_slice (request_context c)))
    (next_do (with_u24_length (for_each certificate_entry_encode (cert_entries c)))
       (return ()))"

text \<open>The owned copies: \<open>Certificate<N>\<close> and back, \<open>CertificateRequest\<close>.\<close>

record certificate_owned =
  own_request_context :: bytes
  own_entries_data :: bytes

definition certificate_try_from_ref :: "nat \<Rightarrow> certificate_ref \<Rightarrow> (certificate_owned, tls_error) result" where
  "certificate_try_from_ref n c =
     (if length (request_context c) > 256 then Err OutOfMemory
      else if length (raw_entries c) > n then Err OutOfMemory
      else Ok \<lparr>own_request_context = request_context c, own_entries_data = raw_entries c\<rparr>)"

definition certificate_ref_try_from :: "certificate_owned \<Rightarrow> (certificate_ref, tls_error) result" where
  "certificate_ref_try_from c =
     (case fst (certificate_entries_loop 16 [] (pb_new (own_entries_data c))) of
        Ok entries \<Rightarrow> Ok \<lparr>raw_entries = own_entries_data c,
                          request_context = own_request_context c, cert_entries = entries\<rparr>
      | Err e \<Rightarrow> Err e
      | Panic \<Rightarrow> Panic)"

definition certificate_request_parse :: "bytes tls_parser" where
  "certificate_request_parse =
     bind (map_err (\<lambda>_. InvalidCertificateRequest) read_u8) (\<lambda>len.
     bind (map_err (\<lambda>_. InvalidCertificateRequest) (pb_slice (unat len))) (\<lambda>ctx.
     bind (extension_parse_vector cre_dispatch 6) (\<lambda>_.
     return ctx)))"

definition certificate_request_try_from :: "bytes \<Rightarrow> (bytes, tls_error) result" where
  "certificate_request_try_from ctx = (if length ctx > 256 then Err InsufficientSpace else Ok ctx)"

record certificate_verify =
  cv_signature_scheme :: signature_scheme
  cv_signature :: bytes

definition certificate_verify_parse :: "certificate_verify tls_parser" where
  "certificate_verify_parse =
     bind (map_err (\<lambda>_. InvalidSignatureScheme) signature_scheme_parse) (\<lambda>scheme.
     bind (map_err (\<lambda>_. InvalidSignature) read_u16) (\<lambda>len.
     bind (map_err (\<lambda>_. InvalidSignature) (pb_slice (unat len))) (\<lambda>sig.
     return \<lparr>cv_signature_scheme = scheme, cv_signature = sig\<rparr>)))"

definition certificate_verify_encode :: "certificate_verify \<Rightarrow> unit encoder" where
  "certificate_verify_encode v =
     next_do (push_u16 (signature_scheme_code (cv_signature_scheme v)))
    (next_do (with_u16_length (extend_from_slice (cv_signature v))) (return ()))"

section \<open>The messages of either side (mod.rs)\<close>

datatype client_handshake =
    ClientCert certificate_ref
  | ClientCertVerify certificate_verify
  | ClientHello client_hello
  | ClientFinished finished

fun client_handshake_type :: "client_handshake \<Rightarrow> handshake_type" where
  "client_handshake_type (ClientHello _) = HT_ClientHello"
| "client_handshake_type (ClientFinished _) = HT_Finished"
| "client_handshake_type (ClientCert _) = HT_Certificate"
| "client_handshake_type (ClientCertVerify _) = HT_CertificateVerify"

fun client_handshake_encode_inner ::
  "cipher_suite_params \<Rightarrow> (bytes \<Rightarrow> bytes) \<Rightarrow> client_handshake \<Rightarrow> unit encoder" where
  "client_handshake_encode_inner C pub (ClientHello m) = client_hello_encode C pub m"
| "client_handshake_encode_inner C pub (ClientFinished m) = finished_encode m"
| "client_handshake_encode_inner C pub (ClientCert m) = certificate_ref_encode m"
| "client_handshake_encode_inner C pub (ClientCertVerify m) = certificate_verify_encode m"

definition client_handshake_encode ::
  "cipher_suite_params \<Rightarrow> (bytes \<Rightarrow> bytes) \<Rightarrow> client_handshake \<Rightarrow> unit encoder" where
  "client_handshake_encode C pub m =
     next_do (map_err (\<lambda>_. EncodeError) (push (handshake_type_code (client_handshake_type m))))
       (with_u24_length (client_handshake_encode_inner C pub m))"

definition client_handshake_finalize ::
  "cipher_suite_params \<Rightarrow> client_handshake \<Rightarrow> write_key_schedule \<Rightarrow> (bytes \<times> bytes, unit, tls_error) comp" where
  "client_handshake_finalize C m w =
     (case m of
        ClientHello hello \<Rightarrow> client_hello_finalize C hello w
      | _ \<Rightarrow> modify (\<lambda>(e, t). (e, t @ e)))"

datatype server_handshake =
    ServerHello "server_hello_extension list"
  | EncryptedExtensions
  | NewSessionTicket
  | ServerCertificate certificate_ref
  | CertificateRequest bytes
  | ServerCertificateVerify certificate_verify
  | ServerFinished finished

definition tmap :: "('a \<Rightarrow> 'b) \<Rightarrow> 'a tls_parser \<Rightarrow> 'b tls_parser" where
  "tmap f p = bind p (\<lambda>a. return (f a))"

definition server_handshake_parse :: "cipher_suite_params \<Rightarrow> server_handshake tls_parser" where
  "server_handshake_parse C =
     bind (map_err (\<lambda>_. InvalidHandshake) handshake_type_parse) (\<lambda>handshake_type.
     bind (map_err (\<lambda>_. InvalidHandshake) read_u24) (\<lambda>content_len.
     case handshake_type of
       HT_ServerHello \<Rightarrow> tmap ServerHello server_hello_parse
     | HT_NewSessionTicket \<Rightarrow> tmap (\<lambda>_. NewSessionTicket) new_session_ticket_parse
     | HT_EncryptedExtensions \<Rightarrow> tmap (\<lambda>_. EncryptedExtensions) encrypted_extensions_parse
     | HT_Certificate \<Rightarrow> tmap ServerCertificate certificate_ref_parse
     | HT_CertificateRequest \<Rightarrow> tmap CertificateRequest certificate_request_parse
     | HT_CertificateVerify \<Rightarrow> tmap ServerCertificateVerify certificate_verify_parse
     | HT_Finished \<Rightarrow> tmap ServerFinished (finished_parse C)
     | _ \<Rightarrow> throw Unimplemented))"

text \<open>
  \<open>read\<close>: the digest is snapshot into a \<open>Finished\<close> before the message itself is absorbed.  The
  state is the cursor and the digest.
\<close>

definition server_handshake_read ::
  "cipher_suite_params \<Rightarrow> (parse_buffer \<times> bytes, server_handshake, tls_error) comp" where
  "server_handshake_read C =
     bind (gets (\<lambda>(b, d). pos b)) (\<lambda>handshake_start.
     bind (on_part fst (\<lambda>b (_, d). (b, d)) (server_handshake_parse C)) (\<lambda>handshake.
     bind (gets (\<lambda>(b, d). pos b)) (\<lambda>handshake_end.
     bind (gets snd) (\<lambda>digest.
     let handshake' = (case handshake of
           ServerFinished f \<Rightarrow> ServerFinished (f\<lparr>fin_hash := Some (hash C digest)\<rparr>)
         | m \<Rightarrow> m) in
     bind (\<lambda>(b, d). (subslice (buffer b) handshake_start handshake_end, (b, d))) (\<lambda>raw.
     next_do (modify (\<lambda>(b, d). (b, d @ raw))) (return handshake'))))))"

section \<open>No parser panics\<close>

lemma wf_let [wf_parsers]: "wf_parser (f a) \<Longrightarrow> wf_parser (let x = a in f x)"
  by simp

lemma wf_tmap [wf_parsers]: "wf_parser p \<Longrightarrow> wf_parser (tmap f p)"
  unfolding tmap_def by (intro wf_parsers)

lemmas wf_vectors [wf_parsers] =
  che.wf_parse_vector she.wf_parse_vector eee.wf_parse_vector cre.wf_parse_vector
  cte.wf_parse_vector nste.wf_parse_vector hrre.wf_parse_vector

lemma binders_start_no_panic [simp]: "binders_start msg_len es \<noteq> Panic"
  by (simp add: binders_start_def Let_def split: list.split client_hello_extension.split)

lemma wf_client_hello_ref_parse [wf_parsers]: "wf_parser (client_hello_ref_parse n)"
  unfolding client_hello_ref_parse_def
  by (intro wf_parsers binders_start_no_panic)

lemma wf_server_hello_parse [wf_parsers]: "wf_parser server_hello_parse"
  unfolding server_hello_parse_def by (intro wf_parsers)

lemma wf_encrypted_extensions_parse [wf_parsers]: "wf_parser encrypted_extensions_parse"
  unfolding encrypted_extensions_parse_def by (intro wf_parsers)

lemma wf_new_session_ticket_parse [wf_parsers]: "wf_parser new_session_ticket_parse"
  unfolding new_session_ticket_parse_def by (intro wf_parsers)

lemma wf_certificate_entry_parse [wf_parsers]: "wf_parser certificate_entry_parse"
  unfolding certificate_entry_parse_def by (intro wf_parsers)

lemma certificate_entries_loop_no_panic:
  "pb_inv buf \<Longrightarrow> fst (certificate_entries_loop cap acc buf) \<noteq> Panic"
proof (induction cap acc buf rule: certificate_entries_loop.induct)
  case (1 cap acc buf)
  obtain r buf' where run: "certificate_entry_parse buf = (r, buf')" by fastforce
  note R = wf_parserD [OF wf_certificate_entry_parse "1.prems" run]
  with "1.IH" [OF _ run [symmetric]] run show ?case
    by (subst certificate_entries_loop.simps) (auto split: result.split nat.split)
qed

lemma wf_certificate_ref_parse [wf_parsers]: "wf_parser certificate_ref_parse"
  unfolding certificate_ref_parse_def
  by (intro wf_parsers certificate_entries_loop_no_panic pb_inv_new)

lemma wf_certificate_request_parse [wf_parsers]: "wf_parser certificate_request_parse"
  unfolding certificate_request_parse_def by (intro wf_parsers)

lemma wf_certificate_verify_parse [wf_parsers]: "wf_parser certificate_verify_parse"
  unfolding certificate_verify_parse_def by (intro wf_parsers)

lemma wf_finished_parse [wf_parsers]: "wf_parser (finished_parse C)"
  unfolding finished_parse_def by (intro wf_parsers)

lemma wf_server_handshake_parse [wf_parsers]: "wf_parser (server_handshake_parse C)"
proof -
  have "wf_parser (case t of
       HT_ServerHello \<Rightarrow> tmap ServerHello server_hello_parse
     | HT_NewSessionTicket \<Rightarrow> tmap (\<lambda>_. NewSessionTicket) new_session_ticket_parse
     | HT_EncryptedExtensions \<Rightarrow> tmap (\<lambda>_. EncryptedExtensions) encrypted_extensions_parse
     | HT_Certificate \<Rightarrow> tmap ServerCertificate certificate_ref_parse
     | HT_CertificateRequest \<Rightarrow> tmap CertificateRequest certificate_request_parse
     | HT_CertificateVerify \<Rightarrow> tmap ServerCertificateVerify certificate_verify_parse
     | HT_Finished \<Rightarrow> tmap ServerFinished (finished_parse C)
     | _ \<Rightarrow> throw Unimplemented)" for t
    by (cases t) (auto intro!: wf_parsers)
  then show ?thesis
    unfolding server_handshake_parse_def by (intro wf_parsers)
qed

lemma server_handshake_read_no_panic:
  assumes "pb_inv b"
  shows "fst (server_handshake_read C (b, d)) \<noteq> Panic"
proof -
  obtain r b' where run: "server_handshake_parse C b = (r, b')" by fastforce
  note R = wf_parserD [OF wf_server_handshake_parse assms run]
  show ?thesis
    using run R
    by (cases r)
      (auto simp: server_handshake_read_def bind_apply next_do_apply on_part_apply subslice_def
        pb_inv_def Let_def)
qed

section \<open>The bytes of a ClientHello\<close>

definition client_hello_body :: "bytes \<Rightarrow> bytes \<Rightarrow> bytes \<Rightarrow> bytes \<Rightarrow> bytes \<Rightarrow> bytes" where
  "client_hello_body random sid suites compr exts =
     be16 LEGACY_VERSION @ random @ vec8 sid @ vec16 suites @ vec8 compr @ vec16 exts"

definition handshake_bytes :: "handshake_type \<Rightarrow> bytes \<Rightarrow> bytes" where
  "handshake_bytes t body = handshake_type_code t # vec24 body"

definition option_list :: "('a \<Rightarrow> 'b) \<Rightarrow> 'a option \<Rightarrow> 'b list" where
  "option_list f v = (case v of None \<Rightarrow> [] | Some a \<Rightarrow> [f a])"

text \<open>The extensions a client offers, in order; \<open>pre_shared_key\<close> comes last.\<close>

definition client_extensions :: "(bytes \<Rightarrow> bytes) \<Rightarrow> client_hello \<Rightarrow> client_hello_extension list" where
  "client_extensions pub ch =
     (let config = ch_config ch in
      [CHE_SupportedVersions [TLS13], CHE_SignatureAlgorithms (cfg_signature_schemes config)] @
      option_list CHE_MaxFragmentLength (cfg_max_fragment_length config) @
      [CHE_SupportedGroups (cfg_named_groups config), CHE_PskKeyExchangeModes [PskDheKe],
       CHE_KeyShare [\<lparr>ks_group = Secp256r1, ks_opaque = pub (ch_secret ch)\<rparr>]] @
      option_list (\<lambda>n. CHE_ServerName (server_name_list_single n)) (cfg_server_name config) @
      option_list CHE_ApplicationLayerProtocolNegotiation (cfg_alpn_protocols config))"

definition che_written_bytes :: "client_hello_extension \<Rightarrow> bytes" where
  "che_written_bytes e = extension_bytes (extension_type_code (che_type e)) (che_written e)"

definition psk_placeholder_ext :: "cipher_suite_params \<Rightarrow> bytes list \<Rightarrow> client_hello_extension" where
  "psk_placeholder_ext C ids =
     CHE_PreSharedKey \<lparr>psk_identities = ids, psk_binders = [], psk_hash_size = hash_len C\<rparr>"

definition client_hello_written :: "cipher_suite_params \<Rightarrow> (bytes \<Rightarrow> bytes) \<Rightarrow> client_hello \<Rightarrow> bytes" where
  "client_hello_written C pub ch =
     client_hello_body (ch_random ch) [] (be16 (code_point C)) [0]
       (concat (map che_written_bytes (client_extensions pub ch @
          option_list (\<lambda>(_, ids). psk_placeholder_ext C ids) (cfg_psk (ch_config ch)))))"

lemma encodes_some:
  "(\<And>a. encodes (f a) (g (h a))) \<Longrightarrow> encodes (encode_some f v) (concat (map g (option_list h v)))"
  by (cases v) (simp_all add: encode_some_def option_list_def encodes_return)

lemma encodes_che_written: "encodes (che_encode e) (che_written_bytes e)"
  unfolding che_written_bytes_def by (rule encodes_che)

lemma encodes_client_hello:
  "encodes (client_hello_encode C pub ch) (client_hello_written C pub ch)"
proof -
  let ?cfg = "ch_config ch"
  let ?ks = "\<lparr>ks_group = Secp256r1, ks_opaque = pub (ch_secret ch)\<rparr>"
  have exts: "encodes
        (next_do (che_encode (CHE_SupportedVersions [TLS13]))
        (next_do (che_encode (CHE_SignatureAlgorithms (cfg_signature_schemes ?cfg)))
        (next_do (encode_some (\<lambda>m. che_encode (CHE_MaxFragmentLength m))
                    (cfg_max_fragment_length ?cfg))
        (next_do (che_encode (CHE_SupportedGroups (cfg_named_groups ?cfg)))
        (next_do (che_encode (CHE_PskKeyExchangeModes [PskDheKe]))
        (next_do (che_encode (CHE_KeyShare [?ks]))
        (next_do (encode_some (\<lambda>n. che_encode (CHE_ServerName (server_name_list_single n)))
                    (cfg_server_name ?cfg))
        (next_do (encode_some (\<lambda>ps. che_encode (CHE_ApplicationLayerProtocolNegotiation ps))
                    (cfg_alpn_protocols ?cfg))
        (next_do (encode_some (\<lambda>(_, identities). che_encode (CHE_PreSharedKey
                    \<lparr>psk_identities = identities, psk_binders = [], psk_hash_size = hash_len C\<rparr>))
                    (cfg_psk ?cfg))
           (return ()))))))))))
      (che_written_bytes (CHE_SupportedVersions [TLS13]) @
       che_written_bytes (CHE_SignatureAlgorithms (cfg_signature_schemes ?cfg)) @
       concat (map che_written_bytes
         (option_list CHE_MaxFragmentLength (cfg_max_fragment_length ?cfg))) @
       che_written_bytes (CHE_SupportedGroups (cfg_named_groups ?cfg)) @
       che_written_bytes (CHE_PskKeyExchangeModes [PskDheKe]) @
       che_written_bytes (CHE_KeyShare [?ks]) @
       concat (map che_written_bytes
         (option_list (\<lambda>n. CHE_ServerName (server_name_list_single n)) (cfg_server_name ?cfg))) @
       concat (map che_written_bytes
         (option_list CHE_ApplicationLayerProtocolNegotiation (cfg_alpn_protocols ?cfg))) @
       concat (map che_written_bytes
         (option_list (\<lambda>(_, ids). psk_placeholder_ext C ids) (cfg_psk ?cfg))) @ [])"
    by (intro encodes_next encodes_che_written encodes_some encodes_return)
      (auto simp: psk_placeholder_ext_def split: prod.split intro: encodes_che_written)
  have eq: "client_hello_written C pub ch = be16 LEGACY_VERSION @ ch_random ch @ [0] @ be16 2 @
      be16 (code_point C) @ [1] @ [0] @ vec16 (concat (map che_written_bytes (client_extensions pub ch @
          option_list (\<lambda>(_, ids). psk_placeholder_ext C ids) (cfg_psk ?cfg)))) @ []"
    by (simp add: client_hello_written_def client_hello_body_def vec8_def
        vec16_def [of "be16 (code_point C)"])
  show ?thesis
    unfolding eq client_hello_encode_def Let_def
    by (intro encodes_next encodes_map_err encodes_push encodes_push_u16 encodes_extend
        encodes_with_u16 encodes_return)
      (use exts in \<open>simp add: client_extensions_def Let_def\<close>)
qed

section \<open>Reading a ClientHello\<close>

text \<open>\<open>reads B n rest\<close>: the cursor at \<open>n\<close> in \<open>B\<close> has \<open>rest\<close> in front of it.\<close>

definition reads :: "bytes \<Rightarrow> nat \<Rightarrow> bytes \<Rightarrow> bool" where
  "reads B n rest \<longleftrightarrow> n \<le> length B \<and> drop n B = rest"

lemma reads_step:
  assumes "reads B n (bs @ rest)" and "parses p bs v" and "m = n + length bs"
  shows "reads B m rest" and "p \<lparr>pos = n, buffer = B\<rparr> = (Ok v, \<lparr>pos = m, buffer = B\<rparr>)"
proof -
  have d: "drop n B = bs @ rest" and le: "n \<le> length B" using assms(1) by (simp_all add: reads_def)
  have B: "B = take n B @ bs @ rest" using d by (metis append_take_drop_id)
  have n: "length (take n B) = n" using le by simp
  show "p \<lparr>pos = n, buffer = B\<rparr> = (Ok v, \<lparr>pos = m, buffer = B\<rparr>)"
    using parsesD [OF assms(2), of "take n B" rest] unfolding n B [symmetric] assms(3) .
  have "drop m B = rest"
    using arg_cong [OF d, of "drop (length bs)"] by (simp add: assms(3) add.commute)
  moreover have "m \<le> length B" using arg_cong [OF d, of length] le by (simp add: assms(3))
  ultimately show "reads B m rest" by (simp add: reads_def)
qed

lemma reads_bind:
  assumes "reads B n (bs @ rest)" and "parses p bs v" and "m = n + length bs"
    and "reads B m rest \<Longrightarrow> f v \<lparr>pos = m, buffer = B\<rparr> = R"
  shows "bind p f \<lparr>pos = n, buffer = B\<rparr> = R"
  using reads_step [OF assms(1-3)] assms(4) by (simp add: bind_Ok)

lemma reads_bind_pos:
  "f n \<lparr>pos = n, buffer = B\<rparr> = R \<Longrightarrow> bind (gets pos) f \<lparr>pos = n, buffer = B\<rparr> = R"
  by (simp add: bind_apply)

definition client_hello_fields_ok :: "bytes \<Rightarrow> bytes \<Rightarrow> bytes \<Rightarrow> bytes \<Rightarrow> bool" where
  "client_hello_fields_ok random sid suites compr \<longleftrightarrow>
     length random = 32 \<and> length sid \<le> 32 \<and>
     2 \<le> length suites \<and> even (length suites) \<and> length suites < 2 ^ 16 \<and>
     1 \<le> length compr \<and> length compr < 2 ^ 8"

abbreviation che_block :: "client_hello_extension wire_extension list \<Rightarrow> bytes" where
  "che_block es \<equiv> concat (map (wire_bytes che_type che_wire) es)"

abbreviation client_hello_msg :: "bytes \<Rightarrow> bytes \<Rightarrow> bytes \<Rightarrow> bytes \<Rightarrow> bytes \<Rightarrow> bytes" where
  "client_hello_msg random sid suites compr exts \<equiv>
     handshake_bytes HT_ClientHello (client_hello_body random sid suites compr exts)"

lemma client_hello_ref_parse_run:
  assumes fields: "client_hello_fields_ok random sid suites compr"
    and es: "list_all (wire_ok che_ok) es" "length (known_extensions es) \<le> n"
      "length (che_block es) < 2 ^ 16"
    and start: "binders_start (length (client_hello_msg random sid suites compr (che_block es)))
       (known_extensions es) = Ok off"
  shows "client_hello_ref_parse n (pb_new (client_hello_msg random sid suites compr (che_block es) @ post)) =
    (Ok \<lparr>cr_legacy_version = LEGACY_VERSION, cr_random = random, cr_legacy_session_id = sid,
         cr_cipher_suites = suites, cr_legacy_compression_methods = compr,
         cr_extensions = known_extensions es, cr_binders_start_offset = off\<rparr>,
     \<lparr>pos = length (client_hello_msg random sid suites compr (che_block es)),
      buffer = client_hello_msg random sid suites compr (che_block es) @ post\<rparr>)"
proof -
  let ?E = "che_block es"
  let ?body = "client_hello_body random sid suites compr ?E"
  let ?B = "client_hello_msg random sid suites compr ?E @ post"
  let ?s = "length sid" and ?c = "length suites" and ?m = "length compr"
  note F = fields [unfolded client_hello_fields_ok_def]
  have body: "length ?body = 40 + ?s + ?c + ?m + length ?E" and body24: "length ?body < 2 ^ 24"
    using F es(3) by (simp_all add: client_hello_body_def)
  have lens: "unat (word_of_nat (length ?body) :: u32) = length ?body"
    "unat (word_of_nat ?s :: byte) = ?s" "unat (word_of_nat ?c :: u16) = ?c"
    "unat (word_of_nat ?m :: byte) = ?m"
    using F body24 by (simp_all add: unat_word_of_nat)
  have start_reads: "reads ?B 0 ([1] @ be24 (word_of_nat (length ?body)) @ be16 LEGACY_VERSION @
      random @ [word_of_nat ?s] @ sid @ be16 (word_of_nat ?c) @ suites @ [word_of_nat ?m] @ compr @
      vec16 ?E @ post)"
    by (simp add: reads_def handshake_bytes_def client_hello_body_def vec24_def vec8_def
        vec16_def [of suites])
  have total_len: "length (client_hello_msg random sid suites compr ?E) = 4 + length ?body"
    by (simp add: handshake_bytes_def)
  note err = parses_map_err
  show ?thesis
    unfolding client_hello_ref_parse_def pb_new_def
    apply (rule reads_bind [OF start_reads err [OF parses_read_u8] refl],
        simp only: handshake_type_code.simps simp_thms if_False)
    apply (erule reads_bind [OF _ err [OF parses_read_u24] refl], use lens body24 in simp,
        rule reads_bind_pos, unfold Let_def lens)
    apply (erule reads_bind [OF _ err [OF parses_read_u16] refl])
    apply (erule reads_bind [OF _ err [OF parses_pb_fill] refl], use F in simp)
    apply (erule reads_bind [OF _ err [OF parses_read_u8] refl], unfold lens, subst if_not_P,
        use F in simp)
    apply (erule reads_bind [OF _ err [OF parses_pb_slice [OF refl]] refl])
    apply (erule reads_bind [OF _ err [OF parses_read_u16] refl], unfold lens, subst if_not_P,
        use F in simp)
    apply (erule reads_bind [OF _ err [OF parses_pb_slice [OF refl]] refl])
    apply (erule reads_bind [OF _ err [OF parses_read_u8] refl], unfold lens, subst if_not_P,
        use F in \<open>simp add: Suc_le_eq\<close>)
    apply (erule reads_bind [OF _ err [OF parses_pb_slice [OF refl]] refl])
    apply (erule reads_bind [OF _ che.parses_vector_wire [OF es] refl], rule reads_bind_pos)
    using start F
    by (simp add: total_len body)
qed

section \<open>Where the binders start\<close>

lemma binders_wire_len_eq: "binders_wire_len binders = 2 + length (concat (map vec8 binders))"
proof -
  have "fold (\<lambda>binder wire_len. wire_len + (1 + length binder)) binders k =
      k + length (concat (map vec8 binders))" for k :: nat
    by (induction binders arbitrary: k) simp_all
  then show ?thesis by (simp add: binders_wire_len_def)
qed

lemma filter_psk_none:
  "list_all (\<lambda>e. \<not> is_psk e) xs \<Longrightarrow> filter (\<lambda>i. is_psk (xs ! i)) [0..<length xs] = []"
  by (auto simp: filter_empty_conv list_all_length)

lemma filter_psk_last:
  assumes "list_all (\<lambda>e. \<not> is_psk e) xs"
  shows "filter (\<lambda>i. is_psk ((xs @ [CHE_PreSharedKey p]) ! i)) [0..<Suc (length xs)] = [length xs]"
proof -
  have "filter (\<lambda>i. is_psk ((xs @ [CHE_PreSharedKey p]) ! i)) [0..<length xs] =
      filter (\<lambda>i. is_psk (xs ! i)) [0..<length xs]"
    by (rule filter_cong) (auto simp: nth_append)
  then show ?thesis by (simp add: filter_psk_none [OF assms])
qed

lemma binders_start_none:
  "list_all (\<lambda>e. \<not> is_psk e) es \<Longrightarrow> binders_start msg_len es = Ok msg_len"
  by (simp add: binders_start_def filter_psk_none Let_def)

lemma binders_start_last:
  assumes "list_all (\<lambda>e. \<not> is_psk e) xs" and "binders_wire_len (psk_binders p) \<le> msg_len"
  shows "binders_start msg_len (xs @ [CHE_PreSharedKey p]) =
     Ok (msg_len - binders_wire_len (psk_binders p))"
  using assms filter_psk_last [OF assms(1), of p] by (simp add: binders_start_def Let_def)

text \<open>Conversely, an offset is only computed for a unique, last \<open>pre_shared_key\<close> or for none.\<close>

lemma binders_start_OkD:
  assumes "binders_start msg_len es = Ok off"
  shows "list_all (\<lambda>e. \<not> is_psk e) es \<and> off = msg_len \<or>
    (\<exists>xs p. es = xs @ [CHE_PreSharedKey p] \<and> list_all (\<lambda>e. \<not> is_psk e) xs \<and>
       off + binders_wire_len (psk_binders p) = msg_len)"
proof (cases "filter (\<lambda>i. is_psk (es ! i)) [0..<length es]")
  case Nil
  then have "list_all (\<lambda>e. \<not> is_psk e) es"
    by (auto simp: filter_empty_conv list_all_length)
  then show ?thesis using assms by (simp add: binders_start_none)
next
  case (Cons idx rest)
  then have rest: "rest = []" and idx: "idx = length es - 1"
    using assms by (auto simp: binders_start_def Let_def split: if_splits list.splits)
  have only: "is_psk (es ! i) \<longleftrightarrow> i = idx" if "i < length es" for i
  proof -
    have "i \<in> set (filter (\<lambda>i. is_psk (es ! i)) [0..<length es]) \<longleftrightarrow> is_psk (es ! i)"
      using that by simp
    then show ?thesis using Cons rest by simp
  qed
  have ne: "es \<noteq> []" using Cons by auto
  define xs where "xs = butlast es"
  have es: "es = xs @ [last es]" using ne by (simp add: xs_def)
  have "is_psk (last es)" using only [of idx] ne idx by (simp add: last_conv_nth)
  then obtain p where p: "last es = CHE_PreSharedKey p" by (cases "last es") auto
  have xs: "list_all (\<lambda>e. \<not> is_psk e) xs"
    unfolding list_all_length
  proof (intro allI impI)
    fix i assume "i < length xs"
    then show "\<not> is_psk (xs ! i)"
      using only [of i] idx by (simp add: xs_def nth_butlast)
  qed
  have "off + binders_wire_len (psk_binders p) = msg_len"
    using assms filter_psk_last [OF xs, of p]
    by (subst (asm) es, unfold p) (auto simp: binders_start_def Let_def split: if_splits)
  with es p xs show ?thesis by auto
qed

section \<open>The client's binders\<close>

lemma psk_binder_encode_bytes: "encodes (psk_binder_encode v) (vec8 v)"
  using encodes_next [OF encodes_map_err [OF encodes_push [of "word_of_nat (length v)"]]
      encodes_next_last [OF encodes_map_err [OF encodes_extend [of v]]]]
  by (simp add: psk_binder_encode_def vec8_def)

lemma bind_lift_Ok: "r = Ok a \<Longrightarrow> bind (lift_result r) f = f a"
  by simp

text \<open>
  \<open>finalize\<close>: the zeroed tail is filled with one binder per identity, each a MAC of the transcript
  up to, and without, the binder list; the transcript then continues with the list.
\<close>

lemma client_hello_finalize_run:
  assumes psk: "cfg_psk (ch_config ch) = Some (psk, ids)"
    and bnd: "create_psk_binder C (t @ prefix) w = Ok binder" "length binder = hash_len C"
    and tail: "length tail = length ids * (1 + hash_len C)"
    and enc: "enc = prefix @ be16 n @ tail"
  shows "client_hello_finalize C ch w (enc, t) =
     (Ok (), (prefix @ be16 n @ concat (map (\<lambda>_. vec8 binder) ids),
              t @ prefix @ be16 n @ concat (map (\<lambda>_. vec8 binder) ids)))"
proof -
  let ?B = "concat (map (\<lambda>_. vec8 binder) ids)"
  have lenB: "length ?B = length tail"
    using length_concat_const [of "\<lambda>_. vec8 binder" "1 + hash_len C" ids] bnd(2) tail by simp
  have "encodes (for_each (\<lambda>identity. psk_binder_encode binder) ids) ?B"
    by (intro encodes_for_each psk_binder_encode_bytes)
  then have "for_each (\<lambda>identity. psk_binder_encode binder) ids (cb_wrap tail) =
      (Ok (), cb_append ?B (cb_wrap tail))"
    by (rule encodes_fits) (simp_all add: cb_inv_def cb_wrap_def cb_room_def lenB)
  moreover have "cb_buf (cb_append ?B (cb_wrap tail)) = ?B"
    using lenB by (simp add: cb_append_def cb_wrap_def overwrite_def)
  ultimately show ?thesis
    using psk bnd(1) tail
    by (simp add: client_hello_finalize_def enc bind_apply next_do_apply on_part_apply usub_def
        subslice_def Let_def bind_lift_Ok [OF bnd(1)])
qed

section \<open>From the client's encoder to the server's parser\<close>

text \<open>The client's first message up to the binder list, for \<open>k\<close> bytes of binders.\<close>

definition client_hello_prefix ::
  "cipher_suite_params \<Rightarrow> (bytes \<Rightarrow> bytes) \<Rightarrow> client_hello \<Rightarrow> bytes list \<Rightarrow> nat \<Rightarrow> bytes" where
  "client_hello_prefix C pub ch ids k =
     (let idents = vec16 (concat (map (\<lambda>i. vec16 i @ be32 0) ids));
          others = concat (map che_written_bytes (client_extensions pub ch));
          exts_len = length others + (length idents + k + 6) in
      handshake_type_code HT_ClientHello #
      be24 (word_of_nat (length (ch_random ch) + exts_len + 11)) @
      be16 LEGACY_VERSION @ ch_random ch @ vec8 [] @ vec16 (be16 (code_point C)) @ vec8 [0] @
      be16 (word_of_nat exts_len) @ others @
      be16 (extension_type_code ET_PreSharedKey) @ be16 (word_of_nat (length idents + k + 2)) @ idents)"

text \<open>The \<open>pre_shared_key\<close> extension once every identity has the same binder.\<close>

definition psk_final_ext :: "cipher_suite_params \<Rightarrow> bytes list \<Rightarrow> bytes \<Rightarrow> client_hello_extension" where
  "psk_final_ext C ids b = CHE_PreSharedKey
     \<lparr>psk_identities = ids, psk_binders = map (\<lambda>_. b) ids, psk_hash_size = hash_len C\<rparr>"

definition client_hello_final ::
  "cipher_suite_params \<Rightarrow> (bytes \<Rightarrow> bytes) \<Rightarrow> client_hello \<Rightarrow> bytes list \<Rightarrow> bytes \<Rightarrow> bytes" where
  "client_hello_final C pub ch ids b =
     client_hello_msg (ch_random ch) [] (be16 (code_point C)) [0]
       (che_block (map Known (client_extensions pub ch @ [psk_final_ext C ids b])))"

lemma client_extensions_not_psk: "list_all (\<lambda>e. \<not> is_psk e) (client_extensions pub ch)"
  by (simp add: client_extensions_def Let_def option_list_def split: option.split)

lemma che_written_wire: "\<not> is_psk e \<Longrightarrow> che_written e = che_wire e"
  by (cases e) simp_all

lemma client_extensions_block:
  "che_block (map Known (client_extensions pub ch)) =
   concat (map che_written_bytes (client_extensions pub ch))"
proof -
  have "map (wire_bytes che_type che_wire) (map Known (client_extensions pub ch)) =
      map che_written_bytes (client_extensions pub ch)"
    using client_extensions_not_psk [of pub ch]
    by (auto simp: wire_bytes_def che_written_bytes_def che_written_wire list_all_iff)
  then show ?thesis by (simp only:)
qed

lemma client_hello_written_split:
  assumes "cfg_psk (ch_config ch) = Some (psk, ids)" and "k = (1 + hash_len C) * length ids"
  shows "handshake_bytes HT_ClientHello (client_hello_written C pub ch) =
     client_hello_prefix C pub ch ids k @ be16 (word_of_nat k) @ replicate k 0"
  using assms
  by (simp add: client_hello_written_def client_hello_prefix_def handshake_bytes_def vec24_def
      client_hello_body_def vec16_def [of "concat _ @ _"] option_list_def psk_placeholder_ext_def
      che_written_bytes_def [of "CHE_PreSharedKey _"] extension_bytes_def vec16_def [of "vec16 _ @ _"]
      psk_ch_placeholder_def Let_def ac_simps)

lemma psk_ch_bytes_same:
  assumes "length b = h"
  shows "psk_ch_bytes (map (\<lambda>i. (i, 0)) ids) (map (\<lambda>_. b) ids) =
     vec16 (concat (map (\<lambda>i. vec16 i @ be32 0) ids)) @
     be16 (word_of_nat ((1 + h) * length ids)) @ concat (map (\<lambda>_. vec8 b) ids)"
proof -
  have "map psk_identity_bytes (map (\<lambda>i. (i, 0)) ids) = map (\<lambda>i. vec16 i @ be32 0) ids"
    by (simp add: psk_identity_bytes_def)
  moreover have "map vec8 (map (\<lambda>_. b) ids) = map (\<lambda>_. vec8 b) ids" by simp
  moreover have "length (concat (map (\<lambda>_. vec8 b) ids)) = (1 + h) * length ids"
    using length_concat_const [of "\<lambda>_. vec8 b" "1 + h" ids] assms by simp
  ultimately show ?thesis unfolding psk_ch_bytes_def by (simp only: vec16_def append_assoc)
qed

lemma client_hello_final_split:
  assumes "length b = hash_len C" and k: "k = (1 + hash_len C) * length ids"
  shows "client_hello_final C pub ch ids b =
     client_hello_prefix C pub ch ids k @ be16 (word_of_nat k) @ concat (map (\<lambda>_. vec8 b) ids)"
proof -
  have len: "length (concat (map (\<lambda>_. vec8 b) ids)) = k"
    using length_concat_const [of "\<lambda>_. vec8 b" "1 + hash_len C" ids] assms by simp
  have ext: "wire_bytes che_type che_wire (Known (psk_final_ext C ids b)) =
      be16 (extension_type_code ET_PreSharedKey) @
      vec16 (vec16 (concat (map (\<lambda>i. vec16 i @ be32 0) ids)) @
        be16 (word_of_nat k) @ concat (map (\<lambda>_. vec8 b) ids))"
    by (simp add: wire_bytes_def psk_final_ext_def extension_bytes_def k
        psk_ch_bytes_same [OF assms(1)])
  show ?thesis
    unfolding client_hello_final_def map_append concat_append client_extensions_block
      list.map concat.simps ext append_Nil2
    by (simp add: client_hello_prefix_def handshake_bytes_def vec24_def client_hello_body_def
        vec16_def [of "concat _ @ _"] vec16_def [of "vec16 _ @ _"] Let_def ac_simps
        len [simplified])
qed

text \<open>
  The hypotheses on a client's configuration under which its first message is one the server can
  read: everything within the capacities, and no ALPN names, which the server's parser drops.
\<close>

definition client_hello_ok ::
  "cipher_suite_params \<Rightarrow> (bytes \<Rightarrow> bytes) \<Rightarrow> client_hello \<Rightarrow> bytes list \<Rightarrow> bytes \<Rightarrow> bool" where
  "client_hello_ok C pub ch ids b \<longleftrightarrow>
     length (ch_random ch) = 32 \<and>
     list_all che_ok (client_extensions pub ch @ [psk_final_ext C ids b]) \<and>
     length (che_block (map Known (client_extensions pub ch @ [psk_final_ext C ids b]))) < 2 ^ 16"

lemma known_extensions_map [simp]: "known_extensions (map Known xs) = xs"
  by (induction xs) simp_all

lemma wire_ok_Known: "list_all (wire_ok ok) (map Known xs) = list_all ok xs"
  by (induction xs) (simp_all add: wire_ok_def)

lemma length_client_extensions: "length (client_extensions pub ch) \<le> 8"
  by (simp add: client_extensions_def Let_def option_list_def split: option.split)

lemma client_hello_final_parse:
  assumes ok: "client_hello_ok C pub ch ids b" and b: "length b = hash_len C" and n: "9 \<le> n"
  shows "client_hello_ref_parse n (pb_new (client_hello_final C pub ch ids b @ post)) =
    (Ok \<lparr>cr_legacy_version = LEGACY_VERSION, cr_random = ch_random ch, cr_legacy_session_id = [],
         cr_cipher_suites = be16 (code_point C), cr_legacy_compression_methods = [0],
         cr_extensions = client_extensions pub ch @ [psk_final_ext C ids b],
         cr_binders_start_offset =
           length (client_hello_prefix C pub ch ids ((1 + hash_len C) * length ids))\<rparr>,
     \<lparr>pos = length (client_hello_final C pub ch ids b),
      buffer = client_hello_final C pub ch ids b @ post\<rparr>)"
proof -
  let ?es = "client_extensions pub ch @ [psk_final_ext C ids b]"
  let ?k = "(1 + hash_len C) * length ids"
  have "binders_wire_len (map (\<lambda>_. b) ids) = 2 + ?k"
    using length_concat_const [of "\<lambda>_. vec8 b" "1 + hash_len C" ids] b
    by (simp add: binders_wire_len_eq comp_def)
  moreover have "length (client_hello_final C pub ch ids b) =
      length (client_hello_prefix C pub ch ids ?k) + (2 + ?k)"
    using client_hello_final_split [OF b refl, of pub ch ids]
      length_concat_const [of "\<lambda>_. vec8 b" "1 + hash_len C" ids] b by simp
  ultimately have start: "binders_start (length (client_hello_final C pub ch ids b)) ?es =
      Ok (length (client_hello_prefix C pub ch ids ?k))"
    unfolding psk_final_ext_def
    by (subst binders_start_last [OF client_extensions_not_psk]) simp_all
  show ?thesis
    using client_hello_ref_parse_run [of "ch_random ch" "[]" "be16 (code_point C)" "[0]"
        "map Known ?es" n, unfolded known_extensions_map wire_ok_Known] start ok n
      length_client_extensions [of pub ch]
    unfolding client_hello_final_def client_hello_ok_def client_hello_fields_ok_def by simp
qed

section \<open>The server's messages\<close>

abbreviation she_block :: "server_hello_extension list \<Rightarrow> bytes" where
  "she_block es \<equiv> concat (map (wire_bytes she_type she_wire) (map Known es))"

definition server_hello_body :: "server_hello_emit \<Rightarrow> bytes" where
  "server_hello_body sh =
     be16 LEGACY_VERSION @ she_random sh @ vec8 (she_legacy_session_id_echo sh) @
     be16 (she_cipher_suite sh) @ [0] @ vec16 (she_block (she_extensions sh))"

lemma encodes_she_wire: "encodes (she_encode e) (wire_bytes she_type she_wire (Known e))"
  using encodes_she [of e] by (simp add: wire_bytes_def)

lemma encodes_server_hello_emit:
  assumes "length (she_legacy_session_id_echo sh) \<le> 32"
  shows "encodes (server_hello_emit_encode sh) (server_hello_body sh)"
proof -
  have eq: "server_hello_body sh = be16 LEGACY_VERSION @ she_random sh @
      [word_of_nat (length (she_legacy_session_id_echo sh))] @ she_legacy_session_id_echo sh @
      be16 (she_cipher_suite sh) @ [0] @ vec16 (she_block (she_extensions sh)) @ []"
    by (simp add: server_hello_body_def vec8_def)
  have "encodes (for_each she_encode (she_extensions sh)) (she_block (she_extensions sh))"
    using encodes_for_each [of "she_extensions sh" she_encode
        "\<lambda>e. wire_bytes she_type she_wire (Known e)"] encodes_she_wire
    by (simp add: comp_def)
  then show ?thesis
    unfolding eq server_hello_emit_encode_def Let_def if_not_P [OF leD [OF assms]]
    by (intro encodes_next encodes_map_err encodes_push encodes_push_u16 encodes_extend
        encodes_with_u16 encodes_return)
qed

text \<open>\<open>ServerHello::parse\<close> is the inverse of \<open>ServerHelloEmit::encode\<close>.\<close>

lemma parses_server_hello:
  assumes "length (she_random sh) = 32" and "length (she_legacy_session_id_echo sh) < 2 ^ 8"
    and "she_cipher_suite sh = cipher_suite_code cs" and "list_all she_ok (she_extensions sh)"
    and "length (she_extensions sh) \<le> 4" and "length (she_block (she_extensions sh)) < 2 ^ 16"
  shows "parses server_hello_parse (server_hello_body sh) (she_extensions sh)"
proof -
  have sid: "unat (word_of_nat (length (she_legacy_session_id_echo sh)) :: byte) =
      length (she_legacy_session_id_echo sh)"
    using assms(2) by (simp add: unat_word_of_nat)
  have exts: "parses (extension_parse_vector she_dispatch 4)
      (vec16 (she_block (she_extensions sh))) (she_extensions sh)"
    using she.parses_vector_wire [of "map Known (she_extensions sh)" 4] assms(4-6)
    by (simp add: wire_ok_Known)
  show ?thesis
    unfolding server_hello_parse_def server_hello_body_def vec8_def assms(3) append_Cons append_Nil
    by (rule parses_bind [OF parses_map_err [OF parses_read_u16]],
        rule parses_bind [OF parses_from_parse [OF parses_pb_fill]], simp add: assms(1),
        rule parses_bind_Cons [OF parses_map_err [OF parses_read_u8]], unfold sid,
        rule parses_bind [OF parses_map_err [OF parses_pb_slice [OF refl]]],
        rule parses_bind [OF parses_map_err [OF parses_cipher_suite]],
        rule parses_bind_Cons [OF parses_from_parse [OF parses_read_u8] exts])
qed

lemma encodes_finished [encodes_rules]: "encodes (finished_encode f) (fin_verify f)"
  unfolding finished_encode_def
  by (intro encodes_next_last encodes_map_err encodes_extend)

lemma parses_finished [parses_rules]:
  "length v = hash_len C \<Longrightarrow> parses (finished_parse C) v \<lparr>fin_verify = v, fin_hash = None\<rparr>"
  unfolding finished_parse_def
  by (rule parses_bind_last [OF parses_from_parse [OF parses_pb_fill]]) simp_all

lemma parses_empty_encrypted_extensions: "parses encrypted_extensions_parse (be16 0) ()"
  using eee.parses_vector_wire [of "[]" 16]
  by (auto simp: encrypted_extensions_parse_def vec16_def intro: parses_bind_last)

lemma encodes_encrypted_extensions_empty: "encodes (encrypted_extensions_emit_encode []) (be16 0)"
  using encodes_with_u16 [OF encodes_return]
  by (simp add: encrypted_extensions_emit_encode_def vec16_def)

lemma encodes_certificate_verify [encodes_rules]:
  "encodes (certificate_verify_encode v)
     (be16 (signature_scheme_code (cv_signature_scheme v)) @ vec16 (cv_signature v))"
  unfolding certificate_verify_encode_def
  by (intro encodes_next encodes_next_last encodes_push_u16 encodes_with_u16 encodes_extend)

lemma parses_certificate_verify:
  assumes "length (cv_signature v) < 2 ^ 16"
  shows "parses certificate_verify_parse
     (be16 (signature_scheme_code (cv_signature_scheme v)) @ vec16 (cv_signature v)) v"
proof -
  have len: "unat (word_of_nat (length (cv_signature v)) :: u16) = length (cv_signature v)"
    using assms by (simp add: unat_word_of_nat)
  show ?thesis
    unfolding certificate_verify_parse_def vec16_def
    by (rule parses_bind [OF parses_map_err [OF parses_signature_scheme]],
        rule parses_bind [OF parses_map_err [OF parses_read_u16]], unfold len,
        rule parses_bind_last [OF parses_map_err [OF parses_pb_slice [OF refl]]])
      (cases v, simp)
qed

definition certificate_entry_bytes :: "bytes \<Rightarrow> bytes" where
  "certificate_entry_bytes cert = vec24 cert @ be16 0"

lemma encodes_certificate_entry: "encodes (certificate_entry_encode (X509 cert)) (certificate_entry_bytes cert)"
  unfolding certificate_entry_encode_def certificate_entry_bytes_def certificate_entry_ref.case
  by (intro encodes_next encodes_next_last encodes_push_u16 encodes_with_u24 encodes_extend)

lemma parses_certificate_entry:
  assumes "length cert < 2 ^ 24"
  shows "parses certificate_entry_parse (certificate_entry_bytes cert) (X509 cert)"
proof -
  have len: "unat (word_of_nat (length cert) :: u32) = length cert"
    using assms by (simp add: unat_word_of_nat)
  have exts: "parses (extension_parse_vector cte_dispatch 2) (be16 0) []"
    using cte.parses_vector_wire [of "[]" 2] by (simp add: vec16_def)
  show ?thesis
    unfolding certificate_entry_parse_def certificate_entry_bytes_def vec24_def append_assoc
    by (rule parses_bind [OF parses_map_err [OF parses_read_u24]], simp add: len assms [simplified],
        unfold len, rule parses_bind [OF parses_map_err [OF parses_pb_slice [OF refl]]],
        rule parses_bind_last [OF exts]) simp
qed

lemma certificate_entries_loop_enc:
  assumes "list_all (\<lambda>c. length c < 2 ^ 24) certs" and "length certs \<le> cap"
  shows "fst (certificate_entries_loop cap acc
      \<lparr>pos = length pre, buffer = pre @ concat (map certificate_entry_bytes certs)\<rparr>) =
     Ok (acc @ map X509 certs)"
  using assms
proof (induction certs arbitrary: cap acc pre)
  case Nil
  then show ?case by (subst certificate_entries_loop.simps) (simp add: is_empty_def)
next
  case (Cons c certs)
  from Cons.prems obtain n where n: "cap = Suc n" by (cases cap) auto
  have "parses certificate_entry_parse (certificate_entry_bytes c) (X509 c)"
    using Cons.prems by (intro parses_certificate_entry) simp
  note step = parsesD [OF this, of pre "concat (map certificate_entry_bytes certs)"]
  have ne: "certificate_entry_bytes c \<noteq> []" by (simp add: certificate_entry_bytes_def)
  show ?case
    using Cons.IH [of n "acc @ [X509 c]" "pre @ certificate_entry_bytes c"] Cons.prems n step ne
    by (subst certificate_entries_loop.simps) (simp add: is_empty_def)
qed

text \<open>A chain of X.509 certificates survives encoding by one side and parsing by the other.\<close>

lemma encodes_certificate_ref:
  "encodes (certificate_ref_encode \<lparr>raw_entries = raw, request_context = ctx,
       cert_entries = map X509 certs\<rparr>)
     (vec8 ctx @ vec24 (concat (map certificate_entry_bytes certs)))"
proof -
  have "encodes (for_each certificate_entry_encode (map X509 certs))
      (concat (map certificate_entry_bytes certs))"
    using encodes_for_each [of certs "\<lambda>c. certificate_entry_encode (X509 c)" certificate_entry_bytes]
    by (simp add: for_each_map comp_def encodes_certificate_entry)
  then show ?thesis
    unfolding certificate_ref_encode_def certificate_ref.simps
    by (intro encodes_next encodes_next_last encodes_with_u8 encodes_with_u24 encodes_extend)
qed

lemma parses_certificate_ref:
  assumes "length ctx < 2 ^ 8" and "length certs \<le> 16"
    and "list_all (\<lambda>c. length c < 2 ^ 24) certs"
    and "length (concat (map certificate_entry_bytes certs)) < 2 ^ 24"
  shows "parses certificate_ref_parse
     (vec8 ctx @ vec24 (concat (map certificate_entry_bytes certs)))
     \<lparr>raw_entries = concat (map certificate_entry_bytes certs), request_context = ctx,
      cert_entries = map X509 certs\<rparr>"
proof -
  let ?R = "concat (map certificate_entry_bytes certs)"
  have len: "unat (word_of_nat (length ctx) :: byte) = length ctx"
    "unat (word_of_nat (length ?R) :: u32) = length ?R"
    using assms by (simp_all add: unat_word_of_nat)
  have run: "fst (certificate_entries_loop 16 [] (pb_new ?R)) = Ok (map X509 certs)"
    using certificate_entries_loop_enc [OF assms(3,2), of "[]" "[]"] by (simp add: pb_new_def)
  have "unat (word_of_nat (length ?R) :: u32) < 2 ^ 24" using assms(4) len by simp
  then show ?thesis
    unfolding certificate_ref_parse_def vec8_def vec24_def append_assoc append_Cons
    by (intro parses_bind_Cons [OF parses_map_err [OF parses_read_u8]], unfold len(1),
        intro parses_bind [OF parses_map_err [OF parses_pb_slice [OF refl]]]
          parses_bind [OF parses_map_err [OF parses_read_u24]], assumption, unfold len(2),
        intro parses_bind_last [OF parses_map_err [OF parses_pb_slice [OF refl]]])
      (simp add: run return_def bind_def)
qed

end
