(* ===== verification/Aead.thy ===== *)
theory Aead
  imports Crypto Key_Schedule
begin

text \<open>
  AEAD in place over a \<open>CryptoBuffer\<close>, through the \<open>aead::Buffer\<close> implementation of src/buffer.rs.
  Encrypting replaces the view by the ciphertext and extends the buffer by the tag; decrypting needs
  at least a tag's worth of bytes, checks the tag and truncates to the plaintext.  The cipher itself
  is the parameter \<open>aead_seal\<close>, \<open>aead_open\<close> of the suite.
\<close>

definition cb_replace_view :: "bytes \<Rightarrow> crypto_buffer \<Rightarrow> crypto_buffer" where
  "cb_replace_view bs b = b\<lparr>cb_buf := overwrite (cb_offset b) bs (cb_buf b)\<rparr>"

definition encrypt_in_place ::
  "cipher_suite_params \<Rightarrow> bytes \<Rightarrow> bytes \<Rightarrow> bytes \<Rightarrow> unit encoder" where
  "encrypt_in_place C k nonce aad = (\<lambda>b. case cb_as_slice b of
      Ok pt \<Rightarrow>
        (case aead_seal C k nonce aad pt of
           None \<Rightarrow> (Err CryptoError, b)
         | Some (ct, tag) \<Rightarrow>
             map_err (\<lambda>_. CryptoError) (extend_internal tag) (cb_replace_view ct b))
    | Err e \<Rightarrow> (Err e, b)
    | Panic \<Rightarrow> (Panic, b))"

definition decrypt_in_place ::
  "cipher_suite_params \<Rightarrow> bytes \<Rightarrow> bytes \<Rightarrow> bytes \<Rightarrow> unit encoder" where
  "decrypt_in_place C k nonce aad = (\<lambda>b. case cb_as_slice b of
      Ok msg \<Rightarrow>
        (if length msg < tag_len C then (Err CryptoError, b)
         else
           (let tag_pos = length msg - tag_len C in
            case aead_open C k nonce aad (take tag_pos msg) (drop tag_pos msg) of
              None \<Rightarrow> (Err CryptoError, b)
            | Some pt \<Rightarrow> cb_truncate tag_pos (cb_replace_view pt b)))
    | Err e \<Rightarrow> (Err e, b)
    | Panic \<Rightarrow> (Panic, b))"

section \<open>What the two operations do\<close>

lemma cb_replace_view_simps [simp]:
  "cb_offset (cb_replace_view bs b) = cb_offset b" "cb_len (cb_replace_view bs b) = cb_len b"
  by (simp_all add: cb_replace_view_def)

lemma length_cb_replace_view [simp]:
  "cb_offset b + length bs \<le> length (cb_buf b) \<Longrightarrow>
   length (cb_buf (cb_replace_view bs b)) = length (cb_buf b)"
  by (simp add: cb_replace_view_def)

text \<open>On a freshly wrapped region that holds the plaintext and room for exactly the tag.\<close>

lemma encrypt_in_place_region:
  assumes "aead_laws C" and "length pt < 2 ^ 16" and "length room = tag_len C"
  obtains ct tag where "aead_seal C k n aad pt = Some (ct, tag)"
    and "length ct = length pt" and "length tag = tag_len C"
    and "aead_open C k n aad ct tag = Some pt"
    and "encrypt_in_place C k n aad (cb_wrap_with_pos (pt @ room) (length pt)) =
       (Ok (), \<lparr>cb_buf = ct @ tag, cb_offset = 0, cb_len = length pt + tag_len C\<rparr>)"
proof -
  obtain ct tag where s: "aead_seal C k n aad pt = Some (ct, tag)" "length ct = length pt"
      "length tag = tag_len C" "aead_open C k n aad ct tag = Some pt"
    by (rule seal_open [OF assms(1,2)])
  have "encrypt_in_place C k n aad (cb_wrap_with_pos (pt @ room) (length pt)) =
       (Ok (), \<lparr>cb_buf = ct @ tag, cb_offset = 0, cb_len = length pt + tag_len C\<rparr>)"
    using s assms(3)
    by (simp add: encrypt_in_place_def cb_as_slice_def cb_wrap_with_pos_def subslice_def
        cb_replace_view_def overwrite_def extend_internal_def cb_space_def cb_capacity_def
        usub_def map_err_apply bind_apply next_do_apply cb_copy_def store_slice_def)
  with s that show thesis by blast
qed

lemma decrypt_in_place_region:
  assumes "aead_open C k n aad ct tag = Some pt" and "length pt = length ct"
    and "length tag = tag_len C"
  shows "decrypt_in_place C k n aad (cb_wrap_with_pos (ct @ tag) (length ct + tag_len C)) =
     (Ok (), \<lparr>cb_buf = pt @ tag, cb_offset = 0, cb_len = length pt\<rparr>)"
  using assms
  by (simp add: decrypt_in_place_def cb_as_slice_def cb_wrap_with_pos_def subslice_def
      cb_replace_view_def overwrite_def cb_truncate_def cb_capacity_def usub_def bind_apply Let_def)

text \<open>Decryption of a wrapped record body, success and failure.\<close>

lemma decrypt_in_place_run:
  assumes "aead_laws C"
  shows "decrypt_in_place C k n aad (cb_wrap_with_pos body (length body)) =
    (if length body < tag_len C then (Err CryptoError, cb_wrap_with_pos body (length body))
     else case aead_open C k n aad (take (length body - tag_len C) body)
                 (drop (length body - tag_len C) body) of
       None \<Rightarrow> (Err CryptoError, cb_wrap_with_pos body (length body))
     | Some pt \<Rightarrow> (Ok (), \<lparr>cb_buf = pt @ drop (length body - tag_len C) body, cb_offset = 0,
                          cb_len = length body - tag_len C\<rparr>))"
  by (auto simp: open_length [OF assms] decrypt_in_place_def cb_as_slice_def cb_wrap_with_pos_def subslice_def
      cb_replace_view_def overwrite_def cb_truncate_def cb_capacity_def usub_def bind_apply Let_def
      split: option.split)

end
