(* ===== verification/Server.thy ===== *)
theory Server
  imports Handshake Aead
begin

text \<open>
  src/server.rs: the I/O-free server of the PSK handshake.  \<open>process_client_hello_inner\<close> turns a
  ClientHello into the server's first flight or a HelloRetryRequest, \<open>process_client_finished\<close> closes
  the handshake, and four functions protect and unprotect records afterwards.  The state of a call is
  \<open>server_st\<close>: the key schedule and the retry state the caller owns, and the output buffer with the
  position of the \<open>OutWriter\<close> on it.  \<open>x25519\<close> (third party) and the cipher suite are parameters.
\<close>

definition TLS_AES_128_GCM_SHA256 :: u16 where
  "TLS_AES_128_GCM_SHA256 = 0x1301"

definition CLIENT_HELLO_MAX_EXTENSIONS :: nat where
  "CLIENT_HELLO_MAX_EXTENSIONS = 16"

section \<open>Configuration and state\<close>

record dhe_key_share =
  dhe_secret :: bytes
  dhe_public :: bytes

definition x25519_basepoint :: bytes where
  "x25519_basepoint = 9 # replicate 31 0"

definition dhe_from_secret :: "(bytes \<Rightarrow> bytes \<Rightarrow> bytes) \<Rightarrow> bytes \<Rightarrow> dhe_key_share" where
  "dhe_from_secret x25519 secret =
     \<lparr>dhe_secret = secret, dhe_public = x25519 secret x25519_basepoint\<rparr>"

text \<open>\<open>generate\<close>: the argument is what the random generator filled in.\<close>

definition dhe_generate :: "(bytes \<Rightarrow> bytes \<Rightarrow> bytes) \<Rightarrow> bytes \<Rightarrow> dhe_key_share" where
  "dhe_generate x25519 rng_bytes = dhe_from_secret x25519 rng_bytes"

record tls_server_config =
  psk_identity :: bytes
  psk_secret :: bytes
  server_random :: bytes
  dhe_keypair :: "dhe_key_share option"

datatype kex_mode = KexPskKe | KexPskDheKe bytes

datatype kex_decision = Use kex_mode | Retry named_group

datatype handshake_output = FirstFlight bytes | HelloRetryRequest bytes

definition HRR_SPECIAL_RANDOM :: bytes where
  "HRR_SPECIAL_RANDOM =
     [0xCF, 0x21, 0xAD, 0x74, 0xE5, 0x9A, 0x61, 0x11, 0xBE, 0x1D, 0x8C, 0x02, 0x1E, 0x65, 0xB8, 0x91,
      0xC2, 0xA2, 0x11, 0x16, 0x7A, 0xBB, 0x8C, 0x5E, 0x07, 0x9E, 0x09, 0xE2, 0xC8, 0xA8, 0x33, 0x9C]"

record hrr_state =
  hrr_sent :: bool
  ch1_random :: bytes
  ch1_session_id_len :: byte
  ch1_session_id :: bytes

definition hrr_default :: hrr_state where
  "hrr_default = \<lparr>hrr_sent = False, ch1_random = replicate 32 0, ch1_session_id_len = 0,
     ch1_session_id = replicate 32 0\<rparr>"

record out_writer =
  ow_buf :: bytes
  ow_pos :: nat

record server_st =
  sv_ks :: key_schedule
  sv_hrr :: hrr_state
  sv_out :: out_writer

type_synonym 'a server_op = "(server_st, 'a, tls_error) comp"

definition on_ks :: "'a ks_op \<Rightarrow> 'a server_op" where
  "on_ks = on_part sv_ks (\<lambda>k s. s\<lparr>sv_ks := k\<rparr>)"

definition on_out :: "(out_writer, 'a, tls_error) comp \<Rightarrow> 'a server_op" where
  "on_out = on_part sv_out (\<lambda>w s. s\<lparr>sv_out := w\<rparr>)"

section \<open>The output writer\<close>

definition ow_new :: "bytes \<Rightarrow> out_writer" where
  "ow_new buf = \<lparr>ow_buf = buf, ow_pos = 0\<rparr>"

definition ow_append :: "bytes \<Rightarrow> (out_writer, unit, tls_error) comp" where
  "ow_append data = (\<lambda>w.
     let end_pos = ow_pos w + length data in
     if end_pos > length (ow_buf w) then (Err InsufficientSpace, w)
     else case store_slice (ow_buf w) (ow_pos w) data of
       Ok b \<Rightarrow> (Ok (), \<lparr>ow_buf = b, ow_pos = end_pos\<rparr>)
     | Err e \<Rightarrow> (Err e, w)
     | Panic \<Rightarrow> (Panic, w))"

text \<open>\<open>writer.buf[i] = v\<close> and \<open>writer.buf[i..i + vs.len()].copy_from_slice(vs)\<close>.\<close>

definition ow_set :: "nat \<Rightarrow> byte \<Rightarrow> (out_writer, unit, tls_error) comp" where
  "ow_set i v = (\<lambda>w. case store_at (ow_buf w) i v of
      Ok b \<Rightarrow> (Ok (), w\<lparr>ow_buf := b\<rparr>) | Err e \<Rightarrow> (Err e, w) | Panic \<Rightarrow> (Panic, w))"

definition ow_store :: "nat \<Rightarrow> bytes \<Rightarrow> (out_writer, unit, tls_error) comp" where
  "ow_store i vs = (\<lambda>w. case store_slice (ow_buf w) i vs of
      Ok b \<Rightarrow> (Ok (), w\<lparr>ow_buf := b\<rparr>) | Err e \<Rightarrow> (Err e, w) | Panic \<Rightarrow> (Panic, w))"

text \<open>The length fields of the record and handshake headers, patched once the lengths are known.\<close>

definition patch_u24 :: "nat \<Rightarrow> u32 \<Rightarrow> (out_writer, unit, tls_error) comp" where
  "patch_u24 i v =
     next_do (ow_set i (ucast (drop_bit 16 v)))
    (next_do (ow_set (i + 1) (ucast (drop_bit 8 v)))
       (ow_set (i + 2) (ucast v)))"

definition patch_u16 :: "nat \<Rightarrow> u16 \<Rightarrow> (out_writer, unit, tls_error) comp" where
  "patch_u16 i v =
     next_do (ow_set i (ucast (drop_bit 8 v))) (ow_set (i + 1) (ucast v))"

section \<open>Validation of the ClientHello\<close>

definition validate_supported_versions :: "client_hello_ref \<Rightarrow> (unit, tls_error) result" where
  "validate_supported_versions hello =
     (case find_map (\<lambda>e. case e of CHE_SupportedVersions v \<Rightarrow> Some v | _ \<Rightarrow> None)
             (cr_extensions hello) of
        None \<Rightarrow> Err (fatal AD_MissingExtension)
      | Some versions \<Rightarrow>
          if \<not> list_ex (\<lambda>v. v = TLS13) versions then Err (fatal AD_ProtocolVersion) else Ok ())"

definition validate_cipher_suites :: "client_hello_ref \<Rightarrow> (unit, tls_error) result" where
  "validate_cipher_suites hello =
     (if \<not> list_ex (\<lambda>c. c = be16 TLS_AES_128_GCM_SHA256) (chunks2 (cr_cipher_suites hello))
      then Err (fatal AD_HandshakeFailure) else Ok ())"

definition client_supports_group :: "client_hello_ref \<Rightarrow> named_group \<Rightarrow> bool" where
  "client_supports_group hello grp =
     (case find_map (\<lambda>e. case e of CHE_SupportedGroups g \<Rightarrow> Some g | _ \<Rightarrow> None)
             (cr_extensions hello) of
        None \<Rightarrow> False
      | Some gs \<Rightarrow> list_ex (\<lambda>gg. gg = grp) gs)"

text \<open>The first X25519 share decides: a wrong length is an error even if a later one is fine.\<close>

fun x25519_share_of :: "key_share_entry list \<Rightarrow> (bytes option, tls_error) result" where
  "x25519_share_of [] = Ok None"
| "x25519_share_of (entry # rest) =
     (if ks_group entry = X25519
      then if length (ks_opaque entry) \<noteq> 32 then Err (fatal AD_IllegalParameter)
           else Ok (Some (ks_opaque entry))
      else x25519_share_of rest)"

definition find_client_x25519_share :: "client_hello_ref \<Rightarrow> (bytes option, tls_error) result" where
  "find_client_x25519_share hello =
     (case find_map (\<lambda>e. case e of CHE_KeyShare k \<Rightarrow> Some k | _ \<Rightarrow> None) (cr_extensions hello) of
        None \<Rightarrow> Ok None
      | Some client_shares \<Rightarrow> x25519_share_of client_shares)"

definition decide_kex ::
  "client_hello_ref \<Rightarrow> tls_server_config \<Rightarrow> bool \<Rightarrow> (kex_decision, tls_error) result" where
  "decide_kex hello config hrr_already_sent =
     (case find_map (\<lambda>e. case e of CHE_PskKeyExchangeModes m \<Rightarrow> Some m | _ \<Rightarrow> None)
             (cr_extensions hello) of
        None \<Rightarrow> Err (fatal AD_MissingExtension)
      | Some modes \<Rightarrow>
          (let offers_psk_ke = list_ex (\<lambda>m. m = PskKe) modes;
               offers_psk_dhe_ke = list_ex (\<lambda>m. m = PskDheKe) modes;
               dhe_available = dhe_keypair config \<noteq> None;
               dhe_acceptable = offers_psk_dhe_ke \<and> dhe_available in
           if dhe_acceptable
           then (case find_client_x25519_share hello of
                   Err e \<Rightarrow> Err e
                 | Panic \<Rightarrow> Panic
                 | Ok (Some share) \<Rightarrow> Ok (Use (KexPskDheKe share))
                 | Ok None \<Rightarrow>
                     if offers_psk_ke then Ok (Use KexPskKe)
                     else if \<not> hrr_already_sent \<and> client_supports_group hello X25519
                     then Ok (Retry X25519)
                     else Err (fatal AD_HandshakeFailure))
           else if offers_psk_ke then Ok (Use KexPskKe)
           else Err (fatal AD_HandshakeFailure)))"

definition validate_ch2_consistency :: "client_hello_ref \<Rightarrow> hrr_state \<Rightarrow> (unit, tls_error) result" where
  "validate_ch2_consistency hello snapshot =
     (if cr_random hello \<noteq> ch1_random snapshot then Err (fatal AD_IllegalParameter)
      else case subslice (ch1_session_id snapshot) 0 (unat (ch1_session_id_len snapshot)) of
        Ok snap_sid \<Rightarrow>
          if cr_legacy_session_id hello \<noteq> snap_sid then Err (fatal AD_IllegalParameter) else Ok ()
      | Err e \<Rightarrow> Err e
      | Panic \<Rightarrow> Panic)"

definition locate_our_identity ::
  "client_hello_ref \<Rightarrow> tls_server_config \<Rightarrow> (u16 \<times> bytes, tls_error) result" where
  "locate_our_identity hello config =
     (case find_map (\<lambda>e. case e of CHE_PreSharedKey p \<Rightarrow> Some p | _ \<Rightarrow> None) (cr_extensions hello) of
        None \<Rightarrow> Err (fatal AD_MissingExtension)
      | Some psk_ext \<Rightarrow>
          (case position (\<lambda>i. i = psk_identity config) (psk_identities psk_ext) of
             None \<Rightarrow> Err (fatal AD_UnknownPskIdentity)
           | Some idx \<Rightarrow>
               (case index_at (psk_binders psk_ext) idx of
                  Ok b \<Rightarrow> Ok (word_of_nat idx, b)
                | Err e \<Rightarrow> Err e
                | Panic \<Rightarrow> Panic)))"

section \<open>Record framing\<close>

definition write_hello_retry_request_record ::
  "cipher_suite_params \<Rightarrow> bytes \<Rightarrow> named_group \<Rightarrow> bytes \<Rightarrow> unit server_op" where
  "write_hello_retry_request_record C legacy_session_id_echo selected_group ch1 =
     bind (gets (\<lambda>s. ow_pos (sv_out s))) (\<lambda>record_start.
     next_do (on_out (ow_append [content_type_code CT_Handshake, 0x03, 0x03, 0, 0]))
    (bind (gets (\<lambda>s. ow_pos (sv_out s))) (\<lambda>hs_header_pos.
     next_do (on_out (ow_append [handshake_type_code HT_ServerHello, 0, 0, 0]))
    (bind (gets (\<lambda>s. ow_pos (sv_out s))) (\<lambda>body_start.
     next_do (on_out (ow_append [0x03, 0x03]))
    (next_do (on_out (ow_append HRR_SPECIAL_RANDOM))
    (next_do (if length legacy_session_id_echo > 32 then throw EncodeError else return ())
    (next_do (on_out (ow_append [word_of_nat (length legacy_session_id_echo)]))
    (next_do (on_out (ow_append legacy_session_id_echo))
    (next_do (on_out (ow_append (be16 TLS_AES_128_GCM_SHA256)))
    (next_do (on_out (ow_append [0]))
    (bind (gets (\<lambda>s. ow_pos (sv_out s))) (\<lambda>ext_list_len_pos.
     next_do (on_out (ow_append [0, 0]))
    (bind (gets (\<lambda>s. ow_pos (sv_out s))) (\<lambda>ext_content_start.
     next_do (on_out (ow_append (be16 0x002b)))
    (next_do (on_out (ow_append (be16 2)))
    (next_do (on_out (ow_append (be16 0x0304)))
    (next_do (on_out (ow_append (be16 0x0033)))
    (next_do (on_out (ow_append (be16 2)))
    (next_do (on_out (ow_append (be16 (named_group_code selected_group))))
    (bind (gets (\<lambda>s. ow_pos (sv_out s))) (\<lambda>ext_content_end.
     bind (lift_result (usub ext_content_end ext_content_start)) (\<lambda>ext_len.
     next_do (on_out (ow_store ext_list_len_pos (be16 (word_of_nat ext_len))))
    (bind (lift_result (usub ext_content_end body_start)) (\<lambda>body_len.
     next_do (on_out (patch_u24 (hs_header_pos + 1) (word_of_nat body_len)))
    (bind (lift_result (usub ext_content_end (record_start + 5))) (\<lambda>record_payload_len.
     next_do (on_out (patch_u16 (record_start + 3) (word_of_nat record_payload_len)))
    (bind (\<lambda>s. (subslice (ow_buf (sv_out s)) hs_header_pos (ow_pos (sv_out s)), s)) (\<lambda>hrr_hs_bytes.
     modify (\<lambda>s. s\<lparr>sv_ks := replace_transcript_hash
       ([handshake_type_code HT_MessageHash, 0, word_of_nat (hash_len C div 256),
         word_of_nat (hash_len C)] @ hash C ch1 @ hrr_hs_bytes) (sv_ks s)\<rparr>))))))))))))))))))))))))))))))"

definition server_hello_extensions ::
  "tls_server_config \<Rightarrow> u16 \<Rightarrow> kex_mode \<Rightarrow> (server_hello_extension list, tls_error) result" where
  "server_hello_extensions config selected_idx mode =
     (case mode of
        KexPskKe \<Rightarrow> Ok [SHE_SupportedVersions TLS13, SHE_PreSharedKey selected_idx]
      | KexPskDheKe _ \<Rightarrow>
          (case dhe_keypair config of
             None \<Rightarrow> Err InternalError
           | Some dhe \<Rightarrow> Ok [SHE_SupportedVersions TLS13,
                           SHE_KeyShare \<lparr>ks_group = X25519, ks_opaque = dhe_public dhe\<rparr>,
                           SHE_PreSharedKey selected_idx]))"

text \<open>The body is encoded by a \<open>CryptoBuffer\<close> wrapped around the rest of the output.\<close>

definition encode_body :: "nat \<Rightarrow> unit encoder \<Rightarrow> (out_writer, nat, tls_error) comp" where
  "encode_body body_start enc = (\<lambda>w.
     if body_start > length (ow_buf w) then (Panic, w)
     else case enc (cb_wrap (drop body_start (ow_buf w))) of
       (r, b) \<Rightarrow>
         let w' = w\<lparr>ow_buf := take body_start (ow_buf w) @ cb_buf b\<rparr> in
         (case r of Ok _ \<Rightarrow> (Ok (cb_len b), w') | Err e \<Rightarrow> (Err e, w') | Panic \<Rightarrow> (Panic, w')))"

definition write_server_hello_record ::
  "tls_server_config \<Rightarrow> bytes \<Rightarrow> u16 \<Rightarrow> kex_mode \<Rightarrow> unit server_op" where
  "write_server_hello_record config legacy_session_id_echo selected_idx mode =
     bind (gets (\<lambda>s. ow_pos (sv_out s))) (\<lambda>record_start.
     next_do (on_out (ow_append [content_type_code CT_Handshake, 0x03, 0x03, 0, 0]))
    (bind (gets (\<lambda>s. ow_pos (sv_out s))) (\<lambda>hs_header_pos.
     next_do (on_out (ow_append [handshake_type_code HT_ServerHello, 0, 0, 0]))
    (bind (gets (\<lambda>s. ow_pos (sv_out s))) (\<lambda>body_start.
     bind (lift_result (server_hello_extensions config selected_idx mode)) (\<lambda>sh_extensions.
     bind (on_out (encode_body body_start (server_hello_emit_encode
       \<lparr>she_random = server_random config, she_legacy_session_id_echo = legacy_session_id_echo,
        she_cipher_suite = TLS_AES_128_GCM_SHA256, she_extensions = sh_extensions\<rparr>))) (\<lambda>body_len.
     next_do (modify (\<lambda>s. s\<lparr>sv_out := (sv_out s)\<lparr>ow_pos := body_start + body_len\<rparr>\<rparr>))
    (next_do (on_out (patch_u24 (hs_header_pos + 1) (word_of_nat body_len)))
    (bind (gets (\<lambda>s. ow_pos (sv_out s))) (\<lambda>end_pos.
     bind (lift_result (usub end_pos (record_start + 5))) (\<lambda>record_payload_len.
     next_do (on_out (patch_u16 (record_start + 3) (word_of_nat record_payload_len)))
    (bind (\<lambda>s. (subslice (ow_buf (sv_out s)) hs_header_pos (ow_pos (sv_out s)), s)) (\<lambda>hs_message.
     modify (\<lambda>s. s\<lparr>sv_ks := transcript_update hs_message (sv_ks s)\<rparr>))))))))))))))"

section \<open>Keys and nonces by role\<close>

definition server_handshake_aead_key :: "bytes ks_op" where
  "server_handshake_aead_key = gets (\<lambda>ks. key (r_state (server_state ks)))"

definition server_handshake_aead_nonce :: "cipher_suite_params \<Rightarrow> bytes ks_op" where
  "server_handshake_aead_nonce C =
     bind (gets (\<lambda>ks. r_state (server_state ks))) (\<lambda>st. lift_result (state_get_nonce C st))"

definition increment_server_handshake_counter :: "unit ks_op" where
  "increment_server_handshake_counter = on_server increment_counter"

definition client_handshake_aead_key :: "bytes ks_op" where
  "client_handshake_aead_key = gets (\<lambda>ks. key (w_state (client_state ks)))"

definition client_handshake_aead_nonce :: "cipher_suite_params \<Rightarrow> bytes ks_op" where
  "client_handshake_aead_nonce C =
     bind (gets (\<lambda>ks. w_state (client_state ks))) (\<lambda>st. lift_result (state_get_nonce C st))"

definition increment_client_handshake_counter :: "unit ks_op" where
  "increment_client_handshake_counter = on_client increment_counter"

section \<open>Encrypted handshake records\<close>

text \<open>
  The inner encoders write a complete handshake message to the start of the slice they are given
  and return its length; their state is the slice and the key schedule.
\<close>

type_synonym inner_encoder = "(bytes \<times> key_schedule, nat, tls_error) comp"

definition encode_encrypted_extensions :: inner_encoder where
  "encode_encrypted_extensions = (\<lambda>(out, ks).
     if length out < 4 + 2 then (Err InsufficientSpace, (out, ks))
     else (Ok 6, (overwrite 0 [handshake_type_code HT_EncryptedExtensions, 0, 0, 2, 0, 0] out, ks)))"

definition encode_server_finished :: "cipher_suite_params \<Rightarrow> inner_encoder" where
  "encode_server_finished C = (\<lambda>(out, ks).
     let verify_size = hash_len C; msg_len = 4 + verify_size in
     if length out < msg_len then (Err InsufficientSpace, (out, ks))
     else case map_err (\<lambda>_. CryptoError) (create_server_finished C) ks of
       (Ok fin, ks') \<Rightarrow>
         (if length (fin_verify fin) \<noteq> verify_size then (Panic, (out, ks'))
          else (Ok msg_len, (overwrite 0 ([handshake_type_code HT_Finished, 0,
                  word_of_nat (verify_size div 256), word_of_nat verify_size] @ fin_verify fin) out, ks')))
     | (Err e, ks') \<Rightarrow> (Err e, (out, ks'))
     | (Panic, ks') \<Rightarrow> (Panic, (out, ks')))"

definition run_inner :: "nat \<Rightarrow> nat \<Rightarrow> inner_encoder \<Rightarrow> nat server_op" where
  "run_inner inner_start inner_max enc = (\<lambda>s.
     let buf = ow_buf (sv_out s) in
     if inner_start + inner_max > length buf then (Panic, s)
     else case enc (take inner_max (drop inner_start buf), sv_ks s) of
       (r, (part, ks')) \<Rightarrow>
         (r, s\<lparr>sv_ks := ks', sv_out := (sv_out s)\<lparr>ow_buf := overwrite inner_start part buf\<rparr>\<rparr>))"

text \<open>\<open>cipher.encrypt_in_place\<close> on \<open>buf[from..to]\<close>, of which the first \<open>n\<close> bytes are plaintext.\<close>

definition seal_region ::
  "cipher_suite_params \<Rightarrow> bytes \<Rightarrow> bytes \<Rightarrow> bytes \<Rightarrow> nat \<Rightarrow> nat \<Rightarrow> nat \<Rightarrow> (bytes, unit, tls_error) comp" where
  "seal_region C k nonce aad from_pos to_pos n = (\<lambda>buf.
     case subslice buf from_pos to_pos of
       Ok region \<Rightarrow>
         (case map_err (\<lambda>_. CryptoError) (encrypt_in_place C k nonce aad) (cb_wrap_with_pos region n) of
            (r, b) \<Rightarrow> (r, overwrite from_pos (cb_buf b) buf))
     | Err e \<Rightarrow> (Err e, buf)
     | Panic \<Rightarrow> (Panic, buf))"

definition on_buf :: "(bytes, 'a, tls_error) comp \<Rightarrow> 'a server_op" where
  "on_buf = on_part (\<lambda>s. ow_buf (sv_out s)) (\<lambda>b s. s\<lparr>sv_out := (sv_out s)\<lparr>ow_buf := b\<rparr>\<rparr>)"

definition write_encrypted_handshake_record ::
  "cipher_suite_params \<Rightarrow> inner_encoder \<Rightarrow> unit server_op" where
  "write_encrypted_handshake_record C inner_encoder =
     bind (gets (\<lambda>s. ow_pos (sv_out s))) (\<lambda>record_start.
     next_do (on_out (ow_append [content_type_code CT_ApplicationData, 0x03, 0x03, 0, 0]))
    (bind (gets (\<lambda>s. ow_pos (sv_out s))) (\<lambda>inner_start.
     bind (gets (\<lambda>s. length (ow_buf (sv_out s)) - inner_start)) (\<lambda>room.
     if room < 1 + tag_len C then throw InsufficientSpace
     else let inner_max = room - 1 - tag_len C in
     bind (run_inner inner_start inner_max inner_encoder) (\<lambda>inner_len.
     next_do (on_out (ow_set (inner_start + inner_len) (content_type_code CT_Handshake)))
    (let plaintext_len = inner_len + 1 in
     bind (\<lambda>s. (subslice (ow_buf (sv_out s)) inner_start (inner_start + inner_len), s)) (\<lambda>hs_message.
     next_do (modify (\<lambda>s. s\<lparr>sv_ks := transcript_update hs_message (sv_ks s)\<rparr>))
    (let ciphertext_len = plaintext_len + tag_len C;
         len_bytes = be16 (word_of_nat ciphertext_len);
         additional_data = [content_type_code CT_ApplicationData, 0x03, 0x03] @ len_bytes in
     bind (on_ks server_handshake_aead_key) (\<lambda>k.
     bind (on_ks (server_handshake_aead_nonce C)) (\<lambda>nonce.
     let region_end = inner_start + ciphertext_len in
     bind (gets (\<lambda>s. length (ow_buf (sv_out s)))) (\<lambda>buf_len.
     if region_end > buf_len then throw InsufficientSpace
     else
     next_do (on_buf (seal_region C k nonce additional_data inner_start region_end plaintext_len))
    (next_do (modify (\<lambda>s. s\<lparr>sv_out := (sv_out s)\<lparr>ow_pos := region_end\<rparr>\<rparr>))
    (next_do (on_ks increment_server_handshake_counter)
       (on_out (ow_store (record_start + 3) len_bytes)))))))))))))))"

section \<open>The handshake\<close>

definition parse_client_hello :: "bytes \<Rightarrow> (client_hello_ref, tls_error) result" where
  "parse_client_hello msg =
     (case client_hello_ref_parse CLIENT_HELLO_MAX_EXTENSIONS (pb_new msg) of
        (Ok hello, p) \<Rightarrow> if \<not> is_empty p then Err InvalidHandshake else Ok hello
      | (Err e, p) \<Rightarrow> Err e
      | (Panic, p) \<Rightarrow> Panic)"

definition new_writer :: "unit server_op" where
  "new_writer = modify (\<lambda>s. s\<lparr>sv_out := ow_new (ow_buf (sv_out s))\<rparr>)"

definition record_hrr :: "client_hello_ref \<Rightarrow> unit server_op" where
  "record_hrr hello = (\<lambda>s.
     case store_slice (ch1_session_id (sv_hrr s)) 0 (cr_legacy_session_id hello) of
       Ok sid \<Rightarrow> (Ok (), s\<lparr>sv_hrr := \<lparr>hrr_sent = True, ch1_random = cr_random hello,
          ch1_session_id_len = word_of_nat (length (cr_legacy_session_id hello)),
          ch1_session_id = sid\<rparr>\<rparr>)
     | Err e \<Rightarrow> (Err e, s)
     | Panic \<Rightarrow> (Panic, s))"

definition init_handshake_secret ::
  "cipher_suite_params \<Rightarrow> (bytes \<Rightarrow> bytes \<Rightarrow> bytes) \<Rightarrow> tls_server_config \<Rightarrow> kex_mode \<Rightarrow> unit server_op" where
  "init_handshake_secret C x25519 config mode =
     (case mode of
        KexPskKe \<Rightarrow> on_ks (map_err (\<lambda>_. CryptoError) (initialize_handshake_secret_psk_ke C))
      | KexPskDheKe client_x25519_pub \<Rightarrow>
          (case dhe_keypair config of
             None \<Rightarrow> throw InternalError
           | Some dhe \<Rightarrow>
               if length client_x25519_pub \<noteq> 32 then throw (fatal AD_IllegalParameter)
               else let sh = x25519 (dhe_secret dhe) client_x25519_pub in
                 if list_all (\<lambda>b. b = 0) sh then throw (fatal AD_IllegalParameter)
                 else on_ks (map_err (\<lambda>_. CryptoError) (initialize_handshake_secret C sh))))"

definition authenticate_psk ::
  "cipher_suite_params \<Rightarrow> tls_server_config \<Rightarrow> bytes \<Rightarrow> client_hello_ref \<Rightarrow> bool \<Rightarrow> bytes \<Rightarrow> unit server_op" where
  "authenticate_psk C config msg hello sent received_binder =
     next_do (if \<not> sent
        then on_ks (map_err (\<lambda>_. CryptoError) (initialize_early_secret C (Some (psk_secret config))))
        else return ())
    (bind (gets (\<lambda>s. if sent then ks_transcript (sv_ks s) else [])) (\<lambda>base.
     bind (lift_result (subslice msg 0 (cr_binders_start_offset hello))) (\<lambda>prefix.
     bind (on_ks (map_err (\<lambda>_. CryptoError)
       (verify_psk_binder C (base @ prefix) received_binder))) (\<lambda>binder_ok.
     if \<not> binder_ok then throw (fatal AD_DecryptError) else return ()))))"

definition process_client_hello_inner ::
  "cipher_suite_params \<Rightarrow> (bytes \<Rightarrow> bytes \<Rightarrow> bytes) \<Rightarrow> tls_server_config \<Rightarrow> bytes \<Rightarrow> handshake_output server_op" where
  "process_client_hello_inner C x25519 config msg =
     bind (lift_result (parse_client_hello msg)) (\<lambda>hello.
     next_do (lift_result (validate_supported_versions hello))
    (next_do (lift_result (validate_cipher_suites hello))
    (bind (gets sv_hrr) (\<lambda>hrr.
     next_do (if hrr_sent hrr then lift_result (validate_ch2_consistency hello hrr) else return ())
    (bind (lift_result (decide_kex hello config (hrr_sent hrr))) (\<lambda>decision.
     bind (lift_result (locate_our_identity hello config)) (\<lambda>(selected_idx, received_binder).
     next_do (authenticate_psk C config msg hello (hrr_sent hrr) received_binder)
    (case decision of
       Retry retry_group \<Rightarrow>
         next_do new_writer
        (next_do (write_hello_retry_request_record C (cr_legacy_session_id hello) retry_group msg)
        (next_do (record_hrr hello)
        (gets (\<lambda>s. HelloRetryRequest (take (ow_pos (sv_out s)) (ow_buf (sv_out s)))))))
     | Use mode \<Rightarrow>
         next_do (modify (\<lambda>s. s\<lparr>sv_ks := transcript_update msg (sv_ks s)\<rparr>))
        (next_do new_writer
        (next_do (write_server_hello_record config (cr_legacy_session_id hello) selected_idx mode)
        (next_do (init_handshake_secret C x25519 config mode)
        (next_do (write_encrypted_handshake_record C encode_encrypted_extensions)
        (next_do (write_encrypted_handshake_record C (encode_server_finished C))
        (gets (\<lambda>s. FirstFlight (take (ow_pos (sv_out s)) (ow_buf (sv_out s))))))))))))))))))"

definition process_client_hello ::
  "cipher_suite_params \<Rightarrow> (bytes \<Rightarrow> bytes \<Rightarrow> bytes) \<Rightarrow> tls_server_config \<Rightarrow> bytes \<Rightarrow> bytes \<Rightarrow>
   (key_schedule, bytes, tls_error) comp" where
  "process_client_hello C x25519 config msg out = (\<lambda>ks.
     case process_client_hello_inner C x25519 config msg
            \<lparr>sv_ks = ks, sv_hrr = hrr_default, sv_out = ow_new out\<rparr> of
       (Ok (FirstFlight bs), s') \<Rightarrow> (Ok bs, sv_ks s')
     | (Ok (HelloRetryRequest bs), s') \<Rightarrow> (Err (fatal AD_HandshakeFailure), sv_ks s')
     | (Err e, s') \<Rightarrow> (Err e, sv_ks s')
     | (Panic, s') \<Rightarrow> (Panic, sv_ks s'))"

section \<open>Protected records\<close>

text \<open>The header checks every function that takes an encrypted record begins with.\<close>

definition check_record :: "bytes \<Rightarrow> (nat, tls_error) result" where
  "check_record rec =
     (if length rec < 5 then Err InvalidRecord
      else if rec ! 0 \<noteq> content_type_code CT_ApplicationData then Err InvalidRecord
      else let body_len = unat (of_be16 (rec ! 3) (rec ! 4)) in
        if 5 + body_len \<noteq> length rec then Err InvalidRecord else Ok body_len)"

text \<open>\<open>cipher.decrypt_in_place\<close> on a body that fills its slice; yields slice and plaintext length.\<close>

definition open_body :: "cipher_suite_params \<Rightarrow> bytes \<Rightarrow> bytes \<Rightarrow> bytes \<Rightarrow> bytes \<Rightarrow> (bytes \<times> nat, tls_error) result" where
  "open_body C k nonce aad body =
     (case map_err (\<lambda>_. CryptoError) (decrypt_in_place C k nonce aad)
             (cb_wrap_with_pos body (length body)) of
        (Ok _, b) \<Rightarrow> Ok (cb_buf b, cb_len b)
      | (Err e, b) \<Rightarrow> Err e
      | (Panic, b) \<Rightarrow> Panic)"

text \<open>The last non-zero byte is the inner content type; what precedes it is the content.\<close>

definition inner_content :: "bytes \<Rightarrow> (content_type \<times> bytes, tls_error) result" where
  "inner_content plaintext =
     (case rposition (\<lambda>b. b \<noteq> 0) plaintext of
        None \<Rightarrow> Err InvalidRecord
      | Some pad_end \<Rightarrow>
          (case content_type_of (plaintext ! pad_end) of
             None \<Rightarrow> Err InvalidRecord
           | Some ct \<Rightarrow> Ok (ct, take pad_end plaintext)))"

definition parse_client_finished :: "cipher_suite_params \<Rightarrow> bytes \<Rightarrow> (bytes, tls_error) result" where
  "parse_client_finished C inner =
     fst (bind (or_err InvalidHandshake read_u8) (\<lambda>msg_type.
          if msg_type \<noteq> handshake_type_code HT_Finished then throw InvalidHandshake
          else bind (or_err InvalidHandshake read_u24) (\<lambda>body_len.
          if unat body_len \<noteq> hash_len C then throw InvalidHandshake
          else bind (or_err InvalidHandshake (pb_fill (hash_len C))) (\<lambda>verify.
          bind (gets is_empty) (\<lambda>e.
          if \<not> e then throw InvalidHandshake else return verify)))) (pb_new inner))"

definition process_client_finished :: "cipher_suite_params \<Rightarrow> bytes \<Rightarrow> unit ks_op" where
  "process_client_finished C encrypted_record =
     bind (lift_result (check_record encrypted_record)) (\<lambda>body_len.
     bind (gets (\<lambda>ks. hash C (ks_transcript ks))) (\<lambda>pre_finished_snapshot.
     if body_len > 256 then throw InsufficientSpace
     else
     bind client_handshake_aead_key (\<lambda>k.
     bind (client_handshake_aead_nonce C) (\<lambda>nonce.
     bind (lift_result (open_body C k nonce (take 5 encrypted_record) (drop 5 encrypted_record)))
       (\<lambda>(decrypt_buf, plaintext_len).
     next_do increment_client_handshake_counter
    (bind (lift_result (inner_content (take plaintext_len decrypt_buf))) (\<lambda>(inner_ct, inner).
     if inner_ct \<noteq> CT_Handshake then throw InvalidRecord
     else
     bind (lift_result (parse_client_finished C inner)) (\<lambda>verify.
     bind (map_err (\<lambda>_. CryptoError) (verify_client_finished C
       \<lparr>fin_verify = verify, fin_hash = Some pre_finished_snapshot\<rparr>)) (\<lambda>fin_ok.
     if \<not> fin_ok then throw (fatal AD_DecryptError)
     else
     next_do (map_err (\<lambda>_. CryptoError) (initialize_master_secret C))
       (modify (transcript_update inner)))))))))))"

text \<open>Sealing one record into \<open>out\<close>; the state is the key schedule and the buffer.\<close>

definition write_protected_record ::
  "cipher_suite_params \<Rightarrow> bytes \<Rightarrow> content_type \<Rightarrow> (key_schedule \<times> bytes, bytes, tls_error) comp" where
  "write_protected_record C content ct =
     (let plaintext_with_marker = length content + 1;
          ciphertext_len = plaintext_with_marker + tag_len C;
          record_len = 5 + ciphertext_len;
          header = [content_type_code CT_ApplicationData, 0x03, 0x03] @ be16 (word_of_nat ciphertext_len) in
      next_do (modify (\<lambda>(ks, out). (ks, overwrite 0 (header @ content @ [content_type_code ct]) out)))
     (bind (on_part fst (\<lambda>ks (_, out). (ks, out)) server_handshake_aead_key) (\<lambda>k.
      bind (on_part fst (\<lambda>ks (_, out). (ks, out)) (server_handshake_aead_nonce C)) (\<lambda>nonce.
      next_do (on_part snd (\<lambda>out (ks, _). (ks, out))
        (seal_region C k nonce header 5 (5 + ciphertext_len) plaintext_with_marker))
     (next_do (on_part fst (\<lambda>ks (_, out). (ks, out)) increment_server_handshake_counter)
      (gets (\<lambda>(ks, out). take record_len out)))))))"

definition encrypt_application_data ::
  "cipher_suite_params \<Rightarrow> bytes \<Rightarrow> (key_schedule \<times> bytes, bytes, tls_error) comp" where
  "encrypt_application_data C plaintext =
     bind (gets (\<lambda>(ks, out). length out)) (\<lambda>out_len.
     let ciphertext_len = length plaintext + 1 + tag_len C in
     if out_len < 5 + ciphertext_len then throw InsufficientSpace
     else if ciphertext_len > 65535 then throw EncodeError
     else write_protected_record C plaintext CT_ApplicationData)"

definition encrypt_alert_record ::
  "cipher_suite_params \<Rightarrow> alert_level \<Rightarrow> alert_description \<Rightarrow> (key_schedule \<times> bytes, bytes, tls_error) comp" where
  "encrypt_alert_record C level description =
     bind (gets (\<lambda>(ks, out). length out)) (\<lambda>out_len.
     if out_len < 5 + (2 + 1 + tag_len C) then throw InsufficientSpace
     else write_protected_record C [alert_level_code level, alert_description_code description] CT_Alert)"

text \<open>
  Opening one record into \<open>plaintext_buf\<close>: the buffer is overwritten with the body before the tag is
  checked, and the read counter advances once the tag was right.
\<close>

definition read_protected_record ::
  "cipher_suite_params \<Rightarrow> bytes \<Rightarrow> (key_schedule \<times> bytes, content_type \<times> bytes, tls_error) comp" where
  "read_protected_record C encrypted_record =
     bind (lift_result (check_record encrypted_record)) (\<lambda>body_len.
     bind (gets (\<lambda>(ks, buf). length buf)) (\<lambda>buf_len.
     if buf_len < body_len then throw InsufficientSpace
     else
     next_do (modify (\<lambda>(ks, buf). (ks, overwrite 0 (drop 5 encrypted_record) buf)))
    (bind (on_part fst (\<lambda>ks (_, buf). (ks, buf)) client_handshake_aead_key) (\<lambda>k.
     bind (on_part fst (\<lambda>ks (_, buf). (ks, buf)) (client_handshake_aead_nonce C)) (\<lambda>nonce.
     bind (lift_result (open_body C k nonce (take 5 encrypted_record) (drop 5 encrypted_record)))
       (\<lambda>(opened, plaintext_len).
     next_do (modify (\<lambda>(ks, buf). (ks, overwrite 0 opened buf)))
    (next_do (on_part fst (\<lambda>ks (_, buf). (ks, buf)) increment_client_handshake_counter)
       (lift_result (inner_content (take plaintext_len opened))))))))))"

definition decrypt_application_data ::
  "cipher_suite_params \<Rightarrow> bytes \<Rightarrow> (key_schedule \<times> bytes, bytes, tls_error) comp" where
  "decrypt_application_data C encrypted_record =
     bind (read_protected_record C encrypted_record) (\<lambda>(inner_ct, content).
     if inner_ct \<noteq> CT_ApplicationData then throw InvalidRecord else return content)"

datatype app_data_or_alert = AppData bytes | PeerAlert alert_level alert_description

definition decrypt_app_data_or_alert ::
  "cipher_suite_params \<Rightarrow> bytes \<Rightarrow> (key_schedule \<times> bytes, app_data_or_alert, tls_error) comp" where
  "decrypt_app_data_or_alert C encrypted_record =
     bind (read_protected_record C encrypted_record) (\<lambda>(inner_ct, content).
     case inner_ct of
       CT_ApplicationData \<Rightarrow> return (AppData content)
     | CT_Alert \<Rightarrow>
         if length content \<noteq> 2 then throw InvalidRecord
         else bind (lift_result (ok_or DecodeError (alert_level_of (content ! 0)))) (\<lambda>level.
              bind (lift_result (ok_or DecodeError (alert_description_of (content ! 1)))) (\<lambda>description.
              return (PeerAlert level description)))
     | _ \<Rightarrow> throw InvalidRecord)"

section \<open>Sessions\<close>

record tls_server_session =
  ss_schedule :: key_schedule
  ss_hrr_state :: hrr_state

definition session_new :: "cipher_suite_params \<Rightarrow> tls_server_session" where
  "session_new C = \<lparr>ss_schedule = ks_new C, ss_hrr_state = hrr_default\<rparr>"

text \<open>A method call runs on a buffer the caller supplies for that call.\<close>

definition session_process_client_hello ::
  "cipher_suite_params \<Rightarrow> (bytes \<Rightarrow> bytes \<Rightarrow> bytes) \<Rightarrow> tls_server_config \<Rightarrow> bytes \<Rightarrow> bytes \<Rightarrow>
   (tls_server_session, handshake_output, tls_error) comp" where
  "session_process_client_hello C x25519 config msg out = (\<lambda>sess.
     case process_client_hello_inner C x25519 config msg
            \<lparr>sv_ks = ss_schedule sess, sv_hrr = ss_hrr_state sess, sv_out = ow_new out\<rparr> of
       (r, s') \<Rightarrow> (r, \<lparr>ss_schedule = sv_ks s', ss_hrr_state = sv_hrr s'\<rparr>))"

definition session_process_client_finished ::
  "cipher_suite_params \<Rightarrow> bytes \<Rightarrow> (tls_server_session, unit, tls_error) comp" where
  "session_process_client_finished C rec =
     on_part ss_schedule (\<lambda>k s. s\<lparr>ss_schedule := k\<rparr>) (process_client_finished C rec)"

definition session_with_buffer ::
  "(key_schedule \<times> bytes, 'a, tls_error) comp \<Rightarrow> bytes \<Rightarrow> (tls_server_session, 'a, tls_error) comp" where
  "session_with_buffer f buf = (\<lambda>sess. case f (ss_schedule sess, buf) of
      (r, (ks', _)) \<Rightarrow> (r, sess\<lparr>ss_schedule := ks'\<rparr>))"

definition session_encrypt_app_data ::
  "cipher_suite_params \<Rightarrow> bytes \<Rightarrow> bytes \<Rightarrow> (tls_server_session, bytes, tls_error) comp" where
  "session_encrypt_app_data C plaintext out = session_with_buffer (encrypt_application_data C plaintext) out"

definition session_decrypt_app_data ::
  "cipher_suite_params \<Rightarrow> bytes \<Rightarrow> bytes \<Rightarrow> (tls_server_session, bytes, tls_error) comp" where
  "session_decrypt_app_data C rec buf = session_with_buffer (decrypt_application_data C rec) buf"

definition session_encrypt_alert ::
  "cipher_suite_params \<Rightarrow> alert_level \<Rightarrow> alert_description \<Rightarrow> bytes \<Rightarrow> (tls_server_session, bytes, tls_error) comp" where
  "session_encrypt_alert C level description out =
     session_with_buffer (encrypt_alert_record C level description) out"

definition session_decrypt_app_data_or_alert ::
  "cipher_suite_params \<Rightarrow> bytes \<Rightarrow> bytes \<Rightarrow> (tls_server_session, app_data_or_alert, tls_error) comp" where
  "session_decrypt_app_data_or_alert C rec buf =
     session_with_buffer (decrypt_app_data_or_alert C rec) buf"

end
