(* ===== verification/Server_Records.thy ===== *)
theory Server_Records
  imports Server
begin

text \<open>
  What the record writers of src/server.rs put on the wire.  \<open>ow_put bs w\<close> is the writer \<open>w\<close> after
  \<open>bs\<close> has been appended; each lemma \<open>write_*_run\<close> gives the exact bytes of a record and the key
  schedule afterwards when the record fits, and the error when it does not.
\<close>

section \<open>Facts about the writer\<close>

definition ow_inv :: "out_writer \<Rightarrow> bool" where
  "ow_inv w \<longleftrightarrow> ow_pos w \<le> length (ow_buf w)"

definition ow_room :: "out_writer \<Rightarrow> nat" where
  "ow_room w = length (ow_buf w) - ow_pos w"

definition ow_view :: "out_writer \<Rightarrow> bytes" where
  "ow_view w = take (ow_pos w) (ow_buf w)"

definition ow_put :: "bytes \<Rightarrow> out_writer \<Rightarrow> out_writer" where
  "ow_put bs w = \<lparr>ow_buf = overwrite (ow_pos w) bs (ow_buf w), ow_pos = ow_pos w + length bs\<rparr>"

lemma ow_append_eq:
  assumes "ow_inv w"
  shows "ow_append bs w = (if length bs \<le> ow_room w then (Ok (), ow_put bs w)
     else (Err InsufficientSpace, w))"
  using assms
  by (auto simp: ow_append_def ow_inv_def ow_room_def ow_put_def store_slice_def Let_def)

lemma ow_put_simps [simp]:
  "ow_pos (ow_put bs w) = ow_pos w + length bs"
  "ow_inv w \<Longrightarrow> length bs \<le> ow_room w \<Longrightarrow> length (ow_buf (ow_put bs w)) = length (ow_buf w)"
  "ow_inv w \<Longrightarrow> length bs \<le> ow_room w \<Longrightarrow> ow_inv (ow_put bs w)"
  "ow_inv w \<Longrightarrow> length bs \<le> ow_room w \<Longrightarrow> ow_room (ow_put bs w) = ow_room w - length bs"
  by (auto simp: ow_put_def ow_inv_def ow_room_def)

lemma ow_put_put [simp]:
  "ow_inv w \<Longrightarrow> length xs + length ys \<le> ow_room w \<Longrightarrow> ow_put ys (ow_put xs w) = ow_put (xs @ ys) w"
  by (simp add: ow_put_def ow_inv_def ow_room_def overwrite_overwrite_adj)

lemma ow_view_put:
  "ow_inv w \<Longrightarrow> length bs \<le> ow_room w \<Longrightarrow> ow_view (ow_put bs w) = ow_view w @ bs"
  by (simp add: ow_view_def ow_put_def ow_inv_def ow_room_def overwrite_def)

lemma ow_set_put:
  "ow_inv w \<Longrightarrow> length bs \<le> ow_room w \<Longrightarrow> i < length bs \<Longrightarrow> j = ow_pos w + i \<Longrightarrow>
   ow_set j v (ow_put bs w) = (Ok (), ow_put (bs[i := v]) w)"
  using overwrite_update [of i bs "ow_pos w" "ow_buf w" v]
  by (simp add: ow_set_def ow_put_def store_at_def ow_inv_def ow_room_def)

lemma ow_store_put:
  assumes "ow_inv w" and "length (xs @ ys @ zs) \<le> ow_room w" and "length vs = length ys"
    and "j = ow_pos w + length xs"
  shows "ow_store j vs (ow_put (xs @ ys @ zs) w) = (Ok (), ow_put (xs @ vs @ zs) w)"
proof -
  have "overwrite j vs (overwrite (ow_pos w) (xs @ ys @ zs) (ow_buf w)) =
      overwrite (ow_pos w) (xs @ vs @ zs) (ow_buf w)"
    using assms by (simp add: overwrite_def ow_inv_def ow_room_def)
  then show ?thesis
    using assms by (simp add: ow_store_def store_slice_def ow_put_def ow_inv_def ow_room_def)
qed

lemma ow_slice_put:
  assumes "ow_inv w" and "length (xs @ ys) \<le> ow_room w" and "i = ow_pos w + length xs"
    and "j = ow_pos w + length (xs @ ys)"
  shows "subslice (ow_buf (ow_put (xs @ ys) w)) i j = Ok ys"
  using assms by (simp add: subslice_def ow_put_def overwrite_def ow_inv_def ow_room_def)

lemma patch_u24_put:
  assumes "ow_inv w" and "length (xs @ [a, b, c] @ zs) \<le> ow_room w" and "j = ow_pos w + length xs"
  shows "patch_u24 j v (ow_put (xs @ a # b # c # zs) w) = (Ok (), ow_put (xs @ be24 v @ zs) w)"
  using assms
  by (simp add: patch_u24_def next_do_apply ow_set_put [where i = "length xs"]
      ow_set_put [where i = "Suc (length xs)"] ow_set_put [where i = "Suc (Suc (length xs))"]
      list_update_append be24_def)

lemma patch_u16_put:
  assumes "ow_inv w" and "length (xs @ [a, b] @ zs) \<le> ow_room w" and "j = ow_pos w + length xs"
  shows "patch_u16 j v (ow_put (xs @ a # b # zs) w) = (Ok (), ow_put (xs @ be16 v @ zs) w)"
  using assms
  by (simp add: patch_u16_def next_do_apply ow_set_put [where i = "length xs"]
      ow_set_put [where i = "Suc (length xs)"] list_update_append be16_def)

section \<open>The HelloRetryRequest record\<close>

definition handshake_record :: "bytes \<Rightarrow> bytes" where
  "handshake_record msg = [content_type_code CT_Handshake, 0x03, 0x03] @ vec16 msg"

definition hrr_message :: "bytes \<Rightarrow> named_group \<Rightarrow> bytes" where
  "hrr_message sid grp = handshake_bytes HT_ServerHello
     (be16 LEGACY_VERSION @ HRR_SPECIAL_RANDOM @ vec8 sid @ be16 TLS_AES_128_GCM_SHA256 @ [0] @
      vec16 (extension_bytes (extension_type_code ET_SupportedVersions) (be16 TLS13) @
             extension_bytes (extension_type_code ET_KeyShare) (be16 (named_group_code grp))))"

text \<open>The synthetic message that replaces the first ClientHello in the transcript.\<close>

definition message_hash :: "cipher_suite_params \<Rightarrow> bytes \<Rightarrow> bytes" where
  "message_hash C ch1 = handshake_bytes HT_MessageHash (hash C ch1)"

lemma on_out_append:
  "ow_inv (sv_out s) \<Longrightarrow> on_out (ow_append bs) s =
     (if length bs \<le> ow_room (sv_out s) then (Ok (), s\<lparr>sv_out := ow_put bs (sv_out s)\<rparr>)
      else (Err InsufficientSpace, s))"
  by (simp add: on_out_def on_part_apply ow_append_eq)

text \<open>Symbolic execution of a writer that has appended \<open>acc\<close> to \<open>w\<close> so far.\<close>

lemma append_step:
  "ow_inv w \<Longrightarrow> length acc + length bs \<le> ow_room w \<Longrightarrow>
   next_do (on_out (ow_append bs)) k (s\<lparr>sv_out := ow_put acc w\<rparr>) =
   k (s\<lparr>sv_out := ow_put (acc @ bs) w\<rparr>)"
  by (auto simp: next_do_apply on_out_append)

lemma gets_step: "bind (gets f) k s = k (f s) s"
  by (simp add: bind_apply)

lemma modify_step: "next_do (modify f) k s = k (f s)"
  by (simp add: next_do_apply)

lemma on_out_step:
  "m w = (Ok (), w') \<Longrightarrow> next_do (on_out m) k (s\<lparr>sv_out := w\<rparr>) = k (s\<lparr>sv_out := w'\<rparr>)"
  by (simp add: next_do_apply on_out_def on_part_apply)

lemma usub_step: "b \<le> a \<Longrightarrow> bind (lift_result (usub a b)) k = k (a - b)"
  by (simp add: usub_def)

lemma read_step: "f s = Ok v \<Longrightarrow> bind (\<lambda>s. (f s, s)) k s = k v s"
  by (simp add: bind_apply)

lemma ow_put_Nil [simp]: "ow_put [] w = w"
  by (simp add: ow_put_def overwrite_def)

lemma length_HRR_SPECIAL_RANDOM [simp]: "length HRR_SPECIAL_RANDOM = 32"
  by (simp add: HRR_SPECIAL_RANDOM_def)

lemma message_hash_header:
  assumes "hash_laws C" and "suite_sizes C"
  shows "[handshake_type_code HT_MessageHash, 0, word_of_nat (hash_len C div 256),
     word_of_nat (hash_len C)] @ hash C ch1 = message_hash C ch1"
proof -
  have "hash_len C = 32 \<or> hash_len C = 48"
    using assms(2) by (auto simp: suite_sizes_def aes_128_gcm_sha256_def aes_256_gcm_sha384_def)
  then show ?thesis
    using hash_length [OF assms(1)]
    by (auto simp: message_hash_def handshake_bytes_def vec24_def be24_def)
qed

lemma write_hrr_run:
  assumes inv: "ow_inv w" and w: "sv_out s = w" and sid: "length sid \<le> 32"
    and laws: "hash_laws C" "suite_sizes C"
    and room: "length (handshake_record (hrr_message sid grp)) \<le> ow_room w"
  shows "write_hello_retry_request_record C sid grp ch1 s =
     (Ok (), s\<lparr>sv_out := ow_put (handshake_record (hrr_message sid grp)) w,
       sv_ks := replace_transcript_hash (message_hash C ch1 @ hrr_message sid grp) (sv_ks s)\<rparr>)"
proof -
  define H where "H = [3, 3] @ HRR_SPECIAL_RANDOM @ [word_of_nat (length sid)] @ sid @
      be16 TLS_AES_128_GCM_SHA256 @ [0 :: byte]"
  define Z where "Z = be16 0x002b @ be16 2 @ be16 0x0304 @ be16 0x0033 @ be16 2 @
      be16 (named_group_code grp)"
  have lenH: "length H = length sid + 38" and lenZ: "length Z = 12"
    by (simp_all add: H_def Z_def)
  have msg: "hrr_message sid grp = 2 # be24 (word_of_nat (length sid + 52)) @ H @ be16 12 @ Z"
    by (simp add: hrr_message_def handshake_bytes_def vec24_def vec8_def extension_bytes_def
        vec16_def H_def Z_def LEGACY_VERSION_def TLS13_def be16_def [of "0x0303"] add.commute [of "word_of_nat _" 52])
  have rec: "handshake_record (hrr_message sid grp) =
      [22, 3, 3] @ be16 (word_of_nat (length sid + 56)) @
      2 # be24 (word_of_nat (length sid + 52)) @ H @ be16 12 @ Z"
    by (simp add: handshake_record_def vec16_def msg lenH lenZ)
  have fits: "length sid + 61 \<le> ow_room w"
    using room by (simp add: rec lenH lenZ)
  have store: "j = ow_pos w + (47 + length sid) \<Longrightarrow> ow_store j (be16 12)
      (ow_put ([22, 3, 3, 0, 0, 2, 0, 0, 0] @ H @ [0, 0] @ Z) w) =
      (Ok (), ow_put ([22, 3, 3, 0, 0, 2, 0, 0, 0] @ H @ be16 12 @ Z) w)" for j
    using ow_store_put [OF inv, of "[22, 3, 3, 0, 0, 2, 0, 0, 0] @ H" "[0, 0]" Z "be16 12"] fits
    by (simp add: lenH lenZ)
  have p24: "j = ow_pos w + 6 \<Longrightarrow> patch_u24 j v
      (ow_put ([22, 3, 3, 0, 0, 2] @ 0 # 0 # 0 # H @ be16 12 @ Z) w) =
      (Ok (), ow_put ([22, 3, 3, 0, 0, 2] @ be24 v @ H @ be16 12 @ Z) w)" for v j
    by (rule patch_u24_put [OF inv]) (use fits in \<open>simp_all add: lenH lenZ\<close>)
  have p16: "j = ow_pos w + 3 \<Longrightarrow> patch_u16 j v
      (ow_put ([22, 3, 3] @ 0 # 0 # 2 # be24 u @ H @ be16 12 @ Z) w) =
      (Ok (), ow_put ([22, 3, 3] @ be16 v @ 2 # be24 u @ H @ be16 12 @ Z) w)" for v u j
    by (rule patch_u16_put [OF inv]) (use fits in \<open>simp_all add: lenH lenZ\<close>)
  have slice: "i = ow_pos w + 5 \<Longrightarrow> j = ow_pos w + (61 + length sid) \<Longrightarrow>
      subslice (ow_buf (ow_put ([22, 3, 3] @ be16 v @ 2 # be24 u @ H @ be16 12 @ Z) w)) i j =
      Ok (2 # be24 u @ H @ be16 12 @ Z)" for v u i j
    using ow_slice_put [OF inv _ refl refl, of "[22, 3, 3] @ be16 v" "2 # be24 u @ H @ be16 12 @ Z"] fits
    by (simp add: lenH lenZ)
  note norm = on_out_step [of "ow_store _ _", OF store] on_out_step [of "patch_u24 _ _", OF p24]
    on_out_step [of "patch_u16 _ _", OF p16] slice
  note steps = append_step [OF inv] gets_step norm [unfolded H_def Z_def append_Cons append_Nil append_assoc]
  have start: "s = s\<lparr>sv_out := ow_put [] w\<rparr>" using w by simp
  show ?thesis
    unfolding write_hello_retry_request_record_def rec
    using fits sid
    apply (subst (1) start)
    apply (simp add: steps read_step usub_def modify_def del: ow_put_Nil)
    apply (simp add: msg H_def Z_def message_hash_header [OF laws, symmetric] add.commute [of 52] add.commute [of 56])
    done
qed

text \<open>When the record does not fit, the writer stops with an error and leaves the key schedule alone.\<close>

lemma append_full:
  "ow_inv w \<Longrightarrow> length acc \<le> ow_room w \<Longrightarrow> \<not> length acc + length bs \<le> ow_room w \<Longrightarrow>
   next_do (on_out (ow_append bs)) k (s\<lparr>sv_out := ow_put acc w\<rparr>) =
   (Err InsufficientSpace, s\<lparr>sv_out := ow_put acc w\<rparr>)"
  by (auto simp: next_do_apply on_out_append)

definition stops :: "'a server_op \<Rightarrow> server_st \<Rightarrow> bool" where
  "stops m s \<longleftrightarrow> (\<exists>e w'. m s = (Err e, s\<lparr>sv_out := w'\<rparr>))"

lemma append_stops:
  assumes "ow_inv w"
    and "length acc + length bs \<le> ow_room w \<Longrightarrow> stops k (s\<lparr>sv_out := ow_put (acc @ bs) w\<rparr>)"
    and "length acc \<le> ow_room w"
  shows "stops (next_do (on_out (ow_append bs)) k) (s\<lparr>sv_out := ow_put acc w\<rparr>)"
  using assms by (cases "length acc + length bs \<le> ow_room w") (auto simp: stops_def append_step append_full)

lemma stops_gets: "stops (k (f s)) s \<Longrightarrow> stops (bind (gets f) k) s"
  by (simp add: stops_def gets_step)

lemma stops_skip: "b \<Longrightarrow> stops k s \<Longrightarrow> stops (next_do (if \<not> b then m else return ()) k) s"
  by (simp add: stops_def next_do_apply)

lemma stops_start: "sv_out s = w \<Longrightarrow> stops m (s\<lparr>sv_out := ow_put [] w\<rparr>) \<Longrightarrow> stops m s"
  by (auto simp: stops_def)

lemma write_hrr_full:
  assumes inv: "ow_inv w" and w: "sv_out s = w" and sid: "length sid \<le> 32"
    and full: "ow_room w < length (handshake_record (hrr_message sid grp))"
  shows "stops (write_hello_retry_request_record C sid grp ch1) s"
proof -
  have full': "ow_room w < length sid + 61"
    using full by (simp add: handshake_record_def hrr_message_def handshake_bytes_def extension_bytes_def)
  show ?thesis
    apply (rule stops_start [OF w])
    unfolding write_hello_retry_request_record_def not_le [symmetric]
    apply (rule stops_gets append_stops [OF inv] stops_skip [OF sid])+
    using full' by simp_all
qed
section \<open>The ServerHello record\<close>

definition server_hello_emit_of ::
  "tls_server_config \<Rightarrow> bytes \<Rightarrow> server_hello_extension list \<Rightarrow> server_hello_emit" where
  "server_hello_emit_of config sid exts =
     \<lparr>she_random = server_random config, she_legacy_session_id_echo = sid,
      she_cipher_suite = TLS_AES_128_GCM_SHA256, she_extensions = exts\<rparr>"

definition server_hello_message ::
  "tls_server_config \<Rightarrow> bytes \<Rightarrow> server_hello_extension list \<Rightarrow> bytes" where
  "server_hello_message config sid exts =
     handshake_bytes HT_ServerHello (server_hello_body (server_hello_emit_of config sid exts))"

lemma encode_body_run:
  assumes "encodes m bs" and "ow_inv w" and "j = ow_pos w"
  shows "length bs \<le> ow_room w \<Longrightarrow>
      encode_body j m w = (Ok (length bs), (ow_put bs w)\<lparr>ow_pos := ow_pos w\<rparr>)" (is "?fit \<Longrightarrow> _")
    and "ow_room w < length bs \<Longrightarrow> \<exists>e w'. encode_body j m w = (Err e, w')"
proof -
  let ?b = "cb_wrap (drop j (ow_buf w))"
  have inv: "cb_inv ?b" and room: "cb_room ?b = ow_room w"
    using assms by (auto simp: cb_inv_def cb_room_def cb_wrap_def ow_room_def)
  show "encode_body j m w = (Ok (length bs), (ow_put bs w)\<lparr>ow_pos := ow_pos w\<rparr>)" if ?fit
    using encodes_fits [OF assms(1) inv, unfolded room, OF that] assms(2,3)
    by (simp add: encode_body_def ow_inv_def cb_append_def cb_wrap_def ow_put_def overwrite_def
        Let_def add.commute)
  show "\<exists>e w'. encode_body j m w = (Err e, w')" if "ow_room w < length bs"
    by (rule encodes_full [OF assms(1) inv, unfolded room, OF that])
      (use assms(2,3) in \<open>simp add: encode_body_def ow_inv_def Let_def\<close>)
qed

lemma write_server_hello_run:
  assumes inv: "ow_inv w" and w: "sv_out s = w" and sid: "length sid \<le> 32"
    and exts: "server_hello_extensions config idx mode = Ok exts"
    and room: "length (handshake_record (server_hello_message config sid exts)) \<le> ow_room w"
  shows "write_server_hello_record config sid idx mode s =
     (Ok (), s\<lparr>sv_out := ow_put (handshake_record (server_hello_message config sid exts)) w,
       sv_ks := transcript_update (server_hello_message config sid exts) (sv_ks s)\<rparr>)"
proof -
  define B where "B = server_hello_body (server_hello_emit_of config sid exts)"
  have rec: "handshake_record (server_hello_message config sid exts) =
      [22, 3, 3] @ be16 (word_of_nat (length B + 4)) @ 2 # be24 (word_of_nat (length B)) @ B"
    by (simp add: handshake_record_def server_hello_message_def handshake_bytes_def vec16_def vec24_def B_def)
  have msg: "server_hello_message config sid exts = 2 # be24 (word_of_nat (length B)) @ B"
    by (simp add: server_hello_message_def handshake_bytes_def vec24_def B_def)
  have fits: "length B + 9 \<le> ow_room w" using room by (simp add: rec)
  have enc: "encodes (server_hello_emit_encode (server_hello_emit_of config sid exts)) B"
    unfolding B_def by (rule encodes_server_hello_emit) (simp add: server_hello_emit_of_def sid)
  have body: "j = ow_pos w + 9 \<Longrightarrow>
      bind (on_out (encode_body j (server_hello_emit_encode (server_hello_emit_of config sid exts)))) k
        (s\<lparr>sv_out := ow_put [22, 3, 3, 0, 0, 2, 0, 0, 0] w\<rparr>) =
      k (length B) (s\<lparr>sv_out := (ow_put ([22, 3, 3, 0, 0, 2, 0, 0, 0] @ B) w)\<lparr>ow_pos := ow_pos w + 9\<rparr>\<rparr>)"
    for j s and k :: "nat \<Rightarrow> unit server_op"
    using encode_body_run(1) [OF enc, of "ow_put [22, 3, 3, 0, 0, 2, 0, 0, 0] w" j] inv fits
    by (simp add: bind_apply on_out_def on_part_apply eval_nat_numeral)
  have p24: "j = ow_pos w + 6 \<Longrightarrow> patch_u24 j v (ow_put ([22, 3, 3, 0, 0, 2] @ 0 # 0 # 0 # B) w) =
      (Ok (), ow_put ([22, 3, 3, 0, 0, 2] @ be24 v @ B) w)" for v j
    by (rule patch_u24_put [OF inv]) (use fits in simp_all)
  have p16: "j = ow_pos w + 3 \<Longrightarrow> patch_u16 j v (ow_put ([22, 3, 3] @ 0 # 0 # 2 # be24 u @ B) w) =
      (Ok (), ow_put ([22, 3, 3] @ be16 v @ 2 # be24 u @ B) w)" for v u j
    by (rule patch_u16_put [OF inv]) (use fits in simp_all)
  have slice: "i = ow_pos w + 5 \<Longrightarrow> j = ow_pos w + (9 + length B) \<Longrightarrow>
      subslice (ow_buf (ow_put ([22, 3, 3] @ be16 v @ 2 # be24 u @ B) w)) i j =
      Ok (2 # be24 u @ B)" for v u i j
    using ow_slice_put [OF inv _ refl refl, of "[22, 3, 3] @ be16 v" "2 # be24 u @ B"] fits by simp
  note norm = on_out_step [of "patch_u24 _ _", OF p24] on_out_step [of "patch_u16 _ _", OF p16] slice body
  have put: "n = ow_pos w + length bs \<Longrightarrow> (ow_put bs w)\<lparr>ow_pos := n\<rparr> = ow_put bs w" for bs n
    by (simp add: ow_put_def)
  have start: "s = s\<lparr>sv_out := ow_put [] w\<rparr>" using w by simp
  show ?thesis
    unfolding write_server_hello_record_def rec server_hello_emit_of_def [symmetric]
    using fits
    apply (subst (1) start)
    apply (simp add: append_step [OF inv] gets_step norm [unfolded append_Cons append_Nil append_assoc]
        modify_step exts read_step usub_def put del: ow_put_Nil)
    apply (simp add: msg add.commute [of 4])
    done
qed

lemma write_server_hello_full:
  assumes inv: "ow_inv w" and w: "sv_out s = w" and sid: "length sid \<le> 32"
    and exts: "server_hello_extensions config idx mode = Ok exts"
    and full: "ow_room w < length (handshake_record (server_hello_message config sid exts))"
  shows "stops (write_server_hello_record config sid idx mode) s"
proof -
  define B where "B = server_hello_body (server_hello_emit_of config sid exts)"
  have full': "ow_room w < length B + 9"
    using full by (simp add: handshake_record_def server_hello_message_def handshake_bytes_def B_def)
  have enc: "encodes (server_hello_emit_encode (server_hello_emit_of config sid exts)) B"
    unfolding B_def by (rule encodes_server_hello_emit) (simp add: server_hello_emit_of_def sid)
  have body: "stops (bind (on_out (encode_body j
      (server_hello_emit_encode (server_hello_emit_of config sid exts)))) k)
      (s\<lparr>sv_out := ow_put [22, 3, 3, 0, 0, 2, 0, 0, 0] w\<rparr>)"
    if header: "9 \<le> ow_room w" and j: "j = ow_pos w + 9" for j s and k :: "nat \<Rightarrow> unit server_op"
  proof -
    have "ow_room (ow_put [22, 3, 3, 0, 0, 2, 0, 0, 0] w) < length B"
      using inv full' header by simp
    then obtain e w' where "encode_body j (server_hello_emit_encode (server_hello_emit_of config sid exts))
        (ow_put [22, 3, 3, 0, 0, 2, 0, 0, 0] w) = (Err e, w')"
      using encode_body_run(2) [OF enc, of "ow_put [22, 3, 3, 0, 0, 2, 0, 0, 0] w" j] inv full' header j
      by auto
    then show ?thesis by (simp add: stops_def bind_apply on_out_def on_part_apply) blast
  qed
  show ?thesis
    apply (rule stops_start [OF w])
    unfolding write_server_hello_record_def server_hello_emit_of_def [symmetric] exts lift_result_Ok
    apply (rule stops_gets append_stops [OF inv])+
    using full' by (simp_all add: body)
qed

lemma write_server_hello_no_key:
  assumes inv: "ow_inv w" and w: "sv_out s = w"
    and exts: "server_hello_extensions config idx mode = Err e"
  shows "stops (write_server_hello_record config sid idx mode) s"
  apply (rule stops_start [OF w])
  unfolding write_server_hello_record_def exts
  apply (rule stops_gets append_stops [OF inv])+
  by (auto simp: stops_def bind_apply lift_result_def)

section \<open>Encrypted handshake records\<close>

definition record_nonce :: "key_schedule_state \<Rightarrow> bytes" where
  "record_nonce st = map2 (XOR) (iv st) (replicate 4 0 @ be64 (counter st))"

definition record_header :: "cipher_suite_params \<Rightarrow> nat \<Rightarrow> bytes" where
  "record_header C n = [content_type_code CT_ApplicationData, 0x03, 0x03] @ be16 (word_of_nat (n + 1 + tag_len C))"

text \<open>The protected record of RFC 8446 section 5.2 for a content and its type under a traffic state.\<close>

definition sealed_record :: "cipher_suite_params \<Rightarrow> key_schedule_state \<Rightarrow> bytes \<Rightarrow> content_type \<Rightarrow> bytes" where
  "sealed_record C st content ty =
     (let hdr = record_header C (length content) in
      case aead_seal C (key st) (record_nonce st) hdr (content @ [content_type_code ty]) of
        Some (ct, tag) \<Rightarrow> hdr @ ct @ tag
      | None \<Rightarrow> [])"

definition bump_server :: "key_schedule \<Rightarrow> key_schedule" where
  "bump_server ks = ks\<lparr>server_state := (server_state ks)\<lparr>r_state :=
     (r_state (server_state ks))\<lparr>counter := counter (r_state (server_state ks)) + 1\<rparr>\<rparr>\<rparr>"

text \<open>An inner encoder that writes a fixed message whenever the slice is long enough.\<close>

definition writes_message :: "inner_encoder \<Rightarrow> key_schedule \<Rightarrow> bytes \<Rightarrow> bool" where
  "writes_message enc ks msg \<longleftrightarrow> (\<forall>out. enc (out, ks) =
     (if length msg \<le> length out then (Ok (length msg), (overwrite 0 msg out, ks))
      else (Err InsufficientSpace, (out, ks))))"

lemma sealed_recordE:
  assumes "aead_laws C" and "length content < 2 ^ 16 - 1"
  obtains ct tag where
    "aead_seal C (key st) (record_nonce st) (record_header C (length content))
       (content @ [content_type_code ty]) = Some (ct, tag)"
    and "length ct = length content + 1" and "length tag = tag_len C"
    and "aead_open C (key st) (record_nonce st) (record_header C (length content)) ct tag =
       Some (content @ [content_type_code ty])"
    and "sealed_record C st content ty = record_header C (length content) @ ct @ tag"
proof -
  have "length (content @ [content_type_code ty]) < 2 ^ 16" using assms(2) by simp
  then obtain ct tag where "aead_seal C (key st) (record_nonce st) (record_header C (length content))
       (content @ [content_type_code ty]) = Some (ct, tag)" "length ct = length content + 1"
      "length tag = tag_len C"
      "aead_open C (key st) (record_nonce st) (record_header C (length content)) ct tag =
         Some (content @ [content_type_code ty])"
    by (rule seal_open [OF assms(1)]) auto
  then show thesis by (intro that) (simp_all add: sealed_record_def)
qed

lemma length_record_header [simp]: "length (record_header C n) = 5"
  by (simp add: record_header_def)

lemma length_sealed_record:
  assumes "aead_laws C" and "length content < 2 ^ 16 - 1"
  shows "length (sealed_record C st content ty) = length content + 6 + tag_len C"
  by (rule sealed_recordE [OF assms, of st ty]) simp

lemma writes_encrypted_extensions:
  "writes_message encode_encrypted_extensions ks (handshake_bytes HT_EncryptedExtensions (vec16 []))"
  by (auto simp: writes_message_def encode_encrypted_extensions_def handshake_bytes_def vec24_def
      vec16_def be24_def be16_def)

lemma writes_server_finished:
  assumes "hash_laws C" and "suite_sizes C"
    and "traffic_secret (r_state (server_state ks)) = Initialized ts"
  shows "writes_message (encode_server_finished C) ks
     (handshake_bytes HT_Finished (rfc_finished_mac C ts (hash C (ks_transcript ks))))"
proof -
  have "hash_len C = 32 \<or> hash_len C = 48"
    using assms(2) by (auto simp: suite_sizes_def aes_128_gcm_sha256_def aes_256_gcm_sha384_def)
  moreover have "length (rfc_finished_mac C ts d) = hash_len C" for d
    by (simp add: rfc_finished_mac_def hash_length [OF assms(1)])
  ultimately show ?thesis
    using assms(3)
    by (auto simp: writes_message_def encode_server_finished_def create_server_finished_def
        map_err_apply bind_apply finished_mac_run [OF assms(1)] handshake_bytes_def vec24_def be24_def)
qed

text \<open>The steps of the encrypted writer; the position stays behind the header until the end.\<close>

lemma overwrite_part:
  assumes "length ys \<le> n" and "a + n \<le> length xs"
  shows "overwrite a (overwrite 0 ys (take n (drop a xs))) xs = overwrite a ys xs"
proof -
  define P Q R where "P = take a xs" and "Q = take n (drop a xs)" and "R = drop n (drop a xs)"
  have "xs = P @ Q @ R"
    unfolding P_def Q_def R_def by (simp only: append_take_drop_id)
  moreover have "length P = a" and "length Q = n"
    using assms(2) by (simp_all add: P_def Q_def)
  ultimately show ?thesis using assms(1) by (simp add: overwrite_def)
qed

lemma run_inner_run:
  assumes "ow_inv w" and "writes_message enc (sv_ks s) msg" and "sv_out s = w"
    and "length msg + 1 + n \<le> ow_room w"
  shows "run_inner (ow_pos w) (ow_room w - 1 - n) enc s =
     (Ok (length msg), s\<lparr>sv_out := (ow_put msg w)\<lparr>ow_pos := ow_pos w\<rparr>\<rparr>)"
proof -
  have "length msg \<le> ow_room w - 1 - n" and "ow_pos w + (ow_room w - 1 - n) \<le> length (ow_buf w)"
    using assms(1,4) by (auto simp: ow_inv_def ow_room_def)
  then show ?thesis
    using assms(2,3) overwrite_part [of msg "ow_room w - 1 - n" "ow_pos w" "ow_buf w"]
    by (auto simp: run_inner_def writes_message_def ow_put_def Let_def)
qed

lemma run_inner_full:
  assumes "ow_inv w" and "writes_message enc (sv_ks s) msg" and "sv_out s = w"
    and "1 + n \<le> ow_room w" and "ow_room w < length msg + 1 + n"
  shows "run_inner (ow_pos w) (ow_room w - 1 - n) enc s = (Err InsufficientSpace, s)"
proof -
  have "\<not> length msg \<le> ow_room w - 1 - n" and "ow_pos w + (ow_room w - 1 - n) \<le> length (ow_buf w)"
    using assms(1,4,5) by (auto simp: ow_inv_def ow_room_def)
  then show ?thesis
    using assms(2,3) overwrite_part [of "[]" "ow_room w - 1 - n" "ow_pos w" "ow_buf w"]
    by (auto simp: run_inner_def writes_message_def Let_def)
qed

lemma set_marker_run:
  assumes "ow_inv w" and "length msg + 1 \<le> ow_room w" and "j = ow_pos w + length msg"
  shows "ow_set j v ((ow_put msg w)\<lparr>ow_pos := p\<rparr>) = (Ok (), (ow_put (msg @ [v]) w)\<lparr>ow_pos := p\<rparr>)"
  using assms
  by (simp add: ow_set_def store_at_def ow_put_def ow_inv_def ow_room_def list_update_overwrite
      overwrite_overwrite_adj)

lemma seal_region_run:
  assumes "ow_inv w" and "aead_laws C" and "length pt + tag_len C \<le> ow_room w" and "length pt < 2 ^ 16"
    and "aead_seal C k nonce aad pt = Some (ct, tag)"
    and "i = ow_pos w" and "j = ow_pos w + (length pt + tag_len C)" and "n = length pt"
  shows "seal_region C k nonce aad i j n (ow_buf (ow_put pt w)) = (Ok (), ow_buf (ow_put (ct @ tag) w))"
proof -
  define room where "room = take (tag_len C) (drop (ow_pos w + length pt) (ow_buf w))"
  have room: "length room = tag_len C"
    using assms(1,3) by (simp add: room_def ow_inv_def ow_room_def)
  have slice: "subslice (ow_buf (ow_put pt w)) i j = Ok (pt @ room)"
    using assms by (simp add: subslice_def ow_put_def overwrite_def ow_inv_def ow_room_def room_def)
  obtain ct' tag' where s: "aead_seal C k nonce aad pt = Some (ct', tag')" "length ct' = length pt"
      "length tag' = tag_len C"
      "encrypt_in_place C k nonce aad (cb_wrap_with_pos (pt @ room) (length pt)) =
         (Ok (), \<lparr>cb_buf = ct' @ tag', cb_offset = 0, cb_len = length pt + tag_len C\<rparr>)"
    by (rule encrypt_in_place_region [OF assms(2,4) room])
  have "seal_region C k nonce aad i j n (ow_buf (ow_put pt w)) =
      (Ok (), overwrite (ow_pos w) (ct @ tag) (ow_buf (ow_put pt w)))"
    unfolding seal_region_def slice using s assms(5-8) by (simp add: map_err_apply)
  moreover have "overwrite (ow_pos w) (ct @ tag) (ow_buf (ow_put pt w)) = ow_buf (ow_put (ct @ tag) w)"
    using s(1-3) assms(1,3,5) by (simp add: ow_put_def overwrite_def ow_inv_def ow_room_def add.commute add.left_commute)
  ultimately show ?thesis by simp
qed

lemma server_nonce_run:
  assumes "suite_sizes C" and "length (iv (r_state (server_state ks))) = 12"
  shows "server_handshake_aead_nonce C ks = (Ok (record_nonce (r_state (server_state ks))), ks)"
  using get_nonce_run [OF suite_sizesD(1) [OF assms(1)] assms(2)]
  by (simp add: server_handshake_aead_nonce_def state_get_nonce_def record_nonce_def bind_apply)

lemma server_counter_run:
  assumes "counter (r_state (server_state ks)) \<noteq> - 1"
  shows "increment_server_handshake_counter ks = (Ok (), bump_server ks)"
  using assms
  by (simp add: increment_server_handshake_counter_def on_server_def on_part_apply increment_counter_def
      bump_server_def)

lemma on_ks_step: "m (sv_ks s) = (Ok v, ks') \<Longrightarrow> bind (on_ks m) k s = k v (s\<lparr>sv_ks := ks'\<rparr>)"
  by (simp add: bind_apply on_ks_def on_part_apply)

lemma on_ks_next: "m (sv_ks s) = (Ok v, ks') \<Longrightarrow> next_do (on_ks m) k s = k (s\<lparr>sv_ks := ks'\<rparr>)"
  by (simp add: next_do_apply on_ks_def on_part_apply)

lemma on_buf_next:
  "m (ow_buf (sv_out s)) = (Ok v, b) \<Longrightarrow>
   next_do (on_buf m) k s = k (s\<lparr>sv_out := (sv_out s)\<lparr>ow_buf := b\<rparr>\<rparr>)"
  by (simp add: next_do_apply on_buf_def on_part_apply)

lemma server_key_run: "server_handshake_aead_key ks = (Ok (key (r_state (server_state ks))), ks)"
  by (simp add: server_handshake_aead_key_def)

text \<open>
  One encrypted record: the message enters the transcript, the counter advances, and the bytes are
  the protected record of the message under the server's current traffic state.
\<close>

lemma write_encrypted_run:
  assumes laws: "crypto_laws C" and inv: "ow_inv w" and w: "sv_out s = w"
    and enc: "writes_message enc (sv_ks s) msg" and msg: "length msg < 2 ^ 16 - 32"
    and st: "st = r_state (server_state (sv_ks s))" "length (iv st) = 12" "counter st \<noteq> - 1"
    and room: "length (sealed_record C st msg CT_Handshake) \<le> ow_room w"
  shows "write_encrypted_handshake_record C enc s =
     (Ok (), s\<lparr>sv_out := ow_put (sealed_record C st msg CT_Handshake) w,
       sv_ks := bump_server (transcript_update msg (sv_ks s))\<rparr>)"
proof -
  note L = crypto_lawsD [OF laws]
  have tag16: "tag_len C = 16" using suite_sizesD [OF L(3)] by simp
  obtain ct tag where s: "aead_seal C (key st) (record_nonce st) (record_header C (length msg))
        (msg @ [22]) = Some (ct, tag)" "length ct = length msg + 1" "length tag = tag_len C"
      "sealed_record C st msg CT_Handshake = record_header C (length msg) @ ct @ tag"
    by (rule sealed_recordE [OF L(2), of msg st CT_Handshake]) (use msg in auto)
  have fits: "length msg + 22 \<le> ow_room w" using room s tag16 by simp
  define h where "h = be16 (17 + word_of_nat (length msg))"
  have hdr: "record_header C (length msg) = [23, 3, 3] @ h" and len_h: "length h = 2"
    by (simp_all add: record_header_def h_def tag16 add.commute)
  define v where "v = ow_put [23, 3, 3, 0, 0] w"
  have v: "ow_inv v" "ow_pos v = ow_pos w + 5" "ow_room v = ow_room w - 5"
      "length (ow_buf v) = length (ow_buf w)"
    using inv fits by (simp_all add: v_def)
  have buf: "length (ow_buf w) = ow_pos w + ow_room w" using inv by (simp add: ow_inv_def ow_room_def)
  have inner: "bind (run_inner (ow_pos v) (ow_room v - 17) enc) k (s\<lparr>sv_out := v\<rparr>) =
      k (length msg) (s\<lparr>sv_out := (ow_put msg v)\<lparr>ow_pos := ow_pos v\<rparr>\<rparr>)" for k :: "nat \<Rightarrow> unit server_op"
    using run_inner_run [OF v(1), of enc "s\<lparr>sv_out := v\<rparr>" msg 16] enc fits
    by (simp add: bind_apply v(3))
  have slice: "subslice (ow_buf (ow_put (msg @ [22]) v)) (ow_pos v) (ow_pos v + length msg) = Ok msg"
    using v(1) fits by (simp add: v(3) subslice_def ow_put_def overwrite_def ow_inv_def)
  have seal: "seal_region C (key st) (record_nonce st) (23 # 3 # 3 # h) (ow_pos v)
      (ow_pos v + (17 + length msg)) (Suc (length msg)) (ow_buf (ow_put (msg @ [22]) v)) =
      (Ok (), ow_buf (ow_put (ct @ tag) v))"
    by (rule seal_region_run [OF v(1) L(2) _ _ s(1) [unfolded hdr append_Cons append_Nil]])
      (use msg fits tag16 in \<open>simp_all add: v(3)\<close>)
  have patch: "ow_store (ow_pos w + 3) h (ow_put (ct @ tag) v) = (Ok (), ow_put (23 # 3 # 3 # h @ ct @ tag) w)"
    using ow_store_put [OF inv, of "[23, 3, 3]" "[0, 0]" "ct @ tag" h "ow_pos w + 3"] inv fits s(2,3) tag16 len_h
    by (simp add: v_def)
  have start: "next_do (on_out (ow_append [23, 3, 3, 0, 0])) k s = k (s\<lparr>sv_out := v\<rparr>)"
    for k :: "unit server_op"
    using append_step [OF inv, of "[]" "[23, 3, 3, 0, 0]" k s] w fits by (auto simp: v_def)
  have room_v: "length (ow_buf v) - ow_pos v = ow_room v" by (simp add: ow_room_def)
  have guard: "\<not> ow_room v < 17" using fits by (simp add: v(3))
  let ?ks = "transcript_update msg (sv_ks s)"
  have key_st: "key (r_state (server_state (sv_ks s))) = key st" by (simp add: st)
  have nonce: "sv_ks t = ?ks \<Longrightarrow> server_handshake_aead_nonce C (sv_ks t) = (Ok (record_nonce st), ?ks)" for t
    using server_nonce_run [OF L(3), of ?ks] st by simp
  have count: "sv_ks t = ?ks \<Longrightarrow> increment_server_handshake_counter (sv_ks t) = (Ok (), bump_server ?ks)" for t
    using server_counter_run [of ?ks] st by simp
  have buf_v: "\<not> length (ow_buf (ow_put (msg @ [22]) v)) < ow_pos v + (17 + length msg)"
    using v(1) fits by (simp add: v(2-4) buf)
  have whole: "x\<lparr>ow_buf := ow_buf (ow_put (ct @ tag) v), ow_pos := ow_pos v + (17 + length msg)\<rparr> =
      ow_put (ct @ tag) v" for x
    using s(2,3) tag16 by (simp add: ow_put_def)
  have marker: "next_do (on_out (ow_set (ow_pos v + length msg) 22)) k
      (s\<lparr>sv_out := (ow_put msg v)\<lparr>ow_pos := ow_pos v\<rparr>\<rparr>) =
      k (s\<lparr>sv_out := (ow_put (msg @ [22]) v)\<lparr>ow_pos := ow_pos v\<rparr>\<rparr>)" for k :: "unit server_op"
    by (rule on_out_step, rule set_marker_run [OF v(1)]) (use fits in \<open>simp_all add: v(3)\<close>)
  show ?thesis
    unfolding write_encrypted_handshake_record_def s(4) hdr
    using fits
    apply (simp add: gets_step w start tag16 room_v inner marker guard)
    apply (simp add: read_step slice modify_step on_ks_step [OF server_key_run] key_st
        on_ks_step [of "server_handshake_aead_nonce C", OF nonce] h_def [symmetric] Let_def gets_step buf_v)
    apply (simp add: on_buf_next seal modify_step on_ks_next [of increment_server_handshake_counter, OF count])
    apply (simp add: on_out_def on_part_apply w whole patch)
    done
qed

text \<open>Without room the writer stops before the transcript or the counter change.\<close>

lemma write_encrypted_full:
  assumes laws: "crypto_laws C" and inv: "ow_inv w" and w: "sv_out s = w"
    and enc: "writes_message enc (sv_ks s) msg"
    and full: "ow_room w < length msg + 6 + tag_len C"
  shows "stops (write_encrypted_handshake_record C enc) s"
proof -
  have tag16: "tag_len C = 16" using suite_sizesD [OF crypto_lawsD(3) [OF laws]] by simp
  let ?v = "ow_put [23, 3, 3, 0, 0] w"
  have buf: "length (ow_buf w) = ow_pos w + ow_room w" using inv by (simp add: ow_inv_def ow_room_def)
  have rest: "stops (bind (run_inner j n enc) k) (s\<lparr>sv_out := ?v\<rparr>)"
    if "22 \<le> ow_room w" "j = ow_pos w + 5" "n = ow_room w - 22"
    for j n and k :: "nat \<Rightarrow> unit server_op"
    using run_inner_full [of ?v enc "s\<lparr>sv_out := ?v\<rparr>" msg 16] inv enc full tag16 that
    by (auto simp: stops_def bind_apply eval_nat_numeral)
  have throw: "stops (throw e) (s\<lparr>sv_out := ?v\<rparr>)" for e by (auto simp: stops_def)
  show ?thesis
    apply (rule stops_start [OF w])
    unfolding write_encrypted_handshake_record_def Let_def
    apply (rule stops_gets append_stops [OF inv])+
    using inv by (auto simp: tag16 buf throw intro!: rest)
qed

end
