(* ===== verification/Server_Handshake.thy ===== *)
theory Server_Handshake
  imports Server_Records
begin

text \<open>
  The handshake of src/server.rs on every branch: admitting a ClientHello (parsing, the PSK, the key exchange, the
  second hello after a retry), checking its binder, and answering it with a HelloRetryRequest or the first flight.
  \<open>process_client_hello\<close> is shown to be these three steps, and each step to do what RFC 8446 says.
\<close>

section \<open>What a parsed ClientHello guarantees\<close>

fun psk_paired :: "client_hello_extension \<Rightarrow> bool" where
  "psk_paired (CHE_PreSharedKey p) \<longleftrightarrow> length (psk_binders p) = length (psk_identities p)"
| "psk_paired _ \<longleftrightarrow> True"

definition hello_inv :: "client_hello_ref \<Rightarrow> bool" where
  "hello_inv h \<longleftrightarrow> length (cr_random h) = 32 \<and> length (cr_legacy_session_id h) \<le> 32 \<and>
     list_all psk_paired (cr_extensions h)"

lemma ensures_psk_ch: "ensures (psk_ch_parse n) (\<lambda>p _. length (psk_binders p) = length (psk_identities p))"
  unfolding psk_ch_parse_def
  by (intro ensures_rules) (auto simp: case_prod_unfold intro!: ensures_rules)

lemma che_dispatch_paired: "che_dispatch t = Some p \<Longrightarrow> ensures p (\<lambda>e _. psk_paired e)"
  by (cases t) (auto intro!: ensuresI dest!: pmap_OkD dest: ensuresD [OF ensures_psk_ch])

lemma extension_parse_ensures:
  assumes "\<And>t p. dispatch t = Some p \<Longrightarrow> ensures p (\<lambda>e _. P e)"
    and "extension_parse dispatch buf = (Ok e, buf')"
  shows "P e"
proof -
  obtain t p data b where "dispatch t = Some p" and "p (pb_new data) = (Ok e, b)"
    using assms(2)
    by (auto simp: extension_parse_def split: prod.splits option.splits elim!: bind_OkE map_err_result.elims)
      (metis map_err_result.elims fst_conv prod.collapse result.distinct(1,3) result.inject(1))
  then show ?thesis using assms(1) by (auto dest: ensuresD)
qed

lemma vector_loop_ensures:
  assumes "\<And>t p. dispatch t = Some p \<Longrightarrow> ensures p (\<lambda>e _. P e)"
    and "extension_vector_loop dispatch n acc buf = Ok es" and "list_all P acc"
  shows "list_all P es"
  using assms
proof (induction dispatch n acc buf rule: extension_vector_loop.induct)
  case (1 dispatch n acc buf)
  obtain r buf' where run: "extension_parse dispatch buf = (r, buf')" by fastforce
  show ?case
  proof (cases "is_empty buf")
    case False
    have P: "P e" if "r = Ok e" for e
      by (rule extension_parse_ensures [OF "1.prems"(1)]) (use run that in auto)
    show ?thesis
      using "1.IH" [OF False run [symmetric] _ _ "1.prems"(1)] "1.prems"(2,3) False run P
      by (simp add: extension_vector_loop.simps [of dispatch n acc buf] split: result.splits if_splits)
  qed (use "1.prems" in \<open>simp add: extension_vector_loop.simps\<close>)
qed

lemma ensures_extensions:
  assumes "\<And>t p. dispatch t = Some p \<Longrightarrow> ensures p (\<lambda>e _. P e)"
  shows "ensures (extension_parse_vector dispatch n) (\<lambda>es _. list_all P es)"
  unfolding extension_parse_vector_def
  by (intro ensures_rules) (auto intro: vector_loop_ensures [OF assms])

lemma ensures_fill: "ensures (pb_fill n) (\<lambda>bs _. length bs = n)"
  and ensures_slice: "ensures (pb_slice n) (\<lambda>bs _. length bs = n)"
  by (auto simp: ensures_def pb_fill_def pb_slice_def split: if_splits)

lemma ensures_client_hello:
  "ensures (client_hello_ref_parse n) (\<lambda>h p. hello_inv h \<and> cr_binders_start_offset h \<le> pos p)"
  unfolding client_hello_ref_parse_def Let_def
  apply (rule ensures_bind_last, rule ensures_if [OF ensures_throw])
  apply (rule ensures_bind_last, rule ensures_bind_last, rule ensures_bind_last)
  apply (rule ensures_bind [OF ensures_map_err [OF ensures_fill]])
  apply (rule ensures_bind_last, rule ensures_if [OF ensures_throw])
  apply (rule ensures_bind [OF ensures_map_err [OF ensures_slice]])
  apply (rule ensures_bind_last, rule ensures_if [OF ensures_throw])
  apply (rule ensures_bind_last, rule ensures_bind_last, rule ensures_if [OF ensures_throw])
  apply (rule ensures_bind_last, rule ensures_bind [OF ensures_extensions [OF che_dispatch_paired]])
   apply assumption
  apply (rule ensuresI)
  apply (auto simp: hello_inv_def elim!: bind_OkE split: if_splits dest!: binders_start_OkD)
  done

lemma parse_client_hello_OkD:
  assumes "parse_client_hello msg = Ok h"
  shows "hello_inv h" and "cr_binders_start_offset h \<le> length msg"
proof -
  obtain p where run: "client_hello_ref_parse CLIENT_HELLO_MAX_EXTENSIONS (pb_new msg) = (Ok h, p)"
    using assms by (auto simp: parse_client_hello_def split: prod.splits result.splits if_splits)
  have "pos p \<le> length msg"
    using wf_parserD [OF wf_client_hello_ref_parse pb_inv_new run] by (auto simp: pb_inv_def pb_new_def)
  then show "hello_inv h" and "cr_binders_start_offset h \<le> length msg"
    using ensuresD [OF ensures_client_hello run] by auto
qed

lemma parse_client_hello_no_panic: "parse_client_hello msg \<noteq> Panic"
proof -
  obtain r p where run: "client_hello_ref_parse CLIENT_HELLO_MAX_EXTENSIONS (pb_new msg) = (r, p)"
    by fastforce
  then show ?thesis
    using wf_parserD [OF wf_client_hello_ref_parse pb_inv_new run]
    by (auto simp: parse_client_hello_def split: result.splits)
qed

section \<open>Validation never panics\<close>

lemma validate_no_panic [simp]:
  "validate_supported_versions h \<noteq> Panic" "validate_cipher_suites h \<noteq> Panic"
  by (simp_all add: validate_supported_versions_def validate_cipher_suites_def split: option.split)

lemma x25519_share_of_no_panic [simp]: "x25519_share_of es \<noteq> Panic"
  by (induction es rule: x25519_share_of.induct) auto

lemma x25519_share_of_OkD: "x25519_share_of es = Ok (Some sh) \<Longrightarrow> length sh = 32"
  by (induction es rule: x25519_share_of.induct) (auto split: if_splits)

lemma decide_kex_no_panic: "decide_kex h config sent \<noteq> Panic"
  by (auto simp: decide_kex_def find_client_x25519_share_def Let_def split: option.split result.split)

lemma decide_kex_UseD:
  "decide_kex h config sent = Ok (Use (KexPskDheKe sh)) \<Longrightarrow> length sh = 32 \<and> dhe_keypair config \<noteq> None"
  by (auto simp: decide_kex_def find_client_x25519_share_def Let_def dest: x25519_share_of_OkD
      split: option.splits result.splits if_splits)

lemma decide_kex_RetryD: "decide_kex h config sent = Ok (Retry g) \<Longrightarrow> \<not> sent \<and> g = X25519"
  by (auto simp: decide_kex_def Let_def split: option.splits result.splits if_splits)

lemma find_map_SomeD: "find_map f xs = Some y \<Longrightarrow> \<exists>x\<in>set xs. f x = Some y"
  by (induction xs) (auto split: option.splits)

lemma locate_our_identity_OkD:
  assumes "locate_our_identity h config = Ok (idx, b)"
  obtains p i where "CHE_PreSharedKey p \<in> set (cr_extensions h)" and "i < length (psk_identities p)"
    and "psk_identities p ! i = psk_identity config"
    and "i < length (psk_binders p)" and "psk_binders p ! i = b" and "idx = word_of_nat i"
  using assms
  by (auto simp: locate_our_identity_def index_at_def dest!: find_map_SomeD position_SomeD
      split: option.splits result.splits if_splits client_hello_extension.splits)

lemma locate_our_identity_no_panic:
  assumes "hello_inv h"
  shows "locate_our_identity h config \<noteq> Panic"
  using assms
  by (fastforce simp: locate_our_identity_def index_at_def hello_inv_def list_all_iff
      dest!: find_map_SomeD position_SomeD
      split: option.splits result.splits if_splits client_hello_extension.splits)

text \<open>The retry state always holds a session id that fits its 32 byte array.\<close>

definition hrr_inv :: "hrr_state \<Rightarrow> bool" where
  "hrr_inv st \<longleftrightarrow> length (ch1_session_id st) = 32 \<and> unat (ch1_session_id_len st) \<le> 32"

lemma hrr_inv_default [simp]: "hrr_inv hrr_default"
  by (simp add: hrr_inv_def hrr_default_def)

lemma validate_ch2_no_panic: "hrr_inv st \<Longrightarrow> validate_ch2_consistency h st \<noteq> Panic"
  by (auto simp: validate_ch2_consistency_def hrr_inv_def subslice_def split: if_splits)

lemma record_hrr_run:
  assumes "hello_inv h" and "hrr_inv (sv_hrr s)"
  shows "\<exists>st. record_hrr h s = (Ok (), s\<lparr>sv_hrr := st\<rparr>) \<and> hrr_inv st \<and> hrr_sent st \<and>
     ch1_random st = cr_random h \<and>
     take (unat (ch1_session_id_len st)) (ch1_session_id st) = cr_legacy_session_id h"
  using assms
  by (auto simp: record_hrr_def hrr_inv_def hello_inv_def store_slice_def unat_word_of_nat
      overwrite_def)

section \<open>PSK authentication and key derivation\<close>

text \<open>The key schedule after the early secret has been extracted, and after the handshake secret.\<close>

definition early_ks :: "cipher_suite_params \<Rightarrow> bytes \<Rightarrow> key_schedule \<Rightarrow> key_schedule" where
  "early_ks C psk ks = (let prk = hkdf_extract C (sh_secret (shared ks)) psk in
     ks\<lparr>shared := shared_after C prk, client_state := (client_state ks)\<lparr>binder_key :=
          Initialized (rfc_derive_secret C prk ''ext binder'' [])\<rparr>\<rparr>)"

definition handshake_ks :: "cipher_suite_params \<Rightarrow> bytes \<Rightarrow> key_schedule \<Rightarrow> key_schedule" where
  "handshake_ks C ikm ks = (let prk = hkdf_extract C (sh_secret (shared ks)) ikm in
     ks\<lparr>shared := shared_after C prk,
        client_state := (client_state ks)\<lparr>w_state :=
          rfc_traffic_keys C (rfc_derive_secret C prk ''c hs traffic'' (ks_transcript ks))\<rparr>,
        server_state := (server_state ks)\<lparr>r_state :=
          rfc_traffic_keys C (rfc_derive_secret C prk ''s hs traffic'' (ks_transcript ks))\<rparr>\<rparr>)"

text \<open>A key schedule that holds the early secret and the binder key of the PSK.\<close>

definition psk_ready :: "cipher_suite_params \<Rightarrow> bytes \<Rightarrow> key_schedule \<Rightarrow> bool" where
  "psk_ready C psk ks \<longleftrightarrow> shared ks = shared_after C (rfc_early_secret C psk) \<and>
     binder_key (client_state ks) = Initialized (rfc_binder_key C psk)"

definition auth_ks :: "cipher_suite_params \<Rightarrow> tls_server_config \<Rightarrow> bool \<Rightarrow> key_schedule \<Rightarrow> key_schedule" where
  "auth_ks C config sent ks = (if sent then ks else early_ks C (psk_secret config) ks)"

definition auth_transcript :: "bool \<Rightarrow> key_schedule \<Rightarrow> bytes" where
  "auth_transcript sent ks = (if sent then ks_transcript ks else [])"

lemma early_ks_ready: "sh_secret (shared ks) = zero_hash C \<Longrightarrow> psk_ready C psk (early_ks C psk ks)"
  by (simp add: psk_ready_def early_ks_def rfc_early_secret_def rfc_binder_key_def Let_def)

lemma early_ks_simps [simp]:
  "server_state (early_ks C psk ks) = server_state ks"
  "ks_transcript (early_ks C psk ks) = ks_transcript ks"
  by (simp_all add: early_ks_def ks_transcript_def Let_def)

lemma authenticate_psk_run:
  assumes "hash_laws C" and "cr_binders_start_offset hello \<le> length msg"
  shows "authenticate_psk C config msg hello sent b s =
     (case binder_key (client_state (auth_ks C config sent (sv_ks s))) of
        Uninitialized \<Rightarrow> Err CryptoError
      | Initialized bk \<Rightarrow>
          if b = rfc_finished_mac C bk (hash C (auth_transcript sent (sv_ks s) @
                   take (cr_binders_start_offset hello) msg))
          then Ok () else Err (fatal AD_DecryptError),
      s\<lparr>sv_ks := auth_ks C config sent (sv_ks s)\<rparr>)"
proof -
  have early: "initialize_early_secret C (Some psk) ks = (Ok (), early_ks C psk ks)" for psk ks
    by (simp add: early_secret_run [OF assms(1)] early_ks_def)
  have mac: "verify_psk_binder C t b ks = (case binder_key (client_state ks) of
        Uninitialized \<Rightarrow> (Err InternalError, ks)
      | Initialized bk \<Rightarrow> (Ok (rfc_finished_mac C bk (hash C t) = b), ks))" for t ks
  proof -
    have "finished_mac C Uninitialized d = Err InternalError" for d
      by (simp add: finished_mac_def finished_key_def make_expanded_uninitialized)
    then show ?thesis
      by (simp add: verify_psk_binder_def finished_mac_run [OF assms(1)] bind_apply return_def
          split: secret.split)
  qed
  show ?thesis
    using assms(2)
    by (auto simp: authenticate_psk_def next_do_apply bind_apply on_ks_def on_part_apply map_err_apply
        early mac auth_ks_def auth_transcript_def subslice_def return_def throw_def split: secret.split)
qed

definition kex_secret ::
  "cipher_suite_params \<Rightarrow> (bytes \<Rightarrow> bytes \<Rightarrow> bytes) \<Rightarrow> tls_server_config \<Rightarrow> kex_mode \<Rightarrow> (bytes, tls_error) result" where
  "kex_secret C x25519 config mode =
     (case mode of
        KexPskKe \<Rightarrow> Ok (zero_hash C)
      | KexPskDheKe pub \<Rightarrow>
          (case dhe_keypair config of
             None \<Rightarrow> Err InternalError
           | Some dhe \<Rightarrow>
               let sh = x25519 (dhe_secret dhe) pub in
               if length pub \<noteq> 32 \<or> list_all (\<lambda>b. b = 0) sh then Err (fatal AD_IllegalParameter) else Ok sh))"

lemma init_handshake_secret_run:
  assumes "hash_laws C" and "suite_sizes C"
  shows "init_handshake_secret C x25519 config mode s =
     (case kex_secret C x25519 config mode of
        Ok ikm \<Rightarrow> (Ok (), s\<lparr>sv_ks := handshake_ks C ikm (sv_ks s)\<rparr>)
      | Err e \<Rightarrow> (Err e, s)
      | Panic \<Rightarrow> (Panic, s))"
proof -
  have run: "initialize_handshake_secret C ikm ks = (Ok (), handshake_ks C ikm ks)" for ikm ks
    by (simp add: handshake_secret_run [OF assms] handshake_ks_def)
  show ?thesis
    by (auto simp: init_handshake_secret_def kex_secret_def initialize_handshake_secret_psk_ke_def run
        on_ks_def on_part_apply map_err_apply Let_def split: kex_mode.split option.split)
qed

lemma kex_secret_no_panic [simp]: "kex_secret C x25519 config mode \<noteq> Panic"
  by (auto simp: kex_secret_def Let_def split: kex_mode.split option.split)

section \<open>The two answers to a ClientHello\<close>

definition ee_message :: bytes where
  "ee_message = handshake_bytes HT_EncryptedExtensions (vec16 [])"

definition finished_message :: "cipher_suite_params \<Rightarrow> bytes \<Rightarrow> bytes \<Rightarrow> bytes" where
  "finished_message C ts transcript = handshake_bytes HT_Finished (rfc_finished_mac C ts (hash C transcript))"

lemma length_rfc_finished_mac: "hash_laws C \<Longrightarrow> length (rfc_finished_mac C ts d) = hash_len C"
  by (simp add: rfc_finished_mac_def hash_length)

lemma length_finished_message: "hash_laws C \<Longrightarrow> length (finished_message C ts t) = hash_len C + 4"
  by (simp add: finished_message_def handshake_bytes_def length_rfc_finished_mac)

lemma length_ee_message [simp]: "length ee_message = 6"
  by (simp add: ee_message_def handshake_bytes_def)

lemma rfc_traffic_keys_simps [simp]:
  "traffic_secret (rfc_traffic_keys C ts) = Initialized ts" "counter (rfc_traffic_keys C ts) = 0"
  by (simp_all add: rfc_traffic_keys_def)

lemma length_rfc_iv:
  assumes "hash_laws C" and "suite_sizes C"
  shows "length (iv (rfc_traffic_keys C ts)) = 12"
  using suite_sizesD [OF assms(2)] by (simp add: rfc_traffic_keys_def hkdf_expand_label_length [OF assms(1)])

lemma bump_server_simps [simp]:
  "shared (bump_server ks) = shared ks" "client_state (bump_server ks) = client_state ks"
  "ks_transcript (bump_server ks) = ks_transcript ks"
  "r_state (server_state (bump_server ks)) =
     (r_state (server_state ks))\<lparr>counter := counter (r_state (server_state ks)) + 1\<rparr>"
  by (simp_all add: bump_server_def ks_transcript_def)

text \<open>The encrypted part of the flight: EncryptedExtensions and Finished under counters 0 and 1.\<close>

definition encrypted_flight :: "cipher_suite_params \<Rightarrow> bytes \<Rightarrow> bytes \<Rightarrow> bytes" where
  "encrypted_flight C ts transcript =
     sealed_record C (rfc_traffic_keys C ts) ee_message CT_Handshake @
     sealed_record C ((rfc_traffic_keys C ts)\<lparr>counter := 1\<rparr>)
       (finished_message C ts (transcript @ ee_message)) CT_Handshake"

definition write_encrypted_flight :: "cipher_suite_params \<Rightarrow> unit server_op" where
  "write_encrypted_flight C = next_do (write_encrypted_handshake_record C encode_encrypted_extensions)
     (write_encrypted_handshake_record C (encode_server_finished C))"

definition flight_ks :: "cipher_suite_params \<Rightarrow> bytes \<Rightarrow> key_schedule \<Rightarrow> key_schedule" where
  "flight_ks C ts ks =
     bump_server (transcript_update (finished_message C ts (ks_transcript ks @ ee_message))
      (bump_server (transcript_update ee_message ks)))"

lemma write_encrypted_flight_run:
  assumes laws: "crypto_laws C" and inv: "ow_inv w" and w: "sv_out s = w"
    and st: "r_state (server_state (sv_ks s)) = rfc_traffic_keys C ts"
    and room: "length (encrypted_flight C ts (ks_transcript (sv_ks s))) \<le> ow_room w"
  shows "write_encrypted_flight C s =
     (Ok (), s\<lparr>sv_out := ow_put (encrypted_flight C ts (ks_transcript (sv_ks s))) w,
       sv_ks := flight_ks C ts (sv_ks s)\<rparr>)"
proof -
  note L = crypto_lawsD [OF laws]
  define t where "t = ks_transcript (sv_ks s)"
  define ks' where "ks' = bump_server (transcript_update ee_message (sv_ks s))"
  define r1 where "r1 = sealed_record C (rfc_traffic_keys C ts) ee_message CT_Handshake"
  define r2 where "r2 = sealed_record C ((rfc_traffic_keys C ts)\<lparr>counter := 1\<rparr>)
       (finished_message C ts (t @ ee_message)) CT_Handshake"
  have flight: "encrypted_flight C ts (ks_transcript (sv_ks s)) = r1 @ r2"
    by (simp add: encrypted_flight_def r1_def r2_def t_def)
  have fits: "length r1 + length r2 \<le> ow_room w" using room by (simp add: flight)
  have 1: "write_encrypted_handshake_record C encode_encrypted_extensions s =
      (Ok (), s\<lparr>sv_out := ow_put r1 w, sv_ks := ks'\<rparr>)"
    unfolding r1_def ks'_def
    by (rule write_encrypted_run [OF laws inv w writes_encrypted_extensions [folded ee_message_def]])
      (use st fits length_rfc_iv [OF L(1,3)] in \<open>simp_all add: r1_def\<close>)
  have st': "r_state (server_state ks') = (rfc_traffic_keys C ts)\<lparr>counter := 1\<rparr>"
      "ks_transcript ks' = t @ ee_message"
    by (simp_all add: ks'_def st t_def)
  have 2: "write_encrypted_handshake_record C (encode_server_finished C)
      (s\<lparr>sv_out := ow_put r1 w, sv_ks := ks'\<rparr>) =
      (Ok (), s\<lparr>sv_out := ow_put r2 (ow_put r1 w), sv_ks := flight_ks C ts (sv_ks s)\<rparr>)"
  proof -
    let ?s = "s\<lparr>sv_out := ow_put r1 w, sv_ks := ks'\<rparr>"
    have "writes_message (encode_server_finished C) (sv_ks ?s) (finished_message C ts (t @ ee_message))"
      using writes_server_finished [OF L(1,3), of ks' ts] st' by (simp add: finished_message_def)
    note run = write_encrypted_run [OF laws _ refl this, of "(rfc_traffic_keys C ts)\<lparr>counter := 1\<rparr>"]
    have "flight_ks C ts (sv_ks s) =
        bump_server (transcript_update (finished_message C ts (t @ ee_message)) ks')"
      by (simp add: flight_ks_def ks'_def t_def)
    then show ?thesis
      unfolding r2_def
      by (subst run) (use inv fits st' length_finished_message [OF L(1)] suite_sizesD [OF L(3)]
          length_rfc_iv [OF L(1,3)] in \<open>simp_all add: r2_def\<close>)
  qed
  show ?thesis
    using 1 2 inv fits by (simp add: write_encrypted_flight_def next_do_apply flight)
qed

lemma write_encrypted_flight_full:
  assumes laws: "crypto_laws C" and inv: "ow_inv w" and w: "sv_out s = w"
    and st: "r_state (server_state (sv_ks s)) = rfc_traffic_keys C ts"
    and full: "ow_room w < length (encrypted_flight C ts (ks_transcript (sv_ks s)))"
  shows "\<exists>e s'. write_encrypted_flight C s = (Err e, s') \<and> sv_hrr s' = sv_hrr s"
proof -
  note L = crypto_lawsD [OF laws]
  have ee: "writes_message encode_encrypted_extensions (sv_ks s) ee_message"
    using writes_encrypted_extensions by (simp add: ee_message_def)
  define r1 where "r1 = sealed_record C (rfc_traffic_keys C ts) ee_message CT_Handshake"
  have len: "length (sealed_record C x m CT_Handshake) = length m + 6 + tag_len C" if "length m \<le> 60" for x m
    by (rule length_sealed_record [OF L(2)]) (use that in simp)
  have len_fin: "length (finished_message C ts t) = hash_len C + 4" "hash_len C + 4 \<le> 60" for t
    using length_finished_message [OF L(1)] suite_sizesD [OF L(3)] by simp_all
  show ?thesis
  proof (cases "length r1 \<le> ow_room w")
    case False
    then have "stops (write_encrypted_handshake_record C encode_encrypted_extensions) s"
      by (intro write_encrypted_full [OF laws inv w ee]) (simp add: r1_def len)
    then show ?thesis by (auto simp: stops_def write_encrypted_flight_def next_do_apply)
  next
    case True
    let ?ks = "bump_server (transcript_update ee_message (sv_ks s))"
    let ?s = "s\<lparr>sv_out := ow_put r1 w, sv_ks := ?ks\<rparr>"
    have 1: "write_encrypted_handshake_record C encode_encrypted_extensions s = (Ok (), ?s)"
      unfolding r1_def
      by (rule write_encrypted_run [OF laws inv w ee])
        (use st True length_rfc_iv [OF L(1,3)] in \<open>simp_all add: r1_def\<close>)
    have fin: "writes_message (encode_server_finished C) (sv_ks ?s)
        (finished_message C ts (ks_transcript (sv_ks s) @ ee_message))"
      using writes_server_finished [OF L(1,3), of ?ks ts] st by (simp add: finished_message_def)
    have "stops (write_encrypted_handshake_record C (encode_server_finished C)) ?s"
      by (rule write_encrypted_full [OF laws _ refl fin])
        (use inv True full in \<open>simp_all add: encrypted_flight_def r1_def len len_fin\<close>)
    with 1 show ?thesis by (auto simp: stops_def write_encrypted_flight_def next_do_apply)
  qed
qed

text \<open>The pure checks of \<open>process_client_hello_inner\<close>, in its order, up to the choice of the PSK.\<close>

definition admit ::
  "tls_server_config \<Rightarrow> bytes \<Rightarrow> hrr_state \<Rightarrow>
   (client_hello_ref \<times> kex_decision \<times> u16 \<times> bytes, tls_error) result" where
  "admit config msg hrr =
     fst (bind (lift_result (parse_client_hello msg)) (\<lambda>hello.
          next_do (lift_result (validate_supported_versions hello))
         (next_do (lift_result (validate_cipher_suites hello))
         (next_do (if hrr_sent hrr then lift_result (validate_ch2_consistency hello hrr) else return ())
         (bind (lift_result (decide_kex hello config (hrr_sent hrr))) (\<lambda>decision.
          bind (lift_result (locate_our_identity hello config)) (\<lambda>(selected_idx, received_binder).
          return (hello, decision, selected_idx, received_binder))))))) ())"

definition answer_hello ::
  "cipher_suite_params \<Rightarrow> (bytes \<Rightarrow> bytes \<Rightarrow> bytes) \<Rightarrow> tls_server_config \<Rightarrow> bytes \<Rightarrow> client_hello_ref \<Rightarrow>
   u16 \<Rightarrow> kex_decision \<Rightarrow> handshake_output server_op" where
  "answer_hello C x25519 config msg hello selected_idx decision = (case decision of
       Retry retry_group \<Rightarrow>
         next_do new_writer
        (next_do (write_hello_retry_request_record C (cr_legacy_session_id hello) retry_group msg)
        (next_do (record_hrr hello)
        (gets (\<lambda>s. HelloRetryRequest (take (ow_pos (sv_out s)) (ow_buf (sv_out s)))))))
     | Use mode \<Rightarrow>
         next_do (modify (\<lambda>s. s\<lparr>sv_ks := transcript_update msg (sv_ks s)\<rparr>))
        (next_do new_writer
        (next_do (write_server_hello_record config (cr_legacy_session_id hello) selected_idx mode)
        (next_do (init_handshake_secret C x25519 config mode)
        (next_do (write_encrypted_handshake_record C encode_encrypted_extensions)
        (next_do (write_encrypted_handshake_record C (encode_server_finished C))
        (gets (\<lambda>s. FirstFlight (take (ow_pos (sv_out s)) (ow_buf (sv_out s)))))))))))"

lemma process_client_hello_inner_eq:
  "process_client_hello_inner C x25519 config msg s =
     (case admit config msg (sv_hrr s) of
        Ok (hello, decision, idx, b) \<Rightarrow>
          next_do (authenticate_psk C config msg hello (hrr_sent (sv_hrr s)) b)
            (answer_hello C x25519 config msg hello idx decision) s
      | Err e \<Rightarrow> (Err e, s)
      | Panic \<Rightarrow> (Panic, s))"
  by (simp add: process_client_hello_inner_def admit_def answer_hello_def bind_apply next_do_apply return_def
      split: result.split prod.split)

lemma admit_OkD:
  assumes "admit config msg hrr = Ok (hello, decision, idx, b)"
  shows "parse_client_hello msg = Ok hello" and "validate_supported_versions hello = Ok ()"
    and "validate_cipher_suites hello = Ok ()"
    and "hrr_sent hrr \<Longrightarrow> validate_ch2_consistency hello hrr = Ok ()"
    and "decide_kex hello config (hrr_sent hrr) = Ok decision"
    and "locate_our_identity hello config = Ok (idx, b)"
  using assms
  by (auto simp: admit_def bind_apply next_do_apply return_def split: result.splits if_splits)

lemma admit_no_panic: "hrr_inv hrr \<Longrightarrow> admit config msg hrr \<noteq> Panic"
  using parse_client_hello_no_panic [of msg] parse_client_hello_OkD [of msg] decide_kex_no_panic
    validate_ch2_no_panic locate_our_identity_no_panic
  by (auto simp: admit_def bind_apply next_do_apply return_def split: result.split prod.split)

lemma ow_new_simps [simp]:
  "ow_inv (ow_new buf)" "ow_room (ow_new buf) = length buf" "ow_pos (ow_new buf) = 0"
  by (simp_all add: ow_new_def ow_inv_def ow_room_def)

lemma new_writer_run: "new_writer s = (Ok (), s\<lparr>sv_out := ow_new (ow_buf (sv_out s))\<rparr>)"
  by (simp add: new_writer_def)

lemma ow_view_new: "length bs \<le> length buf \<Longrightarrow>
  take (length bs) (ow_buf (ow_put bs (ow_new buf))) = bs"
  by (simp add: ow_put_def ow_new_def overwrite_def)

lemma answer_hello_retry_run:
  assumes laws: "crypto_laws C" and hello: "hello_inv hello" and hrr: "hrr_inv (sv_hrr s)"
    and room: "length (handshake_record (hrr_message (cr_legacy_session_id hello) g)) \<le> length (ow_buf (sv_out s))"
  shows "\<exists>st w. answer_hello C x25519 config msg hello idx (Retry g) s =
      (Ok (HelloRetryRequest (handshake_record (hrr_message (cr_legacy_session_id hello) g))),
       s\<lparr>sv_out := w, sv_ks := replace_transcript_hash
           (message_hash C msg @ hrr_message (cr_legacy_session_id hello) g) (sv_ks s), sv_hrr := st\<rparr>) \<and>
     hrr_inv st \<and> hrr_sent st \<and> ch1_random st = cr_random hello \<and>
     take (unat (ch1_session_id_len st)) (ch1_session_id st) = cr_legacy_session_id hello"
proof -
  note L = crypto_lawsD [OF laws]
  let ?sid = "cr_legacy_session_id hello" and ?buf = "ow_buf (sv_out s)"
  let ?R = "handshake_record (hrr_message ?sid g)"
  let ?w = "ow_put ?R (ow_new ?buf)"
  let ?ks = "replace_transcript_hash (message_hash C msg @ hrr_message ?sid g) (sv_ks s)"
  have sid: "length ?sid \<le> 32" using hello by (simp add: hello_inv_def)
  have wr: "write_hello_retry_request_record C ?sid g msg (s\<lparr>sv_out := ow_new ?buf\<rparr>) =
      (Ok (), s\<lparr>sv_out := ?w, sv_ks := ?ks\<rparr>)"
    using write_hrr_run [OF _ refl sid L(1,3), of "s\<lparr>sv_out := ow_new ?buf\<rparr>" g msg] room by simp
  obtain st where "record_hrr hello (s\<lparr>sv_out := ?w, sv_ks := ?ks\<rparr>) =
      (Ok (), s\<lparr>sv_out := ?w, sv_ks := ?ks, sv_hrr := st\<rparr>)"
      and st: "hrr_inv st" "hrr_sent st" "ch1_random st = cr_random hello"
        "take (unat (ch1_session_id_len st)) (ch1_session_id st) = ?sid"
    using record_hrr_run [OF hello, of "s\<lparr>sv_out := ?w, sv_ks := ?ks\<rparr>"] hrr by auto
  then have "answer_hello C x25519 config msg hello idx (Retry g) s =
      (Ok (HelloRetryRequest ?R), s\<lparr>sv_out := ?w, sv_ks := ?ks, sv_hrr := st\<rparr>)"
    using ow_view_new [OF room] by (simp add: answer_hello_def next_do_apply new_writer_run wr)
  with st show ?thesis by auto
qed

definition gives_up :: "'a server_op \<Rightarrow> server_st \<Rightarrow> bool" where
  "gives_up m s \<longleftrightarrow> (\<exists>e s'. m s = (Err e, s') \<and> sv_hrr s' = sv_hrr s)"

lemma answer_hello_retry_full:
  assumes hello: "hello_inv hello"
    and full: "length (ow_buf (sv_out s)) < length (handshake_record (hrr_message (cr_legacy_session_id hello) g))"
  shows "gives_up (answer_hello C x25519 config msg hello idx (Retry g)) s"
proof -
  let ?s = "s\<lparr>sv_out := ow_new (ow_buf (sv_out s))\<rparr>"
  have "length (cr_legacy_session_id hello) \<le> 32" using hello by (simp add: hello_inv_def)
  then have "stops (write_hello_retry_request_record C (cr_legacy_session_id hello) g msg) ?s"
    using write_hrr_full [OF _ refl, of ?s] full by simp
  then show ?thesis
    by (auto simp: gives_up_def stops_def answer_hello_def next_do_apply new_writer_run)
qed

text \<open>The server's flight and the key schedule it leaves behind.\<close>

definition server_transcript :: "bytes \<Rightarrow> bytes \<Rightarrow> bytes \<Rightarrow> bytes" where
  "server_transcript base msg sh = base @ msg @ sh"

definition first_flight ::
  "cipher_suite_params \<Rightarrow> bytes \<Rightarrow> key_schedule \<Rightarrow> bytes \<Rightarrow> bytes \<Rightarrow> bytes" where
  "first_flight C ikm ks msg sh = handshake_record sh @
     encrypted_flight C (rfc_derive_secret C (hkdf_extract C (sh_secret (shared ks)) ikm) ''s hs traffic''
       (server_transcript (ks_transcript ks) msg sh)) (server_transcript (ks_transcript ks) msg sh)"

definition first_flight_ks ::
  "cipher_suite_params \<Rightarrow> bytes \<Rightarrow> key_schedule \<Rightarrow> bytes \<Rightarrow> bytes \<Rightarrow> key_schedule" where
  "first_flight_ks C ikm ks msg sh =
     flight_ks C (rfc_derive_secret C (hkdf_extract C (sh_secret (shared ks)) ikm) ''s hs traffic''
       (server_transcript (ks_transcript ks) msg sh))
      (handshake_ks C ikm (transcript_update sh (transcript_update msg ks)))"

lemma handshake_ks_simps [simp]:
  "ks_transcript (handshake_ks C ikm ks) = ks_transcript ks"
  "r_state (server_state (handshake_ks C ikm ks)) =
     rfc_traffic_keys C (rfc_derive_secret C (hkdf_extract C (sh_secret (shared ks)) ikm) ''s hs traffic''
       (ks_transcript ks))"
  "shared (handshake_ks C ikm ks) = shared_after C (hkdf_extract C (sh_secret (shared ks)) ikm)"
  "w_state (client_state (handshake_ks C ikm ks)) =
     rfc_traffic_keys C (rfc_derive_secret C (hkdf_extract C (sh_secret (shared ks)) ikm) ''c hs traffic''
       (ks_transcript ks))"
  by (simp_all add: handshake_ks_def ks_transcript_def Let_def)

lemma answer_hello_use_split:
  "answer_hello C x25519 config msg hello idx (Use mode) =
     next_do (modify (\<lambda>s. s\<lparr>sv_ks := transcript_update msg (sv_ks s)\<rparr>))
    (next_do new_writer
    (next_do (write_server_hello_record config (cr_legacy_session_id hello) idx mode)
    (next_do (init_handshake_secret C x25519 config mode)
    (next_do (write_encrypted_flight C)
    (gets (\<lambda>s. FirstFlight (take (ow_pos (sv_out s)) (ow_buf (sv_out s)))))))))"
  by (rule ext)
    (simp add: answer_hello_def write_encrypted_flight_def next_do_apply split: prod.split result.split)

lemma answer_hello_use_run:
  assumes laws: "crypto_laws C" and hello: "hello_inv hello"
    and kex: "kex_secret C x25519 config mode = Ok ikm"
    and exts: "server_hello_extensions config idx mode = Ok exts"
    and sh: "sh = server_hello_message config (cr_legacy_session_id hello) exts"
    and room: "length (first_flight C ikm (sv_ks s) msg sh) \<le> length (ow_buf (sv_out s))"
  shows "\<exists>w. answer_hello C x25519 config msg hello idx (Use mode) s =
     (Ok (FirstFlight (first_flight C ikm (sv_ks s) msg sh)),
      s\<lparr>sv_out := w, sv_ks := first_flight_ks C ikm (sv_ks s) msg sh\<rparr>)"
proof -
  note L = crypto_lawsD [OF laws]
  let ?buf = "ow_buf (sv_out s)" and ?ks = "transcript_update msg (sv_ks s)"
  define t where "t = server_transcript (ks_transcript (sv_ks s)) msg sh"
  define ts where "ts = rfc_derive_secret C (hkdf_extract C (sh_secret (shared (sv_ks s))) ikm) ''s hs traffic'' t"
  define ks3 where "ks3 = handshake_ks C ikm (transcript_update sh ?ks)"
  define r where "r = handshake_record sh"
  define e where "e = encrypted_flight C ts t"
  have flight: "first_flight C ikm (sv_ks s) msg sh = r @ e"
    by (simp add: first_flight_def r_def e_def ts_def t_def)
  have sid: "length (cr_legacy_session_id hello) \<le> 32" using hello by (simp add: hello_inv_def)
  have fits: "length r + length e \<le> length ?buf" using room by (simp add: flight)
  have 1: "write_server_hello_record config (cr_legacy_session_id hello) idx mode
      (s\<lparr>sv_ks := ?ks, sv_out := ow_new ?buf\<rparr>) =
      (Ok (), s\<lparr>sv_ks := transcript_update sh ?ks, sv_out := ow_put r (ow_new ?buf)\<rparr>)"
    using write_server_hello_run [OF _ refl sid exts, of "s\<lparr>sv_ks := ?ks, sv_out := ow_new ?buf\<rparr>"] fits
    by (simp add: r_def sh)
  have ks3: "r_state (server_state ks3) = rfc_traffic_keys C ts" "ks_transcript ks3 = t"
    by (simp_all add: ks3_def ts_def t_def server_transcript_def)
  have 2: "write_encrypted_flight C (s\<lparr>sv_out := ow_put r (ow_new ?buf), sv_ks := ks3\<rparr>) =
      (Ok (), s\<lparr>sv_out := ow_put (r @ e) (ow_new ?buf), sv_ks := flight_ks C ts ks3\<rparr>)"
    using write_encrypted_flight_run [OF laws _ refl, of "s\<lparr>sv_out := ow_put r (ow_new ?buf), sv_ks := ks3\<rparr>" ts]
      fits by (simp add: ks3 e_def [symmetric])
  have "take (length (r @ e)) (ow_buf (ow_put (r @ e) (ow_new ?buf))) = r @ e"
    using fits by (intro ow_view_new) simp
  then show ?thesis
    using 1 2
    by (simp add: answer_hello_use_split next_do_apply new_writer_run init_handshake_secret_run [OF L(1,3)] kex
        ks3_def [symmetric] flight first_flight_ks_def ts_def [symmetric] t_def [symmetric]) blast
qed

lemma server_hello_extensions_no_panic [simp]: "server_hello_extensions config idx mode \<noteq> Panic"
  by (simp add: server_hello_extensions_def split: kex_mode.split option.split)

lemma gives_up_next:
  assumes "m s = (Ok v, s')" and "sv_hrr s' = sv_hrr s" and "gives_up k s'"
  shows "gives_up (next_do m k) s"
  using assms by (simp add: gives_up_def next_do_apply)

lemma stops_gives_up: "stops m s \<Longrightarrow> gives_up (next_do m k) s"
  by (auto simp: stops_def gives_up_def next_do_apply)

text \<open>Whenever the flight cannot be sent, the server reports an error: it never panics.\<close>

lemma answer_hello_use_gives_up:
  assumes laws: "crypto_laws C" and hello: "hello_inv hello"
    and bad: "\<And>ikm exts. kex_secret C x25519 config mode = Ok ikm \<Longrightarrow>
      server_hello_extensions config idx mode = Ok exts \<Longrightarrow>
      length (ow_buf (sv_out s)) < length (first_flight C ikm (sv_ks s) msg
        (server_hello_message config (cr_legacy_session_id hello) exts))"
  shows "gives_up (answer_hello C x25519 config msg hello idx (Use mode)) s"
proof -
  note L = crypto_lawsD [OF laws]
  let ?sid = "cr_legacy_session_id hello" and ?buf = "ow_buf (sv_out s)"
  let ?ks = "transcript_update msg (sv_ks s)"
  let ?s = "s\<lparr>sv_ks := ?ks, sv_out := ow_new ?buf\<rparr>"
  have sid: "length ?sid \<le> 32" using hello by (simp add: hello_inv_def)
  have "gives_up (next_do (write_server_hello_record config ?sid idx mode)
      (next_do (init_handshake_secret C x25519 config mode)
      (next_do (write_encrypted_flight C) k))) ?s" for k :: "handshake_output server_op"
  proof (cases "server_hello_extensions config idx mode")
    case (Err e)
    then show ?thesis
      by (intro stops_gives_up write_server_hello_no_key [OF _ refl, of ?s]) simp_all
  next
    case (Ok exts)
    define sh where "sh = server_hello_message config ?sid exts"
    show ?thesis
    proof (cases "length (handshake_record sh) \<le> length ?buf")
      case False
      then show ?thesis
        using Ok by (intro stops_gives_up write_server_hello_full [OF _ refl sid, of ?s]) (simp_all add: sh_def not_le)
    next
      case True
      let ?s1 = "s\<lparr>sv_ks := transcript_update sh ?ks, sv_out := ow_put (handshake_record sh) (ow_new ?buf)\<rparr>"
      have 1: "write_server_hello_record config ?sid idx mode ?s = (Ok (), ?s1)"
        using write_server_hello_run [OF _ refl sid Ok, of ?s] True by (simp add: sh_def)
      have "gives_up (next_do (init_handshake_secret C x25519 config mode)
          (next_do (write_encrypted_flight C) k)) ?s1"
      proof (cases "kex_secret C x25519 config mode")
        case (Ok ikm)
        let ?s2 = "?s1\<lparr>sv_ks := handshake_ks C ikm (transcript_update sh ?ks)\<rparr>"
        let ?ts = "rfc_derive_secret C (hkdf_extract C (sh_secret (shared (sv_ks s))) ikm) ''s hs traffic''
          (ks_transcript (sv_ks s) @ msg @ sh)"
        have "\<exists>e s'. write_encrypted_flight C ?s2 = (Err e, s') \<and> sv_hrr s' = sv_hrr ?s2"
          by (rule write_encrypted_flight_full [OF laws _ refl, where ts = ?ts])
            (use True bad [OF Ok \<open>server_hello_extensions config idx mode = result.Ok exts\<close>] in
              \<open>simp_all add: first_flight_def sh_def server_transcript_def less_diff_conv\<close>)
        then have "gives_up (next_do (write_encrypted_flight C) k) ?s2"
          by (auto simp: gives_up_def next_do_apply)
        then show ?thesis
          by (intro gives_up_next [of _ ?s1 "()" ?s2]) (simp_all add: init_handshake_secret_run [OF L(1,3)] Ok)
      qed (simp_all add: gives_up_def next_do_apply init_handshake_secret_run [OF L(1,3)])
      then show ?thesis using 1 by (intro gives_up_next [of _ ?s "()" ?s1]) simp_all
    qed
  qed simp
  then show ?thesis
    unfolding answer_hello_use_split
    by (intro gives_up_next [of _ s "()" "s\<lparr>sv_ks := ?ks\<rparr>"] gives_up_next [of _ "s\<lparr>sv_ks := ?ks\<rparr>" "()" ?s])
      (simp_all add: new_writer_run)
qed

section \<open>Whole calls\<close>

text \<open>
  What the key schedule holds before a ClientHello is processed: a session that has sent no retry
  still has the all-zero salt, one that has holds the early secret of the PSK.
\<close>

definition psk_state :: "cipher_suite_params \<Rightarrow> bytes \<Rightarrow> server_st \<Rightarrow> bool" where
  "psk_state C psk s \<longleftrightarrow>
     (if hrr_sent (sv_hrr s) then psk_ready C psk (sv_ks s) else sh_secret (shared (sv_ks s)) = zero_hash C)"

lemma auth_ks_ready: "psk_state C (psk_secret config) s \<Longrightarrow>
   psk_ready C (psk_secret config) (auth_ks C config (hrr_sent (sv_hrr s)) (sv_ks s))"
  by (auto simp: psk_state_def auth_ks_def early_ks_ready)

definition binder_valid ::
  "cipher_suite_params \<Rightarrow> tls_server_config \<Rightarrow> bytes \<Rightarrow> client_hello_ref \<Rightarrow> bytes \<Rightarrow> bytes \<Rightarrow> bool" where
  "binder_valid C config base hello msg b \<longleftrightarrow>
     b = rfc_finished_mac C (rfc_binder_key C (psk_secret config))
           (hash C (base @ take (cr_binders_start_offset hello) msg))"

lemma process_client_hello_run:
  assumes laws: "crypto_laws C" and st: "psk_state C (psk_secret config) s"
    and admit: "admit config msg (sv_hrr s) = Ok (hello, decision, idx, b)"
  shows "process_client_hello_inner C x25519 config msg s =
     (if binder_valid C config (auth_transcript (hrr_sent (sv_hrr s)) (sv_ks s)) hello msg b
      then answer_hello C x25519 config msg hello idx decision
             (s\<lparr>sv_ks := auth_ks C config (hrr_sent (sv_hrr s)) (sv_ks s)\<rparr>)
      else (Err (fatal AD_DecryptError), s\<lparr>sv_ks := auth_ks C config (hrr_sent (sv_hrr s)) (sv_ks s)\<rparr>))"
proof -
  have off: "cr_binders_start_offset hello \<le> length msg"
    using parse_client_hello_OkD(2) admit_OkD(1) [OF admit] by blast
  have "binder_key (client_state (auth_ks C config (hrr_sent (sv_hrr s)) (sv_ks s))) =
      Initialized (rfc_binder_key C (psk_secret config))"
    using auth_ks_ready [OF st] by (simp add: psk_ready_def)
  then show ?thesis
    by (simp add: process_client_hello_inner_eq admit next_do_apply binder_valid_def
        authenticate_psk_run [OF crypto_lawsD(1) [OF laws] off])
qed

text \<open>Without any assumption on the state a call ends in an answer or an error, never in a panic.\<close>

lemma answer_hello_cases:
  assumes laws: "crypto_laws C" and hello: "hello_inv hello" and hrr: "hrr_inv (sv_hrr s)"
  shows "gives_up (answer_hello C x25519 config msg hello idx (Use mode)) s \<or>
      (\<exists>out s'. answer_hello C x25519 config msg hello idx (Use mode) s = (Ok (FirstFlight out), s') \<and>
         sv_hrr s' = sv_hrr s)"
    and "gives_up (answer_hello C x25519 config msg hello idx (Retry g)) s \<or>
      (\<exists>out s'. answer_hello C x25519 config msg hello idx (Retry g) s = (Ok (HelloRetryRequest out), s') \<and>
         hrr_inv (sv_hrr s') \<and> hrr_sent (sv_hrr s'))"
proof -
  let ?fits = "\<lambda>ikm exts. kex_secret C x25519 config mode = Ok ikm \<and>
      server_hello_extensions config idx mode = Ok exts \<and>
      length (first_flight C ikm (sv_ks s) msg (server_hello_message config (cr_legacy_session_id hello) exts))
        \<le> length (ow_buf (sv_out s))"
  show "gives_up (answer_hello C x25519 config msg hello idx (Use mode)) s \<or>
      (\<exists>out s'. answer_hello C x25519 config msg hello idx (Use mode) s = (Ok (FirstFlight out), s') \<and>
         sv_hrr s' = sv_hrr s)"
  proof (cases "\<exists>ikm exts. ?fits ikm exts")
    case True
    then obtain ikm exts where "?fits ikm exts" by blast
    then show ?thesis using answer_hello_use_run [OF laws hello, of x25519 config mode ikm idx exts _ s msg] by auto
  next
    case False
    then show ?thesis by (intro disjI1 answer_hello_use_gives_up [OF laws hello]) (auto simp: not_le)
  qed
  show "gives_up (answer_hello C x25519 config msg hello idx (Retry g)) s \<or>
      (\<exists>out s'. answer_hello C x25519 config msg hello idx (Retry g) s = (Ok (HelloRetryRequest out), s') \<and>
         hrr_inv (sv_hrr s') \<and> hrr_sent (sv_hrr s'))"
  proof (cases "length (handshake_record (hrr_message (cr_legacy_session_id hello) g)) \<le> length (ow_buf (sv_out s))")
    case True
    from answer_hello_retry_run [OF laws hello hrr True, of x25519 config msg idx] show ?thesis by auto
  next
    case False
    then show ?thesis by (intro disjI1 answer_hello_retry_full [OF hello]) simp
  qed
qed

text \<open>Every call ends in one of three ways.\<close>

lemma process_client_hello_cases:
  assumes laws: "crypto_laws C" and hrr: "hrr_inv (sv_hrr s)"
    and run: "process_client_hello_inner C x25519 config msg s = (r, s')"
  obtains (failed) e where "r = Err e" and "sv_hrr s' = sv_hrr s"
    | (flight) out where "r = Ok (FirstFlight out)" and "sv_hrr s' = sv_hrr s"
    | (retry) out where "r = Ok (HelloRetryRequest out)" and "\<not> hrr_sent (sv_hrr s)"
        and "hrr_inv (sv_hrr s')" and "hrr_sent (sv_hrr s')"
proof (cases "admit config msg (sv_hrr s)")
  case (Ok v)
  obtain hello decision idx b where v: "v = (hello, decision, idx, b)" by (cases v)
  note A = admit_OkD [OF Ok [unfolded v]]
  note P = parse_client_hello_OkD [OF A(1)]
  let ?s = "s\<lparr>sv_ks := auth_ks C config (hrr_sent (sv_hrr s)) (sv_ks s)\<rparr>"
  have auth: "authenticate_psk C config msg hello (hrr_sent (sv_hrr s)) b s = (Ok (), ?s) \<or>
      (\<exists>e. authenticate_psk C config msg hello (hrr_sent (sv_hrr s)) b s = (Err e, ?s))"
    by (simp add: authenticate_psk_run [OF crypto_lawsD(1) [OF laws] P(2)] split: secret.split)
  have eq: "next_do (authenticate_psk C config msg hello (hrr_sent (sv_hrr s)) b)
      (answer_hello C x25519 config msg hello idx decision) s = (r, s')"
    using run Ok v by (simp add: process_client_hello_inner_eq)
  show ?thesis
  proof (cases "authenticate_psk C config msg hello (hrr_sent (sv_hrr s)) b s = (Ok (), ?s)")
    case True
    then have resp: "answer_hello C x25519 config msg hello idx decision ?s = (r, s')"
      using eq by (simp add: next_do_apply)
    show ?thesis
    proof (cases decision)
      case (Use mode)
      with answer_hello_cases(1) [OF laws P(1), of ?s x25519 config msg idx mode] resp hrr show ?thesis
        by (auto simp: gives_up_def intro: failed flight)
    next
      case (Retry g)
      with answer_hello_cases(2) [OF laws P(1), of ?s x25519 config msg idx g] resp hrr
        decide_kex_RetryD [OF A(5) [unfolded Retry]] show ?thesis
        by (auto simp: gives_up_def intro: failed retry)
    qed
  next
    case False
    then obtain e where "r = Err e" and "s' = ?s" using auth eq by (auto simp: next_do_apply)
    then show ?thesis by (intro failed [of e]) simp_all
  qed
next
  case (Err e)
  then show ?thesis using run by (auto simp: process_client_hello_inner_eq intro: failed)
next
  case Panic
  then show ?thesis using admit_no_panic [OF hrr] by blast
qed

end
