(* ===== verification/Server_Guarantees.thy ===== *)
theory Server_Guarantees
  imports Server_Handshake
begin

text \<open>
  What a caller of src/server.rs can rely on during the handshake: the properties of
  \<open>process_client_hello\<close> and \<open>process_client_finished\<close>, and a concrete client for the witnesses.
\<close>

section \<open>A concrete client\<close>

text \<open>
  A server configuration and a ClientHello builder for the witnesses: one identity, one binder, TLS 1.3
  and the given key exchange modes.  The binder is the MAC the PSK demands.
\<close>

definition demo_config :: "dhe_key_share option \<Rightarrow> tls_server_config" where
  "demo_config dhe = \<lparr>psk_identity = [105], psk_secret = [1, 2, 3], server_random = replicate 32 9,
     dhe_keypair = dhe\<rparr>"

definition demo_others :: "psk_key_exchange_mode list \<Rightarrow> client_hello_extension list" where
  "demo_others modes = [CHE_SupportedVersions [TLS13], CHE_SupportedGroups [X25519],
     CHE_PskKeyExchangeModes modes]"

definition demo_psk :: "bytes \<Rightarrow> pre_shared_key_ch" where
  "demo_psk b = \<lparr>psk_identities = [[105]], psk_binders = [b], psk_hash_size = 32\<rparr>"

definition demo_msg :: "psk_key_exchange_mode list \<Rightarrow> bytes \<Rightarrow> bytes" where
  "demo_msg modes b = client_hello_msg (replicate 32 5) [] (be16 TLS_AES_128_GCM_SHA256) [0]
     (che_block (map Known (demo_others modes @ [CHE_PreSharedKey (demo_psk b)])))"

text \<open>The message up to its binder list, which takes the last 35 bytes.\<close>

definition demo_prefix :: "psk_key_exchange_mode list \<Rightarrow> bytes" where
  "demo_prefix modes =
     (let others = che_block (map Known (demo_others modes)) in
      handshake_type_code HT_ClientHello # be24 (word_of_nat (length others + 91)) @
      be16 LEGACY_VERSION @ replicate 32 5 @ vec8 [] @ vec16 (be16 TLS_AES_128_GCM_SHA256) @ vec8 [0] @
      be16 (word_of_nat (length others + 48)) @ others @
      be16 (extension_type_code ET_PreSharedKey) @ be16 44 @ vec16 (vec16 [105] @ be32 0))"

definition demo_binder :: "psk_key_exchange_mode list \<Rightarrow> bytes" where
  "demo_binder modes = rfc_finished_mac toy_suite (rfc_binder_key toy_suite [1, 2, 3])
     (hash toy_suite (demo_prefix modes))"

definition demo_hello :: "psk_key_exchange_mode list \<Rightarrow> bytes \<Rightarrow> client_hello_ref" where
  "demo_hello modes b = \<lparr>cr_legacy_version = LEGACY_VERSION, cr_random = replicate 32 5,
     cr_legacy_session_id = [], cr_cipher_suites = be16 TLS_AES_128_GCM_SHA256,
     cr_legacy_compression_methods = [0],
     cr_extensions = demo_others modes @ [CHE_PreSharedKey (demo_psk b)],
     cr_binders_start_offset = length (demo_prefix modes)\<rparr>"

lemma length_demo_binder: "length (demo_binder modes) = 32"
  using length_rfc_finished_mac [OF crypto_lawsD(1) [OF toy_suite_laws]]
  by (simp add: demo_binder_def toy_suite_def)

lemma demo_msg_split:
  assumes "length b = 32"
  shows "demo_msg modes b = demo_prefix modes @ be16 33 @ vec8 b"
  using assms
  by (simp add: demo_msg_def demo_prefix_def handshake_bytes_def client_hello_body_def vec24_def
      wire_bytes_def [of _ _ "Known (CHE_PreSharedKey _)"] extension_bytes_def demo_psk_def psk_ch_bytes_def
      psk_identity_bytes_def vec16_def vec8_def Let_def add.commute)

lemma demo_parse:
  assumes "length modes \<le> 4" and "length b = 32"
  shows "parse_client_hello (demo_msg modes b) = Ok (demo_hello modes b)"
proof -
  let ?es = "demo_others modes @ [CHE_PreSharedKey (demo_psk b)]"
  have "binders_start (length (demo_msg modes b)) ?es = Ok (length (demo_prefix modes))"
    using demo_msg_split [OF assms(2), of modes] assms(2)
    by (subst binders_start_last) (simp_all add: demo_others_def demo_psk_def binders_wire_len_eq)
  moreover have "list_all che_ok ?es"
    using assms
    by (simp add: demo_others_def demo_psk_def che_ok_def psk_ch_ok_def psk_ch_bytes_def psk_identity_bytes_def)
  moreover have "length (che_block (map Known ?es)) < 2 ^ 16"
    using assms
    by (simp add: demo_others_def demo_psk_def wire_bytes_def extension_bytes_def psk_ch_bytes_def
        psk_identity_bytes_def)
  ultimately show ?thesis
    using client_hello_ref_parse_run [of "replicate 32 5" "[]" "be16 TLS_AES_128_GCM_SHA256" "[0]"
        "map Known ?es" CLIENT_HELLO_MAX_EXTENSIONS "length (demo_prefix modes)" "[]",
        unfolded known_extensions_map wire_ok_Known]
    by (simp add: client_hello_fields_ok_def CLIENT_HELLO_MAX_EXTENSIONS_def demo_others_def demo_msg_def
        parse_client_hello_def demo_hello_def is_empty_def)
qed

lemma demo_binder_valid:
  assumes "length modes \<le> 4"
  shows "binder_valid toy_suite (demo_config dhe) [] (demo_hello modes b)
     (demo_msg modes (demo_binder modes)) (demo_binder modes)"
  using demo_msg_split [OF length_demo_binder, of modes modes]
  by (simp add: binder_valid_def demo_hello_def demo_config_def demo_binder_def [of modes])

lemma demo_checks:
  "validate_supported_versions (demo_hello modes b) = Ok ()"
  "validate_cipher_suites (demo_hello modes b) = Ok ()"
  "locate_our_identity (demo_hello modes b) (demo_config dhe) = Ok (0, b)"
  "decide_kex (demo_hello [PskKe] b) (demo_config dhe) sent = Ok (Use KexPskKe)"
  "decide_kex (demo_hello [PskDheKe] b) (demo_config (Some d)) False = Ok (Retry X25519)"
  by (simp_all add: demo_hello_def demo_others_def demo_config_def demo_psk_def locate_our_identity_def
      validate_supported_versions_def validate_cipher_suites_def decide_kex_def index_at_def be16_def
      client_supports_group_def find_client_x25519_share_def TLS_AES_128_GCM_SHA256_def)

lemma demo_admit:
  assumes "length b = 32"
  shows "admit (demo_config dhe) (demo_msg [PskKe] b) hrr_default =
      Ok (demo_hello [PskKe] b, Use KexPskKe, 0, b)"
    and "admit (demo_config (Some d)) (demo_msg [PskDheKe] b) hrr_default =
      Ok (demo_hello [PskDheKe] b, Retry X25519, 0, b)"
  using assms
  by (simp_all add: admit_def demo_parse demo_checks bind_apply next_do_apply return_def hrr_default_def)

section \<open>Sessions that wait for a ClientHello\<close>

text \<open>
  The sessions a caller holds while it waits for a ClientHello: a new one, or one that has answered
  with a HelloRetryRequest.  The second argument is the transcript the binder of the next ClientHello
  has to cover besides the message itself.
\<close>

inductive awaiting_hello ::
  "cipher_suite_params \<Rightarrow> (bytes \<Rightarrow> bytes \<Rightarrow> bytes) \<Rightarrow> tls_server_config \<Rightarrow> tls_server_session \<Rightarrow> bytes \<Rightarrow> bool"
  for C x25519 config where
  fresh: "awaiting_hello C x25519 config (session_new C) []"
| retried: "awaiting_hello C x25519 config sess t \<Longrightarrow>
    session_process_client_hello C x25519 config msg out sess = (Ok (HelloRetryRequest r), sess') \<Longrightarrow>
    awaiting_hello C x25519 config sess' (ks_transcript (ss_schedule sess'))"

definition session_st :: "tls_server_session \<Rightarrow> bytes \<Rightarrow> server_st" where
  "session_st sess out = \<lparr>sv_ks = ss_schedule sess, sv_hrr = ss_hrr_state sess, sv_out = ow_new out\<rparr>"

lemma session_st_simps [simp]:
  "sv_ks (session_st sess out) = ss_schedule sess" "sv_hrr (session_st sess out) = ss_hrr_state sess"
  "ow_buf (sv_out (session_st sess out)) = out"
  by (simp_all add: session_st_def ow_new_def)

definition session_inv :: "tls_server_session \<Rightarrow> bool" where
  "session_inv sess \<longleftrightarrow> hrr_inv (ss_hrr_state sess)"

definition session_ready :: "cipher_suite_params \<Rightarrow> bytes \<Rightarrow> tls_server_session \<Rightarrow> bytes \<Rightarrow> bool" where
  "session_ready C psk sess t \<longleftrightarrow> session_inv sess \<and>
     (\<forall>out. psk_state C psk (session_st sess out)) \<and>
     t = auth_transcript (hrr_sent (ss_hrr_state sess)) (ss_schedule sess) \<and>
     (\<not> hrr_sent (ss_hrr_state sess) \<longrightarrow> ks_transcript (ss_schedule sess) = [])"

lemma session_call:
  "session_process_client_hello C x25519 config msg out sess = (r, sess') \<longleftrightarrow>
   (\<exists>s'. process_client_hello_inner C x25519 config msg (session_st sess out) = (r, s') \<and>
      sess' = \<lparr>ss_schedule = sv_ks s', ss_hrr_state = sv_hrr s'\<rparr>)"
  by (auto simp: session_process_client_hello_def session_st_def split: prod.split)

lemma session_new_ready: "session_ready C psk (session_new C) []"
  by (simp add: session_ready_def session_inv_def psk_state_def session_new_def session_st_def hrr_default_def
      hrr_inv_def ks_new_def shared_new_def zero_hash_def auth_transcript_def ks_transcript_def)

text \<open>What an answer implies about the message and about the state it was given in.\<close>

lemma answer_admitted:
  assumes laws: "crypto_laws C" and ready: "session_ready C (psk_secret config) sess t"
    and run: "process_client_hello_inner C x25519 config msg (session_st sess out) = (Ok v, s')"
  obtains hello decision idx b where
    "admit config msg (ss_hrr_state sess) = Ok (hello, decision, idx, b)"
    and "binder_valid C config t hello msg b"
    and "answer_hello C x25519 config msg hello idx decision
      ((session_st sess out)\<lparr>sv_ks := auth_ks C config (hrr_sent (ss_hrr_state sess)) (ss_schedule sess)\<rparr>) = (Ok v, s')"
proof -
  obtain hello decision idx b where
    admit: "admit config msg (sv_hrr (session_st sess out)) = Ok (hello, decision, idx, b)"
    using run by (auto simp: process_client_hello_inner_eq split: result.splits)
  have "psk_state C (psk_secret config) (session_st sess out)" "t = auth_transcript (hrr_sent (ss_hrr_state sess)) (ss_schedule sess)"
    using ready by (auto simp: session_ready_def)
  then show thesis
    using process_client_hello_run [OF laws _ admit, of x25519] run admit
    by (auto split: if_splits intro: that)
qed

lemma auth_ks_transcript [simp]: "ks_transcript (auth_ks C config sent ks) = ks_transcript ks"
  by (simp add: auth_ks_def)

lemma replace_transcript_simps [simp]:
  "shared (replace_transcript_hash h ks) = shared ks"
  "client_state (replace_transcript_hash h ks) = client_state ks"
  "ks_transcript (replace_transcript_hash h ks) = h"
  by (simp_all add: replace_transcript_hash_def ks_transcript_def)

lemma retry_answer:
  assumes laws: "crypto_laws C" and ready: "session_ready C (psk_secret config) sess t"
    and run: "session_process_client_hello C x25519 config msg out sess = (Ok (HelloRetryRequest r), sess')"
  obtains hello where "parse_client_hello msg = Ok hello" and "\<not> hrr_sent (ss_hrr_state sess)"
    and "r = handshake_record (hrr_message (cr_legacy_session_id hello) X25519)"
    and "ks_transcript (ss_schedule sess') = message_hash C msg @ hrr_message (cr_legacy_session_id hello) X25519"
    and "session_ready C (psk_secret config) sess' (ks_transcript (ss_schedule sess'))"
    and "hrr_sent (ss_hrr_state sess')" and "ch1_random (ss_hrr_state sess') = cr_random hello"
    and "take (unat (ch1_session_id_len (ss_hrr_state sess'))) (ch1_session_id (ss_hrr_state sess')) =
      cr_legacy_session_id hello"
proof -
  from run obtain s' where
    inner: "process_client_hello_inner C x25519 config msg (session_st sess out) = (Ok (HelloRetryRequest r), s')"
    and sess': "sess' = \<lparr>ss_schedule = sv_ks s', ss_hrr_state = sv_hrr s'\<rparr>"
    by (auto simp: session_call)
  from answer_admitted [OF laws ready inner] obtain hello decision idx b where
    admit: "admit config msg (ss_hrr_state sess) = Ok (hello, decision, idx, b)"
    and resp: "answer_hello C x25519 config msg hello idx decision
      ((session_st sess out)\<lparr>sv_ks := auth_ks C config (hrr_sent (ss_hrr_state sess)) (ss_schedule sess)\<rparr>) =
      (Ok (HelloRetryRequest r), s')" .
  let ?s = "(session_st sess out)\<lparr>sv_ks := auth_ks C config (hrr_sent (ss_hrr_state sess)) (ss_schedule sess)\<rparr>"
  let ?R = "handshake_record (hrr_message (cr_legacy_session_id hello) X25519)"
  note A = admit_OkD [OF admit]
  have hello: "hello_inv hello" by (rule parse_client_hello_OkD [OF A(1)])
  have hrr: "hrr_inv (sv_hrr ?s)" using ready by (simp add: session_ready_def session_inv_def)
  obtain g where g: "decision = Retry g"
  proof (cases decision)
    case (Use mode)
    with answer_hello_cases(1) [OF laws hello hrr, of x25519 config msg idx mode] resp show thesis
      by (auto simp: gives_up_def)
  qed
  have unsent: "\<not> hrr_sent (ss_hrr_state sess)" and X: "g = X25519"
    using decide_kex_RetryD A(5) g by blast+
  have room: "length ?R \<le> length (ow_buf (sv_out ?s))"
    using answer_hello_retry_full [OF hello, of ?s X25519 C x25519 config msg idx] resp g X
    by (cases "length ?R \<le> length (ow_buf (sv_out ?s))") (auto simp: gives_up_def)
  obtain st w where st: "s' = ?s\<lparr>sv_out := w, sv_ks := replace_transcript_hash
      (message_hash C msg @ hrr_message (cr_legacy_session_id hello) X25519) (sv_ks ?s), sv_hrr := st\<rparr>"
      "r = ?R" "hrr_inv st" "hrr_sent st" "ch1_random st = cr_random hello"
      "take (unat (ch1_session_id_len st)) (ch1_session_id st) = cr_legacy_session_id hello"
    using answer_hello_retry_run [OF laws hello hrr room, of x25519 config msg idx] resp g X by auto
  have "psk_ready C (psk_secret config) (sv_ks ?s)"
    using ready unsent by (auto simp: session_ready_def psk_state_def auth_ks_def early_ks_ready)
  then have "session_ready C (psk_secret config) sess' (ks_transcript (ss_schedule sess'))"
    using st by (simp add: session_ready_def session_inv_def psk_state_def sess' auth_transcript_def psk_ready_def)
  then show thesis
    using that [OF A(1) unsent] st by (simp add: sess')
qed

lemma awaiting_hello_ready:
  assumes "awaiting_hello C x25519 config sess t" and "crypto_laws C"
  shows "session_ready C (psk_secret config) sess t"
  using assms
  by (induction rule: awaiting_hello.induct) (auto intro: session_new_ready elim: retry_answer)

section \<open>The first flight\<close>

lemma first_flight_answer:
  assumes laws: "crypto_laws C" and ready: "session_ready C (psk_secret config) sess t"
    and admit: "admit config msg (ss_hrr_state sess) = Ok (hello, Use mode, idx, b)"
    and b: "binder_valid C config t hello msg b"
    and kex: "kex_secret C x25519 config mode = Ok ikm"
    and exts: "server_hello_extensions config idx mode = Ok exts"
    and ks: "ks = auth_ks C config (hrr_sent (ss_hrr_state sess)) (ss_schedule sess)"
    and sh: "sh = server_hello_message config (cr_legacy_session_id hello) exts"
    and room: "length (first_flight C ikm ks msg sh) \<le> length out"
  shows "session_process_client_hello C x25519 config msg out sess =
     (Ok (FirstFlight (first_flight C ikm ks msg sh)),
      \<lparr>ss_schedule = first_flight_ks C ikm ks msg sh, ss_hrr_state = ss_hrr_state sess\<rparr>)"
proof -
  let ?s = "(session_st sess out)\<lparr>sv_ks := ks\<rparr>"
  have hello: "hello_inv hello" by (rule parse_client_hello_OkD [OF admit_OkD(1) [OF admit]])
  obtain w where "answer_hello C x25519 config msg hello idx (Use mode) ?s =
      (Ok (FirstFlight (first_flight C ikm ks msg sh)),
       ?s\<lparr>sv_out := w, sv_ks := first_flight_ks C ikm ks msg sh\<rparr>)"
    using answer_hello_use_run [OF laws hello kex exts sh, of ?s msg] room by auto
  moreover have "process_client_hello_inner C x25519 config msg (session_st sess out) =
      answer_hello C x25519 config msg hello idx (Use mode) ?s"
    using process_client_hello_run [OF laws, of config "session_st sess out" msg hello "Use mode" idx b x25519]
      ready admit b ks by (auto simp: session_ready_def)
  ultimately show ?thesis by (simp add: session_call)
qed

lemma length_first_flight:
  assumes "crypto_laws C"
  shows "length (first_flight C ikm ks msg sh) = length sh + hash_len C + 59"
proof -
  note L = crypto_lawsD [OF assms]
  have "hash_len C \<le> 48" "tag_len C = 16" using suite_sizesD [OF L(3)] by simp_all
  then show ?thesis
    using length_finished_message [OF L(1)]
    by (simp add: first_flight_def encrypted_flight_def handshake_record_def length_sealed_record [OF L(2)])
qed

text \<open>Once the PSK is known, the flight and the keys it leaves are those of RFC 8446.\<close>

lemma first_flight_rfc:
  assumes "psk_ready C psk ks"
    and "hs = rfc_handshake_traffic C psk ikm"
  shows "first_flight C ikm ks msg sh = handshake_record sh @
      encrypted_flight C (hs ''s hs traffic'' (ks_transcript ks @ msg @ sh)) (ks_transcript ks @ msg @ sh)"
    and "shared (first_flight_ks C ikm ks msg sh) = shared_after C (rfc_handshake_secret C psk ikm)"
    and "w_state (client_state (first_flight_ks C ikm ks msg sh)) =
      rfc_traffic_keys C (hs ''c hs traffic'' (ks_transcript ks @ msg @ sh))"
    and "r_state (server_state (first_flight_ks C ikm ks msg sh)) =
      (rfc_traffic_keys C (hs ''s hs traffic'' (ks_transcript ks @ msg @ sh)))\<lparr>counter := 2\<rparr>"
    and "ks_transcript (first_flight_ks C ikm ks msg sh) = ks_transcript ks @ msg @ sh @ ee_message @
      finished_message C (hs ''s hs traffic'' (ks_transcript ks @ msg @ sh))
        (ks_transcript ks @ msg @ sh @ ee_message)"
  using assms
  by (simp_all add: first_flight_def first_flight_ks_def flight_ks_def server_transcript_def psk_ready_def
      rfc_handshake_traffic_def rfc_handshake_secret_def shared_after_def)

lemma toy_hash_len: "hash_len toy_suite = 32"
  by (simp add: toy_suite_def)

lemma demo_simps: "server_random (demo_config dhe) = replicate 32 9" "cr_legacy_session_id (demo_hello modes b) = []"
  by (simp_all add: demo_config_def demo_hello_def)

abbreviation "demo_exts \<equiv> [SHE_SupportedVersions TLS13, SHE_PreSharedKey 0]"

lemma demo_use:
  shows "admit (demo_config dhe) (demo_msg [PskKe] (demo_binder [PskKe])) (ss_hrr_state (session_new toy_suite)) =
      Ok (demo_hello [PskKe] (demo_binder [PskKe]), Use KexPskKe, 0, demo_binder [PskKe])"
    and "binder_valid toy_suite (demo_config dhe) [] (demo_hello [PskKe] (demo_binder [PskKe]))
      (demo_msg [PskKe] (demo_binder [PskKe])) (demo_binder [PskKe])"
    and "kex_secret toy_suite x25519 (demo_config dhe) KexPskKe = Ok (zero_hash toy_suite)"
    and "server_hello_extensions (demo_config dhe) 0 KexPskKe = Ok demo_exts"
    and "length (server_hello_message (demo_config dhe)
      (cr_legacy_session_id (demo_hello [PskKe] (demo_binder [PskKe]))) demo_exts) + hash_len toy_suite + 59 \<le>
      length (replicate 400 (0 :: byte))"
  by (simp_all add: session_new_def demo_admit(1) [OF length_demo_binder] demo_binder_valid kex_secret_def
      server_hello_extensions_def server_hello_message_def handshake_bytes_def server_hello_body_def
      server_hello_emit_of_def demo_simps wire_bytes_def extension_bytes_def toy_hash_len)

lemma demo_flight:
  "\<exists>flight sess'. session_process_client_hello toy_suite x25519 (demo_config dhe)
     (demo_msg [PskKe] (demo_binder [PskKe])) (replicate 400 0) (session_new toy_suite) =
     (Ok (FirstFlight flight), sess')"
  using first_flight_answer [OF toy_suite_laws session_new_ready demo_use(1-4) refl refl, where out = "replicate 400 0"]
    demo_use(5) by (simp add: length_first_flight [OF toy_suite_laws])

section \<open>Properties of the ClientHello stage\<close>

text \<open>
  C4: the server answers (with its first flight or with a HelloRetryRequest) only if the ClientHello
  offers the configured identity together with a binder that is the RFC 8446 MAC, under the binder key
  of the configured PSK, of the transcript so far and the message up to its binder list.  This holds
  for the first ClientHello of a session and for the one that follows a retry.
\<close>

theorem answers_only_authenticated_clients:
  assumes "crypto_laws C" and "awaiting_hello C x25519 config sess t"
    and "session_process_client_hello C x25519 config msg out sess = (Ok answer, sess')"
  shows "\<exists>hello p i. parse_client_hello msg = Ok hello \<and>
     CHE_PreSharedKey p \<in> set (cr_extensions hello) \<and>
     i < length (psk_identities p) \<and> psk_identities p ! i = psk_identity config \<and>
     i < length (psk_binders p) \<and>
     psk_binders p ! i = rfc_finished_mac C (rfc_binder_key C (psk_secret config))
       (hash C (t @ take (cr_binders_start_offset hello) msg))"
proof -
  from assms(3) obtain s' where
    "process_client_hello_inner C x25519 config msg (session_st sess out) = (Ok answer, s')"
    by (auto simp: session_call)
  from answer_admitted [OF assms(1) awaiting_hello_ready [OF assms(2,1)] this] obtain hello decision idx b
    where admit: "admit config msg (ss_hrr_state sess) = Ok (hello, decision, idx, b)"
      and b: "binder_valid C config t hello msg b" .
  note A = admit_OkD [OF admit]
  obtain p i where "CHE_PreSharedKey p \<in> set (cr_extensions hello)" "i < length (psk_identities p)"
      "psk_identities p ! i = psk_identity config" "i < length (psk_binders p)" "psk_binders p ! i = b"
    by (rule locate_our_identity_OkD [OF A(6)])
  with A(1) b show ?thesis by (auto simp: binder_valid_def)
qed

theorem answers_only_authenticated_clients_witness:
  "\<exists>answer sess'. session_process_client_hello toy_suite (\<lambda>_ _. []) (demo_config None)
     (demo_msg [PskKe] (demo_binder [PskKe])) (replicate 400 0) (session_new toy_suite) = (Ok answer, sess') \<and>
   (\<exists>hello p i. parse_client_hello (demo_msg [PskKe] (demo_binder [PskKe])) = Ok hello \<and>
      CHE_PreSharedKey p \<in> set (cr_extensions hello) \<and> i < length (psk_identities p) \<and>
      psk_identities p ! i = psk_identity (demo_config None))"
  using demo_flight [of "\<lambda>_ _. []" None]
    answers_only_authenticated_clients [OF toy_suite_laws awaiting_hello.fresh, of "\<lambda>_ _. []" "demo_config None"
      "demo_msg [PskKe] (demo_binder [PskKe])" "replicate 400 0"]
  by blast

text \<open>
  C13: no ClientHello, however malformed, makes the server panic: from any state whose retry record is
  well formed the call returns an answer or an error, and the retry record stays well formed.  A new
  session is such a state, so this holds after any number of calls.
\<close>

theorem client_hello_never_panics:
  assumes "crypto_laws C" and "session_inv sess"
    and "session_process_client_hello C x25519 config msg out sess = (r, sess')"
  shows "r \<noteq> Panic \<and> session_inv sess' \<and> session_inv (session_new C)"
proof -
  from assms(3) obtain s' where
    run: "process_client_hello_inner C x25519 config msg (session_st sess out) = (r, s')"
    and sess': "sess' = \<lparr>ss_schedule = sv_ks s', ss_hrr_state = sv_hrr s'\<rparr>"
    by (auto simp: session_call)
  have inv: "hrr_inv (sv_hrr (session_st sess out))" using assms(2) by (simp add: session_inv_def)
  have "session_inv (session_new C)" by (simp add: session_inv_def session_new_def)
  with process_client_hello_cases [OF assms(1) inv run] inv sess' show ?thesis
    by cases (auto simp: session_inv_def)
qed

theorem client_hello_never_panics_witness:
  "fst (session_process_client_hello toy_suite (\<lambda>_ _. []) (demo_config None) [1, 0, 0] [] (session_new toy_suite)) \<noteq> Panic"
proof -
  obtain r sess' where run: "session_process_client_hello toy_suite (\<lambda>_ _. []) (demo_config None) [1, 0, 0] []
      (session_new toy_suite) = (r, sess')" by fastforce
  have "session_inv (session_new toy_suite)" by (simp add: session_inv_def session_new_def)
  from client_hello_never_panics [OF toy_suite_laws this run] run show ?thesis by simp
qed

text \<open>A session fed with any sequence of messages; the results in order.\<close>

fun session_run ::
  "cipher_suite_params \<Rightarrow> (bytes \<Rightarrow> bytes \<Rightarrow> bytes) \<Rightarrow> tls_server_config \<Rightarrow> (bytes \<times> bytes) list \<Rightarrow>
   tls_server_session \<Rightarrow> (handshake_output, tls_error) result list" where
  "session_run C x25519 config [] sess = []"
| "session_run C x25519 config ((msg, out) # rest) sess =
     (case session_process_client_hello C x25519 config msg out sess of
        (r, sess') \<Rightarrow> r # session_run C x25519 config rest sess')"

fun is_retry :: "(handshake_output, tls_error) result \<Rightarrow> bool" where
  "is_retry (Ok (HelloRetryRequest _)) = True"
| "is_retry _ = False"

lemma session_run_retries:
  assumes "crypto_laws C" and "session_inv sess"
  shows "length (filter is_retry (session_run C x25519 config msgs sess)) \<le>
     (if hrr_sent (ss_hrr_state sess) then 0 else 1)"
  using assms(2)
proof (induction msgs arbitrary: sess)
  case (Cons m msgs)
  obtain msg out where m: "m = (msg, out)" by fastforce
  obtain r sess' where call: "session_process_client_hello C x25519 config msg out sess = (r, sess')"
    by fastforce
  then obtain s' where
    run: "process_client_hello_inner C x25519 config msg (session_st sess out) = (r, s')"
    and sess': "sess' = \<lparr>ss_schedule = sv_ks s', ss_hrr_state = sv_hrr s'\<rparr>"
    by (auto simp: session_call)
  have inv: "hrr_inv (sv_hrr (session_st sess out))" using Cons.prems by (simp add: session_inv_def)
  from assms(1) inv run show ?case
  proof (cases rule: process_client_hello_cases)
    case (retry o')
    then have "session_inv sess'" by (simp add: sess' session_inv_def)
    with Cons.IH [OF this] retry show ?thesis by (simp add: m call sess')
  next
    case (failed e)
    then have "session_inv sess'" using Cons.prems by (simp add: sess' session_inv_def)
    with Cons.IH [OF this] failed show ?thesis by (simp add: m call sess')
  next
    case (flight o')
    then have "session_inv sess'" using Cons.prems by (simp add: sess' session_inv_def)
    with Cons.IH [OF this] flight show ?thesis by (simp add: m call sess')
  qed
qed simp

text \<open>
  C26: over any sequence of messages fed to one session, valid or not, the server sends at most one
  HelloRetryRequest.
\<close>

theorem at_most_one_retry:
  assumes "crypto_laws C"
  shows "length (filter is_retry (session_run C x25519 config msgs (session_new C))) \<le> 1"
  using session_run_retries [OF assms, of "session_new C" x25519 config msgs]
  by (simp add: session_inv_def session_new_def hrr_default_def hrr_inv_def)

theorem at_most_one_retry_witness:
  "crypto_laws toy_suite \<and>
   length (filter is_retry (session_run toy_suite (\<lambda>_ _. []) (demo_config None) [([], []), ([1], [])]
     (session_new toy_suite))) \<le> 1"
  using at_most_one_retry [OF toy_suite_laws] toy_suite_laws by blast

lemma first_flight_session:
  assumes "crypto_laws C" and "awaiting_hello C x25519 config sess t"
    and "admit config msg (ss_hrr_state sess) = Ok (hello, Use mode, idx, b)"
    and "binder_valid C config t hello msg b"
    and "kex_secret C x25519 config mode = Ok ikm"
    and "server_hello_extensions config idx mode = Ok exts"
    and "sh = server_hello_message config (cr_legacy_session_id hello) exts"
    and "T = t @ msg @ sh"
    and "sts = rfc_handshake_traffic C (psk_secret config) ikm ''s hs traffic'' T"
    and "length sh + hash_len C + 59 \<le> length out"
  shows "\<exists>sess'. session_process_client_hello C x25519 config msg out sess =
      (Ok (FirstFlight (handshake_record sh @
         sealed_record C (rfc_traffic_keys C sts) ee_message CT_Handshake @
         sealed_record C ((rfc_traffic_keys C sts)\<lparr>counter := 1\<rparr>)
           (finished_message C sts (T @ ee_message)) CT_Handshake)), sess') \<and>
     shared (ss_schedule sess') = shared_after C (rfc_handshake_secret C (psk_secret config) ikm) \<and>
     w_state (client_state (ss_schedule sess')) =
       rfc_traffic_keys C (rfc_handshake_traffic C (psk_secret config) ikm ''c hs traffic'' T) \<and>
     r_state (server_state (ss_schedule sess')) = (rfc_traffic_keys C sts)\<lparr>counter := 2\<rparr> \<and>
     ks_transcript (ss_schedule sess') =
       T @ ee_message @ finished_message C sts (T @ ee_message)"
proof -
  have ready: "session_ready C (psk_secret config) sess t"
    by (rule awaiting_hello_ready [OF assms(2,1)])
  define ks where "ks = auth_ks C config (hrr_sent (ss_hrr_state sess)) (ss_schedule sess)"
  have psk: "psk_ready C (psk_secret config) ks"
    using ready auth_ks_ready [of C config "session_st sess out"] by (simp add: session_ready_def ks_def)
  have tr: "ks_transcript ks = t"
    using ready by (auto simp: session_ready_def ks_def auth_transcript_def)
  note rfc = first_flight_rfc [OF psk refl, unfolded tr]
  have run: "session_process_client_hello C x25519 config msg out sess =
      (Ok (FirstFlight (first_flight C ikm ks msg sh)),
       \<lparr>ss_schedule = first_flight_ks C ikm ks msg sh, ss_hrr_state = ss_hrr_state sess\<rparr>)"
    by (rule first_flight_answer [OF assms(1) ready assms(3-6) ks_def assms(7)])
      (use assms(10) length_first_flight [OF assms(1)] in simp)
  show ?thesis
    unfolding run by (simp add: rfc assms(8,9) encrypted_flight_def)
qed

text \<open>The extensions of a ServerHello: the version, the server's share if there is an exchange, and the identity.\<close>

definition rfc_server_hello_extensions :: "bytes option \<Rightarrow> u16 \<Rightarrow> server_hello_extension list" where
  "rfc_server_hello_extensions share idx = SHE_SupportedVersions 0x0304 #
     (case share of None \<Rightarrow> [] | Some pk \<Rightarrow> [SHE_KeyShare \<lparr>ks_group = X25519, ks_opaque = pk\<rparr>]) @ [SHE_PreSharedKey idx]"

definition offered_share :: "tls_server_config \<Rightarrow> kex_mode \<Rightarrow> bytes option" where
  "offered_share config mode =
     (case mode of KexPskKe \<Rightarrow> None | KexPskDheKe _ \<Rightarrow> map_option dhe_public (dhe_keypair config))"

lemma server_hello_extensions_rfc:
  assumes "server_hello_extensions config idx mode = Ok exts"
  shows "exts = rfc_server_hello_extensions (offered_share config mode) idx"
  using assms
  by (auto simp: server_hello_extensions_def rfc_server_hello_extensions_def offered_share_def TLS13_def
      split: kex_mode.splits option.splits)

text \<open>
  C6: when the checks pass and the binder is right, the answer is exactly the flight of RFC 8446: the
  ServerHello in a plaintext record, then EncryptedExtensions and Finished protected under the server
  handshake traffic keys with record numbers 0 and 1, where the traffic secrets cover the transcript
  through ServerHello and the Finished MAC covers it through EncryptedExtensions.  The key schedule
  ends with the handshake keys of both directions and the transcript through the server's Finished.  The
  ServerHello has the version, the server's X25519 share if the exchange uses one, and the index of the identity.
\<close>

theorem first_flight_is_rfc8446:
  assumes "crypto_laws C" and "awaiting_hello C x25519 config sess t"
    and "admit config msg (ss_hrr_state sess) = Ok (hello, Use mode, idx, b)"
    and "binder_valid C config t hello msg b"
    and "kex_secret C x25519 config mode = Ok ikm"
    and "server_hello_extensions config idx mode = Ok exts"
    and "sh = server_hello_message config (cr_legacy_session_id hello) exts"
    and "T = t @ msg @ sh"
    and "sts = rfc_handshake_traffic C (psk_secret config) ikm ''s hs traffic'' T"
    and "length sh + hash_len C + 59 \<le> length out"
  shows "\<exists>sess'. session_process_client_hello C x25519 config msg out sess =
      (Ok (FirstFlight (handshake_record sh @
         sealed_record C (rfc_traffic_keys C sts) ee_message CT_Handshake @
         sealed_record C ((rfc_traffic_keys C sts)\<lparr>counter := 1\<rparr>)
           (finished_message C sts (T @ ee_message)) CT_Handshake)), sess') \<and>
     shared (ss_schedule sess') = shared_after C (rfc_handshake_secret C (psk_secret config) ikm) \<and>
     w_state (client_state (ss_schedule sess')) =
       rfc_traffic_keys C (rfc_handshake_traffic C (psk_secret config) ikm ''c hs traffic'' T) \<and>
     r_state (server_state (ss_schedule sess')) = (rfc_traffic_keys C sts)\<lparr>counter := 2\<rparr> \<and>
     ks_transcript (ss_schedule sess') =
       T @ ee_message @ finished_message C sts (T @ ee_message) \<and>
     exts = rfc_server_hello_extensions (offered_share config mode) idx"
  using first_flight_session [OF assms] server_hello_extensions_rfc [OF assms(6)] by blast

theorem first_flight_is_rfc8446_witness:
  "\<exists>sh sess' flight. session_process_client_hello toy_suite (\<lambda>_ _. []) (demo_config None)
     (demo_msg [PskKe] (demo_binder [PskKe])) (replicate 400 0) (session_new toy_suite) =
     (Ok (FirstFlight (handshake_record sh @ flight)), sess') \<and>
     ks_transcript (ss_schedule sess') \<noteq> []"
  using first_flight_is_rfc8446 [OF toy_suite_laws awaiting_hello.fresh demo_use(1-4) refl refl refl demo_use(5)]
  by (fastforce simp: ee_message_def handshake_bytes_def)

text \<open>
  C27: a HelloRetryRequest is only sent to a session's first ClientHello, asks for X25519, is the
  RFC 8446 message with the fixed random value and the echoed session id, and replaces the transcript
  by the synthetic \<open>message_hash\<close> of that ClientHello followed by the request.  The random value and the
  session id of the first ClientHello are kept for the comparison with the second.
\<close>

theorem retry_is_rfc8446:
  assumes "crypto_laws C" and "awaiting_hello C x25519 config sess t"
    and "session_process_client_hello C x25519 config msg out sess = (Ok (HelloRetryRequest r), sess')"
  shows "\<exists>hello. parse_client_hello msg = Ok hello \<and> \<not> hrr_sent (ss_hrr_state sess) \<and>
     r = handshake_record (hrr_message (cr_legacy_session_id hello) X25519) \<and>
     ks_transcript (ss_schedule sess') =
       message_hash C msg @ hrr_message (cr_legacy_session_id hello) X25519 \<and>
     hrr_sent (ss_hrr_state sess') \<and> ch1_random (ss_hrr_state sess') = cr_random hello \<and>
     take (unat (ch1_session_id_len (ss_hrr_state sess'))) (ch1_session_id (ss_hrr_state sess')) =
       cr_legacy_session_id hello"
  by (rule retry_answer [OF assms(1) awaiting_hello_ready [OF assms(2,1)] assms(3)]) blast

lemma demo_retry:
  "\<exists>r sess'. session_process_client_hello toy_suite x25519 (demo_config (Some d))
     (demo_msg [PskDheKe] (demo_binder [PskDheKe])) (replicate 400 0) (session_new toy_suite) =
     (Ok (HelloRetryRequest r), sess')"
proof -
  let ?m = "demo_msg [PskDheKe] (demo_binder [PskDheKe])" and ?config = "demo_config (Some d)"
  let ?hello = "demo_hello [PskDheKe] (demo_binder [PskDheKe])"
  let ?s = "session_st (session_new toy_suite) (replicate 400 0)"
  let ?s1 = "?s\<lparr>sv_ks := auth_ks toy_suite ?config False (sv_ks ?s)\<rparr>"
  have unsent: "\<not> hrr_sent (ss_hrr_state (session_new toy_suite))"
    by (simp add: session_new_def hrr_default_def)
  have admit: "admit ?config ?m (sv_hrr ?s) = Ok (?hello, Retry X25519, 0, demo_binder [PskDheKe])"
    by (simp add: session_new_def demo_admit(2) [OF length_demo_binder])
  have hello: "hello_inv ?hello" by (rule parse_client_hello_OkD [OF admit_OkD(1) [OF admit]])
  have "hrr_inv (sv_hrr ?s1)" by (simp add: session_new_def)
  moreover have "length (handshake_record (hrr_message (cr_legacy_session_id ?hello) X25519)) \<le>
      length (ow_buf (sv_out ?s1))"
    by (simp add: demo_simps handshake_record_def hrr_message_def handshake_bytes_def extension_bytes_def)
  ultimately obtain r s' where
    "answer_hello toy_suite x25519 ?config ?m ?hello 0 (Retry X25519) ?s1 = (Ok (HelloRetryRequest r), s')"
    using answer_hello_retry_run [OF toy_suite_laws hello, of ?s1 X25519 x25519 ?config ?m 0] by blast
  moreover have "psk_state toy_suite (psk_secret ?config) ?s"
    using session_new_ready by (simp add: session_ready_def)
  ultimately have "process_client_hello_inner toy_suite x25519 ?config ?m ?s = (Ok (HelloRetryRequest r), s')"
    using demo_binder_valid [of "[PskDheKe]" "Some d" "demo_binder [PskDheKe]"]
    by (simp add: process_client_hello_run [OF toy_suite_laws _ admit] unsent auth_transcript_def)
  then show ?thesis by (auto simp: session_call)
qed

theorem retry_is_rfc8446_witness:
  "\<exists>(hello :: client_hello_ref) r sess'. session_process_client_hello toy_suite (\<lambda>_ _. []) (demo_config (Some (dhe_from_secret (\<lambda>_ _. []) [7])))
     (demo_msg [PskDheKe] (demo_binder [PskDheKe])) (replicate 400 0) (session_new toy_suite) =
     (Ok (HelloRetryRequest r), sess') \<and>
     r = handshake_record (hrr_message (cr_legacy_session_id hello) X25519)"
proof -
  obtain r sess' where run: "session_process_client_hello toy_suite (\<lambda>_ _. [])
      (demo_config (Some (dhe_from_secret (\<lambda>_ _. []) [7])))
      (demo_msg [PskDheKe] (demo_binder [PskDheKe])) (replicate 400 0) (session_new toy_suite) =
      (Ok (HelloRetryRequest r), sess')"
    using demo_retry by blast
  from retry_is_rfc8446 [OF toy_suite_laws awaiting_hello.fresh run] obtain hello :: client_hello_ref where
    "r = handshake_record (hrr_message (cr_legacy_session_id hello) X25519)" by blast
  with run show ?thesis by (intro exI [of _ hello] exI [of _ r] exI [of _ sess'] conjI)
qed

text \<open>
  C28: how the key exchange is chosen.  Without \<open>psk_key_exchange_modes\<close> the handshake fails.  Ephemeral
  X25519 is used exactly when the client offers \<open>psk_dhe_ke\<close> and a 32 byte X25519 share and the server
  has a key pair; a retry is asked for exactly when only the share is missing, the client supports the
  group, does not also offer \<open>psk_ke\<close>, and no retry was sent before; plain \<open>psk_ke\<close> is the fallback
  whenever the client offers it.
\<close>

theorem decide_kex_spec:
  assumes "find_map (\<lambda>e. case e of CHE_PskKeyExchangeModes m \<Rightarrow> Some m | _ \<Rightarrow> None) (cr_extensions hello) = Some modes"
    and "dhe = (PskDheKe \<in> set modes \<and> dhe_keypair config \<noteq> None)"
  shows "(decide_kex hello config sent = Ok (Use (KexPskDheKe sh)) \<longleftrightarrow>
      dhe \<and> find_client_x25519_share hello = Ok (Some sh)) \<and>
    (decide_kex hello config sent = Ok (Retry g) \<longleftrightarrow>
      dhe \<and> find_client_x25519_share hello = Ok None \<and> PskKe \<notin> set modes \<and> \<not> sent \<and>
      client_supports_group hello X25519 \<and> g = X25519) \<and>
    (decide_kex hello config sent = Ok (Use KexPskKe) \<longleftrightarrow>
      PskKe \<in> set modes \<and> (dhe \<longrightarrow> find_client_x25519_share hello = Ok None)) \<and>
    (\<not> dhe \<and> PskKe \<notin> set modes \<longrightarrow>
      decide_kex hello config sent = Err (fatal AD_HandshakeFailure))"
  using assms
  by (auto simp: decide_kex_def Let_def list_ex_iff split: result.splits option.splits if_splits)

theorem decide_kex_spec_witness:
  "decide_kex (demo_hello [PskDheKe] [1]) (demo_config (Some (dhe_from_secret (\<lambda>_ _. []) [7]))) False =
     Ok (Retry X25519) \<and>
   decide_kex (demo_hello [PskDheKe] [1]) (demo_config (Some (dhe_from_secret (\<lambda>_ _. []) [7]))) True \<noteq>
     Ok (Retry X25519)"
proof -
  have "find_map (\<lambda>e. case e of CHE_PskKeyExchangeModes m \<Rightarrow> Some m | _ \<Rightarrow> None)
      (cr_extensions (demo_hello [PskDheKe] [1])) = Some [PskDheKe]"
    by (simp add: demo_hello_def demo_others_def)
  from decide_kex_spec [OF this refl, of "demo_config (Some (dhe_from_secret (\<lambda>_ _. []) [7]))" True "[]" X25519]
  show ?thesis by (simp add: demo_checks)
qed

section \<open>Reading a ClientHello\<close>





end
