(* ===== verification/Records.thy ===== *)
theory Records
  imports Handshake Aead
begin

text \<open>
  The records of src/record.rs and src/application\_data.rs: what a client writes (\<open>ClientRecord\<close> and its
  header) and what it reads (\<open>RecordHeader\<close>, \<open>ServerRecord\<close>).  The body of an application data record
  stays in the reader's buffer and is decrypted there, so \<open>ApplicationData\<close> carries the position of its
  slice in that buffer.
\<close>

section \<open>Client records\<close>

datatype client_record_header = RH_Handshake bool | RH_Alert bool | RH_ApplicationData

fun is_encrypted :: "client_record_header \<Rightarrow> bool" where
  "is_encrypted (RH_Handshake encrypted) = encrypted"
| "is_encrypted (RH_Alert encrypted) = encrypted"
| "is_encrypted RH_ApplicationData = True"

fun header_content_type :: "client_record_header \<Rightarrow> content_type" where
  "header_content_type (RH_Handshake False) = CT_Handshake"
| "header_content_type (RH_Alert False) = CT_ChangeCipherSpec"
| "header_content_type (RH_Handshake True) = CT_ApplicationData"
| "header_content_type (RH_Alert True) = CT_ApplicationData"
| "header_content_type RH_ApplicationData = CT_ApplicationData"

fun trailer_content_type :: "client_record_header \<Rightarrow> content_type" where
  "trailer_content_type (RH_Handshake _) = CT_Handshake"
| "trailer_content_type (RH_Alert _) = CT_Alert"
| "trailer_content_type RH_ApplicationData = CT_ApplicationData"

fun header_version :: "client_record_header \<Rightarrow> bytes" where
  "header_version (RH_Handshake True) = [0x03, 0x03]"
| "header_version (RH_Alert True) = [0x03, 0x03]"
| "header_version RH_ApplicationData = [0x03, 0x03]"
| "header_version (RH_Handshake False) = [0x03, 0x01]"
| "header_version (RH_Alert False) = [0x03, 0x01]"

definition record_header_encode :: "client_record_header \<Rightarrow> unit encoder" where
  "record_header_encode h =
     next_do (or_err EncodeError (push (content_type_code (header_content_type h))))
    (next_do (or_err EncodeError (extend_from_slice (header_version h))) (return ()))"

datatype client_record = CR_Handshake client_handshake bool | CR_Alert alert bool

fun header_of :: "client_record \<Rightarrow> client_record_header" where
  "header_of (CR_Handshake _ encrypted) = RH_Handshake encrypted"
| "header_of (CR_Alert _ encrypted) = RH_Alert encrypted"

text \<open>The random bytes and the ephemeral secret of a ClientHello come from the provider's generator.\<close>

definition client_hello_record :: "tls_config \<Rightarrow> bytes \<Rightarrow> bytes \<Rightarrow> client_record" where
  "client_hello_record config rng_random rng_secret =
     CR_Handshake (ClientHello (client_hello_new config rng_random rng_secret)) False"

definition close_notify :: "bool \<Rightarrow> client_record" where
  "close_notify opened = CR_Alert (alert_new AL_Warning AD_CloseNotify) opened"

definition encode_payload :: "cipher_suite_params \<Rightarrow> (bytes \<Rightarrow> bytes) \<Rightarrow> client_record \<Rightarrow> nat encoder" where
  "encode_payload C p256_public rec =
     bind (gets cb_len) (\<lambda>record_length_marker.
     next_do (case rec of
        CR_Handshake h _ \<Rightarrow> client_handshake_encode C p256_public h
      | CR_Alert a _ \<Rightarrow> alert_encode a)
       (\<lambda>b. (usub (cb_len b) record_length_marker, b)))"

text \<open>
  \<open>finish_record\<close>: the state is the buffer and the transcript.  An unencrypted handshake message is
  finalised in place, which writes the PSK binders of a ClientHello; an encrypted one is only absorbed.
\<close>

definition finish_record ::
  "cipher_suite_params \<Rightarrow> client_record \<Rightarrow> write_key_schedule \<Rightarrow> (crypto_buffer \<times> bytes, unit, tls_error) comp" where
  "finish_record C rec w = (\<lambda>(b, t).
     case rec of
       CR_Handshake h False \<Rightarrow>
         (case cb_as_slice b of
            Ok enc_buf \<Rightarrow>
              (case client_handshake_finalize C h w (enc_buf, t) of
                 (r, (enc_buf', t')) \<Rightarrow> (r, (cb_replace_view enc_buf' b, t')))
          | Err e \<Rightarrow> (Err e, (b, t))
          | Panic \<Rightarrow> (Panic, (b, t)))
     | CR_Handshake _ True \<Rightarrow>
         (case cb_as_slice b of
            Ok enc_buf \<Rightarrow> (Ok (), (b, t @ enc_buf))
          | Err e \<Rightarrow> (Err e, (b, t))
          | Panic \<Rightarrow> (Panic, (b, t)))
     | _ \<Rightarrow> (Ok (), (b, t)))"

section \<open>Server records\<close>

text \<open>A record header is its five bytes.\<close>

definition header_type :: "bytes \<Rightarrow> (content_type, tls_error) result" where
  "header_type header = unwrap (content_type_of (header ! 0))"

definition content_length :: "bytes \<Rightarrow> nat" where
  "content_length header = unat (of_be16 (header ! 3) (header ! 4))"

definition record_header_decode :: "bytes \<Rightarrow> (bytes, tls_error) result" where
  "record_header_decode header =
     (case content_type_of (header ! 0) of None \<Rightarrow> Err InvalidRecord | Some _ \<Rightarrow> Ok header)"

record application_data =
  ad_header :: bytes
  ad_start :: nat
  ad_data :: crypto_buffer

definition application_data_new :: "nat \<Rightarrow> crypto_buffer \<Rightarrow> bytes \<Rightarrow> application_data" where
  "application_data_new start rx_buf header = \<lparr>ad_header = header, ad_start = start, ad_data = rx_buf\<rparr>"

datatype server_record =
    SR_Handshake server_handshake
  | SR_ChangeCipherSpec
  | SR_Alert alert
  | SR_ApplicationData application_data

fun server_record_content_type :: "server_record \<Rightarrow> content_type" where
  "server_record_content_type (SR_Handshake _) = CT_Handshake"
| "server_record_content_type SR_ChangeCipherSpec = CT_ChangeCipherSpec"
| "server_record_content_type (SR_Alert _) = CT_Alert"
| "server_record_content_type (SR_ApplicationData _) = CT_ApplicationData"

text \<open>
  \<open>decode(header, data, digest)\<close>: \<open>start\<close> is where \<open>data\<close> stands in the reader's buffer, and the state is
  the transcript digest.
\<close>

definition server_record_decode ::
  "cipher_suite_params \<Rightarrow> bytes \<Rightarrow> nat \<Rightarrow> bytes \<Rightarrow> (bytes, server_record, tls_error) comp" where
  "server_record_decode C header start data =
     (if content_length header \<noteq> length data then panic
      else bind (lift_result (header_type header)) (\<lambda>ty.
      case ty of
        CT_Invalid \<Rightarrow> throw Unimplemented
      | CT_ChangeCipherSpec \<Rightarrow>
          bind (lift_result (change_cipher_spec_read data)) (\<lambda>_. return SR_ChangeCipherSpec)
      | CT_Alert \<Rightarrow> bind (lift_result (fst (alert_parse (pb_new data)))) (\<lambda>a. return (SR_Alert a))
      | CT_Handshake \<Rightarrow>
          (\<lambda>digest. case server_handshake_read C (pb_new data, digest) of
             (Ok h, (_, digest')) \<Rightarrow> (Ok (SR_Handshake h), digest')
           | (Err e, (_, digest')) \<Rightarrow> (Err e, digest')
           | (Panic, (_, digest')) \<Rightarrow> (Panic, digest'))
      | CT_ApplicationData \<Rightarrow>
          return (SR_ApplicationData
            (application_data_new start (cb_wrap_with_pos data (length data)) header))))"

section \<open>Facts\<close>

definition record_header_bytes :: "client_record_header \<Rightarrow> bytes" where
  "record_header_bytes h = content_type_code (header_content_type h) # header_version h"

lemma encodes_record_header [encodes_rules]: "encodes (record_header_encode h) (record_header_bytes h)"
proof -
  have "encodes (record_header_encode h) ([content_type_code (header_content_type h)] @ header_version h @ [])"
    unfolding record_header_encode_def by (intro encodes_rules)
  then show ?thesis by (simp add: record_header_bytes_def)
qed

lemma length_record_header_bytes [simp]: "length (record_header_bytes h) = 3"
  by (cases h; cases "is_encrypted h") (auto simp: record_header_bytes_def)

lemma record_header_decode_OkD:
  "record_header_decode header = Ok h \<Longrightarrow> h = header \<and> (\<exists>ty. header_type header = Ok ty)"
  by (auto simp: record_header_decode_def header_type_def unwrap_def split: option.splits)

lemma alert_parse_no_panic: "fst (alert_parse (pb_new bs)) \<noteq> Panic"
proof -
  obtain r b where "alert_parse (pb_new bs) = (r, b)" by fastforce
  from wf_parserD(1) [OF wf_alert_parse pb_inv_new this] this show ?thesis by simp
qed

text \<open>A validated header and a body of the announced length never make \<open>decode\<close> panic.\<close>

lemma server_record_decode_no_panic:
  assumes "record_header_decode header = Ok header" and "length data = content_length header"
  shows "fst (server_record_decode C header start data digest) \<noteq> Panic"
proof -
  obtain ty where "header_type header = Ok ty" using record_header_decode_OkD [OF assms(1)] by blast
  moreover have "fst (server_handshake_read C (pb_new data, digest)) \<noteq> Panic"
    by (rule server_handshake_read_no_panic) simp
  ultimately show ?thesis
    using assms(2) alert_parse_no_panic [of data]
    by (cases ty)
      (auto simp: server_record_decode_def bind_apply change_cipher_spec_read_def split: prod.split result.split)
qed

end
