(* ===== verification/Server_Traffic.thy ===== *)
theory Server_Traffic
  imports Server_Handshake
begin

text \<open>
  Protected records in src/server.rs after the first flight: the client's Finished and application
  data and alerts in both directions.
\<close>

section \<open>Opening records\<close>

text \<open>The plaintext of a protected record under a traffic state, if it has the form of one.\<close>

definition opened_record :: "cipher_suite_params \<Rightarrow> key_schedule_state \<Rightarrow> bytes \<Rightarrow> bytes option" where
  "opened_record C st rec =
     (let body = drop 5 rec; n = length body - tag_len C in
      if check_record rec = Ok (length body) \<and> tag_len C \<le> length body
      then aead_open C (key st) (record_nonce st) (take 5 rec) (take n body) (drop n body) else None)"

lemma check_record_OkD:
  "check_record rec = Ok n \<Longrightarrow> length rec = 5 + n \<and> rec ! 0 = content_type_code CT_ApplicationData"
  by (auto simp: check_record_def Let_def split: if_splits)

lemma check_record_no_panic [simp]: "check_record rec \<noteq> Panic"
  by (simp add: check_record_def Let_def)

lemma open_body_run:
  assumes "aead_laws C"
  shows "open_body C k n aad body =
    (if length body < tag_len C then Err CryptoError
     else case aead_open C k n aad (take (length body - tag_len C) body)
                 (drop (length body - tag_len C) body) of
       None \<Rightarrow> Err CryptoError
     | Some pt \<Rightarrow> Ok (pt @ drop (length body - tag_len C) body, length pt))"
  using open_length [OF assms]
  by (auto simp: open_body_def decrypt_in_place_run [OF assms] map_err_apply split: option.split)

lemma open_body_opened:
  assumes "aead_laws C" and "check_record rec = Ok n"
  shows "open_body C (key st) (record_nonce st) (take 5 rec) (drop 5 rec) =
    (case opened_record C st rec of
       None \<Rightarrow> Err CryptoError
     | Some pt \<Rightarrow> Ok (pt @ drop (length (drop 5 rec) - tag_len C) (drop 5 rec), length pt))"
  using check_record_OkD [OF assms(2)] assms(2)
  by (auto simp: open_body_run [OF assms(1)] opened_record_def Let_def split: option.split)

lemma opened_sealed:
  assumes "aead_laws C" and "length content + 1 + tag_len C < 2 ^ 16"
  shows "opened_record C st (sealed_record C st content ty) = Some (content @ [content_type_code ty])"
proof -
  have "length content < 2 ^ 16 - 1" using assms(2) by simp
  then obtain ct tag where s: "length ct = length content + 1" "length tag = tag_len C"
      "aead_open C (key st) (record_nonce st) (record_header C (length content)) ct tag =
         Some (content @ [content_type_code ty])"
      "sealed_record C st content ty = record_header C (length content) @ ct @ tag"
    by (rule sealed_recordE [OF assms(1)])
  define len where "len = (word_of_nat (length content + 1 + tag_len C) :: u16)"
  have hdr: "record_header C (length content) = [23, 3, 3] @ be16 len"
    by (simp add: record_header_def len_def)
  have "unat len = length content + 1 + tag_len C"
    unfolding len_def by (rule unat_word_of_nat) (use assms(2) in simp)
  moreover have "of_be16 (be16 len ! 0) (be16 len ! 1) = len" by (simp add: be16_def of_be16_be16)
  ultimately have "check_record ([23, 3, 3] @ be16 len @ ct @ tag) = Ok (length (ct @ tag))"
    using s(1,2) by (simp add: check_record_def be16_def Let_def)
  then show ?thesis
    using s hdr by (simp add: opened_record_def)
qed

text \<open>Zero padding after the content type changes nothing.\<close>

lemma inner_content_padded:
  assumes "ty \<noteq> CT_Invalid"
  shows "inner_content (content @ content_type_code ty # replicate n 0) = Ok (ty, content)"
proof -
  have "content_type_code ty \<noteq> 0" using assms by (cases ty) simp_all
  then show ?thesis
    by (simp add: inner_content_def rposition_append_last list_all_iff)
qed

lemma inner_content_marked:
  "ty \<noteq> CT_Invalid \<Longrightarrow> inner_content (content @ [content_type_code ty]) = Ok (ty, content)"
  using inner_content_padded [of ty content 0] by simp

lemma inner_content_no_panic [simp]: "inner_content pt \<noteq> Panic"
  by (simp add: inner_content_def split: option.split)

lemma rposition_split:
  "rposition P xs = Some i \<Longrightarrow> i < length xs \<and> P (xs ! i) \<and> list_all (\<lambda>x. \<not> P x) (drop (Suc i) xs)"
  by (induction xs arbitrary: i) (auto simp: rposition_None_iff list_all_iff split: option.splits if_splits)

lemma inner_content_OkD:
  assumes "inner_content pt = Ok (ty, content)"
  obtains n where "pt = content @ content_type_code ty # replicate n 0"
proof -
  from assms obtain i where i: "rposition (\<lambda>b. b \<noteq> 0) pt = Some i" "content_type_of (pt ! i) = Some ty"
      "content = take i pt"
    by (auto simp: inner_content_def split: option.splits)
  from rposition_split [OF i(1)] have "i < length pt" and z: "list_all (\<lambda>x. x = 0) (drop (Suc i) pt)"
    by simp_all
  then have pt: "pt = take i pt @ pt ! i # drop (Suc i) pt" by (intro id_take_nth_drop)
  have zeros: "drop (Suc i) pt = replicate (length (drop (Suc i) pt)) 0"
    by (rule replicate_eqI) (use z in \<open>auto simp: list_all_iff\<close>)
  show thesis
    by (rule that [of "length (drop (Suc i) pt)"], subst pt, subst zeros)
      (simp add: content_type_code_of [OF i(2)] i(3))
qed

section \<open>The client's Finished\<close>

definition bump_client :: "key_schedule \<Rightarrow> key_schedule" where
  "bump_client ks = ks\<lparr>client_state := (client_state ks)\<lparr>w_state :=
     (w_state (client_state ks))\<lparr>counter := counter (w_state (client_state ks)) + 1\<rparr>\<rparr>\<rparr>"

text \<open>The key schedule once the application secrets have been derived.\<close>

definition master_ks :: "cipher_suite_params \<Rightarrow> key_schedule \<Rightarrow> key_schedule" where
  "master_ks C ks = (let prk = hkdf_extract C (sh_secret (shared ks)) (zero_hash C) in
     ks\<lparr>shared := shared_after C prk,
        client_state := (client_state ks)\<lparr>w_state :=
          rfc_traffic_keys C (rfc_derive_secret C prk ''c ap traffic'' (ks_transcript ks))\<rparr>,
        server_state := (server_state ks)\<lparr>r_state :=
          rfc_traffic_keys C (rfc_derive_secret C prk ''s ap traffic'' (ks_transcript ks))\<rparr>\<rparr>)"

text \<open>A traffic state whose next nonce and next counter exist.\<close>

definition usable :: "key_schedule_state \<Rightarrow> bool" where
  "usable st \<longleftrightarrow> length (iv st) = 12 \<and> counter st \<noteq> - 1"

abbreviation "client_traffic ks \<equiv> w_state (client_state ks)"

abbreviation "server_traffic ks \<equiv> r_state (server_state ks)"

lemma bump_client_simps [simp]:
  "shared (bump_client ks) = shared ks" "server_state (bump_client ks) = server_state ks"
  "ks_transcript (bump_client ks) = ks_transcript ks"
  "client_traffic (bump_client ks) = (client_traffic ks)\<lparr>counter := counter (client_traffic ks) + 1\<rparr>"
  by (simp_all add: bump_client_def ks_transcript_def)

lemma client_nonce_run:
  assumes "suite_sizes C" and "usable (client_traffic ks)"
  shows "client_handshake_aead_nonce C ks = (Ok (record_nonce (client_traffic ks)), ks)"
  using get_nonce_run [OF suite_sizesD(1) [OF assms(1)]] assms(2)
  by (simp add: client_handshake_aead_nonce_def state_get_nonce_def record_nonce_def bind_apply usable_def)

lemma client_counter_run:
  "usable (client_traffic ks) \<Longrightarrow> increment_client_handshake_counter ks = (Ok (), bump_client ks)"
  by (simp add: increment_client_handshake_counter_def on_client_def on_part_apply increment_counter_def
      bump_client_def usable_def)

lemma client_key_run: "client_handshake_aead_key ks = (Ok (key (client_traffic ks)), ks)"
  by (simp add: client_handshake_aead_key_def)

lemmas finished_parser_defs = parse_client_finished_def bind_apply map_err_apply read_u8_def read_u24_def
  pb_fill_def return_def throw_def pb_new_def is_empty_def

lemma parse_client_finished_no_panic [simp]: "parse_client_finished C inner \<noteq> Panic"
  by (simp add: finished_parser_defs split: result.split)

lemma parse_client_finished_OkD:
  assumes "parse_client_finished C inner = Ok verify" and "hash_len C < 2 ^ 24"
  shows "inner = handshake_bytes HT_Finished verify \<and> length verify = hash_len C"
proof -
  from assms(1) have p: "length inner = 4 + hash_len C" "inner ! 0 = 20" "verify = drop 4 inner"
      "unat (of_be32 0 (inner ! 1) (inner ! 2) (inner ! 3)) = hash_len C"
    by (auto simp: finished_parser_defs eval_nat_numeral split: if_splits)
  from p(1) obtain a b c d rest where l: "inner = a # b # c # d # rest"
    by (cases inner; cases "tl inner"; cases "tl (tl inner)"; cases "tl (tl (tl inner))") auto
  have "word_of_nat (length rest) = of_be32 0 b c d"
    using p(1,4) by (simp add: l) (metis of_nat_unat ucast_id)
  then show ?thesis
    using p by (simp add: l handshake_bytes_def vec24_def)
qed

lemma parse_client_finished_run:
  assumes "length verify = hash_len C" and "hash_len C < 2 ^ 24"
  shows "parse_client_finished C (handshake_bytes HT_Finished verify) = Ok verify"
proof -
  have "unat (word_of_nat (hash_len C) :: u32) = hash_len C"
    by (rule unat_word_of_nat) (use assms(2) in simp)
  then show ?thesis
    using assms
    by (simp add: finished_parser_defs handshake_bytes_def vec24_def be24_def of_be32_be24)
qed

lemma verify_client_finished_run:
  assumes "hash_laws C" and "suite_sizes C" and "traffic_secret (client_traffic ks) = Initialized cts"
  shows "verify_client_finished C \<lparr>fin_verify = v, fin_hash = Some h\<rparr> ks = (Ok (v = rfc_finished_mac C cts h), ks)"
  using assms by (auto simp: verify_client_finished_def verify_finished_def finished_key_run rfc_finished_mac_def bind_apply)

lemma master_ks_rfc:
  assumes "shared ks = shared_after C (rfc_handshake_secret C psk ikm)"
  shows "client_traffic (master_ks C ks) =
      rfc_traffic_keys C (rfc_application_traffic C psk ikm ''c ap traffic'' (ks_transcript ks))"
    and "server_traffic (master_ks C ks) =
      rfc_traffic_keys C (rfc_application_traffic C psk ikm ''s ap traffic'' (ks_transcript ks))"
    and "ks_transcript (master_ks C ks) = ks_transcript ks"
  using assms
  by (simp_all add: master_ks_def Let_def shared_after_def rfc_application_traffic_def rfc_master_secret_def
      ks_transcript_def)

text \<open>One call, branch by branch.\<close>

lemma process_client_finished_run:
  assumes laws: "crypto_laws C" and rec: "check_record rec = Ok n" and use: "usable (client_traffic ks)"
    and cts: "traffic_secret (client_traffic ks) = Initialized cts"
  shows "process_client_finished C rec ks =
    (if 256 < n then (Err InsufficientSpace, ks)
     else case opened_record C (client_traffic ks) rec of
       None \<Rightarrow> (Err CryptoError, ks)
     | Some pt \<Rightarrow> (case inner_content pt of
         Ok (ct, inner) \<Rightarrow>
           if ct \<noteq> CT_Handshake then (Err InvalidRecord, bump_client ks)
           else (case parse_client_finished C inner of
             Ok verify \<Rightarrow>
               if verify = rfc_finished_mac C cts (hash C (ks_transcript ks))
               then (Ok (), transcript_update inner (master_ks C (bump_client ks)))
               else (Err (fatal AD_DecryptError), bump_client ks)
           | Err e \<Rightarrow> (Err e, bump_client ks)
           | Panic \<Rightarrow> (Panic, bump_client ks))
       | Err e \<Rightarrow> (Err e, bump_client ks)
       | Panic \<Rightarrow> (Panic, bump_client ks)))"
proof -
  note L = crypto_lawsD [OF laws]
  have "verify_client_finished C \<lparr>fin_verify = v, fin_hash = Some h\<rparr> (bump_client ks) =
      (Ok (v = rfc_finished_mac C cts h), bump_client ks)" for v h
    by (rule verify_client_finished_run [OF L(1,3)]) (simp add: cts)
  moreover have "initialize_master_secret C (bump_client ks) = (Ok (), master_ks C (bump_client ks))"
    by (simp add: master_secret_run [OF L(1,3)] master_ks_def)
  ultimately show ?thesis
    using open_body_opened [OF L(2) rec, of "client_traffic ks"]
    by (simp add: process_client_finished_def bind_apply next_do_apply rec client_key_run
        client_nonce_run [OF L(3) use] client_counter_run [OF use] map_err_apply throw_def
        split: option.split result.split prod.split)
qed
lemma process_client_finished_bad_record:
  "check_record rec = Err e \<Longrightarrow> process_client_finished C rec ks = (Err e, ks)"
  by (simp add: process_client_finished_def bind_apply)

lemma parse_client_finished_iff:
  "hash_len C < 2 ^ 24 \<Longrightarrow> parse_client_finished C inner = Ok verify \<longleftrightarrow>
   inner = handshake_bytes HT_Finished verify \<and> length verify = hash_len C"
  using parse_client_finished_OkD parse_client_finished_run by blast

lemma check_record_sealed:
  assumes "aead_laws C" and "length content + 1 + tag_len C < 2 ^ 16"
  shows "check_record (sealed_record C st content ty) = Ok (length content + 1 + tag_len C)"
  using opened_sealed [OF assms, of st ty] length_sealed_record [OF assms(1), of content st ty] assms(2)
  by (auto simp: opened_record_def Let_def split: if_splits)

text \<open>The Finished the protocol prescribes is accepted.\<close>

lemma process_client_finished_sealed:
  assumes laws: "crypto_laws C" and "usable (client_traffic ks)"
    and "traffic_secret (client_traffic ks) = Initialized cts"
    and fin: "fin = finished_message C cts (ks_transcript ks)"
  shows "process_client_finished C (sealed_record C (client_traffic ks) fin CT_Handshake) ks =
     (Ok (), transcript_update fin (master_ks C (bump_client ks)))"
proof -
  note L = crypto_lawsD [OF laws]
  have sizes: "hash_len C \<le> 48" "tag_len C = 16" using suite_sizesD [OF L(3)] by simp_all
  have len: "length fin + 1 + tag_len C < 2 ^ 16" "length fin + 1 + tag_len C \<le> 256"
    using length_finished_message [OF L(1)] sizes by (simp_all add: fin)
  have "parse_client_finished C fin = Ok (rfc_finished_mac C cts (hash C (ks_transcript ks)))"
    unfolding fin finished_message_def
    by (rule parse_client_finished_run) (use length_rfc_finished_mac [OF L(1)] sizes in simp_all)
  with len opened_sealed [OF L(2) len(1), of "client_traffic ks" CT_Handshake] show ?thesis
    by (subst process_client_finished_run [OF laws check_record_sealed [OF L(2) len(1)] assms(2,3)])
      (simp add: inner_content_marked [of CT_Handshake, simplified])
qed

text \<open>
  C5: the server accepts a record as the client's Finished exactly when the record has the form of a
  protected record of at most 256 bytes and opens, under the client handshake traffic key and the next
  nonce, to the Finished message whose MAC covers the transcript through the server's Finished,
  followed by the handshake content type and any zero padding.  It then holds the application traffic
  keys derived from that transcript, and the transcript is extended by the message.
\<close>

theorem client_finished_accepted_iff:
  assumes "crypto_laws C" and "usable (client_traffic ks)"
    and "traffic_secret (client_traffic ks) = Initialized cts"
    and "fin = finished_message C cts (ks_transcript ks)"
  shows "process_client_finished C rec ks = (Ok (), ks') \<longleftrightarrow>
    length rec \<le> 261 \<and>
    (\<exists>pad. opened_record C (client_traffic ks) rec =
       Some (fin @ content_type_code CT_Handshake # replicate pad 0)) \<and>
    ks' = transcript_update fin (master_ks C (bump_client ks))"
proof (cases "check_record rec")
  case (Ok n)
  note L = crypto_lawsD [OF assms(1)]
  have len: "length rec = 5 + n" using check_record_OkD [OF Ok] by simp
  have h: "hash_len C < 2 ^ 24" using suite_sizesD [OF L(3)] by simp
  have P: "parse_client_finished C inner = Ok (rfc_finished_mac C cts (hash C (ks_transcript ks))) \<longleftrightarrow>
      inner = fin" for inner
    using parse_client_finished_iff [OF h] length_rfc_finished_mac [OF L(1)] by (simp add: assms(4) finished_message_def)
  note run = process_client_finished_run [OF assms(1) Ok assms(2,3)]
  show ?thesis
  proof (intro iffI)
    assume "process_client_finished C rec ks = (Ok (), ks')"
    then obtain pt inner where "opened_record C (client_traffic ks) rec = Some pt" "n \<le> 256"
        and pt: "inner_content pt = Ok (CT_Handshake, inner)" and "inner = fin"
        "ks' = transcript_update inner (master_ks C (bump_client ks))"
      by (auto simp: run P split: option.splits result.splits if_splits)
    with len inner_content_OkD [OF pt] show "length rec \<le> 261 \<and>
        (\<exists>pad. opened_record C (client_traffic ks) rec =
           Some (fin @ content_type_code CT_Handshake # replicate pad 0)) \<and>
        ks' = transcript_update fin (master_ks C (bump_client ks))"
      by auto
  next
    assume "length rec \<le> 261 \<and>
        (\<exists>pad. opened_record C (client_traffic ks) rec =
           Some (fin @ content_type_code CT_Handshake # replicate pad 0)) \<and>
        ks' = transcript_update fin (master_ks C (bump_client ks))"
    with len P [of fin] inner_content_padded [of CT_Handshake fin] show "process_client_finished C rec ks = (Ok (), ks')"
      by (auto simp: run)
  qed
qed (auto simp: process_client_finished_bad_record opened_record_def)

text \<open>A server state in mid-handshake for the witnesses.\<close>

definition demo_ks :: "bytes \<Rightarrow> bytes \<Rightarrow> key_schedule" where
  "demo_ks cts sts = transcript_update [1, 2, 3] ((ks_new toy_suite)
     \<lparr>client_state := (client_state (ks_new toy_suite))\<lparr>w_state := rfc_traffic_keys toy_suite cts\<rparr>,
       server_state := (server_state (ks_new toy_suite))\<lparr>r_state := rfc_traffic_keys toy_suite sts\<rparr>\<rparr>)"

lemma demo_ks_simps [simp]:
  "client_traffic (demo_ks cts sts) = rfc_traffic_keys toy_suite cts"
  "r_state (server_state (demo_ks cts sts)) = rfc_traffic_keys toy_suite sts"
  "ks_transcript (demo_ks cts sts) = [1, 2, 3]"
  by (simp_all add: demo_ks_def ks_new_def ks_transcript_def transcript_update_def replace_transcript_hash_def)

lemma usable_rfc_keys: "crypto_laws C \<Longrightarrow> usable (rfc_traffic_keys C ts)"
  using length_rfc_iv [OF crypto_lawsD(1) crypto_lawsD(3)] by (simp add: usable_def)

theorem client_finished_accepted_iff_witness:
  "let ks = demo_ks [7] [8]; fin = finished_message toy_suite [7] [1, 2, 3] in
   process_client_finished toy_suite (sealed_record toy_suite (client_traffic ks) fin CT_Handshake) ks =
     (Ok (), transcript_update fin (master_ks toy_suite (bump_client ks)))"
proof -
  note L = crypto_lawsD [OF toy_suite_laws]
  let ?fin = "finished_message toy_suite [7] [1, 2, 3]"
  have len: "length ?fin + 1 + tag_len toy_suite < 2 ^ 16"
    using length_finished_message [OF L(1)] suite_sizesD [OF L(3)] by simp
  have "length (sealed_record toy_suite (rfc_traffic_keys toy_suite [7]) ?fin CT_Handshake) \<le> 261"
    using length_finished_message [OF L(1)] suite_sizesD [OF L(3)] by (simp add: length_sealed_record [OF L(2)])
  moreover have "opened_record toy_suite (rfc_traffic_keys toy_suite [7])
      (sealed_record toy_suite (rfc_traffic_keys toy_suite [7]) ?fin CT_Handshake) = Some (?fin @ 22 # replicate 0 0)"
    using opened_sealed [OF L(2) len] by simp
  ultimately show ?thesis
    using client_finished_accepted_iff [OF toy_suite_laws, of "demo_ks [7] [8]" "[7]" ?fin
        "sealed_record toy_suite (rfc_traffic_keys toy_suite [7]) ?fin CT_Handshake"]
    by (simp add: usable_rfc_keys [OF toy_suite_laws] Let_def)
qed

text \<open>
  C29: whatever record it is given as the client's Finished, the server neither panics nor loses its
  place: on an error the key schedule is unchanged, except that the read counter has advanced by one
  when the record was authentic, so the keys and the transcript of the handshake are kept.
\<close>

theorem client_finished_error_keeps_keys:
  assumes "crypto_laws C" and "usable (client_traffic ks)"
    and "traffic_secret (client_traffic ks) = Initialized cts"
    and "process_client_finished C rec ks = (r, ks')"
  shows "r \<noteq> Panic \<and>
    (r \<noteq> Ok () \<longrightarrow>
       ks' = (if length rec \<le> 261 \<and> opened_record C (client_traffic ks) rec \<noteq> None then bump_client ks else ks))"
proof (cases "check_record rec")
  case (Ok n)
  with assms(4) check_record_OkD [OF Ok] show ?thesis
    unfolding process_client_finished_run [OF assms(1) Ok assms(2,3)]
    by (auto split: option.splits result.splits if_splits)
qed (use assms(4) in \<open>auto simp: process_client_finished_bad_record opened_record_def\<close>)

theorem client_finished_error_keeps_keys_witness:
  "process_client_finished toy_suite [23, 3, 3, 0, 0] (demo_ks [7] [8]) = (Err CryptoError, demo_ks [7] [8])"
proof -
  obtain r ks' where run: "process_client_finished toy_suite [23, 3, 3, 0, 0] (demo_ks [7] [8]) = (r, ks')"
    by fastforce
  have c: "check_record [23, 3, 3, 0, 0] = Ok 0" by (simp add: check_record_def of_be16_def)
  have u: "usable (client_traffic (demo_ks [7] [8]))" by (simp add: usable_rfc_keys [OF toy_suite_laws])
  have s: "traffic_secret (client_traffic (demo_ks [7] [8])) = Initialized [7]" by simp
  have "opened_record toy_suite (client_traffic (demo_ks [7] [8])) [23, 3, 3, 0, 0] = None"
    by (simp add: opened_record_def c suite_sizesD [OF crypto_lawsD(3) [OF toy_suite_laws]])
  then show ?thesis
    using process_client_finished_run [OF toy_suite_laws c u s] run
      client_finished_error_keeps_keys [OF toy_suite_laws u s run] by simp
qed

section \<open>Application data and alerts\<close>

lemma on_fst_step:
  "m ks = (Ok v, ks') \<Longrightarrow> bind (on_part fst (\<lambda>ks (_, out). (ks, out)) m) k (ks, out) = k v (ks', out)"
  by (simp add: bind_apply on_part_apply)

lemma on_fst_next:
  "m ks = (Ok v, ks') \<Longrightarrow> next_do (on_part fst (\<lambda>ks (_, out). (ks, out)) m) k (ks, out) = k (ks', out)"
  by (simp add: next_do_apply on_part_apply)

lemma on_snd_step:
  "m out = (Ok v, out') \<Longrightarrow> next_do (on_part snd (\<lambda>out (ks, _). (ks, out)) m) k (ks, out) = k (ks, out')"
  by (simp add: next_do_apply on_part_apply)

lemma bump_server_other [simp]:
  "shared (bump_server ks) = shared ks" "client_state (bump_server ks) = client_state ks"
  by (simp_all add: bump_server_def)

lemma write_protected_record_run:
  assumes laws: "crypto_laws C" and use: "usable (server_traffic ks)"
    and len: "length content + 1 + tag_len C < 2 ^ 16" and room: "length content + 6 + tag_len C \<le> length out"
  shows "write_protected_record C content ct (ks, out) =
    (Ok (sealed_record C (server_traffic ks) content ct),
     (bump_server ks, overwrite 0 (sealed_record C (server_traffic ks) content ct) out))"
proof -
  note L = crypto_lawsD [OF laws]
  have "length content < 2 ^ 16 - 1" using len by simp
  then obtain cph tag where
    s: "aead_seal C (key (server_traffic ks)) (record_nonce (server_traffic ks))
        (record_header C (length content)) (content @ [content_type_code ct]) = Some (cph, tag)"
      "length cph = length content + 1" "length tag = tag_len C"
      "sealed_record C (server_traffic ks) content ct = record_header C (length content) @ cph @ tag"
    by (rule sealed_recordE [OF L(2)])
  define hdr where "hdr = record_header C (length content)"
  have hdr_len: "length hdr = 5" by (simp add: hdr_def record_header_def)
  define w where "w = \<lparr>ow_buf = overwrite 0 hdr out, ow_pos = 5\<rparr>"
  have put: "ow_buf (ow_put bs w) = overwrite 0 (hdr @ bs) out" if "length bs \<le> length content + 1 + tag_len C" for bs
    using overwrite_overwrite_adj [of 0 hdr bs out] hdr_len room that by (simp add: ow_put_def w_def)
  have "seal_region C (key (server_traffic ks)) (record_nonce (server_traffic ks)) hdr 5
      (5 + (length content + 1 + tag_len C)) (length content + 1)
      (ow_buf (ow_put (content @ [content_type_code ct]) w)) = (Ok (), ow_buf (ow_put (cph @ tag) w))"
    by (rule seal_region_run [OF _ L(2)])
      (use s len room hdr_len in \<open>simp_all add: w_def ow_inv_def ow_room_def hdr_def\<close>)
  then have seal: "seal_region C (key (server_traffic ks)) (record_nonce (server_traffic ks)) hdr 5
      (5 + (length content + 1 + tag_len C)) (length content + 1)
      (overwrite 0 (hdr @ content @ [content_type_code ct]) out) = (Ok (), overwrite 0 (hdr @ cph @ tag) out)"
    using s by (simp add: put)
  have H: "[content_type_code CT_ApplicationData, 0x03, 0x03] @ be16 (word_of_nat (length content + 1 + tag_len C)) = hdr"
    by (simp add: hdr_def record_header_def)
  have u: "length (iv (server_traffic ks)) = 12" "counter (server_traffic ks) \<noteq> - 1"
    using use by (simp_all add: usable_def)
  have "take (5 + (length content + 1 + tag_len C)) (overwrite 0 (hdr @ cph @ tag) out) = hdr @ cph @ tag"
    using s hdr_len by (simp add: overwrite_def)
  then show ?thesis
    unfolding write_protected_record_def Let_def H
    by (simp only: next_do_apply [of "modify _"] modify_apply prod.case result.case)
      (simp only: on_fst_step [OF server_key_run] on_fst_step [of "server_handshake_aead_nonce C" ks, OF server_nonce_run [OF L(3) u(1)]]
        on_fst_next [of increment_server_handshake_counter ks, OF server_counter_run [OF u(2)]]
        on_snd_step [of "seal_region _ _ _ _ _ _ _", OF seal],
       simp add: s(4) hdr_def)
qed

lemma read_protected_record_run:
  assumes laws: "crypto_laws C" and rec: "check_record rec = Ok n" and use: "usable (client_traffic ks)"
  shows "read_protected_record C rec (ks, buf) =
    (if length buf < n then (Err InsufficientSpace, (ks, buf))
     else case opened_record C (client_traffic ks) rec of
       None \<Rightarrow> (Err CryptoError, (ks, overwrite 0 (drop 5 rec) buf))
     | Some pt \<Rightarrow> (inner_content pt, (bump_client ks,
         overwrite 0 (pt @ drop (n - tag_len C) (drop 5 rec)) (overwrite 0 (drop 5 rec) buf))))"
proof -
  note L = crypto_lawsD [OF laws]
  have "length (drop 5 rec) = n" using check_record_OkD [OF rec] by simp
  with open_body_opened [OF L(2) rec, of "client_traffic ks"] show ?thesis
    by (auto simp: read_protected_record_def rec bind_apply next_do_apply on_part_apply client_key_run
        client_nonce_run [OF L(3) use] client_counter_run [OF use] throw_def split: option.split)
qed

lemma read_protected_record_bad:
  "check_record rec = Err e \<Longrightarrow> read_protected_record C rec (ks, buf) = (Err e, (ks, buf))"
  by (simp add: read_protected_record_def bind_apply)

lemma read_protected_record_cases:
  assumes "crypto_laws C" and "usable (client_traffic ks)"
    and "read_protected_record C rec (ks, buf) = (r, (ks', buf'))"
  obtains (failed) e where "r = Err e" and "ks' = ks"
  | (opened) pt where "opened_record C (client_traffic ks) rec = Some pt" and "r = inner_content pt"
      and "ks' = bump_client ks"
proof (cases "check_record rec")
  case (Ok n)
  note run = read_protected_record_run [OF assms(1) Ok assms(2)]
  have "(\<exists>e. r = Err e) \<and> ks' = ks \<or>
      (\<exists>pt. opened_record C (client_traffic ks) rec = Some pt \<and> r = inner_content pt \<and> ks' = bump_client ks)"
    using assms(3) by (auto simp: run split: option.splits if_splits)
  then show thesis using failed opened by blast
next
  case (Err e)
  then have "r = Err e" "ks' = ks" using assms(3) by (simp_all add: read_protected_record_bad)
  then show thesis by (rule failed)
qed simp

lemma encrypt_application_data_run:
  assumes "crypto_laws C"
    and "usable (server_traffic ks)"
    and "length p + 1 + tag_len C < 2 ^ 16" and "length p + 6 + tag_len C \<le> length out"
  shows "encrypt_application_data C p (ks, out) =
    (Ok (sealed_record C (server_traffic ks) p CT_ApplicationData),
     (bump_server ks, overwrite 0 (sealed_record C (server_traffic ks) p CT_ApplicationData) out))"
  using assms by (simp add: encrypt_application_data_def bind_apply Let_def write_protected_record_run)

lemma decrypt_sealed:
  assumes "crypto_laws C" and "usable (client_traffic ks)" and "ty \<noteq> CT_Invalid"
    and "length content + 1 + tag_len C < 2 ^ 16" and "length content + 1 + tag_len C \<le> length buf"
  obtains buf' where "read_protected_record C (sealed_record C (client_traffic ks) content ty) (ks, buf) =
    (Ok (ty, content), (bump_client ks, buf'))"
  using read_protected_record_run [OF assms(1) check_record_sealed [OF crypto_lawsD(2) [OF assms(1)] assms(4)] assms(2)]
    opened_sealed [OF crypto_lawsD(2) [OF assms(1)] assms(4)] inner_content_marked [OF assms(3)] assms(5)
  by (simp add: not_less)

text \<open>A peer that sends or receives one application data record after the other.\<close>

primrec send_stream :: "cipher_suite_params \<Rightarrow> bytes \<Rightarrow> bytes list \<Rightarrow> (tls_server_session, bytes list, tls_error) comp" where
  "send_stream C out [] = return []"
| "send_stream C out (p # ps) =
     bind (session_encrypt_app_data C p out) (\<lambda>r. bind (send_stream C out ps) (\<lambda>rs. return (r # rs)))"

primrec receive_stream :: "cipher_suite_params \<Rightarrow> bytes \<Rightarrow> bytes list \<Rightarrow> (tls_server_session, bytes list, tls_error) comp" where
  "receive_stream C buf [] = return []"
| "receive_stream C buf (r # rs) =
     bind (session_decrypt_app_data C r buf) (\<lambda>p. bind (receive_stream C buf rs) (\<lambda>ps. return (p # ps)))"

definition after_records :: "nat \<Rightarrow> key_schedule_state \<Rightarrow> key_schedule_state" where
  "after_records n st = st\<lparr>counter := counter st + word_of_nat n\<rparr>"

text \<open>The records of RFC 8446 for a list of messages: consecutive record numbers under one key.\<close>

definition sealed_stream :: "cipher_suite_params \<Rightarrow> key_schedule_state \<Rightarrow> bytes list \<Rightarrow> bytes list" where
  "sealed_stream C st ps = map (\<lambda>i. sealed_record C (after_records i st) (ps ! i) CT_ApplicationData) [0..<length ps]"

text \<open>Messages that fit into a buffer of a given length, and record numbers that do not run out.\<close>

definition stream_fits :: "cipher_suite_params \<Rightarrow> nat \<Rightarrow> key_schedule_state \<Rightarrow> bytes list \<Rightarrow> bool" where
  "stream_fits C n st ps \<longleftrightarrow> length (iv st) = 12 \<and> unat (counter st) + length ps < 2 ^ 64 \<and>
     (\<forall>p \<in> set ps. length p + 1 + tag_len C < 2 ^ 16 \<and> length p + 6 + tag_len C \<le> n)"

lemma after_records_0 [simp]: "after_records 0 st = st"
  by (simp add: after_records_def)

lemma after_records_Suc: "after_records i (st\<lparr>counter := counter st + 1\<rparr>) = after_records (Suc i) st"
  by (simp add: after_records_def ac_simps)

lemma sealed_stream_simps [simp]:
  "sealed_stream C st [] = []"
  "sealed_stream C st (p # ps) = sealed_record C st p CT_ApplicationData #
     sealed_stream C (st\<lparr>counter := counter st + 1\<rparr>) ps"
proof -
  have "[0..<Suc (length ps)] = 0 # map Suc [0..<length ps]"
    by (simp only: map_Suc_upt upt_conv_Cons zero_less_Suc)
  then show "sealed_stream C st (p # ps) = sealed_record C st p CT_ApplicationData #
     sealed_stream C (st\<lparr>counter := counter st + 1\<rparr>) ps"
    by (simp add: sealed_stream_def after_records_Suc del: upt_Suc)
qed (simp add: sealed_stream_def)

lemma counter_step:
  assumes "unat (counter st) + k < 2 ^ 64" and "0 < k"
  shows "counter st \<noteq> - 1" and "unat (counter st + 1) + (k - 1) < 2 ^ 64"
proof -
  have lt: "unat (counter st) < 2 ^ 64 - 1" using assms by simp
  have "unat (- 1 :: u64) = 2 ^ 64 - 1" by (simp add: unsigned_minus_1_eq_mask mask_eq_exp_minus_1)
  with lt show ne: "counter st \<noteq> - 1" by auto
  have "counter st + 1 \<noteq> 0" using ne by (metis add.inverse_unique add.commute)
  then have "unat (counter st + 1) = Suc (unat (counter st))" by (metis add.commute unatSuc)
  with assms show "unat (counter st + 1) + (k - 1) < 2 ^ 64" by simp
qed

lemma stream_fits_Cons:
  assumes "stream_fits C n st (p # ps)"
  shows "usable st" and "stream_fits C n (st\<lparr>counter := counter st + 1\<rparr>) ps"
    and "length p + 1 + tag_len C < 2 ^ 16" and "length p + 6 + tag_len C \<le> n"
  using assms counter_step [of st "Suc (length ps)"] by (simp_all add: stream_fits_def usable_def)

lemma server_traffic_bump [simp]:
  "server_traffic (bump_server ks) = (server_traffic ks)\<lparr>counter := counter (server_traffic ks) + 1\<rparr>"
  by (simp add: bump_server_def)

lemma send_stream_run:
  assumes "crypto_laws C" and "stream_fits C (length out) (server_traffic (ss_schedule s)) ps"
  shows "\<exists>s'. send_stream C out ps s = (Ok (sealed_stream C (server_traffic (ss_schedule s)) ps), s') \<and>
     server_traffic (ss_schedule s') = after_records (length ps) (server_traffic (ss_schedule s)) \<and>
     client_state (ss_schedule s') = client_state (ss_schedule s)"
  using assms(2)
proof (induction ps arbitrary: s)
  case (Cons p ps)
  note fits = stream_fits_Cons [OF Cons.prems]
  let ?s = "s\<lparr>ss_schedule := bump_server (ss_schedule s)\<rparr>"
  have "session_encrypt_app_data C p out s =
      (Ok (sealed_record C (server_traffic (ss_schedule s)) p CT_ApplicationData), ?s)"
    by (simp add: session_encrypt_app_data_def session_with_buffer_def
        encrypt_application_data_run [OF assms(1) fits(1,3,4)])
  with Cons.IH [of ?s] fits(2) show ?case by (auto simp: bind_apply return_def after_records_Suc)
qed (simp add: return_def)

lemma receive_stream_run:
  assumes "crypto_laws C" and "stream_fits C (length buf) (client_traffic (ss_schedule s)) ps"
  shows "\<exists>s'. receive_stream C buf (sealed_stream C (client_traffic (ss_schedule s)) ps) s = (Ok ps, s') \<and>
     client_traffic (ss_schedule s') = after_records (length ps) (client_traffic (ss_schedule s)) \<and>
     server_state (ss_schedule s') = server_state (ss_schedule s)"
  using assms(2)
proof (induction ps arbitrary: s)
  case (Cons p ps)
  note fits = stream_fits_Cons [OF Cons.prems]
  let ?s = "s\<lparr>ss_schedule := bump_client (ss_schedule s)\<rparr>"
  have "length p + 1 + tag_len C \<le> length buf" using fits(4) by simp
  from decrypt_sealed [OF assms(1) fits(1) _ fits(3) this, of CT_ApplicationData] obtain buf' where
    "read_protected_record C (sealed_record C (client_traffic (ss_schedule s)) p CT_ApplicationData)
      (ss_schedule s, buf) = (Ok (CT_ApplicationData, p), (bump_client (ss_schedule s), buf'))"
    by auto
  then have "session_decrypt_app_data C (sealed_record C (client_traffic (ss_schedule s)) p CT_ApplicationData) buf s =
      (Ok p, ?s)"
    by (simp add: session_decrypt_app_data_def session_with_buffer_def decrypt_application_data_def bind_apply return_def)
  with Cons.IH [of ?s] fits(2) show ?case by (auto simp: bind_apply return_def after_records_Suc)
qed (simp add: return_def)

text \<open>
  C16: the records the server writes for a list of messages are the protected records of RFC 8446 under
  its write keys with consecutive record numbers, and a server that reads under the same keys from the
  same record number gets back exactly the messages, in order; both ends are then at the same record
  number, and neither end's other direction has moved.
\<close>

theorem app_data_stream_round_trip:
  assumes "crypto_laws C" and "server_traffic (ss_schedule a) = client_traffic (ss_schedule b)"
    and "stream_fits C (length out) (server_traffic (ss_schedule a)) ps" and "length out \<le> length buf"
  shows "\<exists>recs a' b'. send_stream C out ps a = (Ok recs, a') \<and>
     recs = sealed_stream C (server_traffic (ss_schedule a)) ps \<and>
     receive_stream C buf recs b = (Ok ps, b') \<and>
     server_traffic (ss_schedule a') = client_traffic (ss_schedule b') \<and>
     client_state (ss_schedule a') = client_state (ss_schedule a) \<and>
     server_state (ss_schedule b') = server_state (ss_schedule b)"
proof -
  have "stream_fits C (length buf) (client_traffic (ss_schedule b)) ps"
    using assms(2-4) by (fastforce simp: stream_fits_def)
  from receive_stream_run [OF assms(1) this] send_stream_run [OF assms(1,3)] show ?thesis
    by (metis assms(2))
qed

theorem app_data_stream_round_trip_witness:
  "let session = (\<lambda>ks. \<lparr>ss_schedule = ks, ss_hrr_state = hrr_default\<rparr>) in
   \<exists>recs a' b'. send_stream toy_suite (replicate 60 0) [[1, 2], [], [3]] (session (demo_ks [7] [8])) = (Ok recs, a') \<and>
     receive_stream toy_suite (replicate 60 0) recs (session (demo_ks [8] [7])) = (Ok [[1, 2], [], [3]], b')"
proof -
  have "stream_fits toy_suite 60 (rfc_traffic_keys toy_suite [8]) [[1, 2], [], [3]]"
    using usable_rfc_keys [OF toy_suite_laws, of "[8]"] suite_sizesD [OF crypto_lawsD(3) [OF toy_suite_laws]]
    by (simp add: stream_fits_def usable_def)
  then show ?thesis
    using app_data_stream_round_trip [OF toy_suite_laws, of "\<lparr>ss_schedule = demo_ks [7] [8], ss_hrr_state = hrr_default\<rparr>"
        "\<lparr>ss_schedule = demo_ks [8] [7], ss_hrr_state = hrr_default\<rparr>" "replicate 60 0" "[[1, 2], [], [3]]" "replicate 60 0"]
    by auto
qed

text \<open>
  C17: whatever bytes arrive as a protected record, reading them as application data or an alert never
  panics.  Data is handed out only if the record authenticates to exactly that data, its content type
  and zero padding; an alert only if it authenticates to the two bytes of that alert.  If the record
  does not authenticate, the key schedule is untouched.
\<close>

theorem protected_records_are_authentic:
  assumes "crypto_laws C" and "usable (client_traffic ks)"
    and "decrypt_app_data_or_alert C rec (ks, buf) = (r, (ks', buf'))"
  shows "r \<noteq> Panic \<and>
    (case r of
       Ok (AppData d) \<Rightarrow> ks' = bump_client ks \<and>
         (\<exists>pad. opened_record C (client_traffic ks) rec =
            Some (d @ content_type_code CT_ApplicationData # replicate pad 0))
     | Ok (PeerAlert l a) \<Rightarrow> ks' = bump_client ks \<and>
         (\<exists>pad. opened_record C (client_traffic ks) rec =
            Some ([alert_level_code l, alert_description_code a] @ content_type_code CT_Alert # replicate pad 0))
     | _ \<Rightarrow> ks' = ks \<or> opened_record C (client_traffic ks) rec \<noteq> None \<and> ks' = bump_client ks)"
proof -
  obtain r0 where run: "read_protected_record C rec (ks, buf) = (r0, (ks', buf'))"
    using assms(3)
    by (auto simp: decrypt_app_data_or_alert_def bind_apply return_def throw_def
        split: prod.splits result.splits content_type.splits if_splits)
  from assms(1,2) run show ?thesis
  proof (cases rule: read_protected_record_cases)
    case (failed e)
    with assms(3) run show ?thesis by (auto simp: decrypt_app_data_or_alert_def bind_apply)
  next
    case (opened pt)
    show ?thesis
    proof (cases "inner_content pt")
      case (Ok tc)
      obtain ty content where tc: "tc = (ty, content)" by fastforce
      from inner_content_OkD [OF Ok [unfolded tc]] obtain pad where
        pad: "pt = content @ content_type_code ty # replicate pad 0" .
      show ?thesis
      proof (cases "ty = CT_Alert \<and> length content = 2")
        case True
        then obtain x y where "content = [x, y]" by (auto simp: length_Suc_conv numeral_2_eq_2)
        with True assms(3) run opened Ok tc pad show ?thesis
          by (auto simp: decrypt_app_data_or_alert_def bind_apply return_def ok_or_def throw_def
              dest!: alert_level_code_of alert_description_code_of split: option.splits)
      next
        case False
        with assms(3) run opened Ok tc pad show ?thesis
          by (auto simp: decrypt_app_data_or_alert_def bind_apply return_def throw_def
              split: content_type.splits if_splits)
      qed
    qed (use assms(3) run opened in \<open>auto simp: decrypt_app_data_or_alert_def bind_apply\<close>)
  qed
qed

theorem protected_records_are_authentic_witness:
  "fst (decrypt_app_data_or_alert toy_suite [23, 3, 3, 0, 1, 9] (demo_ks [7] [8], [])) \<noteq> Panic"
proof -
  have u: "usable (client_traffic (demo_ks [7] [8]))" by (simp add: usable_rfc_keys [OF toy_suite_laws])
  obtain r ks' buf' where run: "decrypt_app_data_or_alert toy_suite [23, 3, 3, 0, 1, 9] (demo_ks [7] [8], []) = (r, (ks', buf'))"
    by (metis prod.exhaust)
  from protected_records_are_authentic [OF toy_suite_laws u run] run show ?thesis by simp
qed

text \<open>
  C30: an alert the server writes is read back, under the same keys and record number, as the alert with
  that level and description, and both ends advance by one record; a buffer too short for the record is
  an error that changes nothing.
\<close>

theorem alert_round_trip:
  assumes "crypto_laws C" and "server_traffic a = client_traffic b" and "usable (client_traffic b)"
    and "8 + tag_len C \<le> length buf"
  shows "(if length out < 8 + tag_len C
      then encrypt_alert_record C level description (a, out) = (Err InsufficientSpace, (a, out))
      else \<exists>rec out' buf'. encrypt_alert_record C level description (a, out) = (Ok rec, (bump_server a, out')) \<and>
        decrypt_app_data_or_alert C rec (b, buf) = (Ok (PeerAlert level description), (bump_client b, buf')))"
proof -
  let ?c = "[alert_level_code level, alert_description_code description]"
  have t: "tag_len C = 16" using suite_sizesD [OF crypto_lawsD(3) [OF assms(1)]] by simp
  obtain buf' where "read_protected_record C (sealed_record C (client_traffic b) ?c CT_Alert) (b, buf) =
      (Ok (CT_Alert, ?c), (bump_client b, buf'))"
    by (rule decrypt_sealed [OF assms(1,3), of CT_Alert ?c buf]) (use assms(4) t in simp_all)
  then have "decrypt_app_data_or_alert C (sealed_record C (client_traffic b) ?c CT_Alert) (b, buf) =
      (Ok (PeerAlert level description), (bump_client b, buf'))"
    by (simp add: decrypt_app_data_or_alert_def bind_apply ok_or_def return_def)
  moreover have "write_protected_record C ?c CT_Alert (a, out) =
      (Ok (sealed_record C (client_traffic b) ?c CT_Alert),
       (bump_server a, overwrite 0 (sealed_record C (client_traffic b) ?c CT_Alert) out))"
    if "\<not> length out < 8 + tag_len C"
    using write_protected_record_run [OF assms(1), of a ?c out CT_Alert] assms(2,3) t that by simp
  ultimately show ?thesis
    using t by (auto simp: encrypt_alert_record_def bind_apply throw_def)
qed

theorem alert_round_trip_witness:
  "\<exists>rec out' buf'. encrypt_alert_record toy_suite AL_Fatal AD_DecodeError (demo_ks [7] [8], replicate 40 0) =
      (Ok rec, (bump_server (demo_ks [7] [8]), out')) \<and>
    decrypt_app_data_or_alert toy_suite rec (demo_ks [8] [7], replicate 40 0) =
      (Ok (PeerAlert AL_Fatal AD_DecodeError), (bump_client (demo_ks [8] [7]), buf'))"
  using alert_round_trip [OF toy_suite_laws, of "demo_ks [7] [8]" "demo_ks [8] [7]" "replicate 40 0" "replicate 40 0"
      AL_Fatal AD_DecodeError] suite_sizesD [OF crypto_lawsD(3) [OF toy_suite_laws]]
  by (simp add: usable_rfc_keys [OF toy_suite_laws])

text \<open>
  C31: \<open>encrypt_application_data\<close> on every branch.  Without room for the record, or if the record's
  length does not fit its 16 bit field, it fails and changes neither the key schedule nor the buffer;
  otherwise the output is the protected record, which stands at the start of the buffer, and the write
  counter has advanced by one.
\<close>

theorem encrypt_application_data_spec:
  assumes "crypto_laws C" and "usable (server_traffic ks)"
    and "r = sealed_record C (server_traffic ks) p CT_ApplicationData"
  shows "encrypt_application_data C p (ks, out) =
    (if length out < length p + 6 + tag_len C then (Err InsufficientSpace, (ks, out))
     else if 65535 < length p + 1 + tag_len C then (Err EncodeError, (ks, out))
     else (Ok r, (bump_server ks, overwrite 0 r out)))"
proof (cases "length out < length p + 6 + tag_len C \<or> 65535 < length p + 1 + tag_len C")
  case True
  then show ?thesis by (auto simp: encrypt_application_data_def bind_apply throw_def)
next
  case False
  with encrypt_application_data_run [OF assms(1,2), of p out] show ?thesis by (simp add: assms(3))
qed

theorem encrypt_application_data_spec_witness:
  "encrypt_application_data toy_suite [1, 2] (demo_ks [7] [8], replicate 23 0) =
     (Err InsufficientSpace, (demo_ks [7] [8], replicate 23 0)) \<and>
   (\<exists>r s. encrypt_application_data toy_suite [1, 2] (demo_ks [7] [8], replicate 24 0) = (Ok r, s))"
  using encrypt_application_data_spec [OF toy_suite_laws _ refl, of "demo_ks [7] [8]" "[1, 2]"]
    suite_sizesD [OF crypto_lawsD(3) [OF toy_suite_laws]]
  by (simp add: usable_rfc_keys [OF toy_suite_laws])

end
