(* ===== verification/Record_Crypto.thy ===== *)
theory Record_Crypto
  imports Records Server_Traffic
begin

text \<open>
  Protecting and unprotecting records on the client's side: \<open>encrypt\<close> and \<open>decrypt_record\<close> of
  src/connection.rs.  Decryption works in place in the reader's buffer and hands the decrypted content to
  a callback, message by message if a handshake record holds several.  The theorems relate both to the
  protected records of the server's side.
\<close>

section \<open>Definitions\<close>

definition encrypt :: "cipher_suite_params \<Rightarrow> write_key_schedule \<Rightarrow> unit encoder" where
  "encrypt C w =
     bind (lift_result (state_get_nonce C (w_state w))) (\<lambda>nonce.
     bind (gets (\<lambda>b. cb_len b + tag_len C)) (\<lambda>len.
     bind (gets cb_capacity) (\<lambda>cap.
     if len > cap then throw InsufficientSpace
     else
       (let additional_data = [content_type_code CT_ApplicationData, 0x03, 0x03] @ be16 (word_of_nat len) in
        or_err InvalidApplicationData (encrypt_in_place C (key (w_state w)) nonce additional_data)))))"

text \<open>Finding the content type behind the padding; both truncations leave the bytes in place.\<close>

definition take_content_type :: "(crypto_buffer, content_type, tls_error) comp" where
  "take_content_type =
     bind (\<lambda>b. (cb_as_slice b, b)) (\<lambda>slice.
     next_do (case rposition (\<lambda>b. b \<noteq> 0) slice of
        Some index \<Rightarrow> cb_truncate (index + 1) | None \<Rightarrow> return ())
    (bind (\<lambda>b. (cb_as_slice b, b)) (\<lambda>slice'.
     bind (lift_result (if slice' = [] then Panic else Ok (last slice'))) (\<lambda>marker.
     bind (lift_result (ok_or InvalidRecord (content_type_of marker))) (\<lambda>content_type.
     next_do (bind (\<lambda>b. (usub (cb_len b) 1, b)) cb_truncate) (return content_type))))))"

text \<open>
  Decrypting in place: the reader's buffer, of which the record's data is a slice, is updated with it.
\<close>

definition open_app_data ::
  "cipher_suite_params \<Rightarrow> application_data \<Rightarrow> (read_key_schedule \<times> bytes, content_type \<times> crypto_buffer, tls_error) comp" where
  "open_app_data C ad =
     bind (\<lambda>(rk, mem). (state_get_nonce C (r_state rk), (rk, mem))) (\<lambda>nonce.
     (\<lambda>(rk, mem). case bind (or_err CryptoError (decrypt_in_place C (key (r_state rk)) nonce (ad_header ad)))
                    (\<lambda>_. take_content_type) (ad_data ad) of
        (Ok ct, b) \<Rightarrow> (Ok (ct, b), (rk, overwrite (ad_start ad) (cb_buf b) mem))
      | (Err e, b) \<Rightarrow> (Err e, (rk, overwrite (ad_start ad) (cb_buf b) mem))
      | (Panic, b) \<Rightarrow> (Panic, (rk, overwrite (ad_start ad) (cb_buf b) mem))))"

lemma server_handshake_read_decreases:
  assumes "server_handshake_read C (b, d) = (Ok m, (b', d'))" and "0 < remaining b"
  shows "remaining b' < remaining b"
proof -
  have inv: "pb_inv b" using assms(2) by (simp add: pb_inv_def remaining_def)
  obtain r b1 where run: "server_handshake_parse C b = (r, b1)" by fastforce
  from assms(1) run have r: "r \<noteq> Err e" "r \<noteq> Panic" and b1: "b1 = b'" for e
    by (auto simp: server_handshake_read_def bind_apply next_do_apply on_part_apply Let_def split: result.splits)
  obtain ty b2 where ty: "handshake_type_parse b = (Ok ty, b2)"
    using run r by (cases "handshake_type_parse b"; cases "fst (handshake_type_parse b)")
      (auto simp: server_handshake_parse_def bind_apply map_err_apply)
  have b2: "b2 = b\<lparr>pos := pos b + 1\<rparr>" "pos b < length (buffer b)"
    using ty by (auto simp: handshake_type_parse_def bind_apply read_u8_def split: if_splits)
  define rest where "rest = bind (map_err (\<lambda>_. InvalidHandshake) read_u24) (\<lambda>content_len.
     case ty of
       HT_ServerHello \<Rightarrow> tmap ServerHello server_hello_parse
     | HT_NewSessionTicket \<Rightarrow> tmap (\<lambda>_. NewSessionTicket) new_session_ticket_parse
     | HT_EncryptedExtensions \<Rightarrow> tmap (\<lambda>_. EncryptedExtensions) encrypted_extensions_parse
     | HT_Certificate \<Rightarrow> tmap ServerCertificate certificate_ref_parse
     | HT_CertificateRequest \<Rightarrow> tmap CertificateRequest certificate_request_parse
     | HT_CertificateVerify \<Rightarrow> tmap ServerCertificateVerify certificate_verify_parse
     | HT_Finished \<Rightarrow> tmap ServerFinished (finished_parse C)
     | _ \<Rightarrow> throw Unimplemented)"
  have "wf_parser rest" unfolding rest_def by (cases ty) (auto intro!: wf_parsers)
  moreover have "rest b2 = (r, b')"
    using run ty b1 by (simp add: server_handshake_parse_def bind_apply map_err_apply rest_def)
  moreover have "pb_inv b2" using b2 by (simp add: pb_inv_def)
  ultimately have "buffer b' = buffer b2" "pos b2 \<le> pos b'" by (metis wf_parserD(2,3))+
  with b2 show ?thesis by (simp add: remaining_def)
qed

text \<open>The loop over the messages of one handshake record.\<close>

function handshake_loop ::
  "cipher_suite_params \<Rightarrow> (server_record \<Rightarrow> (read_key_schedule \<times> 'c, unit, tls_error) comp) \<Rightarrow> parse_buffer \<Rightarrow>
   (read_key_schedule \<times> 'c, unit, tls_error) comp" where
  "handshake_loop C cb buf (rk, c) =
     (if remaining buf > 0 then
        (case server_handshake_read C (buf, transcript_hash rk) of
           (Ok inner, (buf', digest)) \<Rightarrow>
             (case cb (SR_Handshake inner) (rk\<lparr>transcript_hash := digest\<rparr>, c) of
                (Ok _, (rk', c')) \<Rightarrow> handshake_loop C cb buf' (rk', c')
              | (Err e, s') \<Rightarrow> (Err e, s')
              | (Panic, s') \<Rightarrow> (Panic, s'))
         | (Err e, (_, digest)) \<Rightarrow> (Err e, (rk\<lparr>transcript_hash := digest\<rparr>, c))
         | (Panic, (_, digest)) \<Rightarrow> (Panic, (rk\<lparr>transcript_hash := digest\<rparr>, c)))
      else (Ok (), (rk, c)))"
  by pat_completeness auto

termination
  by (relation "measure (\<lambda>(C, cb, buf, s). remaining buf)")
    (auto dest: server_handshake_read_decreases [OF sym])

declare handshake_loop.simps [simp del]

text \<open>
  \<open>decrypt_record(key_schedule, record, cb)\<close>: the state is the read half of the key schedule with what
  the callback owns, and the reader's buffer.
\<close>

definition handle_content ::
  "cipher_suite_params \<Rightarrow> (server_record \<Rightarrow> (read_key_schedule \<times> 'c, unit, tls_error) comp) \<Rightarrow> application_data \<Rightarrow>
   content_type \<Rightarrow> crypto_buffer \<Rightarrow> (read_key_schedule \<times> 'c, unit, tls_error) comp" where
  "handle_content C cb ad content_type app_data =
     bind (lift_result (cb_as_slice app_data)) (\<lambda>content.
     case content_type of
       CT_Handshake \<Rightarrow> handshake_loop C cb (pb_new content)
     | CT_ApplicationData \<Rightarrow>
         cb (SR_ApplicationData (application_data_new (ad_start ad) app_data (ad_header ad)))
     | CT_Alert \<Rightarrow> bind (lift_result (fst (alert_parse (pb_new content)))) (\<lambda>a. cb (SR_Alert a))
     | _ \<Rightarrow> throw Unimplemented)"

definition decrypt_record ::
  "cipher_suite_params \<Rightarrow> (server_record \<Rightarrow> (read_key_schedule \<times> 'c, unit, tls_error) comp) \<Rightarrow> server_record \<Rightarrow>
   ((read_key_schedule \<times> 'c) \<times> bytes, unit, tls_error) comp" where
  "decrypt_record C cb rec =
     (case rec of
        SR_ApplicationData ad \<Rightarrow>
          bind (on_part (\<lambda>((rk, c), mem). (rk, mem)) (\<lambda>(rk, mem) ((_, c), _). ((rk, c), mem)) (open_app_data C ad))
            (\<lambda>(content_type, app_data).
          next_do (on_part fst (\<lambda>s (_, mem). (s, mem)) (handle_content C cb ad content_type app_data))
            (on_part (\<lambda>((rk, c), mem). r_state rk) (\<lambda>st ((rk, c), mem). ((rk\<lparr>r_state := st\<rparr>, c), mem))
               increment_counter))
      | _ \<Rightarrow> on_part fst (\<lambda>s (_, mem). (s, mem)) (cb rec))"

section \<open>Encryption\<close>

text \<open>Sealing the view of a buffer that has room for the tag behind it.\<close>

lemma encrypt_in_place_view:
  assumes "cb_inv b" and "aead_seal C k n aad (cb_view b) = Some (ct, tag)"
    and "length ct = cb_len b" and "length tag = tag_len C" and "tag_len C \<le> cb_room b"
  shows "encrypt_in_place C k n aad b =
     (Ok (), b\<lparr>cb_buf := overwrite (cb_offset b) (ct @ tag) (cb_buf b), cb_len := cb_len b + tag_len C\<rparr>)"
proof -
  let ?b = "cb_replace_view ct b"
  have fits: "cb_offset b + length ct \<le> length (cb_buf b)" using assms(1,3) by (simp add: cb_inv_def)
  have inv: "cb_inv ?b" and room: "cb_room ?b = cb_room b"
    using assms(1) length_cb_replace_view [OF fits] by (simp_all add: cb_inv_def cb_room_def)
  have "extend_internal tag ?b = (Ok (), cb_append tag ?b)"
    using extend_run [OF inv, of tag] assms(4,5) room by (simp add: extend_from_slice_def)
  moreover have "cb_append tag ?b =
      b\<lparr>cb_buf := overwrite (cb_offset b) (ct @ tag) (cb_buf b), cb_len := cb_len b + tag_len C\<rparr>"
    using overwrite_overwrite_adj [of "cb_offset b" ct tag "cb_buf b"] assms
    by (simp add: cb_append_def cb_replace_view_def cb_inv_def cb_room_def)
  ultimately show ?thesis
    using assms(2) by (simp add: encrypt_in_place_def cb_as_slice_view [OF assms(1)] map_err_apply)
qed

lemma encrypt_run:
  assumes laws: "crypto_laws C" and inv: "cb_inv b" and iv: "length (iv (w_state w)) = 12"
    and view: "cb_view b = content @ [content_type_code ty]"
    and room: "tag_len C \<le> cb_room b" and len: "length content + 1 + tag_len C < 2 ^ 16"
  shows "encrypt C w b = (Ok (), b\<lparr>cb_buf := overwrite (cb_offset b)
       (drop 5 (sealed_record C (w_state w) content ty)) (cb_buf b), cb_len := cb_len b + tag_len C\<rparr>)"
proof -
  note L = crypto_lawsD [OF laws]
  have cl: "cb_len b = length content + 1" using length_cb_view [OF inv] view by simp
  have "length content < 2 ^ 16 - 1" using len by simp
  then obtain ct tag where
    s: "aead_seal C (key (w_state w)) (record_nonce (w_state w)) (record_header C (length content))
        (content @ [content_type_code ty]) = Some (ct, tag)"
      "length ct = length content + 1" "length tag = tag_len C"
      "sealed_record C (w_state w) content ty = record_header C (length content) @ ct @ tag"
    by (rule sealed_recordE [OF L(2)])
  have hdr: "[content_type_code CT_ApplicationData, 0x03, 0x03] @ be16 (word_of_nat (cb_len b + tag_len C)) =
      record_header C (length content)"
    by (simp add: record_header_def cl)
  have nonce: "state_get_nonce C (w_state w) = Ok (record_nonce (w_state w))"
    using get_nonce_run [OF suite_sizesD(1) [OF L(3)] iv] by (simp add: state_get_nonce_def record_nonce_def)
  have cap: "\<not> cb_len b + tag_len C > cb_capacity b"
    using room inv by (simp add: cb_capacity_def cb_room_def cb_inv_def)
  have "encrypt_in_place C (key (w_state w)) (record_nonce (w_state w)) (record_header C (length content)) b =
     (Ok (), b\<lparr>cb_buf := overwrite (cb_offset b) (ct @ tag) (cb_buf b), cb_len := cb_len b + tag_len C\<rparr>)"
    by (rule encrypt_in_place_view [OF inv _ _ s(3) room]) (use s view cl in simp_all)
  then show ?thesis
    using cap hdr s(4) length_record_header
    by (simp add: encrypt_def bind_apply nonce map_err_apply Let_def del: content_type_code.simps)
qed

section \<open>Decryption\<close>

text \<open>An application data record as the reader hands it out: header, position and body.\<close>

definition app_record :: "bytes \<Rightarrow> nat \<Rightarrow> application_data" where
  "app_record rec start =
     application_data_new start (cb_wrap_with_pos (drop 5 rec) (length (drop 5 rec))) (take 5 rec)"

lemma app_record_simps [simp]:
  "ad_header (app_record rec start) = take 5 rec" "ad_start (app_record rec start) = start"
  "ad_data (app_record rec start) = cb_wrap_with_pos (drop 5 rec) (length (drop 5 rec))"
  by (simp_all add: app_record_def application_data_new_def)

text \<open>Removing the padding and the content type from a decrypted buffer.\<close>

lemma take_content_type_run:
  assumes "b = \<lparr>cb_buf = content @ content_type_code ty # replicate n 0 @ rest, cb_offset = 0,
      cb_len = length content + 1 + n\<rparr>" and "ty \<noteq> CT_Invalid"
  shows "take_content_type b = (Ok ty, b\<lparr>cb_len := length content\<rparr>)"
proof -
  have ne: "content_type_code ty \<noteq> 0" using assms(2) by (cases ty) simp_all
  have slice: "cb_as_slice b = (Ok (content @ content_type_code ty # replicate n 0) :: (bytes, tls_error) result)"
    by (simp add: assms(1) cb_as_slice_def subslice_def)
  have pos: "rposition (\<lambda>b. b \<noteq> 0) (content @ content_type_code ty # replicate n 0) = Some (length content)"
    by (rule rposition_append_last) (simp_all add: ne list_all_iff)
  have slice': "cb_as_slice (b\<lparr>cb_len := length content + 1\<rparr>) =
      (Ok (content @ [content_type_code ty]) :: (bytes, tls_error) result)"
    by (simp add: assms(1) cb_as_slice_def subslice_def)
  have "cb_truncate (length content + 1) b = (Ok () :: (unit, tls_error) result, b\<lparr>cb_len := length content + 1\<rparr>)"
    and "cb_truncate (length content) (b\<lparr>cb_len := length content + 1\<rparr>) =
      (Ok () :: (unit, tls_error) result, b\<lparr>cb_len := length content\<rparr>)"
    by (simp_all add: cb_truncate_def bind_apply usub_def cb_capacity_def assms(1))
  then show ?thesis
    using slice pos slice' by (simp add: take_content_type_def bind_apply next_do_apply usub_def)
qed

lemma open_app_data_run:
  assumes laws: "crypto_laws C" and iv: "length (iv (r_state rk)) = 12"
    and opened: "opened_record C (r_state rk) rec = Some (content @ content_type_code ty # replicate n 0)"
    and ty: "ty \<noteq> CT_Invalid"
  obtains b rest where "b = \<lparr>cb_buf = content @ rest, cb_offset = 0, cb_len = length content\<rparr>"
    and "length (content @ rest) = length rec - 5"
    and "open_app_data C (app_record rec start) (rk, mem) =
       (Ok (ty, b), (rk, overwrite start (content @ rest) mem))"
proof -
  note L = crypto_lawsD [OF laws]
  have nonce: "state_get_nonce C (r_state rk) = Ok (record_nonce (r_state rk))"
    using get_nonce_run [OF suite_sizesD(1) [OF L(3)] iv] by (simp add: state_get_nonce_def record_nonce_def)
  let ?pt = "content @ content_type_code ty # replicate n 0"
  let ?body = "drop 5 rec" let ?k = "length ?body - tag_len C"
  have op: "tag_len C \<le> length ?body"
      "aead_open C (key (r_state rk)) (record_nonce (r_state rk)) (take 5 rec) (take ?k ?body) (drop ?k ?body) = Some ?pt"
    using opened by (auto simp: opened_record_def Let_def split: if_splits)
  have ptl: "length ?pt = ?k" using open_length [OF L(2) op(2)] by simp
  define b where "b = \<lparr>cb_buf = content @ content_type_code ty # replicate n 0 @ drop ?k ?body, cb_offset = 0,
      cb_len = length content + 1 + n\<rparr>"
  have dec: "decrypt_in_place C (key (r_state rk)) (record_nonce (r_state rk)) (take 5 rec)
      (cb_wrap_with_pos ?body (length ?body)) = (Ok (), b)"
    unfolding decrypt_in_place_run [OF L(2)] using op ptl by (simp add: b_def)
  have strip: "take_content_type b = (Ok ty, b\<lparr>cb_len := length content\<rparr>)"
    by (rule take_content_type_run [OF b_def ty])
  show thesis
  proof (rule that)
    show "b\<lparr>cb_len := length content\<rparr> = \<lparr>cb_buf = content @ (content_type_code ty # replicate n 0 @ drop ?k ?body),
        cb_offset = 0, cb_len = length content\<rparr>"
      by (simp add: b_def)
    show "length (content @ (content_type_code ty # replicate n 0 @ drop ?k ?body)) = length rec - 5"
      using ptl op(1) by simp
    show "open_app_data C (app_record rec start) (rk, mem) = (Ok (ty, b\<lparr>cb_len := length content\<rparr>),
        (rk, overwrite start (content @ (content_type_code ty # replicate n 0 @ drop ?k ?body)) mem))"
      using dec strip by (simp add: open_app_data_def bind_apply nonce map_err_apply b_def)
  qed
qed

lemma open_app_data_forged:
  assumes laws: "crypto_laws C" and iv: "length (iv (r_state rk)) = 12"
    and rec: "check_record rec = Ok m" and forged: "opened_record C (r_state rk) rec = None"
  shows "open_app_data C (app_record rec start) (rk, mem) =
     (Err CryptoError, (rk, overwrite start (drop 5 rec) mem))"
proof -
  note L = crypto_lawsD [OF laws]
  have nonce: "state_get_nonce C (r_state rk) = Ok (record_nonce (r_state rk))"
    using get_nonce_run [OF suite_sizesD(1) [OF L(3)] iv] by (simp add: state_get_nonce_def record_nonce_def)
  have "length (drop 5 rec) = m" using check_record_OkD [OF rec] by simp
  then have "decrypt_in_place C (key (r_state rk)) (record_nonce (r_state rk)) (take 5 rec)
      (cb_wrap_with_pos (drop 5 rec) (length (drop 5 rec))) =
      (Err CryptoError, cb_wrap_with_pos (drop 5 rec) (length (drop 5 rec)))"
    unfolding decrypt_in_place_run [OF L(2)]
    using forged rec by (auto simp: opened_record_def Let_def split: if_splits)
  then show ?thesis
    by (simp add: open_app_data_def bind_apply nonce map_err_apply cb_wrap_with_pos_def)
qed

section \<open>Handshake messages in a protected record\<close>

definition with_snapshot :: "cipher_suite_params \<Rightarrow> bytes \<Rightarrow> server_handshake \<Rightarrow> server_handshake" where
  "with_snapshot C digest m = (case m of
     ServerFinished f \<Rightarrow> ServerFinished (f\<lparr>fin_hash := Some (hash C digest)\<rparr>) | _ \<Rightarrow> m)"

text \<open>The effect of the loop on messages given with their bytes.\<close>

fun handle_messages ::
  "cipher_suite_params \<Rightarrow> (server_record \<Rightarrow> (read_key_schedule \<times> 'c, unit, tls_error) comp) \<Rightarrow>
   (bytes \<times> server_handshake) list \<Rightarrow> (read_key_schedule \<times> 'c, unit, tls_error) comp" where
  "handle_messages C cb [] = return ()"
| "handle_messages C cb ((bs, m) # ms) = (\<lambda>(rk, c).
     next_do (cb (SR_Handshake (with_snapshot C (transcript_hash rk) m))) (handle_messages C cb ms)
       (rk\<lparr>transcript_hash := transcript_hash rk @ bs\<rparr>, c))"

definition message_of :: "cipher_suite_params \<Rightarrow> bytes \<Rightarrow> server_handshake \<Rightarrow> bool" where
  "message_of C bs m \<longleftrightarrow> parses (server_handshake_parse C) bs m \<and> bs \<noteq> []"

lemma server_handshake_read_run:
  assumes "parses (server_handshake_parse C) bs m"
  shows "server_handshake_read C (\<lparr>pos = length pre, buffer = pre @ bs @ post\<rparr>, d) =
     (Ok (with_snapshot C d m), (\<lparr>pos = length pre + length bs, buffer = pre @ bs @ post\<rparr>, d @ bs))"
  using parsesD [OF assms, of pre post]
  by (simp add: server_handshake_read_def bind_apply next_do_apply on_part_apply Let_def subslice_def with_snapshot_def
      split: server_handshake.split)

lemma handshake_loop_at:
  assumes "list_all (\<lambda>(bs, m). message_of C bs m) ms"
  shows "handshake_loop C cb \<lparr>pos = length pre, buffer = pre @ concat (map fst ms)\<rparr> s = handle_messages C cb ms s"
  using assms
proof (induction ms arbitrary: pre s)
  case Nil
  then show ?case by (cases s) (simp add: handshake_loop.simps remaining_def)
next
  case (Cons bm ms)
  obtain bs m where bm: "bm = (bs, m)" by fastforce
  obtain rk c where s: "s = (rk, c)" by fastforce
  have p: "parses (server_handshake_parse C) bs m" and ne: "bs \<noteq> []"
    using Cons.prems by (simp_all add: bm message_of_def)
  have IH: "handshake_loop C cb \<lparr>pos = length pre + length bs, buffer = pre @ bs @ concat (map fst ms)\<rparr> s' =
      handle_messages C cb ms s'" for s'
    using Cons.IH [of "pre @ bs" s'] Cons.prems by simp
  show ?case
    using ne server_handshake_read_run [OF p, of pre "concat (map fst ms)"] IH
    by (simp add: bm s handshake_loop.simps [of C cb "\<lparr>pos = length pre, buffer = pre @ bs @ concat (map fst ms)\<rparr>"]
        remaining_def next_do_apply split: result.split prod.split)
qed

lemma handshake_loop_run:
  "list_all (\<lambda>(bs, m). message_of C bs m) ms \<Longrightarrow>
   handshake_loop C cb (pb_new (concat (map fst ms))) s = handle_messages C cb ms s"
  using handshake_loop_at [of C ms cb "[]" s] by (simp add: pb_new_def)

lemma message_ofI:
  assumes "parses p body v" and "length body < 2 ^ 24"
    and "server_handshake_parse C = bind (map_err (\<lambda>_. InvalidHandshake) handshake_type_parse) (\<lambda>t.
      bind (map_err (\<lambda>_. InvalidHandshake) read_u24) (\<lambda>_. q t))" and "q ty = tmap f p"
  shows "message_of C (handshake_bytes ty body) (f v)"
proof -
  have n: "unat (word_of_nat (length body) :: u32) < 2 ^ 24"
    using assms(2) by (simp add: unat_word_of_nat)
  have "parses (server_handshake_parse C) ([handshake_type_code ty] @ be24 (word_of_nat (length body)) @ body) (f v)"
    unfolding assms(3)
    by (rule parses_bind [OF parses_map_err [OF parses_handshake_type]],
        rule parses_bind [OF parses_map_err [OF parses_read_u24 [OF n]]],
        unfold assms(4) tmap_def, rule parses_bind_last [OF assms(1) refl])
  then show ?thesis by (simp add: message_of_def handshake_bytes_def vec24_def)
qed

lemma message_of_finished:
  assumes "length v = hash_len C" and "hash_len C < 2 ^ 24"
  shows "message_of C (handshake_bytes HT_Finished v) (ServerFinished \<lparr>fin_verify = v, fin_hash = None\<rparr>)"
  by (rule message_ofI [OF parses_finished [OF assms(1)] _ server_handshake_parse_def]) (use assms in simp_all)

lemma message_of_ee: "message_of C ee_message EncryptedExtensions"
proof -
  have "message_of C (handshake_bytes HT_EncryptedExtensions (be16 0)) ((\<lambda>_. EncryptedExtensions) ())"
    by (rule message_ofI [OF parses_empty_encrypted_extensions _ server_handshake_parse_def]) simp_all
  then show ?thesis by (simp add: ee_message_def vec16_def)
qed

section \<open>One protected record\<close>

lemma decrypt_record_content:
  assumes laws: "crypto_laws C" and use: "usable (r_state rk)"
    and opened: "opened_record C (r_state rk) rec = Some (content @ content_type_code ty # replicate n 0)"
    and ty: "ty \<noteq> CT_Invalid"
  obtains b mem' where
    "b = \<lparr>cb_buf = cb_buf b, cb_offset = 0, cb_len = length content\<rparr>"
    and "cb_view b = content" and "length (cb_buf b) = length rec - 5"
    and "mem' = overwrite start (cb_buf b) mem"
    and "decrypt_record C cb (SR_ApplicationData (app_record rec start)) ((rk, c), mem) =
      (case handle_content C cb (app_record rec start) ty b (rk, c) of
         (Ok _, (rk', c')) \<Rightarrow>
           (case increment_counter (r_state rk') of (r, st) \<Rightarrow> (r, ((rk'\<lparr>r_state := st\<rparr>, c'), mem')))
       | (Err e, s') \<Rightarrow> (Err e, (s', mem'))
       | (Panic, s') \<Rightarrow> (Panic, (s', mem')))"
proof -
  have "length (iv (r_state rk)) = 12" using use by (simp add: usable_def)
  from open_app_data_run [OF laws this opened ty, of start mem] obtain b rest where
    b: "b = \<lparr>cb_buf = content @ rest, cb_offset = 0, cb_len = length content\<rparr>"
      "length (content @ rest) = length rec - 5"
      "open_app_data C (app_record rec start) (rk, mem) = (Ok (ty, b), (rk, overwrite start (content @ rest) mem))" .
  show thesis
    by (rule that [of b "overwrite start (cb_buf b) mem"])
      (use b in \<open>auto simp: cb_view_def decrypt_record_def bind_apply next_do_apply on_part_apply
        split: prod.split result.split\<close>)
qed

end
