(* ===== verification/Write_Buffer.thy ===== *)
theory Write_Buffer
  imports Record_Crypto
begin

text \<open>
  \<open>WriteBuffer\<close> of src/write\_buffer.rs: the client assembles one record at a time in a buffer, header
  first, and protects it in place when it is closed.  \<open>reborrow\<close> and \<open>reborrow_mut\<close> only pass the fields
  on, so a borrow is the buffer itself.  A \<open>debug_assert!\<close> that fails is a panic, like an arithmetic
  underflow.
\<close>

section \<open>Definitions\<close>

definition TLS_RECORD_OVERHEAD :: nat where
  "TLS_RECORD_OVERHEAD = 128"

record write_buffer =
  wb_buffer :: bytes
  wb_pos :: nat
  wb_current_header :: "client_record_header option"

definition wb_new :: "bytes \<Rightarrow> (write_buffer, tls_error) result" where
  "wb_new buf =
     (if length buf > TLS_RECORD_OVERHEAD
      then Ok \<lparr>wb_buffer = buf, wb_pos = 0, wb_current_header = None\<rparr> else Panic)"

definition max_block_size :: "write_buffer \<Rightarrow> (nat, tls_error) result" where
  "max_block_size wb = usub (length (wb_buffer wb)) TLS_RECORD_OVERHEAD"

definition wb_is_full :: "write_buffer \<Rightarrow> (bool, tls_error) result" where
  "wb_is_full wb = (case max_block_size wb of Ok n \<Rightarrow> Ok (wb_pos wb = n) | Err e \<Rightarrow> Err e | Panic \<Rightarrow> Panic)"

definition wb_len :: "write_buffer \<Rightarrow> nat" where
  "wb_len wb = wb_pos wb"

definition wb_is_empty :: "write_buffer \<Rightarrow> bool" where
  "wb_is_empty wb \<longleftrightarrow> wb_len wb = 0"

definition wb_space :: "write_buffer \<Rightarrow> (nat, tls_error) result" where
  "wb_space wb = (case max_block_size wb of Ok n \<Rightarrow> usub n (wb_pos wb) | Err e \<Rightarrow> Err e | Panic \<Rightarrow> Panic)"

definition wb_contains :: "client_record_header \<Rightarrow> write_buffer \<Rightarrow> bool" where
  "wb_contains header wb \<longleftrightarrow> wb_current_header wb = Some header"

definition wb_append :: "bytes \<Rightarrow> (write_buffer, nat, tls_error) comp" where
  "wb_append buf =
     bind (\<lambda>wb. (wb_space wb, wb)) (\<lambda>sp.
     let buffered = min (length buf) sp in
     if buffered > 0
     then bind (\<lambda>wb. (store_slice (wb_buffer wb) (wb_pos wb) (take buffered buf), wb)) (\<lambda>filled.
          next_do (modify (\<lambda>wb. wb\<lparr>wb_buffer := filled, wb_pos := wb_pos wb + buffered\<rparr>)) (return buffered))
     else return buffered)"

text \<open>
  \<open>with_buffer\<close>: the operation consumes a \<open>CryptoBuffer\<close> around the buffer and returns one; its bytes
  are in the buffer whether it succeeds or not, the position moves only if it succeeds.
\<close>

definition with_buffer :: "(crypto_buffer, crypto_buffer, tls_error) comp \<Rightarrow> (write_buffer, unit, tls_error) comp" where
  "with_buffer op = (\<lambda>wb.
     case op (cb_wrap_with_pos (wb_buffer wb) (wb_pos wb)) of
       (Ok b, _) \<Rightarrow> (Ok (), wb\<lparr>wb_buffer := cb_buf b, wb_pos := cb_len b\<rparr>)
     | (Err e, b) \<Rightarrow> (Err e, wb\<lparr>wb_buffer := cb_buf b\<rparr>)
     | (Panic, b) \<Rightarrow> (Panic, wb\<lparr>wb_buffer := cb_buf b\<rparr>))"

definition start_record :: "client_record_header \<Rightarrow> (write_buffer, unit, tls_error) comp" where
  "start_record header =
     bind (gets wb_current_header) (\<lambda>current.
     if current \<noteq> None then panic
     else next_do (modify (\<lambda>wb. wb\<lparr>wb_current_header := Some header\<rparr>))
       (with_buffer (next_do (record_header_encode header) (next_do (push_u16 0) (\<lambda>b. (cb_rewind b, b))))))"

text \<open>The operations of the source that move the window return a new \<open>CryptoBuffer\<close> around the same bytes.\<close>

definition cb_become :: "(crypto_buffer \<Rightarrow> (crypto_buffer, tls_error) result) \<Rightarrow> unit encoder" where
  "cb_become f = (\<lambda>b. case f b of Ok b' \<Rightarrow> (Ok (), b') | Err e \<Rightarrow> (Err e, b) | Panic \<Rightarrow> (Panic, b))"

definition protect :: "cipher_suite_params \<Rightarrow> client_record_header \<Rightarrow> write_key_schedule \<Rightarrow>
  (crypto_buffer, crypto_buffer, tls_error) comp" where
  "protect C header w =
     (if \<not> is_encrypted header then gets (\<lambda>b. b)
      else next_do (or_err EncodeError (push (content_type_code (trailer_content_type header))))
          (next_do (cb_become (cb_move 5))
          (next_do (encrypt C w) (\<lambda>b. (cb_rewind b, b)))))"

definition close_record :: "cipher_suite_params \<Rightarrow> write_key_schedule \<Rightarrow> (write_buffer, bytes, tls_error) comp" where
  "close_record C w =
     bind (gets wb_current_header) (\<lambda>current.
     next_do (modify (\<lambda>wb. wb\<lparr>wb_current_header := None\<rparr>))
    (bind (lift_result (unwrap current)) (\<lambda>header.
     next_do (with_buffer (protect C header w))
    (bind (\<lambda>wb. (usub (wb_pos wb) 5, wb)) (\<lambda>n.
     bind (\<lambda>wb. (store_at (wb_buffer wb) 3 (be16 (word_of_nat n) ! 0), wb)) (\<lambda>filled.
     next_do (modify (\<lambda>wb. wb\<lparr>wb_buffer := filled\<rparr>))
    (bind (\<lambda>wb. (store_at (wb_buffer wb) 4 (be16 (word_of_nat n) ! 1), wb)) (\<lambda>filled.
     next_do (modify (\<lambda>wb. wb\<lparr>wb_buffer := filled\<rparr>))
    (bind (\<lambda>wb. (subslice (wb_buffer wb) 0 (wb_pos wb), wb)) (\<lambda>slice.
     next_do (modify (\<lambda>wb. wb\<lparr>wb_pos := 0, wb_current_header := None\<rparr>)) (return slice)))))))))))"

text \<open>
  \<open>write_record\<close>: the state is the buffer and the transcript of the read half of the key schedule, which
  every caller passes.
\<close>

definition write_payload ::
  "cipher_suite_params \<Rightarrow> (bytes \<Rightarrow> bytes) \<Rightarrow> client_record \<Rightarrow> write_key_schedule \<Rightarrow>
   (crypto_buffer \<times> bytes, crypto_buffer, tls_error) comp" where
  "write_payload C p256_public rec w =
     next_do (on_part fst (\<lambda>b (_, t). (b, t)) (cb_become cb_forward))
    (bind (on_part fst (\<lambda>b (_, t). (b, t)) (encode_payload C p256_public rec)) (\<lambda>_.
     next_do (finish_record C rec w) (\<lambda>(b, t). (cb_rewind b, (b, t)))))"

definition write_record ::
  "cipher_suite_params \<Rightarrow> (bytes \<Rightarrow> bytes) \<Rightarrow> client_record \<Rightarrow> write_key_schedule \<Rightarrow>
   (write_buffer \<times> bytes, bytes, tls_error) comp" where
  "write_record C p256_public rec w =
     bind (gets (\<lambda>(wb, t). wb_current_header wb)) (\<lambda>current.
     if current \<noteq> None then throw InternalError
     else
     next_do (on_part fst (\<lambda>wb (_, t). (wb, t)) (start_record (header_of rec)))
    (next_do (\<lambda>(wb, t). case write_payload C p256_public rec w (cb_wrap_with_pos (wb_buffer wb) (wb_pos wb), t) of
        (Ok b, (_, t')) \<Rightarrow> (Ok (), (wb\<lparr>wb_buffer := cb_buf b, wb_pos := cb_len b\<rparr>, t'))
      | (Err e, (b, t')) \<Rightarrow> (Err e, (wb\<lparr>wb_buffer := cb_buf b\<rparr>, t'))
      | (Panic, (b, t')) \<Rightarrow> (Panic, (wb\<lparr>wb_buffer := cb_buf b\<rparr>, t')))
       (on_part fst (\<lambda>wb (_, t). (wb, t)) (close_record C w))))"

section \<open>The life of a record\<close>

text \<open>An idle buffer, and one that holds an open record with some content.\<close>

definition wb_idle :: "bytes \<Rightarrow> write_buffer" where
  "wb_idle buf = \<lparr>wb_buffer = buf, wb_pos = 0, wb_current_header = None\<rparr>"

definition wb_open :: "client_record_header \<Rightarrow> bytes \<Rightarrow> bytes \<Rightarrow> write_buffer" where
  "wb_open h content buf = \<lparr>wb_buffer = overwrite 0 (record_header_bytes h @ [0, 0] @ content) buf,
     wb_pos = 5 + length content, wb_current_header = Some h\<rparr>"

text \<open>The bytes a closed record leaves the buffer as.\<close>

definition closed_record ::
  "cipher_suite_params \<Rightarrow> write_key_schedule \<Rightarrow> client_record_header \<Rightarrow> bytes \<Rightarrow> bytes" where
  "closed_record C w h content =
     (if is_encrypted h then sealed_record C (w_state w) content (trailer_content_type h)
      else record_header_bytes h @ vec16 content)"

lemma wb_new_run: "TLS_RECORD_OVERHEAD < length buf \<Longrightarrow> wb_new buf = Ok (wb_idle buf)"
  by (simp add: wb_new_def wb_idle_def)

lemma cb_wrap_at: "bs = overwrite 0 pre buf \<Longrightarrow> length pre \<le> length buf \<Longrightarrow>
   cb_wrap_with_pos bs (length pre) = cb_append pre (cb_wrap buf)"
  by (simp add: cb_wrap_with_pos_def cb_append_def cb_wrap_def)

lemma cb_inv_wrap [simp]: "cb_inv (cb_wrap buf)" "cb_room (cb_wrap buf) = length buf" "cb_len (cb_wrap buf) = 0"
  "cb_offset (cb_wrap buf) = 0"
  by (simp_all add: cb_inv_def cb_room_def cb_wrap_def)

lemma cb_rewind_append: "cb_rewind (cb_append bs (cb_wrap buf)) = Ok (cb_append bs (cb_wrap buf))"
  by (simp add: cb_rewind_def cb_move_def usub_def cb_append_def cb_wrap_def)

lemma start_record_run:
  assumes "5 \<le> length buf"
  shows "start_record h (wb_idle buf) = (Ok (), wb_open h [] buf)"
proof -
  let ?b = "cb_wrap buf"
  have w: "cb_wrap_with_pos buf 0 = ?b" by (simp add: cb_wrap_with_pos_def cb_wrap_def)
  have 1: "record_header_encode h ?b = (Ok (), cb_append (record_header_bytes h) ?b)"
    by (rule encodes_fits [OF encodes_record_header]) (use assms in simp_all)
  have "push_u16 0 (cb_append (record_header_bytes h) ?b) = (Ok (), cb_append (be16 0) (cb_append (record_header_bytes h) ?b))"
    by (rule encodes_fits [OF encodes_push_u16]) (use assms in simp_all)
  then have "push_u16 0 (cb_append (record_header_bytes h) ?b) = (Ok (), cb_append (record_header_bytes h @ be16 0) ?b)"
    using assms by (simp add: cb_append_append)
  with 1 have "next_do (record_header_encode h) (next_do (push_u16 0) (\<lambda>b. (cb_rewind b, b))) ?b =
      (Ok (cb_append (record_header_bytes h @ be16 0) ?b), cb_append (record_header_bytes h @ be16 0) ?b)"
    by (simp add: next_do_apply cb_rewind_append)
  then show ?thesis
    by (simp add: start_record_def wb_idle_def with_buffer_def bind_apply next_do_apply w wb_open_def
        cb_append_def cb_wrap_def be16_def)
qed

lemma wb_append_run:
  assumes "133 \<le> length buf" and "length content \<le> length buf - 133"
    and "k = min (length bs) (length buf - (133 + length content))"
  shows "wb_append bs (wb_open h content buf) = (Ok k, wb_open h (content @ take k bs) buf)"
proof -
  let ?pre = "record_header_bytes h @ [0, 0] @ content"
  have pre: "length ?pre = 5 + length content" by simp
  have sp: "wb_space (wb_open h content buf) = Ok (length buf - (133 + length content))"
    using assms by (simp add: wb_space_def max_block_size_def wb_open_def usub_def TLS_RECORD_OVERHEAD_def)
  have fits: "5 + length content + k \<le> length buf" using assms by simp
  have "store_slice (overwrite 0 ?pre buf) (5 + length content) (take k bs) = Ok (overwrite 0 (?pre @ take k bs) buf)"
    using overwrite_overwrite_adj [of 0 ?pre "take k bs" buf] fits assms(3) pre
    by (simp add: store_slice_def del: append_assoc append_Cons)
  then have store: "store_slice (wb_buffer (wb_open h content buf)) (wb_pos (wb_open h content buf)) (take k bs) =
      Ok (overwrite 0 (?pre @ take k bs) buf)"
    by (simp add: wb_open_def)
  have "wb_append bs (wb_open h content buf) = (Ok k, if k > 0 then
      (wb_open h content buf)\<lparr>wb_buffer := overwrite 0 (?pre @ take k bs) buf, wb_pos := wb_pos (wb_open h content buf) + k\<rparr>
      else wb_open h content buf)"
    by (simp only: wb_append_def bind_apply sp prod.case result.case assms(3) [symmetric] Let_def if_distribR
        next_do_apply store modify_apply return_apply) simp
  moreover have "(wb_open h content buf)\<lparr>wb_buffer := overwrite 0 (?pre @ take k bs) buf,
      wb_pos := wb_pos (wb_open h content buf) + k\<rparr> = wb_open h (content @ take k bs) buf" if "k > 0"
    using assms(3) by (simp add: wb_open_def)
  ultimately show ?thesis by simp
qed

lemma encrypted_header: "is_encrypted h \<Longrightarrow> record_header_bytes h = [23, 3, 3]"
  by (cases h) (auto simp: record_header_bytes_def)

lemma sealed_record_split:
  assumes "aead_laws C" and "length content < 2 ^ 16 - 1"
  obtains ctag where "sealed_record C st content ty = [23, 3, 3] @ be16 (word_of_nat (length content + 1 + tag_len C)) @ ctag"
    and "length ctag = length content + 1 + tag_len C"
  by (rule sealed_recordE [OF assms, of st ty]) (simp add: record_header_def)

lemma protect_run:
  assumes laws: "crypto_laws C" and h: "is_encrypted h" and iv: "length (iv (w_state w)) = 12"
    and len: "length content + 1 + tag_len C < 2 ^ 16" and room: "length content + 6 + tag_len C \<le> length buf"
    and ctag: "ctag = drop 5 (sealed_record C (w_state w) content (trailer_content_type h))"
    and pre: "pre = record_header_bytes h @ [0, 0]"
  shows "\<exists>b. protect C h w (cb_append (pre @ content) (cb_wrap buf)) =
     (Ok \<lparr>cb_buf = overwrite 0 (pre @ ctag) buf, cb_offset = 0, cb_len = length content + 6 + tag_len C\<rparr>, b)"
proof -
  let ?m = "content_type_code (trailer_content_type h)"
  let ?b1 = "cb_append (pre @ content @ [?m]) (cb_wrap buf)"
  have lp: "length pre = 5" by (simp add: pre)
  have "push ?m (cb_append (pre @ content) (cb_wrap buf)) = (Ok (), ?b1)"
    using room lp by (simp add: push_run cb_append_append)
  moreover define b2 where "b2 = \<lparr>cb_buf = overwrite 0 (pre @ content @ [?m]) buf, cb_offset = 5, cb_len = length content + 1\<rparr>"
  moreover have "cb_become (cb_move 5) ?b1 = (Ok (), b2)"
    using lp by (simp add: cb_become_def cb_move_def usub_def cb_append_def cb_wrap_def b2_def)
  moreover have "encrypt C w b2 = (Ok (), b2\<lparr>cb_buf := overwrite (cb_offset b2) ctag (cb_buf b2), cb_len := cb_len b2 + tag_len C\<rparr>)"
    unfolding ctag
  proof (rule encrypt_run [OF laws _ iv _ _ len])
    show "cb_inv b2" "tag_len C \<le> cb_room b2" using room lp by (simp_all add: cb_inv_def cb_room_def b2_def)
    show "cb_view b2 = content @ [?m]" using lp by (simp add: cb_view_def b2_def overwrite_def)
  qed
  moreover have "length content < 2 ^ 16 - 1" using len by simp
  then obtain ctag' where "sealed_record C (w_state w) content (trailer_content_type h) =
      [23, 3, 3] @ be16 (word_of_nat (length content + 1 + tag_len C)) @ ctag'" "length ctag' = length content + 1 + tag_len C"
    by (rule sealed_record_split [OF crypto_lawsD(2) [OF laws]])
  then have "length ctag = length content + 1 + tag_len C" by (simp add: ctag)
  then have "overwrite 5 ctag (overwrite 0 (pre @ content @ [?m]) buf) = overwrite 0 (pre @ ctag) buf"
    using lp room by (simp add: overwrite_def ac_simps)
  ultimately show ?thesis
    using h by (simp add: protect_def next_do_apply map_err_apply cb_rewind_def cb_move_def usub_def b2_def add.commute)
qed

text \<open>Closing a record whose bytes are complete except for the length field.\<close>

lemma close_record_finish:
  assumes "wb = wb_open h content buf" and "length out = 5 + n" and "length out \<le> length buf" and "5 + length content \<le> length buf"
    and "out = record_header_bytes h @ be16 (word_of_nat n) @ body"
    and "with_buffer (protect C h w) (wb\<lparr>wb_current_header := None\<rparr>) =
      (Ok (), \<lparr>wb_buffer = overwrite 0 (record_header_bytes h @ [0, 0] @ body) buf, wb_pos = 5 + n, wb_current_header = None\<rparr>)"
  shows "close_record C w wb = (Ok out, wb_idle (overwrite 0 out buf))"
proof -
  obtain x y z where h: "record_header_bytes h = [x, y, z]"
    using length_record_header_bytes [of h]
    by (auto simp: numeral_3_eq_3 length_Suc_conv simp del: length_record_header_bytes)
  obtain u l where nl: "be16 (word_of_nat n) = [u, l]" by (simp add: be16_def)
  have lb: "length body = n" using assms(2,5) by (simp add: h nl)
  have s: "store_at (overwrite 0 ([x, y, z] @ [0, 0] @ body) buf) 3 u =
      (Ok (overwrite 0 ([x, y, z] @ [u, 0] @ body) buf) :: (bytes, tls_error) result)"
      "store_at (overwrite 0 ([x, y, z] @ [u, 0] @ body) buf) 4 l =
      (Ok (overwrite 0 ([x, y, z] @ [u, l] @ body) buf) :: (bytes, tls_error) result)"
    using assms(2,3) by (simp_all add: store_at_def overwrite_def lb)
  have out: "out = [x, y, z] @ [u, l] @ body" by (simp add: assms(5) h nl)
  have "subslice (overwrite 0 out buf) 0 (5 + n) = (Ok out :: (bytes, tls_error) result)"
    using assms(2,3) by (simp add: subslice_def overwrite_def assms(2) [symmetric])
  then show ?thesis
    using assms(1,6) s by (simp add: close_record_def bind_apply next_do_apply wb_open_def usub_def h nl wb_idle_def out)
qed

lemma close_record_run:
  assumes laws: "crypto_laws C" and iv: "length (iv (w_state w)) = 12"
    and len: "length content + 1 + tag_len C < 2 ^ 16" and room: "length content + 6 + tag_len C \<le> length buf"
  shows "close_record C w (wb_open h content buf) =
     (Ok (closed_record C w h content), wb_idle (overwrite 0 (closed_record C w h content) buf))"
proof (cases "is_encrypted h")
  case True
  have "length content < 2 ^ 16 - 1" using len by simp
  then obtain ctag where s: "sealed_record C (w_state w) content (trailer_content_type h) =
      [23, 3, 3] @ be16 (word_of_nat (length content + 1 + tag_len C)) @ ctag" "length ctag = length content + 1 + tag_len C"
    by (rule sealed_record_split [OF crypto_lawsD(2) [OF laws]])
  let ?pre = "record_header_bytes h @ [0, 0]"
  have w: "cb_wrap_with_pos (overwrite 0 (?pre @ content) buf) (5 + length content) =
      cb_append (?pre @ content) (cb_wrap buf)"
    by (simp add: cb_wrap_with_pos_def cb_append_def cb_wrap_def)
  from protect_run [OF laws True iv len room _ refl, of ctag] s obtain b where
    "protect C h w (cb_append (?pre @ content) (cb_wrap buf)) =
     (Ok \<lparr>cb_buf = overwrite 0 (?pre @ ctag) buf, cb_offset = 0, cb_len = length content + 6 + tag_len C\<rparr>, b)"
    by auto
  then show ?thesis
    unfolding closed_record_def if_P [OF True]
    by (intro close_record_finish [OF refl, where n = "length content + 1 + tag_len C" and body = ctag])
      (use s room w encrypted_header [OF True] in \<open>simp_all add: with_buffer_def wb_open_def\<close>)
next
  case False
  show ?thesis
    unfolding closed_record_def if_not_P [OF False]
    by (rule close_record_finish [OF refl, where n = "length content" and body = content])
      (use room False in \<open>simp_all add: with_buffer_def wb_open_def protect_def cb_wrap_with_pos_def vec16_def\<close>)
qed

section \<open>Whole records\<close>

fun encode_message :: "cipher_suite_params \<Rightarrow> (bytes \<Rightarrow> bytes) \<Rightarrow> client_record \<Rightarrow> unit encoder" where
  "encode_message C pub (CR_Handshake h _) = client_handshake_encode C pub h"
| "encode_message C pub (CR_Alert a _) = alert_encode a"

text \<open>What \<open>finish_record\<close> makes of a message that was encoded as \<open>P\<close>: the bytes \<open>F\<close> and a transcript.\<close>

definition finishes ::
  "cipher_suite_params \<Rightarrow> client_record \<Rightarrow> write_key_schedule \<Rightarrow> bytes \<Rightarrow> bytes \<Rightarrow> bytes \<Rightarrow> bytes \<Rightarrow> bool" where
  "finishes C rec w P t F t' \<longleftrightarrow> length F = length P \<and> (\<forall>b. cb_inv b \<longrightarrow> cb_view b = P \<longrightarrow>
     finish_record C rec w (b, t) = (Ok (), (cb_replace_view F b, t')))"

lemma cb_replace_same:
  assumes "cb_inv b" shows "cb_replace_view (cb_view b) b = b"
proof -
  have "take (cb_len b) (drop (cb_offset b) (cb_buf b)) @ drop (cb_offset b + cb_len b) (cb_buf b) =
      drop (cb_offset b) (cb_buf b)"
    using append_take_drop_id [of "cb_len b" "drop (cb_offset b) (cb_buf b)"] by (simp add: add.commute)
  then have "overwrite (cb_offset b) (cb_view b) (cb_buf b) = cb_buf b"
    using assms by (simp add: overwrite_def cb_view_def cb_inv_def)
  then show ?thesis by (simp add: cb_replace_view_def)
qed

lemma finishes_encrypted: "finishes C (CR_Handshake h True) w P t P (t @ P)"
  by (auto simp: finishes_def finish_record_def cb_as_slice_view cb_replace_same)

lemma finishes_alert: "finishes C (CR_Alert a e) w P t P t"
  by (auto simp: finishes_def finish_record_def cb_replace_same)

lemma write_payload_run:
  assumes enc: "encodes (encode_message C pub rec) P" and fin: "finishes C rec w P t F t'"
    and pre: "length pre = 5" and room: "5 + length P \<le> length buf"
  shows "\<exists>s. write_payload C pub rec w (cb_append pre (cb_wrap buf), t) =
     (Ok \<lparr>cb_buf = overwrite 0 (pre @ F) buf, cb_offset = 0, cb_len = 5 + length P\<rparr>, (s, t'))"
proof -
  define b1 where "b1 = \<lparr>cb_buf = overwrite 0 pre buf, cb_offset = 5, cb_len = 0\<rparr>"
  have "cb_become cb_forward (cb_append pre (cb_wrap buf)) = (Ok (), b1)"
    using pre by (simp add: cb_become_def cb_forward_def cb_move_def usub_def cb_append_def cb_wrap_def b1_def)
  moreover have inv1: "cb_inv b1" "length P \<le> cb_room b1"
    using pre room by (simp_all add: cb_inv_def cb_room_def b1_def)
  then have e: "encode_message C pub rec b1 = (Ok (), cb_append P b1)" by (rule encodes_fits [OF enc])
  have "encode_payload C pub rec b1 = (Ok (length P), cb_append P b1)"
    using e by (cases rec) (simp_all add: encode_payload_def bind_apply next_do_apply usub_def)
  moreover have "cb_view (cb_append P b1) = P"
    using cb_view_append [OF inv1] by (simp add: cb_view_def b1_def)
  then have "finish_record C rec w (cb_append P b1, t) = (Ok (), (cb_replace_view F (cb_append P b1), t'))"
    using fin cb_inv_append [OF inv1] by (simp add: finishes_def)
  moreover have "length F = length P" using fin by (simp add: finishes_def)
  then have "cb_replace_view F (cb_append P b1) = \<lparr>cb_buf = overwrite 0 (pre @ F) buf, cb_offset = 5, cb_len = length P\<rparr>"
    using pre room by (simp add: cb_replace_view_def cb_append_def b1_def overwrite_def add.commute)
  ultimately show ?thesis
    by (auto simp: write_payload_def next_do_apply bind_apply on_part_apply cb_rewind_def cb_move_def usub_def add.commute)
qed

lemma write_record_run:
  assumes laws: "crypto_laws C" and iv: "length (iv (w_state w)) = 12"
    and enc: "encodes (encode_message C pub rec) P" and fin: "finishes C rec w P t F t'"
    and len: "length P + 1 + tag_len C < 2 ^ 16" and room: "length P + 6 + tag_len C \<le> length buf"
  shows "write_record C pub rec w (wb_idle buf, t) =
     (Ok (closed_record C w (header_of rec) F), (wb_idle (overwrite 0 (closed_record C w (header_of rec) F) buf), t'))"
proof -
  let ?h = "header_of rec" let ?pre = "record_header_bytes ?h @ [0, 0]"
  have lf: "length F = length P" using fin by (simp add: finishes_def)
  have "5 \<le> length buf" "5 + length P \<le> length buf" using room by simp_all
  note start = start_record_run [OF this(1), of ?h]
  have w: "cb_wrap_with_pos (wb_buffer (wb_open ?h [] buf)) (wb_pos (wb_open ?h [] buf)) = cb_append ?pre (cb_wrap buf)"
    by (simp add: wb_open_def cb_wrap_with_pos_def cb_append_def cb_wrap_def)
  obtain s where p: "write_payload C pub rec w (cb_append ?pre (cb_wrap buf), t) =
      (Ok \<lparr>cb_buf = overwrite 0 (?pre @ F) buf, cb_offset = 0, cb_len = 5 + length P\<rparr>, (s, t'))"
    using write_payload_run [OF enc fin, of ?pre buf] \<open>5 + length P \<le> length buf\<close> by auto
  have o': "(wb_open ?h [] buf)\<lparr>wb_buffer := overwrite 0 (?pre @ F) buf, wb_pos := 5 + length P\<rparr> = wb_open ?h F buf"
    by (simp add: wb_open_def lf)
  have close: "close_record C w (wb_open ?h F buf) =
      (Ok (closed_record C w ?h F), wb_idle (overwrite 0 (closed_record C w ?h F) buf))"
    by (rule close_record_run [OF laws iv]) (use len room lf in simp_all)
  have "wb_current_header (wb_idle buf) = None" by (simp add: wb_idle_def)
  with start close show ?thesis
    by (simp add: write_record_def bind_apply next_do_apply on_part_apply w p o' [simplified])
qed

end
