(* ===== verification/Record_Reader.thy ===== *)
theory Record_Reader
  imports Records
begin

text \<open>
  \<open>RecordReader\<close> of src/record\_reader.rs: one record after the other is read from a transport into a
  buffer the caller provided.  The transport is the caller's implementation of \<open>embedded_io\<close>'s \<open>Read\<close>
  and \<open>Write\<close>, so it is a parameter: a record of its methods over an abstract state.  The theorems show
  that a record comes out the same however the transport cuts the stream into pieces.
\<close>

section \<open>The transport\<close>

text \<open>\<open>t_read n\<close> is \<open>read\<close> on a slice of \<open>n\<close> bytes; it yields the bytes it put at the front of the slice.\<close>

record 't transport =
  t_read :: "nat \<Rightarrow> ('t, bytes, io_error_kind) comp"
  t_write_all :: "bytes \<Rightarrow> ('t, unit, io_error_kind) comp"
  t_flush :: "('t, unit, io_error_kind) comp"

text \<open>The contract of \<open>Read::read\<close>: never more bytes than the slice has room for, and no panic.\<close>

definition read_contract :: "'t transport \<Rightarrow> bool" where
  "read_contract T \<longleftrightarrow> (\<forall>n t. case t_read T n t of (Ok d, _) \<Rightarrow> length d \<le> n | (Err _, _) \<Rightarrow> True | (Panic, _) \<Rightarrow> False)"

section \<open>Reading a record\<close>

record record_reader =
  rr_buf :: bytes
  rr_decoded :: nat
  rr_pending :: nat

definition reader_new :: "bytes \<Rightarrow> record_reader" where
  "reader_new buf = \<lparr>rr_buf = buf, rr_decoded = 0, rr_pending = 0\<rparr>"

text \<open>The loop of \<open>next_record_header_blocking\<close>; \<open>buf\<close> is its local array of five bytes.\<close>

function header_loop :: "'t transport \<Rightarrow> nat \<Rightarrow> bytes \<Rightarrow> ('t, bytes, tls_error) comp" where
  "header_loop T total_read buf t =
     (if total_read = 5 then (Ok buf, t)
      else if total_read > 5 then (Panic, t)
      else case t_read T (5 - total_read) t of
        (Ok d, t') \<Rightarrow>
          (if d = [] then (Err IoError, t')
           else header_loop T (total_read + length d) (overwrite total_read (take (5 - total_read) d) buf) t')
      | (Err k, t') \<Rightarrow> (Err (Io k), t')
      | (Panic, t') \<Rightarrow> (Panic, t'))"
  by pat_completeness auto

termination
  by (relation "measure (\<lambda>(T, n, buf, t). 5 - n)") (auto simp: neq_Nil_conv)

declare header_loop.simps [simp del]

definition next_record_header_blocking :: "'t transport \<Rightarrow> ('t, bytes, tls_error) comp" where
  "next_record_header_blocking T =
     bind (header_loop T 0 (replicate 5 0)) (\<lambda>buf. lift_result (record_header_decode buf))"

definition ensure_contiguous :: "nat \<Rightarrow> (record_reader, unit, tls_error) comp" where
  "ensure_contiguous len = (\<lambda>rd.
     if rr_decoded rd + len > length (rr_buf rd) then
       (if len > length (rr_buf rd) then (Err InsufficientSpace, rd)
        else case subslice (rr_buf rd) (rr_decoded rd) (rr_decoded rd + rr_pending rd) of
          Ok moved \<Rightarrow> (Ok (), rd\<lparr>rr_buf := overwrite 0 moved (rr_buf rd), rr_decoded := 0\<rparr>)
        | Err e \<Rightarrow> (Err e, rd)
        | Panic \<Rightarrow> (Panic, rd))
     else (Ok (), rd))"

text \<open>The loop of \<open>advance_blocking\<close>; the slice \<open>buf[decoded + pending..][..remain]\<close> must exist.\<close>

function advance_loop :: "'t transport \<Rightarrow> nat \<Rightarrow> nat \<Rightarrow> (record_reader \<times> 't, unit, tls_error) comp" where
  "advance_loop T amount remain (rd, t) =
     (if rr_pending rd < amount then
        (let start = rr_decoded rd + rr_pending rd in
         if start + remain > length (rr_buf rd) then (Panic, (rd, t))
         else case t_read T remain t of
           (Ok d, t') \<Rightarrow>
             (if d = [] then (Err IoError, (rd, t'))
              else let rd' = rd\<lparr>rr_buf := overwrite start (take remain d) (rr_buf rd)\<rparr> in
                if remain < length d then (Panic, (rd', t'))
                else advance_loop T amount (remain - length d)
                       (rd'\<lparr>rr_pending := rr_pending rd + length d\<rparr>, t'))
         | (Err k, t') \<Rightarrow> (Err (Io k), (rd, t'))
         | (Panic, t') \<Rightarrow> (Panic, (rd, t')))
      else (Ok (), (rd, t)))"
  by pat_completeness auto

termination
  by (relation "measure (\<lambda>(T, amount, remain, s). remain)") (auto simp: neq_Nil_conv)

declare advance_loop.simps [simp del]

definition advance_blocking :: "'t transport \<Rightarrow> nat \<Rightarrow> (record_reader \<times> 't, unit, tls_error) comp" where
  "advance_blocking T amount =
     next_do (on_part fst (\<lambda>rd (_, t). (rd, t)) (ensure_contiguous amount)) (advance_loop T amount amount)"

definition consume_record ::
  "cipher_suite_params \<Rightarrow> bytes \<Rightarrow> (record_reader \<times> bytes, server_record, tls_error) comp" where
  "consume_record C header =
     (let content_len = content_length header in
      bind (gets (\<lambda>(rd, _). rr_decoded rd)) (\<lambda>start.
      bind (\<lambda>(rd, digest). (subslice (rr_buf rd) start (start + content_len), (rd, digest))) (\<lambda>slice.
      next_do (modify (\<lambda>(rd, digest). (rd\<lparr>rr_decoded := rr_decoded rd + content_len\<rparr>, digest)))
     (bind (\<lambda>(rd, digest). (usub (rr_pending rd) content_len, (rd, digest))) (\<lambda>pending.
      next_do (modify (\<lambda>(rd, digest). (rd\<lparr>rr_pending := pending\<rparr>, digest)))
        (on_part snd (\<lambda>digest (rd, _). (rd, digest)) (server_record_decode C header start slice)))))))"

text \<open>\<open>read_blocking\<close>: the state is the reader, the transport and the read half of the key schedule.\<close>

definition read_blocking ::
  "cipher_suite_params \<Rightarrow> 't transport \<Rightarrow> (record_reader \<times> 't \<times> read_key_schedule, server_record, tls_error) comp" where
  "read_blocking C T =
     bind (on_part (\<lambda>(rd, t, rk). t) (\<lambda>t (rd, _, rk). (rd, t, rk)) (next_record_header_blocking T)) (\<lambda>header.
     next_do (on_part (\<lambda>(rd, t, rk). (rd, t)) (\<lambda>(rd, t) (_, _, rk). (rd, t, rk))
        (advance_blocking T (content_length header)))
       (on_part (\<lambda>(rd, t, rk). (rd, transcript_hash rk))
          (\<lambda>(rd, digest) (_, t, rk). (rd, t, rk\<lparr>transcript_hash := digest\<rparr>)) (consume_record C header)))"

section \<open>However the stream is cut\<close>

text \<open>
  A transport that will deliver these bytes next: every read on a non-empty slice yields a non-empty
  piece of them, of whatever length, and the rest remains.
\<close>

inductive delivers :: "'t transport \<Rightarrow> 't \<Rightarrow> bytes \<Rightarrow> bool" for T where
  nothing: "delivers T t []"
| piece: "(\<And>n. 0 < n \<Longrightarrow> \<exists>k t'. 0 < k \<and> k \<le> n \<and> k \<le> length bs \<and>
       t_read T n t = (Ok (take k bs), t') \<and> delivers T t' (drop k bs)) \<Longrightarrow>
     delivers T t bs"

lemma delivers_read:
  assumes "delivers T t bs" and "bs \<noteq> []" and "0 < n"
  obtains k t' where "0 < k" "k \<le> n" "k \<le> length bs" "t_read T n t = (Ok (take k bs), t')"
    "delivers T t' (drop k bs)"
  using assms by (cases rule: delivers.cases) blast+

lemma overwrite_step:
  assumes "length buf = m + n" and "length d \<le> n"
  shows "take (m + length d) (overwrite m d buf) = take m buf @ d"
  using assms by (simp add: overwrite_def)

lemma header_loop_run:
  assumes "delivers T t bs" and "length buf = 5" and "n \<le> 5" and "5 - n \<le> length bs"
  shows "\<exists>t'. header_loop T n buf t = (Ok (take n buf @ take (5 - n) bs), t') \<and>
     delivers T t' (drop (5 - n) bs)"
  using assms
proof (induction T n buf t arbitrary: bs rule: header_loop.induct)
  case (1 T n buf t)
  show ?case
  proof (cases "n = 5")
    case True
    with "1.prems" show ?thesis by (simp add: header_loop.simps)
  next
    case False
    with "1.prems" have pos: "0 < 5 - n" and ne: "bs \<noteq> []" by auto
    from delivers_read [OF "1.prems"(1) ne pos] obtain k t' where
      k: "0 < k" "k \<le> 5 - n" "k \<le> length bs" "t_read T (5 - n) t = (Ok (take k bs), t')"
        "delivers T t' (drop k bs)" .
    let ?buf = "overwrite n (take k bs) buf"
    have buf: "length ?buf = 5" "take (n + k) ?buf = take n buf @ take k bs"
      using k "1.prems" overwrite_step [of buf n "5 - n" "take k bs"] by auto
    have eq: "k + (5 - (n + k)) = 5 - n" using k "1.prems" by simp
    have "n + k \<le> 5" "5 - (n + k) \<le> length bs - k" using k "1.prems" by simp_all
    then have "\<exists>t''. header_loop T (n + k) ?buf t' =
        (Ok (take (n + k) ?buf @ take (5 - (n + k)) (drop k bs)), t'') \<and>
        delivers T t'' (drop (5 - (n + k)) (drop k bs))"
      using "1.IH" [OF False _ k(4) [symmetric] refl, of "drop k bs"] False ne k buf "1.prems"
      by (auto simp add: min_absorb2)
    moreover have "take k bs @ take (5 - (n + k)) (drop k bs) = take (5 - n) bs"
      using take_add [of k "5 - (n + k)" bs] by (simp only: eq)
    ultimately show ?thesis
      using False k "1.prems" buf by (subst header_loop.simps) (auto simp: min_absorb2)
  qed
qed

lemma advance_loop_run:
  assumes "delivers T t bs" and "amount = rr_pending rd + remain" and "remain \<le> length bs"
    and "rr_decoded rd + amount \<le> length (rr_buf rd)"
  shows "\<exists>t'. advance_loop T amount remain (rd, t) =
     (Ok (), (rd\<lparr>rr_buf := overwrite (rr_decoded rd + rr_pending rd) (take remain bs) (rr_buf rd),
        rr_pending := amount\<rparr>, t')) \<and> delivers T t' (drop remain bs)"
  using assms
proof (induction remain arbitrary: t bs rd rule: less_induct)
  case (less remain)
  show ?case
  proof (cases "remain = 0")
    case True
    with less.prems show ?thesis by (simp add: advance_loop.simps)
  next
    case False
    with less.prems have pos: "0 < remain" and ne: "bs \<noteq> []" by auto
    from delivers_read [OF less.prems(1) ne pos] obtain k t' where
      k: "0 < k" "k \<le> remain" "k \<le> length bs" "t_read T remain t = (Ok (take k bs), t')"
        "delivers T t' (drop k bs)" .
    let ?start = "rr_decoded rd + rr_pending rd"
    let ?rd = "rd\<lparr>rr_buf := overwrite ?start (take k bs) (rr_buf rd), rr_pending := rr_pending rd + k\<rparr>"
    have fits: "?start + k + (remain - k) \<le> length (rr_buf rd)" using less.prems k by simp
    have "overwrite (?start + k) (take (remain - k) (drop k bs)) (overwrite ?start (take k bs) (rr_buf rd)) =
        overwrite ?start (take remain bs) (rr_buf rd)"
      using overwrite_overwrite_adj [of ?start "take k bs" "take (remain - k) (drop k bs)" "rr_buf rd"]
        fits k less.prems(3) take_add [of k "remain - k" bs] by (simp add: min_absorb2)
    moreover obtain t'' where "advance_loop T amount (remain - k) (?rd, t') =
        (Ok (), (?rd\<lparr>rr_buf := overwrite (rr_decoded ?rd + rr_pending ?rd) (take (remain - k) (drop k bs)) (rr_buf ?rd),
           rr_pending := amount\<rparr>, t''))" "delivers T t'' (drop (remain - k) (drop k bs))"
      using less.IH [of "remain - k" t' "drop k bs" ?rd] k less.prems fits diff_le_mono [OF less.prems(3), of k]
      by auto
    ultimately show ?thesis
      using k less.prems fits ne False
      by (subst advance_loop.simps) (auto simp: Let_def min_absorb2 add.assoc)
  qed
qed

text \<open>Between two reads nothing is pending.\<close>

definition reader_inv :: "record_reader \<Rightarrow> bool" where
  "reader_inv rd \<longleftrightarrow> rr_pending rd = 0 \<and> rr_decoded rd \<le> length (rr_buf rd)"

text \<open>Where the next body of \<open>n\<close> bytes is put: after the last one, or at the front if it does not fit there.\<close>

definition body_start :: "nat \<Rightarrow> record_reader \<Rightarrow> nat" where
  "body_start n rd = (if rr_decoded rd + n > length (rr_buf rd) then 0 else rr_decoded rd)"

definition after_body :: "bytes \<Rightarrow> record_reader \<Rightarrow> record_reader" where
  "after_body body rd = \<lparr>rr_buf = overwrite (body_start (length body) rd) body (rr_buf rd),
     rr_decoded = body_start (length body) rd + length body, rr_pending = 0\<rparr>"

lemma reader_inv_new [simp]: "reader_inv (reader_new buf)"
  by (simp add: reader_inv_def reader_new_def)

lemma body_start_fits: "reader_inv rd \<Longrightarrow> n \<le> length (rr_buf rd) \<Longrightarrow> body_start n rd + n \<le> length (rr_buf rd)"
  by (simp add: body_start_def)

lemma reader_inv_after: "reader_inv rd \<Longrightarrow> length body \<le> length (rr_buf rd) \<Longrightarrow> reader_inv (after_body body rd)"
  using body_start_fits [of rd "length body"] by (simp add: reader_inv_def after_body_def)

lemma ensure_contiguous_run:
  assumes "reader_inv rd"
  shows "ensure_contiguous n rd =
    (if n > length (rr_buf rd) then (Err InsufficientSpace, rd)
     else (Ok (), rd\<lparr>rr_decoded := body_start n rd\<rparr>))"
  using assms by (auto simp: ensure_contiguous_def reader_inv_def body_start_def subslice_def)

lemma advance_blocking_run:
  assumes "reader_inv rd" and "delivers T t (body @ rest)" and "length body \<le> length (rr_buf rd)"
  shows "\<exists>t'. advance_blocking T (length body) (rd, t) =
     (Ok (), (\<lparr>rr_buf = overwrite (body_start (length body) rd) body (rr_buf rd),
        rr_decoded = body_start (length body) rd, rr_pending = length body\<rparr>, t')) \<and> delivers T t' rest"
proof -
  let ?rd = "rd\<lparr>rr_decoded := body_start (length body) rd\<rparr>"
  have "\<exists>t'. advance_loop T (length body) (length body) (?rd, t) =
     (Ok (), (?rd\<lparr>rr_buf := overwrite (rr_decoded ?rd + rr_pending ?rd) (take (length body) (body @ rest)) (rr_buf ?rd),
        rr_pending := length body\<rparr>, t')) \<and> delivers T t' (drop (length body) (body @ rest))"
    by (rule advance_loop_run [OF assms(2)])
      (use assms(1,3) body_start_fits [OF assms(1,3)] in \<open>simp_all add: reader_inv_def\<close>)
  then show ?thesis
    using assms(1,3)
    by (auto simp: advance_blocking_def next_do_apply on_part_apply ensure_contiguous_run [OF assms(1)] reader_inv_def)
qed

lemma view_overwrite: "a + length ys \<le> length xs \<Longrightarrow> take (length ys) (drop a (overwrite a ys xs)) = ys"
  by (simp add: overwrite_def)

lemma consume_record_run:
  assumes "n = content_length h" and "start + n \<le> length buf" and "body = take n (drop start buf)"
    and "server_record_decode C h start body digest = (r, digest')"
  shows "consume_record C h (\<lparr>rr_buf = buf, rr_decoded = start, rr_pending = n\<rparr>, digest) =
     (r, (\<lparr>rr_buf = buf, rr_decoded = start + n, rr_pending = 0\<rparr>, digest'))"
  using assms by (simp add: consume_record_def bind_apply next_do_apply on_part_apply subslice_def usub_def Let_def)

lemma read_blocking_run:
  assumes inv: "reader_inv rd" and dl: "delivers T t (h @ body @ rest)" and h: "length h = 5"
    and len: "length body = content_length h" "length body \<le> length (rr_buf rd)"
    and valid: "record_header_decode h = Ok h"
    and dec: "server_record_decode C h (body_start (length body) rd) body (transcript_hash rk) = (r, digest)"
  shows "\<exists>t'. read_blocking C T (rd, t, rk) =
     (r, (after_body body rd, t', rk\<lparr>transcript_hash := digest\<rparr>)) \<and> delivers T t' rest"
proof -
  obtain t1 where 1: "header_loop T 0 (replicate 5 0) t = (Ok h, t1)" "delivers T t1 (body @ rest)"
    using header_loop_run [OF dl, of "replicate 5 0" 0] h by auto
  from advance_blocking_run [OF inv 1(2) len(2)] obtain t2 where
    2: "advance_blocking T (length body) (rd, t1) =
       (Ok (), (\<lparr>rr_buf = overwrite (body_start (length body) rd) body (rr_buf rd),
          rr_decoded = body_start (length body) rd, rr_pending = length body\<rparr>, t2))" "delivers T t2 rest"
    by blast
  have fits: "body_start (length body) rd + length body \<le> length (rr_buf rd)"
    by (rule body_start_fits [OF inv len(2)])
  have "consume_record C h (\<lparr>rr_buf = overwrite (body_start (length body) rd) body (rr_buf rd),
        rr_decoded = body_start (length body) rd, rr_pending = length body\<rparr>, transcript_hash rk) =
      (r, (after_body body rd, digest))"
    using consume_record_run [OF len(1) _ view_overwrite [OF fits, symmetric] dec] fits
    by (simp add: after_body_def)
  then show ?thesis
    using 1 2 valid len(1)
    by (simp add: read_blocking_def next_record_header_blocking_def bind_apply next_do_apply on_part_apply)
qed

text \<open>A body longer than the buffer is refused before any of it is read.\<close>

lemma read_blocking_too_large:
  assumes inv: "reader_inv rd" and dl: "delivers T t (h @ rest)" and h: "length h = 5"
    and valid: "record_header_decode h = Ok h" and big: "length (rr_buf rd) < content_length h"
  shows "\<exists>t'. read_blocking C T (rd, t, rk) = (Err InsufficientSpace, (rd, t', rk)) \<and> delivers T t' rest"
proof -
  obtain t1 where 1: "header_loop T 0 (replicate 5 0) t = (Ok h, t1)" "delivers T t1 rest"
    using header_loop_run [OF dl, of "replicate 5 0" 0] h by auto
  then show ?thesis
    using valid big
    by (simp add: read_blocking_def next_record_header_blocking_def advance_blocking_def bind_apply next_do_apply
        on_part_apply ensure_contiguous_run [OF inv])
qed

lemma read_contractD:
  assumes "read_contract T" and "t_read T n t = (r, t')"
  shows "r \<noteq> Panic" and "r = Ok d \<Longrightarrow> length d \<le> n"
proof -
  have "case t_read T n t of (Ok d, _) \<Rightarrow> length d \<le> n | (Err _, _) \<Rightarrow> True | (Panic, _) \<Rightarrow> False"
    using assms(1) by (simp only: read_contract_def)
  with assms(2) show "r \<noteq> Panic" "r = Ok d \<Longrightarrow> length d \<le> n" by auto
qed

lemma header_loop_done: "header_loop T 5 buf t = (Ok buf, t)"
  by (simp add: header_loop.simps)

lemma header_loop_step:
  assumes "n < 5" and "t_read T (5 - n) t = (r, t')"
  shows "header_loop T n buf t = (case r of
      Ok d \<Rightarrow> if d = [] then (Err IoError, t')
        else header_loop T (n + length d) (overwrite n (take (5 - n) d) buf) t'
    | Err k \<Rightarrow> (Err (Io k), t')
    | Panic \<Rightarrow> (Panic, t'))"
  using assms by (subst header_loop.simps) simp

lemma header_loop_contract:
  assumes "read_contract T"
  shows "n \<le> 5 \<Longrightarrow> length buf = 5 \<Longrightarrow> header_loop T n buf t = (r, t') \<Longrightarrow>
     r \<noteq> Panic \<and> (\<forall>h. r = Ok h \<longrightarrow> length h = 5)"
proof (induction "5 - n" arbitrary: n buf t rule: less_induct)
  case less
  show ?case
  proof (cases "n = 5")
    case True
    with less.prems show ?thesis by (auto simp: header_loop_done)
  next
    case False
    then have n: "n < 5" using less.prems by simp
    obtain r0 t0 where run: "t_read T (5 - n) t = (r0, t0)" by fastforce
    note C = read_contractD [OF assms run]
    note step = header_loop_step [OF n run, of buf]
    show ?thesis
    proof (cases r0)
      case (Ok d)
      show ?thesis
      proof (cases "d = []")
        case True
        with step Ok less.prems show ?thesis by auto
      next
        case False
        have d: "length d \<le> 5 - n" by (rule C(2) [OF Ok])
        let ?buf = "overwrite n (take (5 - n) d) buf"
        have "5 - (n + length d) < 5 - n" using False n by (cases d) auto
        moreover have "n + length d \<le> 5" "length ?buf = 5" using d n less.prems(2) by simp_all
        moreover have "header_loop T (n + length d) ?buf t0 = (r, t')" using step Ok False less.prems(3) by simp
        ultimately show ?thesis by (rule less.hyps)
      qed
    next
      case (Err k)
      with step less.prems(3) show ?thesis by auto
    next
      case Panic
      with C(1) show ?thesis by simp
    qed
  qed
qed

lemma advance_loop_done: "\<not> rr_pending rd < amount \<Longrightarrow> advance_loop T amount remain (rd, t) = (Ok (), (rd, t))"
  by (simp add: advance_loop.simps)

lemma advance_loop_step:
  assumes "rr_pending rd < amount" and "rr_decoded rd + rr_pending rd + remain \<le> length (rr_buf rd)"
    and "t_read T remain t = (r, t')" and "\<And>d. r = Ok d \<Longrightarrow> length d \<le> remain"
  shows "advance_loop T amount remain (rd, t) = (case r of
      Ok d \<Rightarrow> if d = [] then (Err IoError, (rd, t'))
        else advance_loop T amount (remain - length d)
          (rd\<lparr>rr_buf := overwrite (rr_decoded rd + rr_pending rd) d (rr_buf rd), rr_pending := rr_pending rd + length d\<rparr>, t')
    | Err k \<Rightarrow> (Err (Io k), (rd, t'))
    | Panic \<Rightarrow> (Panic, (rd, t')))"
  using assms by (subst advance_loop.simps) (auto simp: Let_def split: result.split)

lemma advance_loop_contract:
  assumes "read_contract T"
  shows "amount = rr_pending rd + remain \<Longrightarrow> rr_decoded rd + amount \<le> length (rr_buf rd) \<Longrightarrow>
     advance_loop T amount remain (rd, t) = (r, (rd', t')) \<Longrightarrow>
     r \<noteq> Panic \<and> rr_decoded rd' = rr_decoded rd \<and> length (rr_buf rd') = length (rr_buf rd) \<and>
     (r = Ok () \<and> rr_pending rd' = amount \<or> r = Err IoError \<or> (\<exists>k. r = Err (Io k)))"
proof (induction remain arbitrary: t rd rule: less_induct)
  case (less remain)
  show ?case
  proof (cases "rr_pending rd < amount")
    case False
    with less.prems show ?thesis by (auto simp: advance_loop_done)
  next
    case True
    obtain r0 t0 where run: "t_read T remain t = (r0, t0)" by fastforce
    note C = read_contractD [OF assms run]
    have "rr_decoded rd + rr_pending rd + remain \<le> length (rr_buf rd)" using less.prems by simp
    note step = advance_loop_step [OF True this run C(2)]
    show ?thesis
    proof (cases "\<exists>d. r0 = Ok d \<and> d \<noteq> []")
      case True
      then obtain d where Ok: "r0 = Ok d" and ne: "0 < length d" by auto
      let ?rd = "rd\<lparr>rr_buf := overwrite (rr_decoded rd + rr_pending rd) d (rr_buf rd),
         rr_pending := rr_pending rd + length d\<rparr>"
      have d: "length d \<le> remain" by (rule C(2) [OF Ok])
      have "advance_loop T amount (remain - length d) (?rd, t0) = (r, (rd', t'))"
        using less.prems(3) step Ok ne by simp
      moreover have "remain - length d < remain" using d ne by linarith
      ultimately show ?thesis using less.IH [of "remain - length d" ?rd t0] less.prems(1,2) d by simp
    next
      case False
      with step less.prems(3) C(1) show ?thesis by (cases r0) auto
    qed
  qed
qed

section \<open>Properties\<close>

text \<open>Reading one record after the other.\<close>

fun read_records ::
  "cipher_suite_params \<Rightarrow> 't transport \<Rightarrow> nat \<Rightarrow> (record_reader \<times> 't \<times> read_key_schedule, server_record list, tls_error) comp" where
  "read_records C T 0 = return []"
| "read_records C T (Suc n) =
     bind (read_blocking C T) (\<lambda>r. bind (read_records C T n) (\<lambda>rs. return (r # rs)))"

text \<open>What the reader makes of a list of records, without any transport.\<close>

fun decode_records ::
  "cipher_suite_params \<Rightarrow> (bytes \<times> bytes) list \<Rightarrow> (record_reader \<times> read_key_schedule, server_record list, tls_error) comp" where
  "decode_records C [] = return []"
| "decode_records C ((h, body) # recs) = (\<lambda>(rd, rk).
     case server_record_decode C h (body_start (length body) rd) body (transcript_hash rk) of
       (Ok r, digest) \<Rightarrow>
         bind (decode_records C recs) (\<lambda>rs. return (r # rs)) (after_body body rd, rk\<lparr>transcript_hash := digest\<rparr>)
     | (Err e, digest) \<Rightarrow> (Err e, (after_body body rd, rk\<lparr>transcript_hash := digest\<rparr>))
     | (Panic, digest) \<Rightarrow> (Panic, (after_body body rd, rk\<lparr>transcript_hash := digest\<rparr>)))"

definition framed :: "nat \<Rightarrow> bytes \<times> bytes \<Rightarrow> bool" where
  "framed n = (\<lambda>(h, body). length h = 5 \<and> record_header_decode h = Ok h \<and> length body = content_length h \<and> length body \<le> n)"

definition wire :: "(bytes \<times> bytes) list \<Rightarrow> bytes" where
  "wire recs = concat (map (\<lambda>(h, body). h @ body) recs)"

lemma wire_Cons: "wire ((h, body) # recs) = h @ body @ wire recs"
  by (simp add: wire_def)

text \<open>A transport over a byte list that serves at most \<open>k + 1\<close> bytes per read.\<close>

definition chunk_transport :: "nat \<Rightarrow> bytes transport" where
  "chunk_transport k = \<lparr>t_read = (\<lambda>n t. (Ok (take (min n (Suc k)) t), drop (min n (Suc k)) t)),
     t_write_all = (\<lambda>bs. return ()), t_flush = return ()\<rparr>"

lemma chunk_transport_delivers: "delivers (chunk_transport k) t t"
proof (induction t rule: length_induct)
  case (1 t)
  show ?case
  proof (cases "t = []")
    case False
    show ?thesis
    proof (rule delivers.piece)
      fix n :: nat assume "0 < n"
      let ?m = "min (min n (Suc k)) (length t)"
      have m: "0 < ?m" "?m \<le> n" "?m \<le> length t" using \<open>0 < n\<close> False by auto
      have "t_read (chunk_transport k) n t = (Ok (take ?m t), drop ?m t)"
        by (auto simp: chunk_transport_def min_def)
      moreover have "delivers (chunk_transport k) (drop ?m t) (drop ?m t)" using 1 m by simp
      ultimately show "\<exists>k' t'. 0 < k' \<and> k' \<le> n \<and> k' \<le> length t \<and>
          t_read (chunk_transport k) n t = (Ok (take k' t), t') \<and> delivers (chunk_transport k) t' (drop k' t)"
        using m by blast
    qed
  qed (simp add: delivers.nothing)
qed

text \<open>
  C19: however the transport cuts the stream into pieces, reading a sequence of well-framed records that
  each fit into the reader's buffer gives exactly the records decoded from their headers and bodies,
  in order, with the same transcript; the bytes behind the last record stay in the transport.
\<close>

theorem reading_ignores_chunking:
  assumes "reader_inv rd" and "delivers T t (wire recs @ rest)"
    and "list_all (framed (length (rr_buf rd))) recs"
    and "decode_records C recs (rd, rk) = (Ok rs, (rd', rk'))"
  shows "\<exists>t'. read_records C T (length recs) (rd, t, rk) = (Ok rs, (rd', t', rk')) \<and>
     delivers T t' rest \<and> reader_inv rd'"
  using assms
proof (induction recs arbitrary: rd t rk rs)
  case Nil
  then show ?case by (auto simp: wire_def)
next
  case (Cons rec recs)
  obtain h body where rec: "rec = (h, body)" by fastforce
  have fr: "length h = 5" "record_header_decode h = Ok h" "length body = content_length h"
      "length body \<le> length (rr_buf rd)"
    using Cons.prems(3) by (simp_all add: rec framed_def)
  have dl: "delivers T t (h @ body @ (wire recs @ rest))" using Cons.prems(2) by (simp add: rec wire_Cons)
  obtain r digest where dec:
    "server_record_decode C h (body_start (length body) rd) body (transcript_hash rk) = (Ok r, digest)"
    using Cons.prems(4) by (auto simp: rec split: prod.splits result.splits)
  from read_blocking_run [OF Cons.prems(1) dl fr(1,3,4,2) dec] obtain t1 where
    1: "read_blocking C T (rd, t, rk) = (Ok r, (after_body body rd, t1, rk\<lparr>transcript_hash := digest\<rparr>))"
      "delivers T t1 (wire recs @ rest)" by blast
  obtain rs' where rs: "decode_records C recs (after_body body rd, rk\<lparr>transcript_hash := digest\<rparr>) = (Ok rs', (rd', rk'))"
      "rs = r # rs'"
    using Cons.prems(4) dec by (auto simp: rec bind_apply split: prod.splits result.splits)
  have "length (rr_buf (after_body body rd)) = length (rr_buf rd)"
    using body_start_fits [OF Cons.prems(1) fr(4)] by (simp add: after_body_def)
  with Cons.IH [OF reader_inv_after [OF Cons.prems(1) fr(4)] 1(2) _ rs(1)] Cons.prems(3)
  obtain t' where "read_records C T (length recs) (after_body body rd, t1, rk\<lparr>transcript_hash := digest\<rparr>) =
      (Ok rs', (rd', t', rk'))" "delivers T t' rest" "reader_inv rd'"
    by auto
  then show ?case using 1 rs(2) by (simp add: bind_apply)
qed

theorem reading_ignores_chunking_witness:
  "\<exists>s'. read_records toy_suite (chunk_transport 1) 2
      (reader_new (replicate 4 0), [23, 3, 3, 0, 4, 1, 2, 3, 4, 21, 3, 3, 0, 2, 1, 0, 7], server_state (ks_new toy_suite)) =
    (Ok [SR_ApplicationData \<lparr>ad_header = [23, 3, 3, 0, 4], ad_start = 0, ad_data = cb_wrap_with_pos [1, 2, 3, 4] 4\<rparr>,
         SR_Alert (alert_new AL_Warning AD_CloseNotify)], s')"
proof -
  let ?recs = "[([23, 3, 3, 0, 4], [1, 2, 3, 4]), ([21, 3, 3, 0, 2], [1, 0])] :: (bytes \<times> bytes) list"
  let ?rd = "reader_new (replicate 4 0)" and ?rk = "server_state (ks_new toy_suite)"
  have d: "delivers (chunk_transport 1) [23, 3, 3, 0, 4, 1, 2, 3, 4, 21, 3, 3, 0, 2, 1, 0, 7] (wire ?recs @ [7])"
    using chunk_transport_delivers by (simp add: wire_def)
  have f: "list_all (framed (length (rr_buf ?rd))) ?recs"
    by (simp add: framed_def reader_new_def record_header_decode_def content_length_def content_type_of_def of_be16_def)
  have four: "Suc (Suc (Suc (Suc 0))) = 4" by simp
  have two: "length ?recs = 2" by simp
  obtain rd' rk' where dec: "decode_records toy_suite ?recs (?rd, ?rk) =
      (Ok [SR_ApplicationData \<lparr>ad_header = [23, 3, 3, 0, 4], ad_start = 0, ad_data = cb_wrap_with_pos [1, 2, 3, 4] 4\<rparr>,
         SR_Alert (alert_new AL_Warning AD_CloseNotify)], (rd', rk'))"
    by (simp add: server_record_decode_def content_length_def of_be16_def header_type_def content_type_of_def bind_apply
        application_data_new_def body_start_def reader_new_def after_body_def alert_parse_def read_u8_def
        from_parse_apply alert_level_of_def alert_description_of_def alert_new_def ok_or_def
        four)
  from reading_ignores_chunking [OF reader_inv_new d f dec, unfolded two] show ?thesis by blast
qed

text \<open>
  C20: with any transport that keeps to the contract of \<open>read\<close>, reading a record from a well formed reader never
  panics, whatever bytes the peer sends.  The reader keeps its buffer's length and is well formed afterwards, with
  one exception: if the transport fails or ends when a part of a record's body is there already, that part stays pending.
\<close>

theorem read_never_panics:
  assumes "read_contract T" and "reader_inv rd" and "read_blocking C T (rd, t, rk) = (r, (rd', t', rk'))"
  shows "r \<noteq> Panic \<and> length (rr_buf rd') = length (rr_buf rd) \<and>
     (reader_inv rd' \<or> (r = Err IoError \<or> (\<exists>k. r = Err (Io k))) \<and> 0 < rr_pending rd')"
proof -
  obtain rh t1 where hl: "header_loop T 0 (replicate 5 0) t = (rh, t1)" by fastforce
  note H = header_loop_contract [OF assms(1) _ _ hl]
  show ?thesis
  proof (cases "\<exists>h. rh = Ok h \<and> record_header_decode h = Ok h")
    case False
    with H assms(2,3) hl record_header_decode_OkD show ?thesis
      by (cases rh) (auto simp: read_blocking_def next_record_header_blocking_def bind_apply on_part_apply
          record_header_decode_def split: option.splits)
  next
    case True
    then obtain h where h: "rh = Ok h" "record_header_decode h = Ok h" by blast
    let ?n = "content_length h" let ?rd = "rd\<lparr>rr_decoded := body_start ?n rd\<rparr>"
    show ?thesis
    proof (cases "?n \<le> length (rr_buf rd)")
      case False
      with assms(2,3) hl h show ?thesis
        by (auto simp: read_blocking_def next_record_header_blocking_def advance_blocking_def bind_apply next_do_apply
            on_part_apply ensure_contiguous_run [OF assms(2)])
    next
      case True
      obtain ra rd2 t2 where al: "advance_loop T ?n ?n (?rd, t1) = (ra, (rd2, t2))" by (metis prod.exhaust)
      have fits: "body_start ?n rd + ?n \<le> length (rr_buf rd)" by (rule body_start_fits [OF assms(2) True])
      have A: "rr_decoded rd2 = body_start ?n rd" "length (rr_buf rd2) = length (rr_buf rd)"
          "ra = Ok () \<and> rr_pending rd2 = ?n \<or> ra = Err IoError \<or> (\<exists>k. ra = Err (Io k))"
        using advance_loop_contract [OF assms(1) _ _ al] fits assms(2) by (auto simp: reader_inv_def)
      let ?slice = "take ?n (drop (rr_decoded rd2) (rr_buf rd2))"
      have "fst (server_record_decode C h (rr_decoded rd2) ?slice (transcript_hash rk)) \<noteq> Panic"
        by (rule server_record_decode_no_panic [OF h(2)]) (use A fits in simp)
      with assms(3) hl h al A fits True show ?thesis
        by (cases "ra = Ok ()") (auto simp: read_blocking_def next_record_header_blocking_def advance_blocking_def
            consume_record_def bind_apply next_do_apply on_part_apply ensure_contiguous_run [OF assms(2)]
            subslice_def usub_def Let_def reader_inv_def split: prod.splits)
    qed
  qed
qed

theorem read_never_panics_witness:
  "\<exists>r rd' t' rk'. read_blocking toy_suite (chunk_transport 1)
      (reader_new [0, 0], [22, 3, 3, 0, 2, 1], server_state (ks_new toy_suite)) = (r, (rd', t', rk')) \<and>
     r \<noteq> Panic \<and> length (rr_buf rd') = 2"
proof -
  have "read_contract (chunk_transport 1)" by (auto simp: read_contract_def chunk_transport_def)
  moreover obtain r rd' t' rk' where run: "read_blocking toy_suite (chunk_transport 1)
      (reader_new [0, 0], [22, 3, 3, 0, 2, 1], server_state (ks_new toy_suite)) = (r, (rd', t', rk'))" by (metis prod.exhaust)
  ultimately have "r \<noteq> Panic \<and> length (rr_buf rd') = length (rr_buf (reader_new [0, 0]))"
    using read_never_panics [OF _ reader_inv_new run] by blast
  with run show ?thesis by (simp add: reader_new_def)
qed

text \<open>
  A transport that fails once in the middle of a record.  The bytes read before stay counted as pending,
  the next call expects a header again and then asks for a slice behind the end of the buffer.
\<close>

definition script_transport :: "(bytes, io_error_kind) result list transport" where
  "script_transport = \<lparr>t_read = (\<lambda>n t. case t of [] \<Rightarrow> (Ok [], []) | r # rs \<Rightarrow> (r, rs)),
     t_write_all = (\<lambda>bs. return ()), t_flush = return ()\<rparr>"

lemma reader_panics_after_io_error:
  "case read_blocking C script_transport (reader_new (replicate 8 0),
      [Ok [23, 3, 3, 0, 6], Ok [1, 2, 3, 4], Err 0, Ok [23, 3, 3, 0, 6]], rk) of
     (r, s) \<Rightarrow> r = Err (Io 0) \<and> fst (read_blocking C script_transport s) = Panic"
  by (simp add: read_blocking_def next_record_header_blocking_def advance_blocking_def ensure_contiguous_def
      bind_apply next_do_apply on_part_apply header_loop.simps advance_loop.simps script_transport_def
      record_header_decode_def content_type_of_def content_length_def of_be16_def reader_new_def Let_def overwrite_def)

end
