(* ===== verification/Connection.thy ===== *)
theory Connection
  imports Write_Buffer Record_Reader
begin

text \<open>
  The client's handshake of src/connection.rs: the states, what happens in each, and \<open>process_blocking\<close>,
  which runs one of them.  The transport, the crypto provider (certificate verification, client
  certificate, signatures, random numbers) and the P-256 operations are supplied by the user or by
  third-party code and are parameters.
\<close>

section \<open>State\<close>

text \<open>The \<open>CryptoProvider\<close> and its \<open>TlsVerifier\<close>; \<open>cp_verifier\<close> says whether there is a verifier.\<close>

record 'p crypto_provider =
  cp_random :: "'p \<Rightarrow> bytes \<times> 'p"
  cp_secret :: "'p \<Rightarrow> bytes \<times> 'p"
  cp_verifier :: "('p, unit, tls_error) comp"
  cp_set_hostname :: "bytes \<Rightarrow> ('p, unit, tls_error) comp"
  cp_verify_certificate :: "bytes \<Rightarrow> certificate_ref \<Rightarrow> ('p, unit, tls_error) comp"
  cp_verify_signature :: "certificate_verify \<Rightarrow> ('p, unit, tls_error) comp"
  cp_client_cert :: "'p \<Rightarrow> certificate_entry_ref option \<times> 'p"
  cp_signer :: "('p, (bytes \<Rightarrow> bytes) \<times> signature_scheme, tls_error) comp"

text \<open>Elliptic curve operations: the encoding of a public key, and the shared secret if the point is valid.\<close>

record p256_params =
  p256_public :: "bytes \<Rightarrow> bytes"
  p256_dh :: "bytes \<Rightarrow> bytes \<Rightarrow> bytes option"

record handshake_data =
  hs_traffic_hash :: "bytes option"
  hs_secret :: "bytes option"
  hs_certificate_request :: "bytes option"

definition handshake_new :: handshake_data where
  "handshake_new = \<lparr>hs_traffic_hash = None, hs_secret = None, hs_certificate_request = None\<rparr>"

datatype conn_state =
  S_ClientHello | S_ServerHello | S_ServerVerify | S_ClientCert | S_ClientCertVerify | S_ClientFinished | S_ApplicationData

record ('t, 'p) client =
  cl_transport :: 't
  cl_handshake :: handshake_data
  cl_reader :: record_reader
  cl_tx :: write_buffer
  cl_ks :: key_schedule
  cl_provider :: 'p

type_synonym ('t, 'p, 'a) client_op = "(('t, 'p) client, 'a, tls_error) comp"

definition on_provider :: "('p, 'a, tls_error) comp \<Rightarrow> ('t, 'p, 'a) client_op" where
  "on_provider = on_part cl_provider (\<lambda>p s. s\<lparr>cl_provider := p\<rparr>)"

definition on_keys :: "'a ks_op \<Rightarrow> ('t, 'p, 'a) client_op" where
  "on_keys = on_part cl_ks (\<lambda>k s. s\<lparr>cl_ks := k\<rparr>)"

definition on_transport :: "('t, 'a, io_error_kind) comp \<Rightarrow> ('t, 'p, 'a) client_op" where
  "on_transport m = on_part cl_transport (\<lambda>t s. s\<lparr>cl_transport := t\<rparr>) (map_err Io m)"

text \<open>\<open>tx_buf.write_record(record, write_key_schedule, Some(read_key_schedule))\<close>.\<close>

definition send_record :: "cipher_suite_params \<Rightarrow> p256_params \<Rightarrow> client_record \<Rightarrow> ('t, 'p, bytes) client_op" where
  "send_record C E rec =
     bind (gets (\<lambda>s. client_state (cl_ks s))) (\<lambda>w.
     on_part (\<lambda>s. (cl_tx s, ks_transcript (cl_ks s)))
       (\<lambda>(wb, t) s. s\<lparr>cl_tx := wb, cl_ks := replace_transcript_hash t (cl_ks s)\<rparr>)
       (write_record C (p256_public E) rec w))"

text \<open>\<open>record_reader.read_blocking(transport, key_schedule.read_state())\<close>.\<close>

definition receive_record :: "cipher_suite_params \<Rightarrow> 't transport \<Rightarrow> ('t, 'p, server_record) client_op" where
  "receive_record C T =
     on_part (\<lambda>s. (cl_reader s, cl_transport s, server_state (cl_ks s)))
       (\<lambda>(rd, t, rk) s. s\<lparr>cl_reader := rd, cl_transport := t, cl_ks := (cl_ks s)\<lparr>server_state := rk\<rparr>\<rparr>)
       (read_blocking C T)"

section \<open>The steps of the handshake\<close>

definition respond_blocking :: "'t transport \<Rightarrow> bytes \<Rightarrow> ('t, 'p, unit) client_op" where
  "respond_blocking T tx =
     next_do (on_transport (t_write_all T tx))
    (next_do (on_keys (on_client increment_counter))
       (on_transport (t_flush T)))"

definition handle_processing_error_blocking ::
  "cipher_suite_params \<Rightarrow> p256_params \<Rightarrow> 't transport \<Rightarrow> (conn_state, tls_error) result \<Rightarrow> ('t, 'p, conn_state) client_op" where
  "handle_processing_error_blocking C E T result =
     (case result of
        Err (AbortHandshake level description) \<Rightarrow>
          bind (send_record C E (CR_Alert \<lparr>alert_level = level, alert_description = description\<rparr> False)) (\<lambda>tx.
          next_do (respond_blocking T tx) (lift_result result))
      | _ \<Rightarrow> lift_result result)"

definition client_hello :: "cipher_suite_params \<Rightarrow> p256_params \<Rightarrow> 'p crypto_provider \<Rightarrow> tls_config \<Rightarrow>
  ('t, 'p, conn_state \<times> bytes) client_op" where
  "client_hello C E P config =
     next_do (on_keys (initialize_early_secret C (map_option fst (cfg_psk config))))
    (bind (on_provider (\<lambda>p. case cp_random P p of (bs, p') \<Rightarrow> (Ok bs, p'))) (\<lambda>random.
     bind (on_provider (\<lambda>p. case cp_secret P p of (bs, p') \<Rightarrow> (Ok bs, p'))) (\<lambda>secret.
     bind (send_record C E (client_hello_record config random secret)) (\<lambda>slice.
     next_do (modify (\<lambda>s. s\<lparr>cl_handshake := (cl_handshake s)\<lparr>hs_secret := Some secret\<rparr>\<rparr>))
       (return (S_ServerHello, slice))))))"

definition process_server_hello ::
  "cipher_suite_params \<Rightarrow> p256_params \<Rightarrow> server_record \<Rightarrow> ('t, 'p, conn_state) client_op" where
  "process_server_hello C E rec =
     (case rec of
        SR_Handshake (ServerHello server_hello) \<Rightarrow>
          bind (gets (\<lambda>s. hs_secret (cl_handshake s))) (\<lambda>secret_opt.
          next_do (modify (\<lambda>s. s\<lparr>cl_handshake := (cl_handshake s)\<lparr>hs_secret := None\<rparr>\<rparr>))
         (bind (lift_result (ok_or InvalidHandshake secret_opt)) (\<lambda>secret.
          bind (lift_result (ok_or InvalidKeyShare (calculate_shared_secret (p256_dh E) secret server_hello))) (\<lambda>sh.
          next_do (on_keys (initialize_handshake_secret C sh))
            (return S_ServerVerify)))))
      | SR_Handshake _ \<Rightarrow> throw InvalidHandshake
      | SR_Alert a \<Rightarrow> throw (HandshakeAborted (alert_level a) (alert_description a))
      | _ \<Rightarrow> throw InvalidRecord)"

text \<open>
  The callback of \<open>process_server_verify\<close>: besides the read half of the key schedule it owns the next
  state, the handshake data and the provider.
\<close>

type_synonym 'p verify_st = "read_key_schedule \<times> conn_state \<times> handshake_data \<times> 'p"

definition with_verifier :: "'p crypto_provider \<Rightarrow> ('p, unit, tls_error) comp \<Rightarrow> ('p verify_st, unit, tls_error) comp" where
  "with_verifier P op =
     on_part (\<lambda>(rk, st, hs, p). p) (\<lambda>p (rk, st, hs, _). (rk, st, hs, p)) (\<lambda>p.
       case cp_verifier P p of
         (Ok _, p') \<Rightarrow> op p'
       | (Err _, p') \<Rightarrow> (Ok (), p')
       | (Panic, p') \<Rightarrow> (Panic, p'))"

definition verify_handler ::
  "cipher_suite_params \<Rightarrow> 'p crypto_provider \<Rightarrow> server_record \<Rightarrow> ('p verify_st, unit, tls_error) comp" where
  "verify_handler C P rec =
     (case rec of
        SR_Handshake EncryptedExtensions \<Rightarrow> return ()
      | SR_Handshake (ServerCertificate certificate) \<Rightarrow>
          bind (gets (\<lambda>(rk, _). transcript_hash rk)) (\<lambda>transcript.
          with_verifier P (cp_verify_certificate P transcript certificate))
      | SR_Handshake (ServerCertificateVerify verify) \<Rightarrow> with_verifier P (cp_verify_signature P verify)
      | SR_Handshake (CertificateRequest request) \<Rightarrow>
          bind (lift_result (certificate_request_try_from request)) (\<lambda>owned.
          modify (\<lambda>(rk, st, hs, p). (rk, st, hs\<lparr>hs_certificate_request := Some owned\<rparr>, p)))
      | SR_Handshake (ServerFinished finished) \<Rightarrow>
          bind (\<lambda>(rk, c). (verify_finished C (traffic_secret (r_state rk)) finished, (rk, c))) (\<lambda>verified.
          if \<not> verified then throw InvalidSignature
          else modify (\<lambda>(rk, st, hs, p).
            if hs_certificate_request hs \<noteq> None then (rk, S_ClientCert, hs, p)
            else (rk, S_ClientFinished, hs\<lparr>hs_traffic_hash := Some (transcript_hash rk)\<rparr>, p)))
      | SR_Handshake _ \<Rightarrow> throw InvalidHandshake
      | SR_ChangeCipherSpec \<Rightarrow> return ()
      | _ \<Rightarrow> throw InvalidRecord)"

definition process_server_verify ::
  "cipher_suite_params \<Rightarrow> 'p crypto_provider \<Rightarrow> server_record \<Rightarrow> ('t, 'p, conn_state) client_op" where
  "process_server_verify C P rec = (\<lambda>s.
     case decrypt_record C (verify_handler C P) rec
            ((server_state (cl_ks s), S_ServerVerify, cl_handshake s, cl_provider s), rr_buf (cl_reader s)) of
       (r, ((rk, st, hs, p), mem)) \<Rightarrow>
         (case r of Ok _ \<Rightarrow> Ok st | Err e \<Rightarrow> Err e | Panic \<Rightarrow> Panic,
          s\<lparr>cl_ks := (cl_ks s)\<lparr>server_state := rk\<rparr>, cl_handshake := hs, cl_provider := p,
            cl_reader := (cl_reader s)\<lparr>rr_buf := mem\<rparr>\<rparr>))"

definition client_cert ::
  "cipher_suite_params \<Rightarrow> p256_params \<Rightarrow> 'p crypto_provider \<Rightarrow> ('t, 'p, conn_state \<times> bytes) client_op" where
  "client_cert C E P =
     next_do (modify (\<lambda>s. s\<lparr>cl_handshake := (cl_handshake s)\<lparr>hs_traffic_hash := Some (ks_transcript (cl_ks s))\<rparr>\<rparr>))
    (bind (gets (\<lambda>s. hs_certificate_request (cl_handshake s))) (\<lambda>request.
     bind (lift_result (ok_or InvalidHandshake request)) (\<lambda>ctx.
     bind (on_provider (\<lambda>p. case cp_client_cert P p of (c, p') \<Rightarrow> (Ok c, p'))) (\<lambda>cert.
     bind (case cert of
        Some c \<Rightarrow> (\<lambda>s. case certificate_add c (certificate_with_context ctx) of
                     (Ok _, certificate) \<Rightarrow> (Ok (S_ClientCertVerify, certificate), s)
                   | (Err e, _) \<Rightarrow> (Err e, s)
                   | (Panic, _) \<Rightarrow> (Panic, s))
      | None \<Rightarrow> return (S_ClientFinished, certificate_with_context ctx)) (\<lambda>(next_state, certificate).
     bind (send_record C E (CR_Handshake (ClientCert certificate) True)) (\<lambda>slice.
     return (next_state, slice)))))))"

definition signature_context :: bytes where
  "signature_context = ascii ''TLS 1.3, client CertificateVerify'' @ [0]"

text \<open>
  The \<open>heapless::Vec\<close> for the signed message holds 146 bytes, the one for the signature \<open>sig_size\<close>,
  which depends on a feature of the crate; a longer signature is unwrapped.
\<close>

definition client_cert_verify ::
  "cipher_suite_params \<Rightarrow> p256_params \<Rightarrow> nat \<Rightarrow> 'p crypto_provider \<Rightarrow>
   ('t, 'p, (conn_state, tls_error) result \<times> bytes) client_op" where
  "client_cert_verify C E sig_size P =
     bind (\<lambda>s. case cp_signer P (cl_provider s) of
         (Ok (sign, scheme), p') \<Rightarrow>
           (let msg = replicate 64 0x20 @ signature_context @ hash C (ks_transcript (cl_ks s)); s' = s\<lparr>cl_provider := p'\<rparr> in
            if length msg > 146 then (Err EncodeError, s')
            else if length (sign msg) > sig_size then (Panic, s')
            else (Ok (Ok S_ClientFinished, CR_Handshake (ClientCertVerify
                    \<lparr>cv_signature_scheme = scheme, cv_signature = sign msg\<rparr>) True), s'))
       | (Err e, p') \<Rightarrow> (Ok (Err e, CR_Alert (alert_new AL_Warning AD_CloseNotify) True), s\<lparr>cl_provider := p'\<rparr>)
       | (Panic, p') \<Rightarrow> (Panic, s\<lparr>cl_provider := p'\<rparr>)) (\<lambda>(result, rec).
     bind (send_record C E rec) (\<lambda>slice. return (result, slice)))"

definition client_finished :: "cipher_suite_params \<Rightarrow> p256_params \<Rightarrow> ('t, 'p, bytes) client_op" where
  "client_finished C E =
     bind (or_err InvalidHandshake (on_keys (create_client_finished C))) (\<lambda>finished.
     send_record C E (CR_Handshake (ClientFinished finished) True))"

definition client_finished_finalize :: "cipher_suite_params \<Rightarrow> ('t, 'p, conn_state) client_op" where
  "client_finished_finalize C =
     bind (gets (\<lambda>s. hs_traffic_hash (cl_handshake s))) (\<lambda>traffic_hash.
     next_do (modify (\<lambda>s. s\<lparr>cl_handshake := (cl_handshake s)\<lparr>hs_traffic_hash := None\<rparr>\<rparr>))
    (bind (lift_result (ok_or InvalidHandshake traffic_hash)) (\<lambda>h.
     next_do (modify (\<lambda>s. s\<lparr>cl_ks := replace_transcript_hash h (cl_ks s)\<rparr>))
    (next_do (on_keys (initialize_master_secret C)) (return S_ApplicationData)))))"

text \<open>An error of a step that is handled afterwards is a value here, not an early return.\<close>

definition attempt :: "('s, 'a, 'e) comp \<Rightarrow> ('s, ('a, 'e) result, 'e) comp" where
  "attempt m = (\<lambda>s. case m s of (Ok a, s') \<Rightarrow> (Ok (Ok a), s') | (Err e, s') \<Rightarrow> (Ok (Err e), s') | (Panic, s') \<Rightarrow> (Panic, s'))"

definition process_blocking ::
  "cipher_suite_params \<Rightarrow> p256_params \<Rightarrow> nat \<Rightarrow> 't transport \<Rightarrow> 'p crypto_provider \<Rightarrow> tls_config \<Rightarrow> conn_state \<Rightarrow>
   ('t, 'p, conn_state) client_op" where
  "process_blocking C E sig_size T P config st =
     (case st of
        S_ClientHello \<Rightarrow>
          bind (client_hello C E P config) (\<lambda>(st', tx). next_do (respond_blocking T tx) (return st'))
      | S_ServerHello \<Rightarrow>
          bind (receive_record C T) (\<lambda>rec.
          bind (attempt (process_server_hello C E rec)) (handle_processing_error_blocking C E T))
      | S_ServerVerify \<Rightarrow>
          bind (receive_record C T) (\<lambda>rec.
          bind (attempt (process_server_verify C P rec)) (handle_processing_error_blocking C E T))
      | S_ClientCert \<Rightarrow>
          bind (client_cert C E P) (\<lambda>(st', tx). next_do (respond_blocking T tx) (return st'))
      | S_ClientCertVerify \<Rightarrow>
          bind (client_cert_verify C E sig_size P) (\<lambda>(result, tx).
          next_do (respond_blocking T tx) (lift_result result))
      | S_ClientFinished \<Rightarrow>
          bind (client_finished C E) (\<lambda>tx.
          next_do (respond_blocking T tx) (client_finished_finalize C))
      | S_ApplicationData \<Rightarrow> return S_ApplicationData)"

end
