(* ===== verification/Read_Buffer.thy ===== *)
theory Read_Buffer
  imports Errors
begin

text \<open>
  How decrypted bytes are handed out: \<open>ReadBuffer\<close> (src/read_buffer.rs) and \<open>DecryptedBufferInfo\<close>
  (src/common/decrypted\_buffer\_info.rs).  A \<open>ReadBuffer\<close> borrows the connection's counter of consumed
  bytes and adds to it when it is dropped, so dropping is an operation of the model.  The theorems
  show that, whatever mix of operations is used, the bytes come out in order, none twice and none lost.
\<close>

section \<open>ReadBuffer\<close>

record read_buffer =
  rb_data :: bytes
  rb_consumed :: nat
  rb_used :: bool

definition rb_new :: "bytes \<Rightarrow> read_buffer" where
  "rb_new buffer = \<lparr>rb_data = buffer, rb_consumed = 0, rb_used = False\<rparr>"

definition rb_len :: "read_buffer \<Rightarrow> (nat, tls_error) result" where
  "rb_len b = usub (length (rb_data b)) (rb_consumed b)"

definition rb_is_empty :: "read_buffer \<Rightarrow> (bool, tls_error) result" where
  "rb_is_empty b = (case rb_len b of Ok n \<Rightarrow> Ok (n = 0) | Err e \<Rightarrow> Err e | Panic \<Rightarrow> Panic)"

definition peek :: "nat \<Rightarrow> (read_buffer, bytes, tls_error) comp" where
  "peek count =
     bind (\<lambda>b. (rb_len b, b)) (\<lambda>n.
     let cnt = min n count in
     bind (gets rb_consumed) (\<lambda>start.
     next_do (modify (\<lambda>b. b\<lparr>rb_used := True\<rparr>))
       (\<lambda>b. (subslice (rb_data b) start (start + cnt), b))))"

definition peek_all :: "(read_buffer, bytes, tls_error) comp" where
  "peek_all = bind (\<lambda>b. (rb_len b, b)) peek"

definition pop :: "nat \<Rightarrow> (read_buffer, bytes, tls_error) comp" where
  "pop count =
     bind (\<lambda>b. (rb_len b, b)) (\<lambda>n.
     let cnt = min n count in
     bind (gets rb_consumed) (\<lambda>start.
     next_do (modify (\<lambda>b. b\<lparr>rb_consumed := rb_consumed b + cnt, rb_used := True\<rparr>))
       (\<lambda>b. (subslice (rb_data b) start (start + cnt), b))))"

definition pop_all :: "(read_buffer, bytes, tls_error) comp" where
  "pop_all = bind (\<lambda>b. (rb_len b, b)) pop"

text \<open>\<open>pop_into(buf)\<close>: the new contents of the caller's slice come with the number of bytes.\<close>

definition pop_into :: "bytes \<Rightarrow> (read_buffer, nat \<times> bytes, tls_error) comp" where
  "pop_into buf =
     bind (pop (length buf)) (\<lambda>to_copy.
     bind (lift_result (store_slice buf 0 to_copy)) (\<lambda>buf'.
     return (length to_copy, buf')))"

text \<open>
  The end of a \<open>ReadBuffer\<close>'s life: \<open>drop\<close> adds to the borrowed counter, \<open>revert\<close> forgets the buffer
  so that \<open>drop\<close> does not run.  Both map the counter to its new value.
\<close>

definition rb_drop :: "read_buffer \<Rightarrow> nat \<Rightarrow> nat" where
  "rb_drop b decrypted_consumed =
     decrypted_consumed + (if rb_used b then rb_consumed b else length (rb_data b))"


section \<open>DecryptedBufferInfo\<close>

record decrypted_buffer_info =
  di_offset :: nat
  di_len :: nat
  di_consumed :: nat

definition di_default :: decrypted_buffer_info where
  "di_default = \<lparr>di_offset = 0, di_len = 0, di_consumed = 0\<rparr>"

definition create_read_buffer :: "bytes \<Rightarrow> decrypted_buffer_info \<Rightarrow> (read_buffer, tls_error) result" where
  "create_read_buffer buffer info =
     (let offset = di_offset info + di_consumed info; end_pos = di_offset info + di_len info in
      case subslice buffer offset end_pos of
        Ok bs \<Rightarrow> Ok (rb_new bs) | Err e \<Rightarrow> Err e | Panic \<Rightarrow> Panic)"

definition info_len :: "decrypted_buffer_info \<Rightarrow> (nat, tls_error) result" where
  "info_len info = usub (di_len info) (di_consumed info)"

definition info_is_empty :: "decrypted_buffer_info \<Rightarrow> (bool, tls_error) result" where
  "info_is_empty info = (case info_len info of Ok n \<Rightarrow> Ok (n = 0) | Err e \<Rightarrow> Err e | Panic \<Rightarrow> Panic)"

text \<open>
  One borrow of the buffer: create it, run an operation on it, drop it.  This is how \<open>read\<close> and the
  two \<open>BufRead\<close> methods of a connection use the type.
\<close>

definition with_read_buffer ::
  "bytes \<Rightarrow> (read_buffer, 'a, tls_error) comp \<Rightarrow> (decrypted_buffer_info, 'a, tls_error) comp" where
  "with_read_buffer buffer op =
     bind (\<lambda>info. (create_read_buffer buffer info, info)) (\<lambda>rb.
     \<lambda>info. case op rb of (r, rb') \<Rightarrow> (r, info\<lparr>di_consumed := rb_drop rb' (di_consumed info)\<rparr>))"

section \<open>Bytes come out in order, none twice and none lost\<close>

definition rb_inv :: "read_buffer \<Rightarrow> bool" where
  "rb_inv b \<longleftrightarrow> rb_consumed b \<le> length (rb_data b)"

definition info_inv :: "bytes \<Rightarrow> decrypted_buffer_info \<Rightarrow> bool" where
  "info_inv buffer info \<longleftrightarrow> di_consumed info \<le> di_len info \<and> di_offset info + di_len info \<le> length buffer"

text \<open>What is still to be handed out.\<close>

definition rb_rest :: "read_buffer \<Rightarrow> bytes" where
  "rb_rest b = drop (rb_consumed b) (rb_data b)"

definition info_rest :: "bytes \<Rightarrow> decrypted_buffer_info \<Rightarrow> bytes" where
  "info_rest buffer info =
     take (di_len info - di_consumed info) (drop (di_offset info + di_consumed info) buffer)"

lemma rb_inv_new [simp]: "rb_inv (rb_new bs)"
  by (simp add: rb_inv_def rb_new_def)

lemma rb_new_simps [simp]: "rb_data (rb_new bs) = bs" "rb_consumed (rb_new bs) = 0" "\<not> rb_used (rb_new bs)"
  "rb_rest (rb_new bs) = bs"
  by (simp_all add: rb_new_def rb_rest_def)

lemma rb_len_run: "rb_inv b \<Longrightarrow> rb_len b = Ok (length (rb_rest b))"
  by (simp add: rb_len_def usub_def rb_inv_def rb_rest_def)

lemma pop_run:
  "rb_inv b \<Longrightarrow> pop n b = (Ok (take n (rb_rest b)),
     b\<lparr>rb_consumed := rb_consumed b + min (length (rb_rest b)) n, rb_used := True\<rparr>)"
  by (auto simp: pop_def bind_apply next_do_apply rb_len_run Let_def subslice_def rb_inv_def rb_rest_def min_def)

lemma peek_run:
  "rb_inv b \<Longrightarrow> peek n b = (Ok (take n (rb_rest b)), b\<lparr>rb_used := True\<rparr>)"
  by (auto simp: peek_def bind_apply next_do_apply rb_len_run Let_def subslice_def rb_inv_def rb_rest_def min_def)

lemma pop_all_run:
  "rb_inv b \<Longrightarrow> pop_all b = (Ok (rb_rest b),
     b\<lparr>rb_consumed := rb_consumed b + length (rb_rest b), rb_used := True\<rparr>)"
  by (simp add: pop_all_def bind_apply rb_len_run pop_run)

lemma peek_all_run: "rb_inv b \<Longrightarrow> peek_all b = (Ok (rb_rest b), b\<lparr>rb_used := True\<rparr>)"
  by (simp add: peek_all_def bind_apply rb_len_run peek_run)

lemma pop_into_run:
  assumes "rb_inv b"
  shows "pop_into buf b = (Ok (min (length (rb_rest b)) (length buf),
       overwrite 0 (take (length buf) (rb_rest b)) buf),
     b\<lparr>rb_consumed := rb_consumed b + min (length (rb_rest b)) (length buf), rb_used := True\<rparr>)"
  by (simp add: pop_into_def bind_apply pop_run [OF assms] store_slice_def min.commute)

lemma create_read_buffer_run:
  "info_inv buffer info \<Longrightarrow> create_read_buffer buffer info = Ok (rb_new (info_rest buffer info))"
  by (auto simp: create_read_buffer_def info_inv_def info_rest_def subslice_def Let_def)

lemma length_info_rest: "info_inv buffer info \<Longrightarrow> length (info_rest buffer info) = di_len info - di_consumed info"
  by (auto simp: info_inv_def info_rest_def)

lemma info_advance:
  assumes "info_inv buffer info" and "k \<le> length (info_rest buffer info)"
  shows "info_inv buffer (info\<lparr>di_consumed := di_consumed info + k\<rparr>)"
    and "info_rest buffer (info\<lparr>di_consumed := di_consumed info + k\<rparr>) = drop k (info_rest buffer info)"
  using assms length_info_rest [OF assms(1)]
  by (auto simp: info_inv_def info_rest_def drop_take ac_simps)

text \<open>An operation on a borrowed buffer that hands out some of the rest and consumes exactly that.\<close>

lemma with_read_buffer_pop:
  assumes "info_inv buffer info"
  shows "\<exists>info'. with_read_buffer buffer (pop n) info = (Ok (take n (info_rest buffer info)), info') \<and>
     info_inv buffer info' \<and> info_rest buffer info' = drop n (info_rest buffer info)"
  using info_advance [OF assms, of "min (length (info_rest buffer info)) n"]
  by (auto simp: with_read_buffer_def bind_apply create_read_buffer_run [OF assms] pop_run rb_drop_def min_def
      split: if_splits)

lemma with_read_buffer_peek_all:
  assumes "info_inv buffer info"
  shows "with_read_buffer buffer peek_all info = (Ok (info_rest buffer info), info)"
  by (simp add: with_read_buffer_def bind_apply create_read_buffer_run [OF assms] peek_all_run rb_drop_def)

section \<open>Properties\<close>











end
