(* ===== verification/Blocking.thy ===== *)
theory Blocking
  imports Connection Read_Buffer
begin

text \<open>
  \<open>TlsConnection\<close> of src/blocking.rs with the read handler of src/common/decrypted\_read\_handler.rs:
  opening a connection, writing through the record buffer, reading decrypted data, closing.  The
  handshake loop and the loop that waits for data may go on for as long as the peer sends records, so
  both are partial functions whose value is \<open>None\<close> if they do not return.
\<close>

section \<open>The read handler\<close>

text \<open>
  \<open>DecryptedReadHandler::handle\<close>: \<open>n\<close> is the length of the reader's buffer; the slice's start and end must
  lie inside it (a \<open>debug_assert!\<close>).  A handshake message other than a ticket is \<open>unimplemented!()\<close>.
\<close>

definition read_handler ::
  "nat \<Rightarrow> server_record \<Rightarrow> (read_key_schedule \<times> decrypted_buffer_info \<times> bool, unit, tls_error) comp" where
  "read_handler n rec =
     (case rec of
        SR_ApplicationData ad \<Rightarrow>
          bind (lift_result (cb_as_slice (ad_data ad))) (\<lambda>slice.
          let offset = ad_start ad + cb_offset (ad_data ad) in
          if \<not> (offset < n \<and> offset + length slice < n) then panic
          else modify (\<lambda>(rk, info, is_open).
            (rk, \<lparr>di_offset = offset, di_len = length slice, di_consumed = 0\<rparr>, is_open)))
      | SR_Alert a \<Rightarrow>
          if alert_description a = AD_CloseNotify
          then next_do (modify (\<lambda>(rk, info, _). (rk, info, False))) (throw ConnectionClosed)
          else throw InternalError
      | SR_ChangeCipherSpec \<Rightarrow> throw InternalError
      | SR_Handshake NewSessionTicket \<Rightarrow> return ()
      | SR_Handshake _ \<Rightarrow> panic)"

section \<open>The connection\<close>

record 't tls_connection =
  tc_delegate :: 't
  tc_opened :: bool
  tc_ks :: key_schedule
  tc_reader :: record_reader
  tc_write_buf :: write_buffer
  tc_decrypted :: decrypted_buffer_info
  tc_flush_policy :: flush_policy

type_synonym ('t, 'a) conn_op = "('t tls_connection, 'a, tls_error) comp"

definition tls_connection_new ::
  "cipher_suite_params \<Rightarrow> 't \<Rightarrow> bytes \<Rightarrow> bytes \<Rightarrow> ('t tls_connection, tls_error) result" where
  "tls_connection_new C delegate record_read_buf record_write_buf =
     (case wb_new record_write_buf of
        Ok wb \<Rightarrow> Ok \<lparr>tc_delegate = delegate, tc_opened = False, tc_ks = ks_new C, tc_reader = reader_new record_read_buf,
                     tc_write_buf = wb, tc_decrypted = di_default, tc_flush_policy = flush_policy_default\<rparr>
      | Err e \<Rightarrow> Err e
      | Panic \<Rightarrow> Panic)"

definition set_flush_policy :: "flush_policy \<Rightarrow> 't tls_connection \<Rightarrow> 't tls_connection" where
  "set_flush_policy policy c = c\<lparr>tc_flush_policy := policy\<rparr>"

text \<open>The loop of \<open>open\<close>, on the parts of the connection the handshake works on.\<close>

partial_function (option) open_loop ::
  "cipher_suite_params \<Rightarrow> p256_params \<Rightarrow> nat \<Rightarrow> 't transport \<Rightarrow> 'p crypto_provider \<Rightarrow> tls_config \<Rightarrow> conn_state \<Rightarrow>
   ('t, 'p) client \<Rightarrow> ((unit, tls_error) result \<times> ('t, 'p) client) option" where
  "open_loop C E sig_size T P config st s =
     (if st = S_ApplicationData then Some (Ok (), s)
      else case process_blocking C E sig_size T P config st s of
        (Ok st', s') \<Rightarrow> open_loop C E sig_size T P config st' s'
      | (Err e, s') \<Rightarrow> Some (Err e, s')
      | (Panic, s') \<Rightarrow> Some (Panic, s'))"

definition set_hostname :: "'p crypto_provider \<Rightarrow> tls_config \<Rightarrow> ('p, unit, tls_error) comp" where
  "set_hostname P config = (\<lambda>p.
     case cp_verifier P p of
       (Ok _, p') \<Rightarrow>
         (case cfg_server_name config of Some name \<Rightarrow> cp_set_hostname P name p' | None \<Rightarrow> (Ok (), p'))
     | (Err _, p') \<Rightarrow> (Ok (), p')
     | (Panic, p') \<Rightarrow> (Panic, p'))"

definition client_of :: "'t tls_connection \<Rightarrow> 'p \<Rightarrow> ('t, 'p) client" where
  "client_of c p = \<lparr>cl_transport = tc_delegate c, cl_handshake = handshake_new, cl_reader = tc_reader c,
     cl_tx = tc_write_buf c, cl_ks = tc_ks c, cl_provider = p\<rparr>"

definition put_client :: "('t, 'p) client \<Rightarrow> 't tls_connection \<Rightarrow> 't tls_connection" where
  "put_client s c = c\<lparr>tc_delegate := cl_transport s, tc_reader := cl_reader s, tc_write_buf := cl_tx s, tc_ks := cl_ks s\<rparr>"

definition open_connection ::
  "cipher_suite_params \<Rightarrow> p256_params \<Rightarrow> nat \<Rightarrow> 't transport \<Rightarrow> 'p crypto_provider \<Rightarrow> tls_config \<Rightarrow> 'p \<Rightarrow> 't tls_connection \<Rightarrow>
   ((unit, tls_error) result \<times> 't tls_connection) option" where
  "open_connection C E sig_size T P config provider c =
     (case set_hostname P config provider of
        (Ok _, p) \<Rightarrow>
          map_option (\<lambda>(r, s). case r of
              Ok _ \<Rightarrow> (Ok (), (put_client s c)\<lparr>tc_opened := True\<rparr>)
            | Err e \<Rightarrow> (Err e, put_client s c)
            | Panic \<Rightarrow> (Panic, put_client s c))
            (open_loop C E sig_size T P config S_ClientHello (client_of c p))
      | (Err e, _) \<Rightarrow> Some (Err e, c)
      | (Panic, _) \<Rightarrow> Some (Panic, c))"

section \<open>Writing\<close>

definition on_delegate :: "('t, 'a, io_error_kind) comp \<Rightarrow> ('t, 'a) conn_op" where
  "on_delegate m = on_part tc_delegate (\<lambda>t c. c\<lparr>tc_delegate := t\<rparr>) (map_err Io m)"

definition conn_flush_transport :: "'t transport \<Rightarrow> ('t, unit) conn_op" where
  "conn_flush_transport T = on_delegate (t_flush T)"

definition conn_increment_write :: "('t, unit) conn_op" where
  "conn_increment_write = on_part tc_ks (\<lambda>k c. c\<lparr>tc_ks := k\<rparr>) (on_client increment_counter)"

definition conn_flush :: "cipher_suite_params \<Rightarrow> 't transport \<Rightarrow> ('t, unit) conn_op" where
  "conn_flush C T =
     bind (gets (\<lambda>c. wb_is_empty (tc_write_buf c))) (\<lambda>empty.
     if empty then return ()
     else
     bind (gets (\<lambda>c. client_state (tc_ks c))) (\<lambda>w.
     bind (on_part tc_write_buf (\<lambda>b c. c\<lparr>tc_write_buf := b\<rparr>) (close_record C w)) (\<lambda>slice.
     next_do (on_delegate (t_write_all T slice))
    (next_do conn_increment_write
    (bind (gets (\<lambda>c. flush_transport (tc_flush_policy c))) (\<lambda>strict.
     if strict then conn_flush_transport T else return ()))))))"

definition conn_write :: "cipher_suite_params \<Rightarrow> 't transport \<Rightarrow> bytes \<Rightarrow> ('t, nat) conn_op" where
  "conn_write C T buf =
     bind (gets tc_opened) (\<lambda>opened.
     if opened then
       bind (gets (\<lambda>c. wb_contains RH_ApplicationData (tc_write_buf c))) (\<lambda>has.
       next_do (if \<not> has
          then next_do (conn_flush C T)
                 (on_part tc_write_buf (\<lambda>b c. c\<lparr>tc_write_buf := b\<rparr>) (start_record RH_ApplicationData))
          else return ())
      (bind (on_part tc_write_buf (\<lambda>b c. c\<lparr>tc_write_buf := b\<rparr>) (wb_append buf)) (\<lambda>buffered.
       bind (\<lambda>c. (wb_is_full (tc_write_buf c), c)) (\<lambda>full.
       next_do (if full then conn_flush C T else return ()) (return buffered)))))
     else throw MissingHandshake)"

section \<open>Reading\<close>

definition read_application_data :: "cipher_suite_params \<Rightarrow> 't transport \<Rightarrow> ('t, unit) conn_op" where
  "read_application_data C T =
     bind (on_part (\<lambda>c. (tc_reader c, tc_delegate c, server_state (tc_ks c)))
        (\<lambda>(rd, t, rk) c. c\<lparr>tc_reader := rd, tc_delegate := t, tc_ks := (tc_ks c)\<lparr>server_state := rk\<rparr>\<rparr>)
        (read_blocking C T)) (\<lambda>rec.
     on_part (\<lambda>c. ((server_state (tc_ks c), tc_decrypted c, tc_opened c), rr_buf (tc_reader c)))
       (\<lambda>((rk, info, is_open), mem) c. c\<lparr>tc_ks := (tc_ks c)\<lparr>server_state := rk\<rparr>, tc_decrypted := info,
          tc_opened := is_open, tc_reader := (tc_reader c)\<lparr>rr_buf := mem\<rparr>\<rparr>)
       (\<lambda>s. decrypt_record C (read_handler (length (snd s))) rec s))"

partial_function (option) fill_loop ::
  "cipher_suite_params \<Rightarrow> 't transport \<Rightarrow> 't tls_connection \<Rightarrow> ((unit, tls_error) result \<times> 't tls_connection) option" where
  "fill_loop C T c =
     (case info_is_empty (tc_decrypted c) of
        Ok none_left \<Rightarrow>
          if none_left
          then (case read_application_data C T c of
                  (Ok _, c') \<Rightarrow> fill_loop C T c'
                | (Err e, c') \<Rightarrow> Some (Err e, c')
                | (Panic, c') \<Rightarrow> Some (Panic, c'))
          else Some (Ok (), c)
      | Err e \<Rightarrow> Some (Err e, c)
      | Panic \<Rightarrow> Some (Panic, c))"

text \<open>\<open>read_buffered\<close> followed by an operation on the borrowed buffer and its drop.\<close>

definition read_buffered ::
  "cipher_suite_params \<Rightarrow> 't transport \<Rightarrow> (read_buffer, 'a, tls_error) comp \<Rightarrow> 't tls_connection \<Rightarrow>
   (('a, tls_error) result \<times> 't tls_connection) option" where
  "read_buffered C T op c =
     (if tc_opened c
      then map_option (\<lambda>(r, c'). case r of
          Ok _ \<Rightarrow> on_part tc_decrypted (\<lambda>i c. c\<lparr>tc_decrypted := i\<rparr>)
                    (with_read_buffer (rr_buf (tc_reader c')) op) c'
        | Err e \<Rightarrow> (Err e, c')
        | Panic \<Rightarrow> (Panic, c')) (fill_loop C T c)
      else Some (Err MissingHandshake, c))"

definition conn_read ::
  "cipher_suite_params \<Rightarrow> 't transport \<Rightarrow> bytes \<Rightarrow> 't tls_connection \<Rightarrow>
   ((nat \<times> bytes, tls_error) result \<times> 't tls_connection) option" where
  "conn_read C T buf c =
     (if buf = [] then Some (Ok (0, buf), c) else read_buffered C T (pop_into buf) c)"

definition fill_buf ::
  "cipher_suite_params \<Rightarrow> 't transport \<Rightarrow> 't tls_connection \<Rightarrow> ((bytes, tls_error) result \<times> 't tls_connection) option" where
  "fill_buf C T c = read_buffered C T peek_all c"

definition conn_consume :: "nat \<Rightarrow> ('t, unit) conn_op" where
  "conn_consume amt =
     bind (\<lambda>c. on_part tc_decrypted (\<lambda>i c. c\<lparr>tc_decrypted := i\<rparr>)
       (with_read_buffer (rr_buf (tc_reader c)) (pop amt)) c) (\<lambda>_. return ())"

section \<open>Closing\<close>

definition close_internal :: "cipher_suite_params \<Rightarrow> p256_params \<Rightarrow> 't transport \<Rightarrow> ('t, unit) conn_op" where
  "close_internal C E T =
     next_do (conn_flush C T)
    (bind (gets tc_opened) (\<lambda>is_opened.
     bind (gets (\<lambda>c. client_state (tc_ks c))) (\<lambda>w.
     bind (on_part (\<lambda>c. (tc_write_buf c, ks_transcript (tc_ks c)))
        (\<lambda>(wb, t) c. c\<lparr>tc_write_buf := wb, tc_ks := replace_transcript_hash t (tc_ks c)\<rparr>)
        (write_record C (p256_public E) (close_notify is_opened) w)) (\<lambda>slice.
     next_do (on_delegate (t_write_all T slice))
    (next_do conn_increment_write (conn_flush_transport T))))))"

text \<open>\<open>close\<close> gives the transport back in either case.\<close>

definition close_connection ::
  "cipher_suite_params \<Rightarrow> p256_params \<Rightarrow> 't transport \<Rightarrow> 't tls_connection \<Rightarrow> (unit, tls_error) result \<times> 't" where
  "close_connection C E T c = (case close_internal C E T c of (r, c') \<Rightarrow> (r, tc_delegate c'))"

section \<open>The two halves\<close>

text \<open>
  \<open>split\<close>: the reader and the writer get a clone of the transport each and share the \<open>opened\<close> flag.
  The flag is a cell both halves access atomically; it is a component of the state of an operation.
\<close>

record 't tls_reader =
  rd_delegate :: 't
  rd_key_schedule :: read_key_schedule
  rd_record_reader :: record_reader
  rd_decrypted :: decrypted_buffer_info

record 't tls_writer =
  wr_delegate :: 't
  wr_key_schedule :: write_key_schedule
  wr_record_write_buf :: write_buffer
  wr_flush_policy :: flush_policy

definition split_connection :: "'t tls_connection \<Rightarrow> bool \<times> 't tls_reader \<times> 't tls_writer" where
  "split_connection c = (tc_opened c,
     \<lparr>rd_delegate = tc_delegate c, rd_key_schedule = server_state (tc_ks c), rd_record_reader = tc_reader c,
      rd_decrypted = tc_decrypted c\<rparr>,
     \<lparr>wr_delegate = tc_delegate c, wr_key_schedule = client_state (tc_ks c), wr_record_write_buf = tc_write_buf c,
      wr_flush_policy = tc_flush_policy c\<rparr>)"

definition writer_flush :: "cipher_suite_params \<Rightarrow> 't transport \<Rightarrow> ('t tls_writer, unit, tls_error) comp" where
  "writer_flush C T =
     bind (gets (\<lambda>x. wb_is_empty (wr_record_write_buf x))) (\<lambda>empty.
     if empty then return ()
     else
     bind (gets wr_key_schedule) (\<lambda>w.
     bind (on_part wr_record_write_buf (\<lambda>b x. x\<lparr>wr_record_write_buf := b\<rparr>) (close_record C w)) (\<lambda>slice.
     next_do (on_part wr_delegate (\<lambda>t x. x\<lparr>wr_delegate := t\<rparr>) (map_err Io (t_write_all T slice)))
    (next_do (on_part (\<lambda>x. w_state (wr_key_schedule x))
        (\<lambda>st x. x\<lparr>wr_key_schedule := (wr_key_schedule x)\<lparr>w_state := st\<rparr>\<rparr>) increment_counter)
    (bind (gets (\<lambda>x. flush_transport (wr_flush_policy x))) (\<lambda>strict.
     if strict then on_part wr_delegate (\<lambda>t x. x\<lparr>wr_delegate := t\<rparr>) (map_err Io (t_flush T))
     else return ()))))))"

definition writer_write ::
  "cipher_suite_params \<Rightarrow> 't transport \<Rightarrow> bytes \<Rightarrow> (bool \<times> 't tls_writer, nat, tls_error) comp" where
  "writer_write C T buf =
     bind (gets fst) (\<lambda>opened.
     if opened then
       on_part snd (\<lambda>x (b, _). (b, x))
        (bind (gets (\<lambda>x. wb_contains RH_ApplicationData (wr_record_write_buf x))) (\<lambda>has.
         next_do (if \<not> has
            then next_do (writer_flush C T)
                   (on_part wr_record_write_buf (\<lambda>b x. x\<lparr>wr_record_write_buf := b\<rparr>) (start_record RH_ApplicationData))
            else return ())
        (bind (on_part wr_record_write_buf (\<lambda>b x. x\<lparr>wr_record_write_buf := b\<rparr>) (wb_append buf)) (\<lambda>buffered.
         bind (\<lambda>x. (wb_is_full (wr_record_write_buf x), x)) (\<lambda>full.
         next_do (if full then writer_flush C T else return ()) (return buffered))))))
     else throw MissingHandshake)"

definition reader_read_application_data ::
  "cipher_suite_params \<Rightarrow> 't transport \<Rightarrow> (bool \<times> 't tls_reader, unit, tls_error) comp" where
  "reader_read_application_data C T =
     bind (on_part (\<lambda>(_, x). (rd_record_reader x, rd_delegate x, rd_key_schedule x))
        (\<lambda>(rd, t, rk) (b, x). (b, x\<lparr>rd_record_reader := rd, rd_delegate := t, rd_key_schedule := rk\<rparr>))
        (read_blocking C T)) (\<lambda>rec.
     on_part (\<lambda>(b, x). ((rd_key_schedule x, rd_decrypted x, b), rr_buf (rd_record_reader x)))
       (\<lambda>((rk, info, opened), mem) (b, x). (if \<not> opened then False else b,
          x\<lparr>rd_key_schedule := rk, rd_decrypted := info,
            rd_record_reader := (rd_record_reader x)\<lparr>rr_buf := mem\<rparr>\<rparr>))
       (\<lambda>s. decrypt_record C (read_handler (length (snd s))) rec s))"

partial_function (option) reader_fill_loop ::
  "cipher_suite_params \<Rightarrow> 't transport \<Rightarrow> bool \<times> 't tls_reader \<Rightarrow>
   ((unit, tls_error) result \<times> bool \<times> 't tls_reader) option" where
  "reader_fill_loop C T s =
     (case info_is_empty (rd_decrypted (snd s)) of
        Ok none_left \<Rightarrow>
          if none_left
          then (case reader_read_application_data C T s of
                  (Ok _, s') \<Rightarrow> reader_fill_loop C T s'
                | (Err e, s') \<Rightarrow> Some (Err e, s')
                | (Panic, s') \<Rightarrow> Some (Panic, s'))
          else Some (Ok (), s)
      | Err e \<Rightarrow> Some (Err e, s)
      | Panic \<Rightarrow> Some (Panic, s))"

definition reader_read_buffered ::
  "cipher_suite_params \<Rightarrow> 't transport \<Rightarrow> (read_buffer, 'a, tls_error) comp \<Rightarrow> bool \<times> 't tls_reader \<Rightarrow>
   (('a, tls_error) result \<times> bool \<times> 't tls_reader) option" where
  "reader_read_buffered C T op s =
     (if fst s
      then map_option (\<lambda>(r, s'). case r of
          Ok _ \<Rightarrow> on_part (\<lambda>(_, x). rd_decrypted x) (\<lambda>i (b, x). (b, x\<lparr>rd_decrypted := i\<rparr>))
                    (with_read_buffer (rr_buf (rd_record_reader (snd s'))) op) s'
        | Err e \<Rightarrow> (Err e, s')
        | Panic \<Rightarrow> (Panic, s')) (reader_fill_loop C T s)
      else Some (Err MissingHandshake, s))"

definition reader_read ::
  "cipher_suite_params \<Rightarrow> 't transport \<Rightarrow> bytes \<Rightarrow> bool \<times> 't tls_reader \<Rightarrow>
   ((nat \<times> bytes, tls_error) result \<times> bool \<times> 't tls_reader) option" where
  "reader_read C T buf s =
     (if buf = [] then Some (Ok (0, buf), s) else reader_read_buffered C T (pop_into buf) s)"

definition reader_fill_buf ::
  "cipher_suite_params \<Rightarrow> 't transport \<Rightarrow> bool \<times> 't tls_reader \<Rightarrow>
   ((bytes, tls_error) result \<times> bool \<times> 't tls_reader) option" where
  "reader_fill_buf C T s = reader_read_buffered C T peek_all s"

definition reader_consume :: "nat \<Rightarrow> (bool \<times> 't tls_reader, unit, tls_error) comp" where
  "reader_consume amt =
     bind (\<lambda>s. on_part (\<lambda>(_, x). rd_decrypted x) (\<lambda>i (b, x). (b, x\<lparr>rd_decrypted := i\<rparr>))
       (with_read_buffer (rr_buf (rd_record_reader (snd s))) (pop amt)) s) (\<lambda>_. return ())"

end
