(* ===== verification/Duplex.thy ===== *)
theory Duplex
  imports Record_Reader
begin

text \<open>
  Transports in both directions, as a client uses them: what a reliable byte stream promises to a
  caller who writes, flushes and reads, and what reading a record does to such a stream.
\<close>

text \<open>
  \<open>sent\<close> observes the bytes handed to the transport.  Writing appends to them, flushing and reading
  leave them alone, and neither writing nor flushing disturbs the bytes still to be delivered.
\<close>

definition transport_laws :: "'t transport \<Rightarrow> ('t \<Rightarrow> bytes) \<Rightarrow> bool" where
  "transport_laws T sent \<longleftrightarrow>
     (\<forall>bs t. \<exists>t'. t_write_all T bs t = (Ok (), t') \<and> sent t' = sent t @ bs \<and>
        (\<forall>x. delivers T t x \<longrightarrow> delivers T t' x)) \<and>
     (\<forall>t. \<exists>t'. t_flush T t = (Ok (), t') \<and> sent t' = sent t \<and> (\<forall>x. delivers T t x \<longrightarrow> delivers T t' x)) \<and>
     (\<forall>n t r t'. t_read T n t = (r, t') \<longrightarrow> sent t' = sent t)"

lemma write_allE:
  assumes "transport_laws T sent"
  obtains t' where "t_write_all T bs t = (Ok (), t')" "sent t' = sent t @ bs"
    "\<And>x. delivers T t x \<Longrightarrow> delivers T t' x"
  using assms unfolding transport_laws_def by metis

lemma flushE:
  assumes "transport_laws T sent"
  obtains t' where "t_flush T t = (Ok (), t')" "sent t' = sent t" "\<And>x. delivers T t x \<Longrightarrow> delivers T t' x"
  using assms unfolding transport_laws_def by metis

lemma read_sent: "transport_laws T sent \<Longrightarrow> t_read T n t = (r, t') \<Longrightarrow> sent t' = sent t"
  unfolding transport_laws_def by metis

section \<open>What reading does to the transport\<close>

text \<open>A preorder that every read respects is respected by the loops that read a record.\<close>

definition reads_respect :: "'t transport \<Rightarrow> ('t \<Rightarrow> 't \<Rightarrow> bool) \<Rightarrow> bool" where
  "reads_respect T R \<longleftrightarrow> reflp R \<and> transp R \<and> (\<forall>n t r t'. t_read T n t = (r, t') \<longrightarrow> R t t')"

lemma reads_respectD:
  assumes "reads_respect T R"
  shows "R t t" and "R t u \<Longrightarrow> R u v \<Longrightarrow> R t v" and "t_read T n t = (r, t') \<Longrightarrow> R t t'"
  using assms by (auto simp: reads_respect_def reflp_def transp_def)

lemma header_loop_respects:
  assumes "reads_respect T R" and "header_loop T n buf t = (r, t')"
  shows "R t t'"
  using assms
proof (induction T n buf t rule: header_loop.induct)
  case (1 T n buf t)
  obtain q u where rd: "t_read T (5 - n) t = (q, u)" by (metis surj_pair)
  note R = reads_respectD [OF "1.prems"(1)]
  have u: "R t u" by (rule R(3) [OF rd])
  show ?case
  proof (cases "n < 5 \<and> (\<exists>d. q = Ok d \<and> d \<noteq> [])")
    case True
    then obtain d where d: "n < 5" "q = Ok d" "d \<noteq> []" by blast
    then have "header_loop T (n + length d) (overwrite n (take (5 - n) d) buf) u = (r, t')"
      using "1.prems"(2) rd by (simp add: header_loop.simps [of T n])
    then show ?thesis using "1.IH" [of q u d] rd d R(2) [OF u] "1.prems"(1) by simp
  next
    case False
    then show ?thesis
      using "1.prems"(2) rd u R(1) by (auto simp: header_loop.simps [of T n] split: if_splits result.splits)
  qed
qed

lemma advance_loop_respects:
  assumes "reads_respect T R" and "advance_loop T amount remain s = (r, s')"
  shows "R (snd s) (snd s')"
  using assms
proof (induction T amount remain s rule: advance_loop.induct)
  case (1 T amount remain rd t)
  obtain q u where re: "t_read T remain t = (q, u)" by (metis surj_pair)
  note R = reads_respectD [OF "1.prems"(1)]
  have u: "R t u" by (rule R(3) [OF re])
  let ?start = "rr_decoded rd + rr_pending rd"
  show ?case
  proof (cases "rr_pending rd < amount \<and> ?start + remain \<le> length (rr_buf rd) \<and>
      (\<exists>d. q = Ok d \<and> d \<noteq> [] \<and> length d \<le> remain)")
    case True
    then obtain d where d: "rr_pending rd < amount" "?start + remain \<le> length (rr_buf rd)" "q = Ok d" "d \<noteq> []"
      "length d \<le> remain" by blast
    then have "advance_loop T amount (remain - length d) (rd\<lparr>rr_buf := overwrite ?start (take remain d) (rr_buf rd),
        rr_pending := rr_pending rd + length d\<rparr>, u) = (r, s')"
      using "1.prems"(2) re by (simp add: advance_loop.simps [of T amount remain])
    then show ?thesis using "1.IH" [OF d(1) refl _ _ d(3) d(4) refl] re d R(2) [OF u] "1.prems"(1) by simp
  next
    case False
    then show ?thesis
      using "1.prems"(2) re u R(1)
      by (auto simp: advance_loop.simps [of T amount remain] Let_def split: if_splits result.splits)
  qed
qed

lemma read_blocking_respects:
  assumes "reads_respect T R" and "read_blocking C T (rd, t, rk) = (r, (rd', t', rk'))"
  shows "R t t'"
proof -
  obtain q1 t1 where 1: "header_loop T 0 (replicate 5 0) t = (q1, t1)" by (metis surj_pair)
  note R = reads_respectD [OF assms(1)]
  have s1: "R t t1" by (rule header_loop_respects [OF assms(1) 1])
  have s2: "R t (snd (snd (advance_blocking T n (rd, t1))))" for n
  proof -
    obtain q3 s3 where "ensure_contiguous n rd = (q3, s3)" by (metis surj_pair)
    moreover obtain q4 rd4 t4 where 4: "advance_loop T n n (s3, t1) = (q4, (rd4, t4))" by (metis surj_pair)
    ultimately show ?thesis
      using advance_loop_respects [OF assms(1) 4] s1 R(2) [OF s1]
      by (auto simp: advance_blocking_def next_do_apply on_part_apply split: result.splits)
  qed
  show ?thesis
    using assms(2) 1 s1 s2
    by (auto simp: read_blocking_def next_record_header_blocking_def bind_apply next_do_apply on_part_apply
        split: result.splits prod.splits) (metis snd_conv)+
qed

lemma reads_respect_sent: "transport_laws T sent \<Longrightarrow> reads_respect T (\<lambda>t t'. sent t' = sent t)"
  using read_sent [of T sent] by (simp add: reads_respect_def reflp_def transp_def)

lemma read_blocking_run':
  assumes laws: "transport_laws T sent" and inv: "reader_inv rd" and dl: "delivers T t (h @ body @ rest)"
    and h: "length h = 5" and len: "length body = content_length h" "length body \<le> length (rr_buf rd)"
    and valid: "record_header_decode h = Ok h"
    and dec: "server_record_decode C h (body_start (length body) rd) body (transcript_hash rk) = (r, digest)"
  obtains t' where "read_blocking C T (rd, t, rk) = (r, (after_body body rd, t', rk\<lparr>transcript_hash := digest\<rparr>))"
    and "delivers T t' rest" and "sent t' = sent t"
  using read_blocking_run [OF inv dl h len valid dec] read_blocking_respects [OF reads_respect_sent [OF laws]] by metis

section \<open>A transport over byte lists\<close>

text \<open>The state is the bytes still to be delivered, at most \<open>k + 1\<close> per read, and the bytes sent so far.\<close>

definition duplex_transport :: "nat \<Rightarrow> (bytes \<times> bytes) transport" where
  "duplex_transport k =
     \<lparr>t_read = (\<lambda>n (i, out). (Ok (take (min n (Suc k)) i), (drop (min n (Suc k)) i, out))),
      t_write_all = (\<lambda>bs (i, out). (Ok (), (i, out @ bs))), t_flush = return ()\<rparr>"

lemma duplex_read:
  "t_read (duplex_transport k) n (i, out) = (Ok (take (min n (Suc k)) i), (drop (min n (Suc k)) i, out))"
  by (simp add: duplex_transport_def)

lemma duplex_delivers: "delivers (duplex_transport k) (i, out) i"
proof (induction i rule: length_induct)
  case (1 i)
  show ?case
  proof (cases "i = []")
    case False
    show ?thesis
    proof (rule delivers.piece)
      fix n :: nat assume "0 < n"
      let ?m = "min (min n (Suc k)) (length i)"
      have m: "0 < ?m" "?m \<le> n" "?m \<le> length i" using \<open>0 < n\<close> False by auto
      have "t_read (duplex_transport k) n (i, out) = (Ok (take ?m i), (drop ?m i, out))"
        by (auto simp: duplex_read min_def)
      moreover have "delivers (duplex_transport k) (drop ?m i, out) (drop ?m i)" using 1 m by simp
      ultimately show "\<exists>k' t'. 0 < k' \<and> k' \<le> n \<and> k' \<le> length i \<and>
          t_read (duplex_transport k) n (i, out) = (Ok (take k' i), t') \<and> delivers (duplex_transport k) t' (drop k' i)"
        using m by blast
    qed
  qed (simp add: delivers.nothing)
qed

lemma duplex_delivers_out:
  assumes "delivers (duplex_transport k) t x"
  shows "delivers (duplex_transport k) (fst t, out) x"
  using assms
proof (induction t x rule: delivers.induct)
  case (piece bs t)
  show ?case
  proof (rule delivers.piece)
    fix n :: nat assume "0 < n"
    from piece.IH [OF this] obtain m t' where m: "0 < m" "m \<le> n" "m \<le> length bs"
        "t_read (duplex_transport k) n t = (Ok (take m bs), t')" "delivers (duplex_transport k) (fst t', out) (drop m bs)"
      by blast
    moreover have "t_read (duplex_transport k) n (fst t, out) = (Ok (take m bs), (fst t', out))"
      using m(4) duplex_read [of k n "fst t" "snd t"] by (auto simp: duplex_read)
    ultimately show "\<exists>k' t'. 0 < k' \<and> k' \<le> n \<and> k' \<le> length bs \<and>
        t_read (duplex_transport k) n (fst t, out) = (Ok (take k' bs), t') \<and> delivers (duplex_transport k) t' (drop k' bs)"
      by blast
  qed
qed (rule delivers.nothing)

lemma duplex_transport_laws: "transport_laws (duplex_transport k) snd"
  using duplex_delivers_out [of k]
  by (fastforce simp: transport_laws_def duplex_transport_def return_def)

end
