(* ===== verification/Client_Handshake.thy ===== *)
theory Client_Handshake
  imports Blocking Duplex
begin

text \<open>
  The client's handshake (src/connection.rs, driven by \<open>open\<close> of src/blocking.rs) over a reliable
  transport: what each step sends, what it makes of the records it receives, and how the steps add up.
\<close>

section \<open>Sending\<close>

lemma respond_run:
  assumes "transport_laws T sent" and "usable (client_traffic (cl_ks s))"
  obtains t' where "respond_blocking T tx s = (Ok (), s\<lparr>cl_transport := t', cl_ks := bump_client (cl_ks s)\<rparr>)"
    and "sent t' = sent (cl_transport s) @ tx"
    and "\<And>x. delivers T (cl_transport s) x \<Longrightarrow> delivers T t' x"
proof -
  obtain t1 where 1: "t_write_all T tx (cl_transport s) = (Ok (), t1)" "sent t1 = sent (cl_transport s) @ tx"
      "\<And>x. delivers T (cl_transport s) x \<Longrightarrow> delivers T t1 x"
    by (rule write_allE [OF assms(1), where bs = tx and t = "cl_transport s"]) blast
  obtain t2 where 2: "t_flush T t1 = (Ok (), t2)" "sent t2 = sent t1" "\<And>x. delivers T t1 x \<Longrightarrow> delivers T t2 x"
    by (rule flushE [OF assms(1), where t = t1]) blast
  have "on_client increment_counter (cl_ks s) = (Ok (), bump_client (cl_ks s))"
    using client_counter_run [OF assms(2)] by (simp add: increment_client_handshake_counter_def)
  then show thesis
    by (intro that [of t2])
      (use 1 2 in \<open>simp_all add: respond_blocking_def next_do_apply on_transport_def on_keys_def on_part_apply map_err_apply\<close>)
qed

lemma replace_transcript: "replace_transcript_hash (ks_transcript ks @ bs) ks = transcript_update bs ks"
  by (simp add: transcript_update_def)

lemma send_record_run:
  assumes "crypto_laws C" and "length (iv (client_traffic (cl_ks s))) = 12" and "cl_tx s = wb_idle buf"
    and "encodes (encode_message C (p256_public E) rec) P"
    and "finishes C rec (client_state (cl_ks s)) P (ks_transcript (cl_ks s)) F (ks_transcript (cl_ks s) @ m)"
    and "length P + 1 + tag_len C < 2 ^ 16" and "length P + 6 + tag_len C \<le> length buf"
    and "out = closed_record C (client_state (cl_ks s)) (header_of rec) F"
  shows "send_record C E rec s =
     (Ok out, s\<lparr>cl_tx := wb_idle (overwrite 0 out buf), cl_ks := transcript_update m (cl_ks s)\<rparr>)"
  using write_record_run [OF assms(1,2,4,5,6,7)] assms(3,8)
  by (simp add: send_record_def bind_apply on_part_apply replace_transcript)

section \<open>The ClientHello\<close>

text \<open>The keys after the early secret, with or without a PSK, and the message that is sent.\<close>

definition hello_psk :: "cipher_suite_params \<Rightarrow> tls_config \<Rightarrow> bytes" where
  "hello_psk C config = (case cfg_psk config of None \<Rightarrow> zero_hash C | Some (psk, _) \<Rightarrow> psk)"

definition hello_message :: "cipher_suite_params \<Rightarrow> (bytes \<Rightarrow> bytes) \<Rightarrow> client_hello \<Rightarrow> bytes \<Rightarrow> bytes \<Rightarrow> bytes" where
  "hello_message C pub ch bk t =
     (case cfg_psk (ch_config ch) of
        None \<Rightarrow> handshake_bytes HT_ClientHello (client_hello_written C pub ch)
      | Some (_, ids) \<Rightarrow> client_hello_final C pub ch ids
          (rfc_finished_mac C bk (hash C (t @ client_hello_prefix C pub ch ids ((1 + hash_len C) * length ids)))))"

lemma early_secret_any:
  assumes "hash_laws C"
  shows "initialize_early_secret C (map_option fst (cfg_psk config)) ks = (Ok (), early_ks C (hello_psk C config) ks)"
proof -
  have "initialize_early_secret C None = initialize_early_secret C (Some (zero_hash C))"
    by (simp add: initialize_early_secret_def)
  then show ?thesis
    using early_secret_run [OF assms] by (auto simp: hello_psk_def early_ks_def split: option.split)
qed

lemma length_hello_message:
  assumes "hash_laws C"
  shows "length (hello_message C pub ch bk t) = length (handshake_bytes HT_ClientHello (client_hello_written C pub ch))"
proof (cases "cfg_psk (ch_config ch)")
  case (Some p)
  obtain psk ids where p: "p = (psk, ids)" by fastforce
  let ?k = "(1 + hash_len C) * length ids"
  let ?b = "rfc_finished_mac C bk (hash C (t @ client_hello_prefix C pub ch ids ?k))"
  have b: "length ?b = hash_len C" by (rule length_rfc_finished_mac [OF assms])
  have "length (concat (map (\<lambda>_. vec8 ?b) ids)) = ?k"
    using length_concat_const [of "\<lambda>_. vec8 ?b" "1 + hash_len C" ids] b by simp
  then show ?thesis
    using Some p client_hello_final_split [OF b refl, of pub ch ids]
      client_hello_written_split [of ch psk ids ?k C pub]
    by (simp add: hello_message_def)
qed (simp add: hello_message_def)

lemma encodes_handshake:
  "encodes (client_handshake_encode_inner C pub m) body \<Longrightarrow>
   encodes (client_handshake_encode C pub m) (handshake_bytes (client_handshake_type m) body)"
  unfolding client_handshake_encode_def handshake_bytes_def
  using encodes_next [OF encodes_map_err [OF encodes_push] encodes_with_u24] by fastforce

lemma finishes_client_hello:
  assumes laws: "hash_laws C" and bk: "binder_key w = Initialized bk"
  shows "finishes C (CR_Handshake (ClientHello ch) False) w
     (handshake_bytes HT_ClientHello (client_hello_written C pub ch)) t (hello_message C pub ch bk t)
     (t @ hello_message C pub ch bk t)"
proof -
  let ?P = "handshake_bytes HT_ClientHello (client_hello_written C pub ch)"
  have "client_hello_finalize C ch w (?P, t) = (Ok (), (hello_message C pub ch bk t, t @ hello_message C pub ch bk t))"
  proof (cases "cfg_psk (ch_config ch)")
    case None
    then show ?thesis by (simp add: client_hello_finalize_def hello_message_def)
  next
    case (Some p)
    obtain psk ids where p: "p = (psk, ids)" by fastforce
    let ?k = "(1 + hash_len C) * length ids" let ?pre = "client_hello_prefix C pub ch ids ?k"
    let ?b = "rfc_finished_mac C bk (hash C (t @ ?pre))"
    have b: "length ?b = hash_len C" by (rule length_rfc_finished_mac [OF laws])
    have bnd: "create_psk_binder C (t @ ?pre) w = Ok ?b"
      by (simp add: create_psk_binder_def bk finished_mac_run [OF laws])
    show ?thesis
      using client_hello_finalize_run [OF Some [unfolded p] bnd b _ client_hello_written_split [OF Some [unfolded p] refl]]
        client_hello_final_split [OF b refl, of pub ch ids] Some p
      by (simp add: hello_message_def)
  qed
  then show ?thesis
    unfolding finishes_def
    by (auto simp: length_hello_message [OF laws] finish_record_def cb_as_slice_view client_handshake_finalize_def)
qed


lemma bump_early [simp]: "client_traffic (early_ks C psk ks) = client_traffic ks"
  "binder_key (client_state (early_ks C psk ks)) = Initialized (rfc_derive_secret C (hkdf_extract C (sh_secret (shared ks)) psk) ''ext binder'' [])"
  by (simp_all add: early_ks_def Let_def)

text \<open>The client hello a client sends in its first step, and the size it needs in the write buffer.\<close>

definition hello_of :: "tls_config \<Rightarrow> bytes \<Rightarrow> bytes \<Rightarrow> client_hello" where
  "hello_of config random secret = \<lparr>ch_config = config, ch_random = random, ch_secret = secret\<rparr>"

definition hello_fits :: "cipher_suite_params \<Rightarrow> p256_params \<Rightarrow> client_hello \<Rightarrow> nat \<Rightarrow> bool" where
  "hello_fits C E ch n \<longleftrightarrow>
     length (client_hello_written C (p256_public E) ch) + 5 + tag_len C < 2 ^ 16 \<and>
     length (client_hello_written C (p256_public E) ch) + 10 + tag_len C \<le> n"

lemma client_hello_step:
  assumes laws: "crypto_laws C" and tl: "transport_laws T sent" and dl: "delivers T (cl_transport s) x"
    and tx: "cl_tx s = wb_idle buf" and use: "usable (client_traffic (cl_ks s))"
    and rng: "cp_random P (cl_provider s) = (random, p1)" "cp_secret P p1 = (secret, p2)"
    and fits: "hello_fits C E (hello_of config random secret) (length buf)"
    and ks: "ks = early_ks C (hello_psk C config) (cl_ks s)"
    and m: "m = hello_message C (p256_public E) (hello_of config random secret)
      (rfc_derive_secret C (hkdf_extract C (sh_secret (shared (cl_ks s))) (hello_psk C config)) ''ext binder'' []) (ks_transcript ks)"
    and out: "out = [22, 3, 1] @ vec16 m"
  obtains t' where "process_blocking C E sig T P config S_ClientHello s =
     (Ok S_ServerHello, s\<lparr>cl_transport := t', cl_tx := wb_idle (overwrite 0 out buf),
        cl_ks := bump_client (transcript_update m ks), cl_provider := p2,
        cl_handshake := (cl_handshake s)\<lparr>hs_secret := Some secret\<rparr>\<rparr>)"
    and "delivers T t' x" and "sent t' = sent (cl_transport s) @ out"
proof -
  note L = crypto_lawsD [OF laws]
  let ?ch = "hello_of config random secret" let ?rec = "CR_Handshake (ClientHello ?ch) False"
  let ?P = "handshake_bytes HT_ClientHello (client_hello_written C (p256_public E) ?ch)"
  let ?s1 = "s\<lparr>cl_ks := ks, cl_provider := p2\<rparr>"
  have iv: "length (iv (client_traffic ks)) = 12" using use by (simp add: ks usable_def)
  have enc: "encodes (encode_message C (p256_public E) ?rec) ?P"
    using encodes_handshake [of C "p256_public E" "ClientHello ?ch", OF _] encodes_client_hello by simp
  have out': "out = closed_record C (client_state (cl_ks ?s1)) (header_of ?rec) m"
    by (simp add: closed_record_def out record_header_bytes_def)
  have send: "send_record C E ?rec ?s1 = (Ok out, ?s1\<lparr>cl_tx := wb_idle (overwrite 0 out buf), cl_ks := transcript_update m ks\<rparr>)"
    using send_record_run [OF laws _ _ enc, of ?s1 buf m m] iv tx fits out'
      finishes_client_hello [OF L(1), of "client_state ks" _ ?ch "p256_public E" "ks_transcript ks"]
    by (simp add: ks m hello_fits_def handshake_bytes_def)
  let ?s2 = "s\<lparr>cl_ks := transcript_update m ks, cl_provider := p2, cl_tx := wb_idle (overwrite 0 out buf),
    cl_handshake := (cl_handshake s)\<lparr>hs_secret := Some secret\<rparr>\<rparr>"
  have hello: "client_hello C E P config s = (Ok (S_ServerHello, out), ?s2)"
    using send early_secret_any [OF L(1), of config "cl_ks s"] rng
    by (simp add: client_hello_def next_do_apply bind_apply on_keys_def on_provider_def on_part_apply ks
        client_hello_record_def hello_of_def client_hello_new_def)
  have "usable (client_traffic (cl_ks ?s2))" using use by (simp add: ks)
  from respond_run [OF tl this, of out] obtain t' where
    "respond_blocking T out ?s2 = (Ok (), ?s2\<lparr>cl_transport := t', cl_ks := bump_client (cl_ks ?s2)\<rparr>)"
    "sent t' = sent (cl_transport ?s2) @ out" "\<And>x. delivers T (cl_transport ?s2) x \<Longrightarrow> delivers T t' x"
    by blast
  then show thesis
    by (intro that [of t']) (use hello dl in \<open>simp_all add: process_blocking_def bind_apply next_do_apply\<close>)
qed


section \<open>Receiving\<close>

lemma framed_header:
  assumes "length body < 2 ^ 16" and "content_type_of ty \<noteq> None"
  shows "content_length (ty # v # v' # be16 (word_of_nat (length body))) = length body"
    and "record_header_decode (ty # v # v' # be16 (word_of_nat (length body))) =
      Ok (ty # v # v' # be16 (word_of_nat (length body)))"
  using assms
  by (auto simp: content_length_def record_header_decode_def be16_def of_be16_be16 unat_word_of_nat split: option.split)

lemma receive_handshake_run:
  assumes tl: "transport_laws T sent" and inv: "reader_inv (cl_reader s)"
    and dl: "delivers T (cl_transport s) (handshake_record m @ rest)" and m: "message_of C m v"
    and len: "length m < 2 ^ 16" "length m \<le> length (rr_buf (cl_reader s))"
  obtains t' where "receive_record C T s = (Ok (SR_Handshake (with_snapshot C (ks_transcript (cl_ks s)) v)),
      s\<lparr>cl_reader := after_body m (cl_reader s), cl_transport := t', cl_ks := transcript_update m (cl_ks s)\<rparr>)"
    and "delivers T t' rest" and "sent t' = sent (cl_transport s)"
proof -
  define h where "h = [22, 3, 3] @ be16 (word_of_nat (length m))"
  have h: "length h = 5" "content_length h = length m" "record_header_decode h = Ok h" "header_type h = Ok CT_Handshake"
    using framed_header [OF len(1), of 22] by (simp_all add: h_def header_type_def unwrap_def content_type_of_def)
  have dl': "delivers T (cl_transport s) (h @ m @ rest)"
    using dl by (simp add: h_def handshake_record_def vec16_def)
  let ?rk = "server_state (cl_ks s)"
  have "server_handshake_read C (pb_new m, transcript_hash ?rk) =
      (Ok (with_snapshot C (transcript_hash ?rk) v), (\<lparr>pos = length m, buffer = m\<rparr>, transcript_hash ?rk @ m))"
    using server_handshake_read_run [of C m v "[]" "[]" "transcript_hash ?rk"] m by (simp add: message_of_def pb_new_def)
  then have "server_record_decode C h (body_start (length m) (cl_reader s)) m (transcript_hash ?rk) =
      (Ok (SR_Handshake (with_snapshot C (transcript_hash ?rk) v)), transcript_hash ?rk @ m)"
    using h by (simp add: server_record_decode_def bind_apply)
  from read_blocking_run' [OF tl inv dl' h(1) h(2) [symmetric] len(2) h(3) this] obtain t' where
    "read_blocking C T (cl_reader s, cl_transport s, ?rk) =
       (Ok (SR_Handshake (with_snapshot C (transcript_hash ?rk) v)),
        (after_body m (cl_reader s), t', ?rk\<lparr>transcript_hash := transcript_hash ?rk @ m\<rparr>))"
    "delivers T t' rest" "sent t' = sent (cl_transport s)" by blast
  then show thesis
    by (intro that [of t'])
      (simp_all add: receive_record_def on_part_apply transcript_update_def replace_transcript_hash_def ks_transcript_def)
qed

lemma read_blocking_protected:
  assumes tl: "transport_laws T sent" and inv: "reader_inv rd" and dl: "delivers T t (rec @ rest)"
    and rec: "check_record rec = Ok n" and len: "n \<le> length (rr_buf rd)"
  obtains t' where "read_blocking C T (rd, t, rk) =
      (Ok (SR_ApplicationData (app_record rec (body_start n rd))), (after_body (drop 5 rec) rd, t', rk))"
    and "delivers T t' rest" and "sent t' = sent t"
proof -
  have r: "length rec = 5 + n" "rec ! 0 = 23" using check_record_OkD [OF rec] by simp_all
  have h: "length (take 5 rec) = 5" "content_length (take 5 rec) = length (drop 5 rec)" "length (drop 5 rec) = n"
      "record_header_decode (take 5 rec) = Ok (take 5 rec)" "header_type (take 5 rec) = Ok CT_ApplicationData"
    using r rec
    by (auto simp: content_length_def record_header_decode_def header_type_def unwrap_def check_record_def Let_def content_type_of_def
        split: if_splits)
  have dl': "delivers T t (take 5 rec @ drop 5 rec @ rest)"
    using dl by (simp add: append_assoc [symmetric] del: append_assoc)
  have "server_record_decode C (take 5 rec) (body_start (length (drop 5 rec)) rd) (drop 5 rec) (transcript_hash rk) =
      (Ok (SR_ApplicationData (app_record rec (body_start n rd))), transcript_hash rk)"
    using h(2,5) unfolding h(3) by (simp add: server_record_decode_def bind_apply app_record_def r return_def)
  from read_blocking_run' [OF tl inv dl' h(1) h(2) [symmetric] _ h(4) this] obtain t' where
    "read_blocking C T (rd, t, rk) = (Ok (SR_ApplicationData (app_record rec (body_start n rd))),
        (after_body (drop 5 rec) rd, t', rk\<lparr>transcript_hash := transcript_hash rk\<rparr>))"
    "delivers T t' rest" "sent t' = sent t" using len h(3) by auto
  then show thesis by (intro that [of t']) simp_all
qed

lemma receive_protected_run:
  assumes tl: "transport_laws T sent" and inv: "reader_inv (cl_reader s)"
    and dl: "delivers T (cl_transport s) (rec @ rest)" and rec: "check_record rec = Ok n"
    and len: "n \<le> length (rr_buf (cl_reader s))"
  obtains t' where "receive_record C T s = (Ok (SR_ApplicationData (app_record rec (body_start n (cl_reader s)))),
      s\<lparr>cl_reader := after_body (drop 5 rec) (cl_reader s), cl_transport := t'\<rparr>)"
    and "delivers T t' rest" and "sent t' = sent (cl_transport s)"
  by (rule read_blocking_protected [OF assms, where C = C and rk = "server_state (cl_ks s)"])
    (simp add: receive_record_def on_part_apply)

section \<open>The ServerHello\<close>

lemma handshake_secret_ks:
  "crypto_laws C \<Longrightarrow> initialize_handshake_secret C ikm ks = (Ok (), handshake_ks C ikm ks)"
  using handshake_secret_run [OF crypto_lawsD(1) crypto_lawsD(3)] by (simp add: handshake_ks_def)

lemma master_secret_ks: "crypto_laws C \<Longrightarrow> initialize_master_secret C ks = (Ok (), master_ks C ks)"
  using master_secret_run [OF crypto_lawsD(1) crypto_lawsD(3)] by (simp add: master_ks_def)

lemma server_hello_step:
  assumes laws: "crypto_laws C" and tl: "transport_laws T sent" and inv: "reader_inv (cl_reader s)"
    and dl: "delivers T (cl_transport s) (handshake_record m @ rest)" and m: "message_of C m (ServerHello es)"
    and len: "length m < 2 ^ 16" "length m \<le> length (rr_buf (cl_reader s))"
    and sec: "hs_secret (cl_handshake s) = Some secret"
    and dh: "calculate_shared_secret (p256_dh E) secret es = Some ikm"
  obtains t' where "process_blocking C E sig T P config S_ServerHello s =
     (Ok S_ServerVerify, s\<lparr>cl_transport := t', cl_reader := after_body m (cl_reader s),
        cl_ks := handshake_ks C ikm (transcript_update m (cl_ks s)),
        cl_handshake := (cl_handshake s)\<lparr>hs_secret := None\<rparr>\<rparr>)"
    and "delivers T t' rest" and "sent t' = sent (cl_transport s)"
proof -
  from receive_handshake_run [OF tl inv dl m len] obtain t' where
    t': "receive_record C T s = (Ok (SR_Handshake (with_snapshot C (ks_transcript (cl_ks s)) (ServerHello es))),
        s\<lparr>cl_reader := after_body m (cl_reader s), cl_transport := t', cl_ks := transcript_update m (cl_ks s)\<rparr>)"
      "delivers T t' rest" "sent t' = sent (cl_transport s)" by blast
  show thesis
    by (rule that [OF _ t'(2,3)])
      (simp add: process_blocking_def bind_apply t'(1) with_snapshot_def attempt_def process_server_hello_def next_do_apply
        sec dh ok_or_def on_keys_def on_part_apply handshake_secret_ks [OF laws] handle_processing_error_blocking_def)
qed

section \<open>The server's protected flight\<close>

text \<open>The state of the callback, and the effect of one protected record of handshake messages.\<close>

definition verify_of :: "('t, 'p) client \<Rightarrow> 'p verify_st" where
  "verify_of s = (server_state (cl_ks s), S_ServerVerify, cl_handshake s, cl_provider s)"

lemma handle_content_messages:
  assumes "list_all (\<lambda>(bs, m). message_of C bs m) ms" and "cb_view b = concat (map fst ms)" and "cb_inv b"
  shows "handle_content C cb ad CT_Handshake b s = handle_messages C cb ms s"
  using assms handshake_loop_run [OF assms(1), of cb s]
  by (simp add: handle_content_def bind_apply cb_as_slice_view)

lemma opened_recordE:
  assumes "opened_record C st rec = Some pt"
  obtains n where "check_record rec = Ok n" and "length rec = 5 + n"
proof -
  have "check_record rec = Ok (length (drop 5 rec))"
    using assms by (simp add: opened_record_def Let_def split: if_splits)
  from that [OF this] check_record_OkD [OF this] show thesis by blast
qed

lemma receive_messages:
  assumes laws: "crypto_laws C" and tl: "transport_laws T sent" and inv: "reader_inv (cl_reader s)"
    and dl: "delivers T (cl_transport s) (rec @ rest)" and len: "length rec - 5 \<le> length (rr_buf (cl_reader s))"
    and use: "usable (r_state (server_state (cl_ks s)))"
    and ms: "list_all (\<lambda>(bs, m). message_of C bs m) ms"
    and opened: "opened_record C (r_state (server_state (cl_ks s))) rec =
      Some (concat (map fst ms) @ content_type_code CT_Handshake # replicate z 0)"
  obtains t' rd r0 mem' where "receive_record C T s = (Ok r0, s\<lparr>cl_reader := rd, cl_transport := t'\<rparr>)"
    and "decrypt_record C (verify_handler C P) r0 (verify_of s, rr_buf rd) =
      (case handle_messages C (verify_handler C P) ms (verify_of s) of
         (Ok _, (rk', c')) \<Rightarrow>
           (case increment_counter (r_state rk') of (r, st) \<Rightarrow> (r, ((rk'\<lparr>r_state := st\<rparr>, c'), mem')))
       | (Err e, s') \<Rightarrow> (Err e, (s', mem'))
       | (Panic, s') \<Rightarrow> (Panic, (s', mem')))"
    and "delivers T t' rest" and "sent t' = sent (cl_transport s)"
    and "reader_inv (rd\<lparr>rr_buf := mem'\<rparr>)" and "length mem' = length (rr_buf (cl_reader s))"
proof -
  obtain n where rec: "check_record rec = Ok n" "length rec = 5 + n"
    by (rule opened_recordE [OF opened])
  with len have n: "n \<le> length (rr_buf (cl_reader s))" by simp
  from receive_protected_run [OF tl inv dl rec(1) n] obtain t' where
    t': "receive_record C T s = (Ok (SR_ApplicationData (app_record rec (body_start n (cl_reader s)))),
        s\<lparr>cl_reader := after_body (drop 5 rec) (cl_reader s), cl_transport := t'\<rparr>)"
      "delivers T t' rest" "sent t' = sent (cl_transport s)" by blast
  let ?rd = "after_body (drop 5 rec) (cl_reader s)"
  obtain rk hs p where v: "verify_of s = (rk, S_ServerVerify, hs, p)" "rk = server_state (cl_ks s)"
    by (simp add: verify_of_def)
  from decrypt_record_content [OF laws, where rk = rk and rec = rec and content = "concat (map fst ms)" and ty = CT_Handshake
      and n = z and cb = "verify_handler C P" and start = "body_start n (cl_reader s)" and c = "(S_ServerVerify, hs, p)"
      and mem = "rr_buf ?rd"] use opened
  obtain b mem' where b: "b = \<lparr>cb_buf = cb_buf b, cb_offset = 0, cb_len = length (concat (map fst ms))\<rparr>"
      "cb_view b = concat (map fst ms)" "length (cb_buf b) = length rec - 5"
      "mem' = overwrite (body_start n (cl_reader s)) (cb_buf b) (rr_buf ?rd)"
      "decrypt_record C (verify_handler C P) (SR_ApplicationData (app_record rec (body_start n (cl_reader s))))
         ((rk, S_ServerVerify, hs, p), rr_buf ?rd) =
      (case handle_content C (verify_handler C P) (app_record rec (body_start n (cl_reader s))) CT_Handshake b (rk, S_ServerVerify, hs, p) of
         (Ok _, (rk', c')) \<Rightarrow>
           (case increment_counter (r_state rk') of (r, st) \<Rightarrow> (r, ((rk'\<lparr>r_state := st\<rparr>, c'), mem')))
       | (Err e, s') \<Rightarrow> (Err e, (s', mem'))
       | (Panic, s') \<Rightarrow> (Panic, (s', mem')))"
    unfolding v(2) by auto
  have b0: "cb_offset b = 0" "cb_len b = length (concat (map fst ms))" by (subst b(1), simp)+
  have "length (cb_view b) = cb_len b" unfolding b(2) b0(2) ..
  then have "cb_inv b" by (simp add: cb_inv_def cb_view_def b0(1))
  note hc = handle_content_messages [OF ms b(2) this, of "verify_handler C P"]
  have "body_start n (cl_reader s) + n \<le> length (rr_buf (cl_reader s))" by (rule body_start_fits [OF inv n])
  then have mem: "length mem' = length (rr_buf (cl_reader s))" "reader_inv (?rd\<lparr>rr_buf := mem'\<rparr>)"
    using b(3,4) rec(2) reader_inv_after [OF inv, of "drop 5 rec"]
    by (simp_all add: after_body_def reader_inv_def)
  show thesis
    by (rule that [OF t'(1) _ t'(2,3) mem(2,1)]) (unfold v(1), rule b(5) [unfolded hc])
qed

lemma verify_step:
  assumes "crypto_laws C" and "transport_laws T sent" and "reader_inv (cl_reader s)"
    and "delivers T (cl_transport s) (rec @ rest)" and "length rec - 5 \<le> length (rr_buf (cl_reader s))"
    and use: "usable (r_state (server_state (cl_ks s)))"
    and "list_all (\<lambda>(bs, m). message_of C bs m) ms"
    and "opened_record C (r_state (server_state (cl_ks s))) rec =
      Some (concat (map fst ms) @ content_type_code CT_Handshake # replicate z 0)"
    and run: "handle_messages C (verify_handler C P) ms (verify_of s) = (Ok (), (rk', st, hs', p'))"
    and rk': "r_state rk' = r_state (server_state (cl_ks s))"
  obtains t' rd' where "process_blocking C E sig T P config S_ServerVerify s =
     (Ok st, s\<lparr>cl_transport := t', cl_reader := rd', cl_ks := bump_server ((cl_ks s)\<lparr>server_state := rk'\<rparr>),
        cl_handshake := hs', cl_provider := p'\<rparr>)"
    and "delivers T t' rest" and "sent t' = sent (cl_transport s)"
    and "reader_inv rd'" and "length (rr_buf rd') = length (rr_buf (cl_reader s))"
proof (rule receive_messages [OF assms(1-8), of P])
  fix t' rd r0 mem'
  assume 1: "receive_record C T s = (Ok r0, s\<lparr>cl_reader := rd, cl_transport := t'\<rparr>)"
    and 2: "decrypt_record C (verify_handler C P) r0 (verify_of s, rr_buf rd) =
      (case handle_messages C (verify_handler C P) ms (verify_of s) of
         (Ok _, (rk', c')) \<Rightarrow>
           (case increment_counter (r_state rk') of (r, st) \<Rightarrow> (r, ((rk'\<lparr>r_state := st\<rparr>, c'), mem')))
       | (Err e, s') \<Rightarrow> (Err e, (s', mem'))
       | (Panic, s') \<Rightarrow> (Panic, (s', mem')))"
    and 3: "delivers T t' rest" "sent t' = sent (cl_transport s)" "reader_inv (rd\<lparr>rr_buf := mem'\<rparr>)"
      "length mem' = length (rr_buf (cl_reader s))"
  have "increment_counter (r_state rk') = (Ok (), (r_state rk')\<lparr>counter := counter (r_state rk') + 1\<rparr>)"
    using use rk' by (simp add: increment_counter_def usable_def)
  then have "process_server_verify C P r0 (s\<lparr>cl_reader := rd, cl_transport := t'\<rparr>) =
      (Ok st, s\<lparr>cl_transport := t', cl_reader := rd\<lparr>rr_buf := mem'\<rparr>,
        cl_ks := bump_server ((cl_ks s)\<lparr>server_state := rk'\<rparr>), cl_handshake := hs', cl_provider := p'\<rparr>)"
    using 2 run by (simp add: process_server_verify_def bump_server_def verify_of_def)
  then show thesis
    by (intro that [where t' = t' and rd' = "rd\<lparr>rr_buf := mem'\<rparr>"])
      (use 1 3 in \<open>simp_all add: process_blocking_def bind_apply attempt_def handle_processing_error_blocking_def\<close>)
qed

lemma verify_step_panics:
  assumes "crypto_laws C" and "transport_laws T sent" and "reader_inv (cl_reader s)"
    and "delivers T (cl_transport s) (rec @ rest)" and "length rec - 5 \<le> length (rr_buf (cl_reader s))"
    and "usable (r_state (server_state (cl_ks s)))"
    and "list_all (\<lambda>(bs, m). message_of C bs m) ms"
    and "opened_record C (r_state (server_state (cl_ks s))) rec =
      Some (concat (map fst ms) @ content_type_code CT_Handshake # replicate z 0)"
    and run: "fst (handle_messages C (verify_handler C P) ms (verify_of s)) = Panic"
  shows "\<exists>s'. process_blocking C E sig T P config S_ServerVerify s = (Panic, s')"
proof (rule receive_messages [OF assms(1-8), of P])
  fix t' rd r0 mem'
  assume 1: "receive_record C T s = (Ok r0, s\<lparr>cl_reader := rd, cl_transport := t'\<rparr>)"
    and 2: "decrypt_record C (verify_handler C P) r0 (verify_of s, rr_buf rd) =
      (case handle_messages C (verify_handler C P) ms (verify_of s) of
         (Ok _, (rk', c')) \<Rightarrow>
           (case increment_counter (r_state rk') of (r, st) \<Rightarrow> (r, ((rk'\<lparr>r_state := st\<rparr>, c'), mem')))
       | (Err e, s') \<Rightarrow> (Err e, (s', mem'))
       | (Panic, s') \<Rightarrow> (Panic, (s', mem')))"
  obtain rk' st hs' p' where h: "handle_messages C (verify_handler C P) ms (verify_of s) = (Panic, (rk', st, hs', p'))"
    using run by (metis prod.collapse)
  have "fst (process_server_verify C P r0 (s\<lparr>cl_reader := rd, cl_transport := t'\<rparr>)) = Panic"
    using 2 by (simp add: process_server_verify_def verify_of_def h [unfolded verify_of_def])
  with 1 show ?thesis
    by (cases "process_server_verify C P r0 (s\<lparr>cl_reader := rd, cl_transport := t'\<rparr>)")
      (simp add: process_blocking_def bind_apply attempt_def)
qed


section \<open>The client's Finished\<close>

lemma client_finished_step:
  assumes laws: "crypto_laws C" and tl: "transport_laws T sent" and dl: "delivers T (cl_transport s) x"
    and tx: "cl_tx s = wb_idle buf" "length buf \<ge> 96" and use: "usable (client_traffic (cl_ks s))"
    and cts: "traffic_secret (client_traffic (cl_ks s)) = Initialized cts"
    and hash: "hs_traffic_hash (cl_handshake s) = Some h"
    and fin: "fin = finished_message C cts (ks_transcript (cl_ks s))"
    and out: "out = sealed_record C (client_traffic (cl_ks s)) fin CT_Handshake"
  obtains t' where "process_blocking C E sig T P config S_ClientFinished s =
     (Ok S_ApplicationData, s\<lparr>cl_transport := t', cl_tx := wb_idle (overwrite 0 out buf),
        cl_ks := master_ks C (replace_transcript_hash h (bump_client (cl_ks s))),
        cl_handshake := (cl_handshake s)\<lparr>hs_traffic_hash := None\<rparr>\<rparr>)"
    and "delivers T t' x" and "sent t' = sent (cl_transport s) @ out"
proof -
  note L = crypto_lawsD [OF laws]
  let ?f = "\<lparr>fin_verify = rfc_finished_mac C cts (hash C (ks_transcript (cl_ks s))), fin_hash = None\<rparr>"
  let ?rec = "CR_Handshake (ClientFinished ?f) True"
  have create: "create_client_finished C (cl_ks s) = (Ok ?f, cl_ks s)"
    by (simp add: create_client_finished_def bind_apply cts finished_mac_run [OF L(1)] return_def)
  have len: "length fin + 1 + tag_len C < 2 ^ 16" "length fin + 6 + tag_len C \<le> length buf"
    using length_finished_message [OF L(1)] suite_sizesD [OF L(3)] tx(2) by (simp_all add: fin)
  have enc: "encodes (encode_message C (p256_public E) ?rec) fin"
    using encodes_handshake [of C "p256_public E" "ClientFinished ?f", OF _] encodes_finished [of ?f]
    by (simp add: fin finished_message_def)
  have "out = closed_record C (client_state (cl_ks s)) (header_of ?rec) fin"
    by (simp add: out closed_record_def)
  then have send: "send_record C E ?rec s =
      (Ok out, s\<lparr>cl_tx := wb_idle (overwrite 0 out buf), cl_ks := transcript_update fin (cl_ks s)\<rparr>)"
    using use by (intro send_record_run [OF laws _ tx(1) enc finishes_encrypted len]) (simp_all add: usable_def)
  let ?s2 = "s\<lparr>cl_tx := wb_idle (overwrite 0 out buf), cl_ks := transcript_update fin (cl_ks s)\<rparr>"
  have "usable (client_traffic (cl_ks ?s2))" using use by simp
  from respond_run [OF tl this, of out] obtain t' where
    t': "respond_blocking T out ?s2 = (Ok (), ?s2\<lparr>cl_transport := t', cl_ks := bump_client (cl_ks ?s2)\<rparr>)"
      "sent t' = sent (cl_transport ?s2) @ out" "\<And>x. delivers T (cl_transport ?s2) x \<Longrightarrow> delivers T t' x"
    by blast
  have ks: "replace_transcript_hash h (bump_client (transcript_update fin (cl_ks s))) =
      replace_transcript_hash h (bump_client (cl_ks s))"
    by (simp add: replace_transcript_hash_def bump_client_def transcript_update_def)
  show thesis
    by (rule that [of t'])
      (use t' dl in \<open>simp_all add: process_blocking_def client_finished_def bind_apply next_do_apply map_err_apply on_keys_def
        on_part_apply create send client_finished_finalize_def hash ok_or_def ks master_secret_ks [OF laws]\<close>)
qed


section \<open>A whole flight\<close>

text \<open>
  What the provider is asked about a message, given with the transcript through it, if it has a verifier:
  certificates and their signatures are for the verifier, \<open>EncryptedExtensions\<close> pass.
\<close>

definition if_verifier :: "'p crypto_provider \<Rightarrow> ('p, unit, tls_error) comp \<Rightarrow> ('p, unit, tls_error) comp" where
  "if_verifier P op p = (case cp_verifier P p of
       (Ok _, p') \<Rightarrow> op p'
     | (Err _, p') \<Rightarrow> (Ok (), p')
     | (Panic, p') \<Rightarrow> (Panic, p'))"

fun asked :: "'p crypto_provider \<Rightarrow> bytes \<Rightarrow> server_handshake \<Rightarrow> ('p, unit, tls_error) comp" where
  "asked P t EncryptedExtensions = return ()"
| "asked P t (ServerCertificate c) = if_verifier P (cp_verify_certificate P t c)"
| "asked P t (ServerCertificateVerify cv) = if_verifier P (cp_verify_signature P cv)"
| "asked P t _ = throw InvalidHandshake"

text \<open>The provider after it has approved of some messages, and \<open>None\<close> if it has not.\<close>

fun approved :: "'p crypto_provider \<Rightarrow> bytes \<Rightarrow> (bytes \<times> server_handshake) list \<Rightarrow> 'p \<Rightarrow> 'p option" where
  "approved P t [] p = Some p"
| "approved P t ((bs, m) # g) p =
     (case asked P (t @ bs) m p of (Ok _, p') \<Rightarrow> approved P (t @ bs) g p' | _ \<Rightarrow> None)"

lemma approved_append:
  "approved P t (g @ g') p = Some p' \<longleftrightarrow>
     (\<exists>q. approved P t g p = Some q \<and> approved P (t @ concat (map fst g)) g' q = Some p')"
  by (induction P t g p rule: approved.induct) (auto split: prod.split result.split)

lemma handler_asked:
  assumes "asked P (transcript_hash rk) m p = (Ok (), p')"
  shows "verify_handler C P (SR_Handshake m) (rk, st, hs, p) = (Ok (), (rk, st, hs, p'))"
  using assms
  by (cases m) (auto simp: verify_handler_def if_verifier_def with_verifier_def on_part_apply bind_apply return_def throw_def
      split: prod.splits result.splits)

lemma snapshot_asked: "asked P t m p = (Ok (), p') \<Longrightarrow> with_snapshot C d m = m"
  by (cases m) (simp_all add: with_snapshot_def throw_def)

definition flight_bytes :: "(bytes \<times> server_handshake) list list \<Rightarrow> bytes" where
  "flight_bytes gs = concat (map fst (concat gs))"

text \<open>The records of a flight: one per group of messages, each under the next nonce.\<close>

fun flight_records :: "cipher_suite_params \<Rightarrow> key_schedule_state \<Rightarrow> (bytes \<times> server_handshake) list list \<Rightarrow> bytes" where
  "flight_records C st [] = []"
| "flight_records C st (g # gs) = sealed_record C st (concat (map fst g)) CT_Handshake @
     flight_records C (st\<lparr>counter := counter st + 1\<rparr>) gs"

definition flight_fits :: "cipher_suite_params \<Rightarrow> nat \<Rightarrow> key_schedule_state \<Rightarrow> (bytes \<times> server_handshake) list list \<Rightarrow> bool" where
  "flight_fits C n st gs \<longleftrightarrow> length (iv st) = 12 \<and> unat (counter st) + length gs < 2 ^ 64 \<and>
     list_all (\<lambda>g. list_all (\<lambda>(bs, m). message_of C bs m) g \<and> length (concat (map fst g)) + 1 + tag_len C < 2 ^ 16 \<and>
        length (concat (map fst g)) + 1 + tag_len C \<le> n) gs"

lemma flight_fits_Cons:
  assumes "flight_fits C n st (g # gs)"
  shows "usable st" and "flight_fits C n (st\<lparr>counter := counter st + 1\<rparr>) gs"
    and "list_all (\<lambda>(bs, m). message_of C bs m) g" and "length (concat (map fst g)) + 1 + tag_len C < 2 ^ 16"
    and "length (concat (map fst g)) + 1 + tag_len C \<le> n"
  using assms counter_step [of st "Suc (length gs)"] by (auto simp: flight_fits_def usable_def)

lemma handle_approved:
  assumes "approved P (transcript_hash rk) g p = Some p'"
  shows "handle_messages C (verify_handler C P) (g @ g') (rk, st, hs, p) =
     handle_messages C (verify_handler C P) g' (rk\<lparr>transcript_hash := transcript_hash rk @ concat (map fst g)\<rparr>, st, hs, p')"
  using assms
proof (induction g arbitrary: rk p)
  case (Cons bm g)
  obtain bs m where bm: "bm = (bs, m)" by fastforce
  let ?rk = "rk\<lparr>transcript_hash := transcript_hash rk @ bs\<rparr>"
  from Cons.prems obtain q where q: "asked P (transcript_hash ?rk) m p = (Ok (), q)"
    "approved P (transcript_hash ?rk) g q = Some p'"
    by (auto simp: bm split: prod.splits result.splits)
  from Cons.IH [OF q(2)] handler_asked [OF q(1), of C] snapshot_asked [OF q(1)] show ?case
    by (simp add: bm next_do_apply)
qed simp

lemma handle_finished:
  assumes laws: "hash_laws C" and sts: "traffic_secret (r_state rk) = Initialized sts"
    and req: "hs_certificate_request hs = None"
    and fin: "fin = finished_message C sts (transcript_hash rk)"
  shows "handle_messages C (verify_handler C P)
      [(fin, ServerFinished \<lparr>fin_verify = rfc_finished_mac C sts (hash C (transcript_hash rk)), fin_hash = None\<rparr>)] (rk, st, hs, p) =
     (Ok (), (rk\<lparr>transcript_hash := transcript_hash rk @ fin\<rparr>, S_ClientFinished,
        hs\<lparr>hs_traffic_hash := Some (transcript_hash rk @ fin)\<rparr>, p))"
  using assms
  by (simp add: next_do_apply with_snapshot_def verify_handler_def bind_apply verify_finished_def
      finished_key_run rfc_finished_mac_def return_def)


lemma open_loop_step:
  "st \<noteq> S_ApplicationData \<Longrightarrow> process_blocking C E sig T P config st s = (Ok st', s') \<Longrightarrow>
   open_loop C E sig T P config st s = open_loop C E sig T P config st' s'"
  by (subst open_loop.simps) simp

lemma open_loop_done: "open_loop C E sig T P config S_ApplicationData s = Some (Ok (), s)"
  by (subst open_loop.simps) simp

definition finished_of :: "cipher_suite_params \<Rightarrow> bytes \<Rightarrow> bytes \<Rightarrow> bytes \<times> server_handshake" where
  "finished_of C sts t = (finished_message C sts t,
     ServerFinished \<lparr>fin_verify = rfc_finished_mac C sts (hash C t), fin_hash = None\<rparr>)"

text \<open>The read half of the key schedule once a flight has been read.\<close>

definition read_flight :: "nat \<Rightarrow> bytes \<Rightarrow> key_schedule \<Rightarrow> key_schedule" where
  "read_flight n bs ks = ks\<lparr>server_state := \<lparr>r_state = after_records n (r_state (server_state ks)),
     transcript_hash = ks_transcript ks @ bs\<rparr>\<rparr>"

lemma read_flight_simps [simp]:
  "shared (read_flight n bs ks) = shared ks" "client_state (read_flight n bs ks) = client_state ks"
  "ks_transcript (read_flight n bs ks) = ks_transcript ks @ bs"
  "r_state (server_state (read_flight n bs ks)) = after_records n (r_state (server_state ks))"
  by (simp_all add: read_flight_def ks_transcript_def)

lemma verify_record:
  assumes "crypto_laws C" and "transport_laws T sent" and "reader_inv (cl_reader s)"
    and dl: "delivers T (cl_transport s) (flight_records C (r_state (server_state (cl_ks s))) (g # gs) @ rest)"
    and fits: "flight_fits C (length (rr_buf (cl_reader s))) (r_state (server_state (cl_ks s))) (g # gs)"
    and run: "handle_messages C (verify_handler C P) g (verify_of s) =
      (Ok (), ((server_state (cl_ks s))\<lparr>transcript_hash := ks_transcript (cl_ks s) @ concat (map fst g)\<rparr>, st, hs', p'))"
  obtains t' rd' where "process_blocking C E sig T P config S_ServerVerify s =
     (Ok st, s\<lparr>cl_transport := t', cl_reader := rd', cl_ks := read_flight 1 (concat (map fst g)) (cl_ks s),
        cl_handshake := hs', cl_provider := p'\<rparr>)"
    and "delivers T t' (flight_records C (after_records 1 (r_state (server_state (cl_ks s)))) gs @ rest)"
    and "sent t' = sent (cl_transport s)"
    and "reader_inv rd'" and "length (rr_buf rd') = length (rr_buf (cl_reader s))"
proof -
  let ?st = "r_state (server_state (cl_ks s))" let ?c = "concat (map fst g)"
  note L = crypto_lawsD [OF assms(1)]
  note f = flight_fits_Cons [OF fits]
  have opened: "opened_record C ?st (sealed_record C ?st ?c CT_Handshake) =
      Some (?c @ content_type_code CT_Handshake # replicate 0 0)"
    using opened_sealed [OF L(2) f(4), of ?st CT_Handshake] by simp
  have len: "length (sealed_record C ?st ?c CT_Handshake) - 5 \<le> length (rr_buf (cl_reader s))"
    using f(4,5) length_sealed_record [OF L(2), of ?c ?st CT_Handshake] by simp
  have dl': "delivers T (cl_transport s) (sealed_record C ?st ?c CT_Handshake @
      (flight_records C (after_records 1 ?st) gs @ rest))"
    using dl by (simp add: after_records_def)
  have rk: "r_state ((server_state (cl_ks s))\<lparr>transcript_hash := t\<rparr>) = ?st" for t by simp
  from verify_step [OF assms(1-3) dl' len f(1,3) opened run rk, where E = E and sig = sig and config = config]
  obtain t' rd' where "process_blocking C E sig T P config S_ServerVerify s =
     (Ok st, s\<lparr>cl_transport := t', cl_reader := rd', cl_ks := bump_server ((cl_ks s)\<lparr>server_state :=
         (server_state (cl_ks s))\<lparr>transcript_hash := ks_transcript (cl_ks s) @ ?c\<rparr>\<rparr>),
        cl_handshake := hs', cl_provider := p'\<rparr>)"
    "delivers T t' (flight_records C (after_records 1 ?st) gs @ rest)" "sent t' = sent (cl_transport s)"
    "reader_inv rd'" "length (rr_buf rd') = length (rr_buf (cl_reader s))"
    by blast
  then show thesis
    by (intro that [where t' = t' and rd' = rd']) (simp_all add: read_flight_def ks_transcript_def bump_server_def after_records_def)
qed


lemma after_records_twice [simp]: "after_records m (after_records n st) = after_records (n + m) st"
  by (simp add: after_records_def ac_simps)

lemma after_records_iv [simp]: "iv (after_records n st) = iv st" "traffic_secret (after_records n st) = traffic_secret st"
  by (simp_all add: after_records_def)

lemma read_flight_read_flight [simp]:
  "read_flight m bs' (read_flight n bs ks) = read_flight (n + m) (bs @ bs') ks"
  by (simp add: read_flight_def ks_transcript_def)

lemma flight_fits_append: "flight_fits C n st (qs @ gs) \<Longrightarrow> flight_fits C n (after_records (length qs) st) gs"
  by (induction qs arbitrary: st) (simp_all add: flight_fits_Cons(2) after_records_Suc [symmetric])

lemma flight_bytes_simps [simp]: "flight_bytes [] = []" "flight_bytes (q # qs) = concat (map fst q) @ flight_bytes qs"
  "flight_bytes (qs @ gs) = flight_bytes qs @ flight_bytes gs"
  by (simp_all add: flight_bytes_def)

text \<open>The records of the flight whose messages the provider has approved of; \<open>gs\<close> is still to come.\<close>

lemma open_approved:
  assumes laws: "crypto_laws C" and tl: "transport_laws T sent" and "reader_inv (cl_reader s)"
    and "delivers T (cl_transport s) (flight_records C (r_state (server_state (cl_ks s))) (qs @ gs) @ rest)"
    and "flight_fits C (length (rr_buf (cl_reader s))) (r_state (server_state (cl_ks s))) (qs @ gs)"
    and "approved P (ks_transcript (cl_ks s)) (concat qs) (cl_provider s) = Some p'"
  shows "\<exists>t' rd'. open_loop C E sig T P config S_ServerVerify s = open_loop C E sig T P config S_ServerVerify
      (s\<lparr>cl_transport := t', cl_reader := rd', cl_ks := read_flight (length qs) (flight_bytes qs) (cl_ks s), cl_provider := p'\<rparr>) \<and>
     delivers T t' (flight_records C (after_records (length qs) (r_state (server_state (cl_ks s)))) gs @ rest) \<and>
     sent t' = sent (cl_transport s) \<and> reader_inv rd' \<and> length (rr_buf rd') = length (rr_buf (cl_reader s))"
  using assms(3-)
proof (induction qs arbitrary: s)
  case Nil
  have "s\<lparr>cl_transport := cl_transport s, cl_reader := cl_reader s, cl_ks := read_flight 0 [] (cl_ks s), cl_provider := p'\<rparr> = s"
    using Nil.prems(4) by (simp add: read_flight_def ks_transcript_def)
  with Nil.prems show ?case by (intro exI [of _ "cl_transport s"] exI [of _ "cl_reader s"]) simp
next
  case (Cons q qs)
  let ?k = "r_state (server_state (cl_ks s))"
  from Cons.prems(4) obtain p1 where p1: "approved P (ks_transcript (cl_ks s)) q (cl_provider s) = Some p1"
    "approved P (ks_transcript (cl_ks s) @ concat (map fst q)) (concat qs) p1 = Some p'"
    by (auto simp: approved_append)
  let ?s1 = "\<lambda>t' rd'. s\<lparr>cl_transport := t', cl_reader := rd', cl_ks := read_flight 1 (concat (map fst q)) (cl_ks s),
    cl_provider := p1\<rparr>"
  have run: "handle_messages C (verify_handler C P) (q @ []) (verify_of s) =
      (Ok (), ((server_state (cl_ks s))\<lparr>transcript_hash := ks_transcript (cl_ks s) @ concat (map fst q)\<rparr>,
        S_ServerVerify, cl_handshake s, p1))"
    unfolding verify_of_def using p1(1) by (subst handle_approved) (simp_all add: ks_transcript_def return_def)
  have same: "s\<lparr>cl_transport := t', cl_reader := rd', cl_ks := read_flight 1 (concat (map fst q)) (cl_ks s),
      cl_handshake := cl_handshake s, cl_provider := p1\<rparr> = ?s1 t' rd'" for t' rd'
    by simp
  from verify_record [OF laws tl Cons.prems(1) Cons.prems(2,3) [unfolded append_Cons] run [unfolded append_Nil2],
      where E = E and sig = sig and config = config]
  obtain t' rd' where step: "process_blocking C E sig T P config S_ServerVerify s = (Ok S_ServerVerify, ?s1 t' rd')"
    "delivers T t' (flight_records C (after_records 1 ?k) (qs @ gs) @ rest)"
    "sent t' = sent (cl_transport s)" "reader_inv rd'" "length (rr_buf rd') = length (rr_buf (cl_reader s))"
    unfolding same by blast
  have fits: "flight_fits C (length (rr_buf rd')) (after_records 1 ?k) (qs @ gs)"
    using flight_fits_append [of C _ ?k "[q]"] Cons.prems(3) step(5) by simp
  have "\<exists>t'' rd''. open_loop C E sig T P config S_ServerVerify (?s1 t' rd') = open_loop C E sig T P config S_ServerVerify
      ((?s1 t' rd')\<lparr>cl_transport := t'', cl_reader := rd'', cl_ks := read_flight (length qs) (flight_bytes qs) (cl_ks (?s1 t' rd')),
         cl_provider := p'\<rparr>) \<and>
     delivers T t'' (flight_records C (after_records (length qs) (after_records 1 ?k)) gs @ rest) \<and>
     sent t'' = sent t' \<and> reader_inv rd'' \<and> length (rr_buf rd'') = length (rr_buf rd')"
    using Cons.IH [of "?s1 t' rd'"] step fits p1(2) by simp
  with open_loop_step [OF _ step(1)] step(3-) show ?case by auto
qed

lemma open_flight:
  assumes laws: "crypto_laws C" and tl: "transport_laws T sent" and "reader_inv (cl_reader s)"
    and "delivers T (cl_transport s) (flight_records C (r_state (server_state (cl_ks s))) gs @ rest)"
    and "flight_fits C (length (rr_buf (cl_reader s))) (r_state (server_state (cl_ks s))) gs"
    and gs: "gs = qs @ [g @ [finished_of C sts (ks_transcript (cl_ks s) @ flight_bytes (qs @ [g]))]]"
    and ok: "approved P (ks_transcript (cl_ks s)) (concat (qs @ [g])) (cl_provider s) = Some p'"
    and sts: "traffic_secret (r_state (server_state (cl_ks s))) = Initialized sts"
    and req: "hs_certificate_request (cl_handshake s) = None"
  shows "\<exists>t' rd'. open_loop C E sig T P config S_ServerVerify s = open_loop C E sig T P config S_ClientFinished
      (s\<lparr>cl_transport := t', cl_reader := rd', cl_ks := read_flight (length gs) (flight_bytes gs) (cl_ks s),
         cl_handshake := (cl_handshake s)\<lparr>hs_traffic_hash := Some (ks_transcript (cl_ks s) @ flight_bytes gs)\<rparr>,
         cl_provider := p'\<rparr>) \<and>
     delivers T t' rest \<and> sent t' = sent (cl_transport s) \<and> reader_inv rd' \<and>
     length (rr_buf rd') = length (rr_buf (cl_reader s))"
proof -
  let ?k = "r_state (server_state (cl_ks s))" let ?t = "ks_transcript (cl_ks s) @ flight_bytes (qs @ [g])"
  let ?f = "finished_of C sts ?t"
  from ok obtain q where q: "approved P (ks_transcript (cl_ks s)) (concat qs) (cl_provider s) = Some q"
    "approved P (ks_transcript (cl_ks s) @ flight_bytes qs) g q = Some p'"
    by (auto simp: approved_append flight_bytes_def)
  from open_approved [OF laws tl assms(3) assms(4,5) [unfolded gs] q(1), where E = E and sig = sig and config = config]
  obtain t1 rd1 where 1: "open_loop C E sig T P config S_ServerVerify s = open_loop C E sig T P config S_ServerVerify
      (s\<lparr>cl_transport := t1, cl_reader := rd1, cl_ks := read_flight (length qs) (flight_bytes qs) (cl_ks s), cl_provider := q\<rparr>)"
      (is "_ = open_loop _ _ _ _ _ _ _ ?s1")
    "delivers T t1 (flight_records C (after_records (length qs) ?k) [g @ [?f]] @ rest)"
    "sent t1 = sent (cl_transport s)" "reader_inv rd1" "length (rr_buf rd1) = length (rr_buf (cl_reader s))" by blast
  have fits: "flight_fits C (length (rr_buf (cl_reader ?s1))) (r_state (server_state (cl_ks ?s1))) [g @ [?f]]"
    using flight_fits_append [OF assms(5) [unfolded gs]] 1(5) by simp
  let ?rk = "server_state (cl_ks ?s1)"
  have rk: "transcript_hash ?rk = ks_transcript (cl_ks s) @ flight_bytes qs"
    "traffic_secret (r_state ?rk) = Initialized sts"
    using sts by (simp_all add: read_flight_def)
  have run: "handle_messages C (verify_handler C P) (g @ [?f]) (verify_of ?s1) =
      (Ok (), (?rk\<lparr>transcript_hash := ks_transcript (cl_ks ?s1) @ concat (map fst (g @ [?f]))\<rparr>,
        S_ClientFinished, (cl_handshake s)\<lparr>hs_traffic_hash := Some (ks_transcript (cl_ks s) @ flight_bytes gs)\<rparr>, p'))"
    using handle_approved [of P ?rk g q p' C "[?f]" S_ServerVerify "cl_handshake s"] q(2) rk
      handle_finished [OF crypto_lawsD(1) [OF laws] _ req refl, of "?rk\<lparr>transcript_hash := ?t\<rparr>" sts P S_ServerVerify p']
    by (simp add: verify_of_def finished_of_def gs flight_bytes_def)
  have "reader_inv (cl_reader ?s1)"
    "delivers T (cl_transport ?s1) (flight_records C (r_state (server_state (cl_ks ?s1))) [g @ [?f]] @ rest)"
    using 1(2,4) by simp_all
  note verified = verify_record [OF laws tl this fits run, where E = E and sig = sig and config = config]
  obtain t' rd' where step: "process_blocking C E sig T P config S_ServerVerify ?s1 = (Ok S_ClientFinished,
       ?s1\<lparr>cl_transport := t', cl_reader := rd', cl_ks := read_flight 1 (concat (map fst (g @ [?f]))) (cl_ks ?s1),
         cl_handshake := (cl_handshake s)\<lparr>hs_traffic_hash := Some (ks_transcript (cl_ks s) @ flight_bytes gs)\<rparr>,
         cl_provider := p'\<rparr>)"
    "delivers T t' rest" "sent t' = sent t1" "reader_inv rd'" "length (rr_buf rd') = length (rr_buf rd1)"
  proof (rule verified, goal_cases)
    case (1 t' rd')
    show ?case by (rule 1(1) [OF 1(2)]) (use 1(3-) in simp_all)
  qed
  from open_loop_step [OF _ step(1)] step(2-) 1 show ?thesis
    by (auto simp: gs)
qed


section \<open>The whole handshake\<close>

lemma usable_new: "crypto_laws C \<Longrightarrow> usable (client_traffic (ks_new C))"
  using suite_sizesD [OF crypto_lawsD(3)] by (simp add: usable_def ks_new_def ks_state_new_def)

lemma tls_connection_new_OkD:
  assumes "tls_connection_new C t rbuf wbuf = Ok c"
  shows "128 < length wbuf" and "c = \<lparr>tc_delegate = t, tc_opened = False, tc_ks = ks_new C, tc_reader = reader_new rbuf,
     tc_write_buf = wb_idle wbuf, tc_decrypted = di_default, tc_flush_policy = flush_policy_default\<rparr>"
  using assms
  by (auto simp: tls_connection_new_def wb_new_def wb_idle_def TLS_RECORD_OVERHEAD_def split: if_splits result.splits)

lemma new_schedule [simp]:
  "sh_secret (shared (ks_new C)) = zero_hash C" "ks_transcript (ks_new C) = []"
  by (simp_all add: ks_new_def shared_new_def ks_transcript_def zero_hash_def)

lemma shared_early [simp]:
  "shared (early_ks C psk ks) = shared_after C (hkdf_extract C (sh_secret (shared ks)) psk)"
  by (simp add: early_ks_def Let_def)

text \<open>From the first state to the last, over any transport; \<open>s0\<close> is a client that has not sent anything.\<close>

definition fresh_client :: "cipher_suite_params \<Rightarrow> bytes \<Rightarrow> bytes \<Rightarrow> ('t, 'p) client \<Rightarrow> bool" where
  "fresh_client C rbuf wbuf s \<longleftrightarrow> cl_handshake s = handshake_new \<and> cl_reader s = reader_new rbuf \<and>
     cl_tx s = wb_idle wbuf \<and> cl_ks s = ks_new C"

lemma rr_buf_new [simp]: "rr_buf (reader_new buf) = buf"
  by (simp add: reader_new_def)

lemma open_hellos:
  assumes laws: "crypto_laws C" and tl: "transport_laws T sent" and fresh: "fresh_client C rbuf wbuf s"
    and rng: "cp_random P (cl_provider s) = (random, p1)" "cp_secret P p1 = (secret, p2)"
    and fits: "hello_fits C E (hello_of config random secret) (length wbuf)"
    and m: "m = hello_message C (p256_public E) (hello_of config random secret) (rfc_binder_key C (hello_psk C config)) []"
    and sh: "message_of C sh (ServerHello es)" "length sh < 2 ^ 16" "length sh \<le> length rbuf"
    and dh: "calculate_shared_secret (p256_dh E) secret es = Some ikm"
    and dl: "delivers T (cl_transport s) (handshake_record sh @ rest)"
    and ks: "ks = handshake_ks C ikm (transcript_update sh (bump_client (transcript_update m
      (early_ks C (hello_psk C config) (ks_new C)))))"
  shows "\<exists>t' buf'. open_loop C E sig T P config S_ClientHello s = open_loop C E sig T P config S_ServerVerify
      (s\<lparr>cl_transport := t', cl_tx := wb_idle buf', cl_ks := ks, cl_provider := p2, cl_reader := after_body sh (reader_new rbuf)\<rparr>) \<and>
     delivers T t' rest \<and> sent t' = sent (cl_transport s) @ [22, 3, 1] @ vec16 m \<and> length buf' = length wbuf"
proof -
  note s = fresh [unfolded fresh_client_def, THEN conjunct1] fresh [unfolded fresh_client_def, THEN conjunct2, THEN conjunct1]
    fresh [unfolded fresh_client_def, THEN conjunct2, THEN conjunct2]
  let ?psk = "hello_psk C config" let ?ks1 = "early_ks C ?psk (ks_new C)" let ?out = "[22, 3, 1] @ vec16 m"
  have bk: "rfc_binder_key C ?psk = rfc_derive_secret C (hkdf_extract C (sh_secret (shared (cl_ks s))) ?psk) ''ext binder'' []"
    by (simp add: s rfc_binder_key_def rfc_early_secret_def)
  have tr: "ks_transcript ?ks1 = []" by simp
  from client_hello_step [OF laws tl dl _ _ rng, of wbuf E config ?ks1 m ?out sig] obtain t1 where
    1: "process_blocking C E sig T P config S_ClientHello s =
     (Ok S_ServerHello, s\<lparr>cl_transport := t1, cl_tx := wb_idle (overwrite 0 ?out wbuf),
        cl_ks := bump_client (transcript_update m ?ks1), cl_provider := p2,
        cl_handshake := (cl_handshake s)\<lparr>hs_secret := Some secret\<rparr>\<rparr>)" (is "_ = (_, ?s1)")
    "delivers T t1 (handshake_record sh @ rest)" "sent t1 = sent (cl_transport s) @ ?out"
    using s fits usable_new [OF laws] m bk tr by auto
  from server_hello_step [OF laws tl _ _ sh(1,2), of ?s1 rest secret E ikm sig P config] obtain t2 where
    2: "process_blocking C E sig T P config S_ServerHello ?s1 =
     (Ok S_ServerVerify, ?s1\<lparr>cl_transport := t2, cl_reader := after_body sh (cl_reader ?s1), cl_ks := ks,
        cl_handshake := (cl_handshake ?s1)\<lparr>hs_secret := None\<rparr>\<rparr>)" (is "_ = (_, ?s2)")
    "delivers T t2 rest" "sent t2 = sent t1"
    using 1(2) sh(3) dh by (auto simp: s ks)
  have same: "?s2 = s\<lparr>cl_transport := t2, cl_tx := wb_idle (overwrite 0 ?out wbuf), cl_ks := ks, cl_provider := p2,
      cl_reader := after_body sh (reader_new rbuf)\<rparr>"
    by (rule client.equality) (simp_all add: s handshake_new_def)
  have "length (overwrite 0 ?out wbuf) = length wbuf"
    using fits length_hello_message [OF crypto_lawsD(1) [OF laws], of "p256_public E" "hello_of config random secret"]
    by (simp add: m hello_fits_def handshake_bytes_def)
  moreover have "open_loop C E sig T P config S_ClientHello s = open_loop C E sig T P config S_ServerVerify ?s2"
    using open_loop_step [OF _ 1(1)] open_loop_step [OF _ 2(1)] by simp
  ultimately show ?thesis unfolding same using 1(3) 2(2,3) by auto
qed

lemma open_whole:
  assumes laws: "crypto_laws C" and tl: "transport_laws T sent" and fresh: "fresh_client C rbuf wbuf s"
    and wb: "96 \<le> length wbuf"
    and rng: "cp_random P (cl_provider s) = (random, p1)" "cp_secret P p1 = (secret, p2)"
    and fits: "hello_fits C E (hello_of config random secret) (length wbuf)"
    and m: "m = hello_message C (p256_public E) (hello_of config random secret) (rfc_binder_key C psk) []"
    and psk: "psk = hello_psk C config"
    and sh: "message_of C sh (ServerHello es)" "length sh < 2 ^ 16" "length sh \<le> length rbuf"
    and dh: "calculate_shared_secret (p256_dh E) secret es = Some ikm"
    and sts: "sts = rfc_handshake_traffic C psk ikm ''s hs traffic'' (m @ sh)"
    and cts: "cts = rfc_handshake_traffic C psk ikm ''c hs traffic'' (m @ sh)"
    and gs: "gs = qs @ [g @ [finished_of C sts (m @ sh @ flight_bytes (qs @ [g]))]]"
    and ok: "approved P (m @ sh) (concat (qs @ [g])) p2 = Some p3"
    and ff: "flight_fits C (length rbuf) (rfc_traffic_keys C sts) gs"
    and dl: "delivers T (cl_transport s) (handshake_record sh @ flight_records C (rfc_traffic_keys C sts) gs @ rest)"
    and th: "th = m @ sh @ flight_bytes gs"
  shows "\<exists>s'. open_loop C E sig T P config S_ClientHello s = Some (Ok (), s') \<and>
     sent (cl_transport s') = sent (cl_transport s) @ [22, 3, 1] @ vec16 m @
       sealed_record C (rfc_traffic_keys C cts) (finished_message C cts th) CT_Handshake \<and>
     delivers T (cl_transport s') rest \<and>
     client_traffic (cl_ks s') = rfc_traffic_keys C (rfc_application_traffic C psk ikm ''c ap traffic'' th) \<and>
     server_traffic (cl_ks s') = rfc_traffic_keys C (rfc_application_traffic C psk ikm ''s ap traffic'' th) \<and>
     (\<exists>buf. cl_tx s' = wb_idle buf \<and> length buf = length wbuf) \<and>
     reader_inv (cl_reader s') \<and> length (rr_buf (cl_reader s')) = length rbuf"
proof -
  define ks where "ks = handshake_ks C ikm (transcript_update sh (bump_client (transcript_update m
      (early_ks C psk (ks_new C)))))"
  have ks: "ks_transcript ks = m @ sh" "server_traffic ks = rfc_traffic_keys C sts" "client_traffic ks = rfc_traffic_keys C cts"
    "shared ks = shared_after C (rfc_handshake_secret C psk ikm)"
    by (simp_all add: ks_def sts cts rfc_handshake_traffic_def rfc_handshake_secret_def rfc_early_secret_def shared_after_def)
  from open_hellos [OF laws tl fresh rng fits m [unfolded psk] sh dh dl ks_def [unfolded psk], of sig]
  obtain t1 buf1 where 1: "open_loop C E sig T P config S_ClientHello s = open_loop C E sig T P config S_ServerVerify
      (s\<lparr>cl_transport := t1, cl_tx := wb_idle buf1, cl_ks := ks, cl_provider := p2, cl_reader := after_body sh (reader_new rbuf)\<rparr>)"
      (is "_ = open_loop _ _ _ _ _ _ _ ?s1")
    "delivers T t1 (flight_records C (rfc_traffic_keys C sts) gs @ rest)"
    "sent t1 = sent (cl_transport s) @ [22, 3, 1] @ vec16 m" "length buf1 = length wbuf" by blast
  have hs: "cl_handshake s = handshake_new" using fresh by (simp add: fresh_client_def)
  have rd: "reader_inv (cl_reader ?s1)" "length (rr_buf (cl_reader ?s1)) = length rbuf"
    using reader_inv_after [OF reader_inv_new, of sh rbuf] sh(3) body_start_fits [OF reader_inv_new, of "length sh" rbuf]
    by (simp_all add: after_body_def)
  from open_flight [OF laws tl rd(1), of gs rest qs g sts P p3 E sig config] obtain t2 rd2 where
    2: "open_loop C E sig T P config S_ServerVerify ?s1 = open_loop C E sig T P config S_ClientFinished
      (?s1\<lparr>cl_transport := t2, cl_reader := rd2, cl_ks := read_flight (length gs) (flight_bytes gs) ks,
         cl_handshake := (cl_handshake s)\<lparr>hs_traffic_hash := Some th\<rparr>, cl_provider := p3\<rparr>)" (is "_ = open_loop _ _ _ _ _ _ _ ?s2")
      "delivers T t2 rest" "sent t2 = sent t1" "reader_inv rd2" "length (rr_buf rd2) = length rbuf"
    using 1(2) ff gs ok rd(2) by (auto simp: ks hs handshake_new_def th)
  let ?ks2 = "read_flight (length gs) (flight_bytes gs) ks" let ?fin = "finished_message C cts th"
  from client_finished_step [OF laws tl, of ?s2 rest buf1 cts th ?fin _ E sig P config] obtain t3 where
    3: "process_blocking C E sig T P config S_ClientFinished ?s2 = (Ok S_ApplicationData,
       ?s2\<lparr>cl_transport := t3, cl_tx := wb_idle (overwrite 0 (sealed_record C (rfc_traffic_keys C cts) ?fin CT_Handshake) buf1),
         cl_ks := master_ks C (replace_transcript_hash th (bump_client ?ks2)),
         cl_handshake := (cl_handshake ?s2)\<lparr>hs_traffic_hash := None\<rparr>\<rparr>)" (is "_ = (_, ?s3)")
      "delivers T t3 rest" "sent t3 = sent t2 @ sealed_record C (rfc_traffic_keys C cts) ?fin CT_Handshake"
    using 2(2) 1(4) wb usable_rfc_keys [OF laws] by (auto simp: ks th)
  have "open_loop C E sig T P config S_ClientHello s = Some (Ok (), ?s3)"
    unfolding 1(1) 2(1) using open_loop_step [OF _ 3(1)] by (simp add: open_loop_done)
  moreover have "replace_transcript_hash th (bump_client ?ks2) = bump_client ?ks2"
    by (simp add: replace_transcript_hash_def bump_client_def read_flight_def th ks)
  moreover note master_ks_rfc [of "bump_client ?ks2" C psk ikm]
  moreover have "length (overwrite 0 (sealed_record C (rfc_traffic_keys C cts) ?fin CT_Handshake) buf1) = length wbuf"
    using length_sealed_record [OF crypto_lawsD(2) [OF laws], of ?fin] length_finished_message [OF crypto_lawsD(1) [OF laws], of cts th]
      suite_sizesD [OF crypto_lawsD(3) [OF laws]] wb 1(4) by simp
  ultimately show ?thesis
    using 1(3) 2(3-) 3(2,3) by (auto simp: ks th)
qed


text \<open>An open connection with nothing buffered in either direction, and the sizes of its buffers.\<close>

definition idle_connection :: "nat \<Rightarrow> nat \<Rightarrow> 't tls_connection \<Rightarrow> bool" where
  "idle_connection n m c \<longleftrightarrow> tc_opened c \<and>
     (\<exists>buf. tc_write_buf c = wb_idle buf \<and> length buf = m) \<and>
     reader_inv (tc_reader c) \<and> length (rr_buf (tc_reader c)) = n \<and> di_len (tc_decrypted c) = di_consumed (tc_decrypted c)"

lemma open_connection_run:
  assumes "crypto_laws C" and "transport_laws T sent"
    and new: "tls_connection_new C t rbuf wbuf = Ok c"
    and host: "set_hostname P config p = (Ok (), p0)"
    and "cp_random P p0 = (random, p1)" "cp_secret P p1 = (secret, p2)"
    and "hello_fits C E (hello_of config random secret) (length wbuf)"
    and "psk = hello_psk C config"
    and "m = hello_message C (p256_public E) (hello_of config random secret) (rfc_binder_key C psk) []"
    and "message_of C sh (ServerHello es)" "length sh < 2 ^ 16" "length sh \<le> length rbuf"
    and "calculate_shared_secret (p256_dh E) secret es = Some ikm"
    and "sts = rfc_handshake_traffic C psk ikm ''s hs traffic'' (m @ sh)"
    and "cts = rfc_handshake_traffic C psk ikm ''c hs traffic'' (m @ sh)"
    and "gs = qs @ [g @ [finished_of C sts (m @ sh @ flight_bytes (qs @ [g]))]]"
    and "approved P (m @ sh) (concat (qs @ [g])) p2 = Some p3"
    and "flight_fits C (length rbuf) (rfc_traffic_keys C sts) gs"
    and "delivers T t (handshake_record sh @ flight_records C (rfc_traffic_keys C sts) gs @ rest)"
    and "th = m @ sh @ flight_bytes gs"
  shows "\<exists>c'. open_connection C E sig T P config p c = Some (Ok (), c') \<and> idle_connection (length rbuf) (length wbuf) c' \<and>
     sent (tc_delegate c') = sent t @ [22, 3, 1] @ vec16 m @
       sealed_record C (rfc_traffic_keys C cts) (finished_message C cts th) CT_Handshake \<and>
     delivers T (tc_delegate c') rest \<and>
     client_traffic (tc_ks c') = rfc_traffic_keys C (rfc_application_traffic C psk ikm ''c ap traffic'' th) \<and>
     server_traffic (tc_ks c') = rfc_traffic_keys C (rfc_application_traffic C psk ikm ''s ap traffic'' th)"
proof -
  note c = tls_connection_new_OkD [OF new]
  let ?s = "client_of c p0"
  have s: "fresh_client C rbuf wbuf ?s" "cl_transport ?s = t" "cl_provider ?s = p0" "96 \<le> length wbuf"
    using c(1) by (simp_all add: fresh_client_def client_of_def c(2))
  note run = open_whole [OF assms(1,2) s(1,4) _ assms(6,7,9,8,10-18) _ assms(20), where sig = sig]
  obtain s' where s': "open_loop C E sig T P config S_ClientHello ?s = Some (Ok (), s')"
     "sent (cl_transport s') = sent t @ [22, 3, 1] @ vec16 m @
       sealed_record C (rfc_traffic_keys C cts) (finished_message C cts th) CT_Handshake"
     "delivers T (cl_transport s') rest"
     "client_traffic (cl_ks s') = rfc_traffic_keys C (rfc_application_traffic C psk ikm ''c ap traffic'' th)"
     "server_traffic (cl_ks s') = rfc_traffic_keys C (rfc_application_traffic C psk ikm ''s ap traffic'' th)"
     "\<exists>buf. cl_tx s' = wb_idle buf \<and> length buf = length wbuf" "reader_inv (cl_reader s')"
     "length (rr_buf (cl_reader s')) = length rbuf"
    using run assms(5,19) unfolding s(2,3) by blast
  have "idle_connection (length rbuf) (length wbuf) ((put_client s' c)\<lparr>tc_opened := True\<rparr>)"
    using s'(6-8) by (auto simp: idle_connection_def put_client_def c(2) di_default_def)
  with s' show ?thesis
    by (intro exI [of _ "(put_client s' c)\<lparr>tc_opened := True\<rparr>"]) (simp add: open_connection_def host put_client_def)
qed

section \<open>A peer that makes the client panic\<close>

lemma handler_asked_panics:
  assumes "fst (asked P (transcript_hash rk) m p) = Panic"
  shows "fst (verify_handler C P (SR_Handshake m) (rk, st, hs, p)) = Panic" and "with_snapshot C d m = m"
  using assms
  by (cases m; auto simp: verify_handler_def if_verifier_def with_verifier_def on_part_apply bind_apply return_def throw_def
      with_snapshot_def split: prod.splits result.splits)+

lemma handle_panics:
  assumes "approved P (transcript_hash rk) g p = Some p'"
    and "fst (asked P (transcript_hash rk @ concat (map fst g) @ bs) m p') = Panic"
  shows "fst (handle_messages C (verify_handler C P) (g @ (bs, m) # g') (rk, st, hs, p)) = Panic"
proof -
  let ?rk = "rk\<lparr>transcript_hash := transcript_hash rk @ concat (map fst g) @ bs\<rparr>"
  have "fst (verify_handler C P (SR_Handshake m) (?rk, st, hs, p')) = Panic" "\<And>d. with_snapshot C d m = m"
    using handler_asked_panics [of P ?rk m p'] assms(2) by simp_all
  then show ?thesis
    unfolding handle_approved [OF assms(1)]
    by (cases "verify_handler C P (SR_Handshake m) (?rk, st, hs, p')") (simp add: next_do_apply)
qed

lemma open_loop_panics:
  "st \<noteq> S_ApplicationData \<Longrightarrow> process_blocking C E sig T P config st s = (Panic, s') \<Longrightarrow>
   open_loop C E sig T P config st s = Some (Panic, s')"
  by (subst open_loop.simps) simp

lemma open_flight_panics:
  assumes laws: "crypto_laws C" and tl: "transport_laws T sent" and "reader_inv (cl_reader s)"
    and "delivers T (cl_transport s) (flight_records C (r_state (server_state (cl_ks s))) gs @ rest)"
    and "flight_fits C (length (rr_buf (cl_reader s))) (r_state (server_state (cl_ks s))) gs"
    and gs: "gs = qs @ (g @ (bs, m) # g') # gs'"
    and ok: "approved P (ks_transcript (cl_ks s)) (concat (qs @ [g])) (cl_provider s) = Some p'"
    and bad: "fst (asked P (ks_transcript (cl_ks s) @ flight_bytes (qs @ [g]) @ bs) m p') = Panic"
  shows "\<exists>s'. open_loop C E sig T P config S_ServerVerify s = Some (Panic, s')"
proof -
  let ?k = "r_state (server_state (cl_ks s))" let ?ms = "g @ (bs, m) # g'" let ?c = "concat (map fst ?ms)"
  from ok obtain q where q: "approved P (ks_transcript (cl_ks s)) (concat qs) (cl_provider s) = Some q"
    "approved P (ks_transcript (cl_ks s) @ flight_bytes qs) g q = Some p'"
    by (auto simp: approved_append flight_bytes_def)
  from open_approved [OF laws tl assms(3) assms(4,5) [unfolded gs] q(1), where E = E and sig = sig and config = config]
  obtain t1 rd1 where 1: "open_loop C E sig T P config S_ServerVerify s = open_loop C E sig T P config S_ServerVerify
      (s\<lparr>cl_transport := t1, cl_reader := rd1, cl_ks := read_flight (length qs) (flight_bytes qs) (cl_ks s), cl_provider := q\<rparr>)"
      (is "_ = open_loop _ _ _ _ _ _ _ ?s1")
    "delivers T t1 (flight_records C (after_records (length qs) ?k) (?ms # gs') @ rest)"
    "reader_inv rd1" "length (rr_buf rd1) = length (rr_buf (cl_reader s))" by blast
  let ?k1 = "r_state (server_state (cl_ks ?s1))" let ?rest = "flight_records C (?k1\<lparr>counter := counter ?k1 + 1\<rparr>) gs' @ rest"
  note L = crypto_lawsD [OF laws]
  have f: "flight_fits C (length (rr_buf (cl_reader ?s1))) ?k1 (?ms # gs')"
    using flight_fits_append [OF assms(5) [unfolded gs]] 1(4) by simp
  note f = flight_fits_Cons [OF f]
  have "fst (handle_messages C (verify_handler C P) ?ms (verify_of ?s1)) = Panic"
    using handle_panics [of P "server_state (cl_ks ?s1)" g q p' bs m C g'] q(2) bad
    by (simp add: verify_of_def read_flight_def flight_bytes_def)
  moreover have "opened_record C ?k1 (sealed_record C ?k1 ?c CT_Handshake) =
      Some (?c @ content_type_code CT_Handshake # replicate 0 0)"
    using opened_sealed [OF L(2) f(4), of ?k1 CT_Handshake] by simp
  moreover have "length (sealed_record C ?k1 ?c CT_Handshake) - 5 \<le> length (rr_buf (cl_reader ?s1))"
    using f(4,5) length_sealed_record [OF L(2), of ?c ?k1 CT_Handshake] by simp
  moreover have "delivers T (cl_transport ?s1) (sealed_record C ?k1 ?c CT_Handshake @ ?rest)" using 1(2) by simp
  moreover have "reader_inv (cl_reader ?s1)" using 1(3) by simp
  ultimately obtain s' where "process_blocking C E sig T P config S_ServerVerify ?s1 = (Panic, s')"
    using verify_step_panics [OF laws tl _ _ _ f(1,3)] by blast
  with 1(1) open_loop_panics [of S_ServerVerify] show ?thesis by fastforce
qed

lemma open_connection_panics:
  assumes laws: "crypto_laws C" and tl: "transport_laws T sent"
    and new: "tls_connection_new C t rbuf wbuf = Ok c"
    and host: "set_hostname P config p = (Ok (), p0)"
    and rng: "cp_random P p0 = (random, p1)" "cp_secret P p1 = (secret, p2)"
    and fits: "hello_fits C E (hello_of config random secret) (length wbuf)"
    and psk: "psk = hello_psk C config"
    and m: "m = hello_message C (p256_public E) (hello_of config random secret) (rfc_binder_key C psk) []"
    and sh: "message_of C sh (ServerHello es)" "length sh < 2 ^ 16" "length sh \<le> length rbuf"
    and dh: "calculate_shared_secret (p256_dh E) secret es = Some ikm"
    and sts: "sts = rfc_handshake_traffic C psk ikm ''s hs traffic'' (m @ sh)"
    and gs: "gs = qs @ (g @ (bs, msg) # g') # gs'"
    and ok: "approved P (m @ sh) (concat (qs @ [g])) p2 = Some p3"
    and bad: "fst (asked P (m @ sh @ flight_bytes (qs @ [g]) @ bs) msg p3) = Panic"
    and ff: "flight_fits C (length rbuf) (rfc_traffic_keys C sts) gs"
    and dl: "delivers T t (handshake_record sh @ flight_records C (rfc_traffic_keys C sts) gs @ rest)"
  shows "\<exists>c'. open_connection C E sig T P config p c = Some (Panic, c')"
proof -
  note c = tls_connection_new_OkD [OF new]
  let ?s = "client_of c p0"
  have s: "fresh_client C rbuf wbuf ?s" "cl_transport ?s = t" "cl_provider ?s = p0"
    by (simp_all add: fresh_client_def client_of_def c(2))
  define ks where "ks = handshake_ks C ikm (transcript_update sh (bump_client (transcript_update m
      (early_ks C psk (ks_new C)))))"
  have ks: "ks_transcript ks = m @ sh" "server_traffic ks = rfc_traffic_keys C sts"
    by (simp_all add: ks_def sts rfc_handshake_traffic_def rfc_handshake_secret_def rfc_early_secret_def shared_after_def)
  from open_hellos [OF laws tl s(1) _ rng(2) fits m [unfolded psk] sh dh _ ks_def [unfolded psk], where sig = sig] rng(1) dl
  obtain t1 buf1 where 1: "open_loop C E sig T P config S_ClientHello ?s = open_loop C E sig T P config S_ServerVerify
      (?s\<lparr>cl_transport := t1, cl_tx := wb_idle buf1, cl_ks := ks, cl_provider := p2, cl_reader := after_body sh (reader_new rbuf)\<rparr>)"
      (is "_ = open_loop _ _ _ _ _ _ _ ?s1")
    "delivers T t1 (flight_records C (rfc_traffic_keys C sts) gs @ rest)" unfolding s by blast
  have rd: "reader_inv (cl_reader ?s1)" "length (rr_buf (cl_reader ?s1)) = length rbuf"
    using reader_inv_after [OF reader_inv_new, of sh rbuf] sh(3) body_start_fits [OF reader_inv_new, of "length sh" rbuf]
    by (simp_all add: after_body_def)
  from open_flight_panics [OF laws tl rd(1), of gs rest qs g bs msg g' gs' P p3 E sig config] obtain s' where
    "open_loop C E sig T P config S_ServerVerify ?s1 = Some (Panic, s')"
    using 1(2) ff gs ok bad rd(2) ks by auto
  with 1(1) show ?thesis by (simp add: open_connection_def host)
qed

text \<open>
  C2: a client that opens a connection and is not asked for a certificate.  It sends one ClientHello, with
  a binder that is the MAC under its PSK if it has one.  Let the peer answer with a ServerHello whose key share gives a shared
  secret, then with \<open>EncryptedExtensions\<close>, Certificate and CertificateVerify messages that the provider's verifier
  accepts (each Certificate with the transcript through it, as RFC 8446 has it; a provider without a verifier accepts them all), and with
  the Finished of the transcript under the server's handshake keys; these messages in protected records,
  any number of whole messages in each, and the stream in chunks of any length.  Then \<open>open\<close> returns \<open>Ok\<close>.  The client has
  sent the Finished that RFC 8446 prescribes, protected under the client's handshake keys, holds the application
  traffic keys of both directions, and has consumed exactly the peer's flight.
\<close>

theorem client_handshake_completes:
  assumes "crypto_laws C" and "transport_laws T sent"
    and new: "tls_connection_new C t rbuf wbuf = Ok c"
    and host: "set_hostname P config p = (Ok (), p0)"
    and "cp_random P p0 = (random, p1)" "cp_secret P p1 = (secret, p2)"
    and "hello_fits C E (hello_of config random secret) (length wbuf)"
    and "psk = hello_psk C config"
    and "m = hello_message C (p256_public E) (hello_of config random secret) (rfc_binder_key C psk) []"
    and "message_of C sh (ServerHello es)" "length sh < 2 ^ 16" "length sh \<le> length rbuf"
    and "calculate_shared_secret (p256_dh E) secret es = Some ikm"
    and "sts = rfc_handshake_traffic C psk ikm ''s hs traffic'' (m @ sh)"
    and "cts = rfc_handshake_traffic C psk ikm ''c hs traffic'' (m @ sh)"
    and "gs = qs @ [g @ [finished_of C sts (m @ sh @ flight_bytes (qs @ [g]))]]"
    and "approved P (m @ sh) (concat (qs @ [g])) p2 = Some p3"
    and "flight_fits C (length rbuf) (rfc_traffic_keys C sts) gs"
    and "delivers T t (handshake_record sh @ flight_records C (rfc_traffic_keys C sts) gs @ rest)"
    and "th = m @ sh @ flight_bytes gs"
  shows "\<exists>c'. open_connection C E sig T P config p c = Some (Ok (), c') \<and> idle_connection (length rbuf) (length wbuf) c' \<and>
     sent (tc_delegate c') = sent t @ [22, 3, 1] @ vec16 m @
       sealed_record C (rfc_traffic_keys C cts) (finished_message C cts th) CT_Handshake \<and>
     delivers T (tc_delegate c') rest \<and>
     client_traffic (tc_ks c') = rfc_traffic_keys C (rfc_application_traffic C psk ikm ''c ap traffic'' th) \<and>
     server_traffic (tc_ks c') = rfc_traffic_keys C (rfc_application_traffic C psk ikm ''s ap traffic'' th)"
  by (rule open_connection_run [OF assms])

text \<open>A client with a PSK and a toy elliptic curve, for the witnesses.\<close>

definition toy_p256 :: p256_params where
  "toy_p256 = \<lparr>p256_public = (\<lambda>_. replicate 65 4), p256_dh = (\<lambda>_ _. Some [42])\<rparr>"

definition toy_provider :: "unit crypto_provider" where
  "toy_provider = \<lparr>cp_random = (\<lambda>p. (replicate 32 5, p)), cp_secret = (\<lambda>p. ([6], p)), cp_verifier = throw Unimplemented,
     cp_set_hostname = (\<lambda>_. return ()), cp_verify_certificate = (\<lambda>_ _. return ()), cp_verify_signature = (\<lambda>_. return ()),
     cp_client_cert = (\<lambda>p. (None, p)), cp_signer = throw Unimplemented\<rparr>"

definition demo_client_config :: tls_config where
  "demo_client_config = \<lparr>cfg_server_name = None, cfg_alpn_protocols = None, cfg_psk = Some ([1, 2, 3], [[105]]),
     cfg_signature_schemes = [Ed25519], cfg_named_groups = [Secp256r1], cfg_max_fragment_length = None\<rparr>"

abbreviation "demo_share \<equiv> [SHE_KeyShare \<lparr>ks_group = Secp256r1, ks_opaque = [9]\<rparr>]"

definition demo_server_hello :: bytes where
  "demo_server_hello = handshake_bytes HT_ServerHello (server_hello_body \<lparr>she_random = replicate 32 9,
     she_legacy_session_id_echo = [], she_cipher_suite = cipher_suite_code TlsAes128GcmSha256, she_extensions = demo_share\<rparr>)"

lemma demo_server_hello_message:
  "message_of toy_suite demo_server_hello (ServerHello demo_share)" "length demo_server_hello < 200"
proof -
  let ?sh = "\<lparr>she_random = replicate 32 9, she_legacy_session_id_echo = [], she_cipher_suite = cipher_suite_code TlsAes128GcmSha256,
    she_extensions = demo_share\<rparr>"
  have "parses server_hello_parse (server_hello_body ?sh) (she_extensions ?sh)"
    by (rule parses_server_hello [where cs = TlsAes128GcmSha256])
      (simp_all add: she_ok_def key_share_entry_bytes_def wire_bytes_def extension_bytes_def)
  then have "message_of toy_suite demo_server_hello (ServerHello (she_extensions ?sh))"
    unfolding demo_server_hello_def
    by (rule message_ofI [OF _ _ server_handshake_parse_def])
      (simp_all add: server_hello_body_def key_share_entry_bytes_def wire_bytes_def extension_bytes_def)
  then show "message_of toy_suite demo_server_hello (ServerHello demo_share)" by simp
  show "length demo_server_hello < 200"
    by (simp add: demo_server_hello_def handshake_bytes_def server_hello_body_def key_share_entry_bytes_def wire_bytes_def
        extension_bytes_def)
qed

lemma demo_hello_fits: "hello_fits toy_suite toy_p256 (hello_of demo_client_config (replicate 32 5) [6]) 2000"
  by (simp add: hello_fits_def client_hello_written_def client_hello_body_def hello_of_def demo_client_config_def
      client_extensions_def option_list_def che_written_bytes_def extension_bytes_def psk_placeholder_ext_def
      psk_ch_placeholder_def toy_suite_def toy_p256_def key_share_entry_bytes_def Let_def)

lemma flight_fits_demo:
  "flight_fits toy_suite 2000 (rfc_traffic_keys toy_suite sts) [[(ee_message, EncryptedExtensions)], [finished_of toy_suite sts t]]"
proof -
  note L = crypto_lawsD [OF toy_suite_laws]
  have n: "hash_len toy_suite = 32" "tag_len toy_suite = 16" by (simp_all add: toy_suite_def)
  have "message_of toy_suite (fst (finished_of toy_suite sts t)) (snd (finished_of toy_suite sts t))"
    unfolding finished_of_def finished_message_def fst_conv snd_conv
    by (rule message_of_finished) (simp_all add: length_rfc_finished_mac [OF L(1)] n)
  then show ?thesis
    using length_finished_message [OF L(1), of sts t] usable_rfc_keys [OF toy_suite_laws, of sts] message_of_ee [of toy_suite]
    by (simp add: flight_fits_def usable_def rfc_traffic_keys_def finished_of_def ee_message_def handshake_bytes_def n)
qed

text \<open>A server's answer to that client, and what it makes the transport deliver.\<close>

definition demo_hello :: bytes where
  "demo_hello = hello_message toy_suite (p256_public toy_p256) (hello_of demo_client_config (replicate 32 5) [6])
     (rfc_binder_key toy_suite (hello_psk toy_suite demo_client_config)) []"

definition demo_secret :: bytes where
  "demo_secret = rfc_handshake_traffic toy_suite (hello_psk toy_suite demo_client_config) [42] ''s hs traffic'' (demo_hello @ demo_server_hello)"

definition demo_flight :: "(bytes \<times> server_handshake) list list" where
  "demo_flight = [[(ee_message, EncryptedExtensions)]] @ [[] @ [finished_of toy_suite demo_secret
     (demo_hello @ demo_server_hello @ flight_bytes ([[(ee_message, EncryptedExtensions)]] @ [[]]))]]"

definition demo_input :: bytes where
  "demo_input = handshake_record demo_server_hello @ flight_records toy_suite (rfc_traffic_keys toy_suite demo_secret) demo_flight"

definition demo_new :: "(bytes \<times> bytes) tls_connection" where
  "demo_new = \<lparr>tc_delegate = (demo_input, []), tc_opened = False, tc_ks = ks_new toy_suite,
     tc_reader = reader_new (replicate 2000 0), tc_write_buf = wb_idle (replicate 2000 0), tc_decrypted = di_default,
     tc_flush_policy = flush_policy_default\<rparr>"

lemma demo_facts:
  "tls_connection_new toy_suite (demo_input, []) (replicate 2000 0) (replicate 2000 0) = Ok demo_new"
  "set_hostname toy_provider demo_client_config () = (Ok (), ())"
  "cp_random toy_provider () = (replicate 32 5, ())" "cp_secret toy_provider () = ([6], ())"
  "hello_fits toy_suite toy_p256 (hello_of demo_client_config (replicate 32 5) [6]) (length (replicate 2000 (0 :: byte)))"
  "length demo_server_hello < 2 ^ 16" "length demo_server_hello \<le> length (replicate 2000 (0 :: byte))"
  "calculate_shared_secret (p256_dh toy_p256) [6] demo_share = Some [42]"
  "approved toy_provider (demo_hello @ demo_server_hello) (concat ([[(ee_message, EncryptedExtensions)]] @ [[]])) () = Some ()"
  "flight_fits toy_suite (length (replicate 2000 (0 :: byte))) (rfc_traffic_keys toy_suite demo_secret) demo_flight"
  "delivers (duplex_transport 6) (demo_input, []) (handshake_record demo_server_hello @
     flight_records toy_suite (rfc_traffic_keys toy_suite demo_secret) demo_flight @ [])"
  using demo_hello_fits demo_server_hello_message(2) flight_fits_demo duplex_delivers [of 6 demo_input "[]"]
  by (simp_all add: tls_connection_new_def wb_new_def TLS_RECORD_OVERHEAD_def demo_new_def wb_idle_def set_hostname_def
      toy_provider_def throw_def calculate_shared_secret_def toy_p256_def demo_flight_def demo_input_def)

lemmas open_demo_connection = open_connection_run [OF toy_suite_laws duplex_transport_laws demo_facts(1-5) refl demo_hello_def
  demo_server_hello_message(1) demo_facts(6-8) demo_secret_def refl demo_flight_def demo_facts(9-11) refl]

theorem client_handshake_completes_witness:
  "\<exists>c'. tls_connection_new toy_suite (demo_input, []) (replicate 2000 0) (replicate 2000 0) = Ok demo_new \<and>
     open_connection toy_suite toy_p256 64 (duplex_transport 6) toy_provider demo_client_config () demo_new = Some (Ok (), c') \<and>
     idle_connection 2000 2000 c'"
  using demo_facts(1) client_handshake_completes [OF toy_suite_laws duplex_transport_laws demo_facts(1-5) refl demo_hello_def
      demo_server_hello_message(1) demo_facts(6-8) demo_secret_def refl demo_flight_def demo_facts(9-11) refl, where sig = 64]
  by auto

end
