(* ===== verification/Client_Traffic.thy ===== *)
theory Client_Traffic
  imports Client_Handshake
begin

text \<open>
  Application data on the client's side (src/blocking.rs): writing through the record buffer refines a
  small specification of buffering, reading hands out the peer's data in order, and the two halves of a
  split connection do what the whole connection does.
\<close>

section \<open>Writing\<close>

text \<open>
  The specification: \<open>pending\<close> is the content of the record that is open, if one is; writing fills it up to
  the capacity, and a full record or a flush completes it.
\<close>

record block_writer =
  pending :: "bytes option"
  completed :: "bytes list"

definition the_pending :: "block_writer \<Rightarrow> bytes" where
  "the_pending a = (case pending a of None \<Rightarrow> [] | Some p \<Rightarrow> p)"

definition block_flush :: "block_writer \<Rightarrow> block_writer" where
  "block_flush a = (case pending a of None \<Rightarrow> a | Some p \<Rightarrow> \<lparr>pending = None, completed = completed a @ [p]\<rparr>)"

definition block_write :: "nat \<Rightarrow> bytes \<Rightarrow> block_writer \<Rightarrow> nat \<times> block_writer" where
  "block_write cap d a =
     (let k = min (length d) (cap - length (the_pending a));
          a' = a\<lparr>pending := Some (the_pending a @ take k d)\<rparr> in
      (k, if length (the_pending a) + k = cap then block_flush a' else a'))"

text \<open>The content of one record, besides the five bytes of the header and the reserved overhead.\<close>

definition capacity :: "nat \<Rightarrow> nat" where
  "capacity n = n - 133"

definition writer_repr :: "cipher_suite_params \<Rightarrow> nat \<Rightarrow> block_writer \<Rightarrow> 't tls_connection \<Rightarrow> bool" where
  "writer_repr C n a c \<longleftrightarrow> tc_opened c \<and> 133 \<le> n \<and> n < 2 ^ 16 \<and> length (the_pending a) \<le> capacity n \<and>
     (\<exists>buf. length buf = n \<and> tc_write_buf c =
        (case pending a of None \<Rightarrow> wb_idle buf | Some p \<Rightarrow> wb_open RH_ApplicationData p buf))"

lemma conn_flush_idle: "tc_write_buf c = wb_idle buf \<Longrightarrow> conn_flush C T c = (Ok (), c)"
  by (simp add: conn_flush_def bind_apply wb_is_empty_def wb_len_def wb_idle_def return_def)

lemma close_application_data:
  assumes "crypto_laws C" and "usable (w_state w)" and "133 \<le> length buf" and "length buf < 2 ^ 16"
    and "length p \<le> capacity (length buf)"
  shows "close_record C w (wb_open RH_ApplicationData p buf) =
     (Ok (sealed_record C (w_state w) p CT_ApplicationData),
      wb_idle (overwrite 0 (sealed_record C (w_state w) p CT_ApplicationData) buf))"
proof -
  have "tag_len C = 16" using suite_sizesD [OF crypto_lawsD(3) [OF assms(1)]] by simp
  then show ?thesis
    using close_record_run [OF assms(1), of w p buf RH_ApplicationData] assms(2-5)
    by (simp add: usable_def closed_record_def capacity_def)
qed

lemma conn_flush_open:
  assumes laws: "crypto_laws C" and tl: "transport_laws T sent" and use: "usable (client_traffic (tc_ks c))"
    and wb: "tc_write_buf c = wb_open RH_ApplicationData p buf" and n: "133 \<le> length buf" "length buf < 2 ^ 16"
    and len: "length p \<le> capacity (length buf)"
    and out: "out = sealed_record C (client_traffic (tc_ks c)) p CT_ApplicationData"
  obtains t' where "conn_flush C T c = (Ok (), c\<lparr>tc_delegate := t', tc_write_buf := wb_idle (overwrite 0 out buf),
      tc_ks := bump_client (tc_ks c)\<rparr>)"
    and "sent t' = sent (tc_delegate c) @ out" and "\<And>x. delivers T (tc_delegate c) x \<Longrightarrow> delivers T t' x"
proof -
  note close = close_application_data [OF laws use n len, folded out]
  obtain t1 where 1: "t_write_all T out (tc_delegate c) = (Ok (), t1)" "sent t1 = sent (tc_delegate c) @ out"
      "\<And>x. delivers T (tc_delegate c) x \<Longrightarrow> delivers T t1 x"
    by (rule write_allE [OF tl, where bs = out and t = "tc_delegate c"]) blast
  obtain t2 where 2: "t_flush T t1 = (Ok (), t2)" "sent t2 = sent t1" "\<And>x. delivers T t1 x \<Longrightarrow> delivers T t2 x"
    by (rule flushE [OF tl, where t = t1]) blast
  have inc: "on_client increment_counter (tc_ks c) = (Ok (), bump_client (tc_ks c))"
    using client_counter_run [OF use] by (simp add: increment_client_handshake_counter_def)
  show thesis
  proof (cases "flush_transport (tc_flush_policy c)")
    case True
    then show thesis
      by (intro that [of t2])
        (use 1 2 close inc wb in \<open>simp_all add: conn_flush_def bind_apply next_do_apply on_part_apply wb_is_empty_def wb_len_def
          wb_open_def [of _ p] on_delegate_def map_err_apply conn_increment_write_def conn_flush_transport_def\<close>)
  next
    case False
    then show thesis
      by (intro that [of t1])
        (use 1 close inc wb in \<open>simp_all add: conn_flush_def bind_apply next_do_apply on_part_apply wb_is_empty_def wb_len_def
          wb_open_def [of _ p] on_delegate_def map_err_apply conn_increment_write_def return_def\<close>)
  qed
qed


text \<open>
  What a step of the writer does to the rest of the connection: the contents it completed went out as
  protected records under consecutive record numbers, and everything that belongs to reading is as before.
\<close>

definition emitted ::
  "cipher_suite_params \<Rightarrow> 't transport \<Rightarrow> ('t \<Rightarrow> bytes) \<Rightarrow> bytes list \<Rightarrow> 't tls_connection \<Rightarrow> 't tls_connection \<Rightarrow> bool" where
  "emitted C T sent ps c c' \<longleftrightarrow>
     sent (tc_delegate c') = sent (tc_delegate c) @ concat (sealed_stream C (client_traffic (tc_ks c)) ps) \<and>
     client_traffic (tc_ks c') = after_records (length ps) (client_traffic (tc_ks c)) \<and>
     server_state (tc_ks c') = server_state (tc_ks c) \<and> tc_reader c' = tc_reader c \<and> tc_decrypted c' = tc_decrypted c \<and>
     (\<forall>x. delivers T (tc_delegate c) x \<longrightarrow> delivers T (tc_delegate c') x)"

lemma sealed_stream_append:
  "sealed_stream C st (ps @ qs) = sealed_stream C st ps @ sealed_stream C (after_records (length ps) st) qs"
  by (induction ps arbitrary: st) (simp_all add: after_records_Suc)

lemma emitted_nothing: "emitted C T sent [] c c"
  by (simp add: emitted_def)

lemma emitted_trans: "emitted C T sent ps c c1 \<Longrightarrow> emitted C T sent qs c1 c2 \<Longrightarrow> emitted C T sent (ps @ qs) c c2"
  by (simp add: emitted_def sealed_stream_append)

lemma length_overwrite_record:
  assumes "crypto_laws C" and "133 \<le> length buf" and "length buf < 2 ^ 16" and "length p \<le> capacity (length buf)"
  shows "length (overwrite 0 (sealed_record C st p ty) buf) = length buf"
proof -
  have "length (sealed_record C st p ty) = length p + 6 + tag_len C"
    by (rule length_sealed_record [OF crypto_lawsD(2) [OF assms(1)]]) (use assms(2-4) in \<open>simp add: capacity_def\<close>)
  then show ?thesis
    using assms(2,4) suite_sizesD [OF crypto_lawsD(3) [OF assms(1)]] by (simp add: capacity_def)
qed

lemma wb_idle_eq [simp]: "wb_idle x = wb_idle y \<longleftrightarrow> x = y"
  by (simp add: wb_idle_def)

lemma conn_flush_refines:
  assumes laws: "crypto_laws C" and tl: "transport_laws T sent" and repr: "writer_repr C n a c"
    and use: "pending a \<noteq> None \<Longrightarrow> usable (client_traffic (tc_ks c))"
  obtains c' where "conn_flush C T c = (Ok (), c')" and "writer_repr C n (block_flush a) c'"
    and "emitted C T sent (case pending a of None \<Rightarrow> [] | Some p \<Rightarrow> [p]) c c'"
proof (cases "pending a")
  case None
  then obtain buf where "tc_write_buf c = wb_idle buf" using repr by (auto simp: writer_repr_def)
  then show thesis
    using that [OF conn_flush_idle] None repr by (simp add: block_flush_def emitted_nothing)
next
  case (Some p)
  then obtain buf where b: "length buf = n" "tc_write_buf c = wb_open RH_ApplicationData p buf"
    and n: "tc_opened c" "133 \<le> length buf" "length buf < 2 ^ 16" "length p \<le> capacity (length buf)"
    using repr by (auto simp: writer_repr_def the_pending_def)
  from conn_flush_open [OF laws tl use b(2) n(2-4) refl] Some obtain t' where
    t': "conn_flush C T c = (Ok (), c\<lparr>tc_delegate := t',
        tc_write_buf := wb_idle (overwrite 0 (sealed_record C (client_traffic (tc_ks c)) p CT_ApplicationData) buf),
        tc_ks := bump_client (tc_ks c)\<rparr>)"
      "sent t' = sent (tc_delegate c) @ sealed_record C (client_traffic (tc_ks c)) p CT_ApplicationData"
      "\<And>x. delivers T (tc_delegate c) x \<Longrightarrow> delivers T t' x"
    by blast
  show thesis
    by (rule that [OF t'(1)])
      (use Some t'(2,3) b(1) n length_overwrite_record [OF laws n(2-4)] in
        \<open>simp_all add: writer_repr_def block_flush_def the_pending_def emitted_def after_records_def\<close>)
qed

text \<open>Up to the last step, \<open>write\<close> opens a record if there is none and fills it.\<close>

lemma conn_write_append:
  assumes b: "tc_opened c" "133 \<le> length buf" "length p \<le> capacity (length buf)"
    and wb: "tc_write_buf c = wb_idle buf \<and> p = [] \<or> tc_write_buf c = wb_open RH_ApplicationData p buf"
    and k: "k = min (length d) (capacity (length buf) - length p)" and q: "q = p @ take k d"
  shows "conn_write C T d c = next_do (if length q = capacity (length buf) then conn_flush C T else return ()) (return k)
     (c\<lparr>tc_write_buf := wb_open RH_ApplicationData q buf\<rparr>)"
proof -
  let ?c1 = "c\<lparr>tc_write_buf := wb_open RH_ApplicationData p buf\<rparr>"
  have first: "(bind (gets (\<lambda>c. wb_contains RH_ApplicationData (tc_write_buf c))) (\<lambda>has.
       next_do (if \<not> has
          then next_do (conn_flush C T)
                 (on_part tc_write_buf (\<lambda>b c. c\<lparr>tc_write_buf := b\<rparr>) (start_record RH_ApplicationData))
          else return ()) rest)) c = rest ?c1" for rest :: "('a, 'b) conn_op"
    using wb
  proof
    assume "tc_write_buf c = wb_idle buf \<and> p = []"
    moreover have "5 \<le> length buf" using b by simp
    ultimately show ?thesis
      using conn_flush_idle [of c buf C T] start_record_run [of buf RH_ApplicationData]
      by (simp add: bind_apply next_do_apply wb_contains_def wb_idle_def on_part_apply)
  next
    assume wb': "tc_write_buf c = wb_open RH_ApplicationData p buf"
    then have same: "?c1 = c" by simp
    have "wb_contains RH_ApplicationData (wb_open RH_ApplicationData p buf)"
      by (simp add: wb_contains_def wb_open_def)
    then show ?thesis unfolding same using wb' by (simp add: bind_apply next_do_apply return_def)
  qed
  have "length q \<le> capacity (length buf)" using b(3) k by (simp add: q)
  then have "wb_is_full (wb_open RH_ApplicationData q buf) = Ok (length q = capacity (length buf))"
    using b by (auto simp: wb_is_full_def max_block_size_def usub_def wb_open_def TLS_RECORD_OVERHEAD_def capacity_def)
  moreover have "wb_append d (wb_open RH_ApplicationData p buf) = (Ok k, wb_open RH_ApplicationData q buf)"
    unfolding q by (rule wb_append_run) (use b k in \<open>simp_all add: capacity_def\<close>)
  ultimately show ?thesis
    unfolding conn_write_def bind_apply [of "gets tc_opened"] gets_apply prod.case result.case if_P [OF b(1)] first
    by (simp add: bind_apply next_do_apply on_part_apply)
qed

lemma conn_write_refines:
  assumes laws: "crypto_laws C" and tl: "transport_laws T sent" and repr: "writer_repr C n a c"
    and use: "usable (client_traffic (tc_ks c))" and spec: "block_write (capacity n) d a = (k, a')"
  obtains c' ps where "conn_write C T d c = (Ok k, c')" and "writer_repr C n a' c'"
    and "completed a' = completed a @ ps" and "emitted C T sent ps c c'" and "length ps \<le> 1"
proof -
  define p where "p = the_pending a"
  define q where "q = p @ take k d"
  have k: "k = min (length d) (capacity n - length p)" using spec by (simp add: block_write_def p_def Let_def)
  have a': "a' = (if length p + k = capacity n then block_flush (a\<lparr>pending := Some q\<rparr>) else a\<lparr>pending := Some q\<rparr>)"
    using spec unfolding q_def k p_def by (simp only: block_write_def Let_def prod.inject simp_thms)
  obtain buf where b: "length buf = n" "tc_opened c" "133 \<le> length buf" "length buf < 2 ^ 16" "length p \<le> capacity (length buf)"
    and wb: "tc_write_buf c = wb_idle buf \<and> p = [] \<or> tc_write_buf c = wb_open RH_ApplicationData p buf"
    using repr by (auto simp: writer_repr_def p_def the_pending_def split: option.splits)
  have lq: "length q = length p + k" "length q \<le> capacity n" using b k by (simp_all add: q_def)
  let ?c2 = "c\<lparr>tc_write_buf := wb_open RH_ApplicationData q buf\<rparr>"
  have run: "conn_write C T d c = next_do (if length q = capacity n then conn_flush C T else return ()) (return k) ?c2"
    using conn_write_append [OF b(2,3,5) wb _ q_def, of C T] k b(1) by simp
  have repr2: "writer_repr C n (a\<lparr>pending := Some q\<rparr>) ?c2"
    using b lq by (auto simp: writer_repr_def the_pending_def)
  show thesis
  proof (cases "length q = capacity n")
    case True
    from conn_flush_refines [OF laws tl repr2] use obtain c' where
      "conn_flush C T ?c2 = (Ok (), c')" "writer_repr C n (block_flush (a\<lparr>pending := Some q\<rparr>)) c'"
      "emitted C T sent [q] ?c2 c'" by auto
    moreover from this(3) have "emitted C T sent [q] c c'" by (simp add: emitted_def)
    ultimately show thesis
      by (intro that [of c' "[q]"]) (use True lq run in \<open>simp_all add: a' block_flush_def next_do_apply return_def\<close>)
  next
    case False
    then show thesis
      by (intro that [of ?c2 "[]"])
        (use lq run repr2 in \<open>simp_all add: a' next_do_apply return_def emitted_def\<close>)
  qed
qed

text \<open>Sequences of calls.\<close>

datatype write_op = Write bytes | Flush

primrec run_writes :: "cipher_suite_params \<Rightarrow> 't transport \<Rightarrow> write_op list \<Rightarrow> ('t, nat list) conn_op" where
  "run_writes C T [] = return []"
| "run_writes C T (x # xs) =
     bind (case x of Write d \<Rightarrow> conn_write C T d | Flush \<Rightarrow> next_do (conn_flush C T) (return 0)) (\<lambda>k.
     bind (run_writes C T xs) (\<lambda>ks. return (k # ks)))"

primrec spec_writes :: "nat \<Rightarrow> write_op list \<Rightarrow> block_writer \<Rightarrow> nat list \<times> block_writer" where
  "spec_writes cap [] a = ([], a)"
| "spec_writes cap (x # xs) a =
     (let (k, a1) = (case x of Write d \<Rightarrow> block_write cap d a | Flush \<Rightarrow> (0, block_flush a));
          (ks, a2) = spec_writes cap xs a1 in (k # ks, a2))"

text \<open>The bytes the caller was told had been accepted.\<close>

primrec accepted :: "write_op list \<Rightarrow> nat list \<Rightarrow> bytes" where
  "accepted [] ks = []"
| "accepted (x # xs) ks = (case x of Write d \<Rightarrow> take (hd ks) d | Flush \<Rightarrow> []) @ accepted xs (tl ks)"

definition written :: "block_writer \<Rightarrow> bytes" where
  "written a = concat (completed a) @ the_pending a"

lemma written_flush [simp]: "written (block_flush a) = written a"
  by (simp add: written_def block_flush_def the_pending_def split: option.split)

lemma written_write: "block_write cap d a = (k, a') \<Longrightarrow> written a' = written a @ take k d"
proof -
  have "written (a\<lparr>pending := Some (the_pending a @ x)\<rparr>) = written a @ x" for x
    by (simp add: written_def the_pending_def)
  then show "block_write cap d a = (k, a') \<Longrightarrow> written a' = written a @ take k d"
    by (auto simp: block_write_def Let_def split: if_splits)
qed

lemma spec_writes_data: "spec_writes cap xs a = (ks, a') \<Longrightarrow> written a' = written a @ accepted xs ks"
proof (induction xs arbitrary: a ks)
  case (Cons x xs)
  then show ?case
    by (cases x) (auto simp: Let_def split: prod.splits dest!: written_write)
qed simp


lemma counter_room:
  assumes "unat (counter st) + Suc n < 2 ^ 64" and "length ps \<le> 1"
  shows "unat (counter (after_records (length ps) st)) + n < 2 ^ 64"
  using assms counter_step [of st "Suc n"] by (cases ps) (auto simp: after_records_def)

lemma run_writes_refines:
  assumes laws: "crypto_laws C" and tl: "transport_laws T sent"
    and "writer_repr C n a c" and "length (iv (client_traffic (tc_ks c))) = 12"
    and "unat (counter (client_traffic (tc_ks c))) + length xs < 2 ^ 64"
    and "spec_writes (capacity n) xs a = (ks, a')"
  shows "\<exists>c' ps. run_writes C T xs c = (Ok ks, c') \<and> writer_repr C n a' c' \<and> completed a' = completed a @ ps \<and>
     emitted C T sent ps c c'"
  using assms(3-)
proof (induction xs arbitrary: a c ks)
  case Nil
  then show ?case using emitted_nothing by (fastforce simp: return_def)
next
  case (Cons x xs)
  let ?st = "client_traffic (tc_ks c)"
  have use: "usable ?st" using Cons.prems(2,3) counter_step [of ?st "Suc (length xs)"] by (simp add: usable_def)
  obtain k a1 ks' where spec: "(case x of Write d \<Rightarrow> block_write (capacity n) d a | Flush \<Rightarrow> (0, block_flush a)) = (k, a1)"
    "spec_writes (capacity n) xs a1 = (ks', a')" "ks = k # ks'"
    using Cons.prems(4) by (auto simp: Let_def split: prod.splits)
  obtain c1 qs where step: "(case x of Write d \<Rightarrow> conn_write C T d | Flush \<Rightarrow> next_do (conn_flush C T) (return 0)) c = (Ok k, c1)"
    "writer_repr C n a1 c1" "completed a1 = completed a @ qs" "emitted C T sent qs c c1" "length qs \<le> 1"
  proof (cases x)
    case (Write d)
    with spec(1) have "block_write (capacity n) d a = (k, a1)" by simp
    from conn_write_refines [OF laws tl Cons.prems(1) use this] obtain c1 qs where
      "conn_write C T d c = (Ok k, c1)" "writer_repr C n a1 c1" "completed a1 = completed a @ qs"
      "emitted C T sent qs c c1" "length qs \<le> 1" by blast
    then show thesis using Write by (intro that [of c1 qs]) simp_all
  next
    case Flush
    from conn_flush_refines [OF laws tl Cons.prems(1) use] obtain c1 where
      "conn_flush C T c = (Ok (), c1)" "writer_repr C n (block_flush a) c1"
      "emitted C T sent (case pending a of None \<Rightarrow> [] | Some p \<Rightarrow> [p]) c c1" by blast
    then show thesis
      using Flush spec(1)
      by (intro that [of c1 "case pending a of None \<Rightarrow> [] | Some p \<Rightarrow> [p]"])
        (auto simp: next_do_apply return_def block_flush_def split: option.splits)
  qed
  have st1: "client_traffic (tc_ks c1) = after_records (length qs) ?st" using step(4) by (simp add: emitted_def)
  have "length (iv (client_traffic (tc_ks c1))) = 12" "unat (counter (client_traffic (tc_ks c1))) + length xs < 2 ^ 64"
    using Cons.prems(2,3) counter_room [OF _ step(5), of ?st "length xs"] by (simp_all add: st1)
  from Cons.IH [OF step(2) this spec(2)] obtain c2 ps where
    "run_writes C T xs c1 = (Ok ks', c2)" "writer_repr C n a' c2" "completed a' = completed a1 @ ps" "emitted C T sent ps c1 c2"
    by blast
  with step(1,3) emitted_trans [OF step(4)] spec(3) show ?case
    by (auto simp: bind_apply return_def intro!: exI [of _ "qs @ ps"])
qed

lemma block_write_bound:
  assumes "block_write cap d a = (k, a')" and "length (the_pending a) \<le> cap" and "\<forall>p \<in> set (completed a). length p \<le> cap"
  shows "length (the_pending a') \<le> cap" and "\<forall>p \<in> set (completed a'). length p \<le> cap"
proof -
  have k: "k = min (length d) (cap - length (the_pending a))"
    using assms(1) by (simp add: block_write_def Let_def)
  have "a' = block_flush (a\<lparr>pending := Some (the_pending a @ take k d)\<rparr>) \<or> a' = a\<lparr>pending := Some (the_pending a @ take k d)\<rparr>"
    using assms(1) unfolding k by (simp only: block_write_def Let_def prod.inject) (metis (full_types))
  moreover have "length (the_pending a @ take k d) \<le> cap" using assms(2) by (simp add: k)
  ultimately show "length (the_pending a') \<le> cap" "\<forall>p \<in> set (completed a'). length p \<le> cap"
    using assms(3) by (auto simp: block_flush_def the_pending_def)
qed

lemma block_flush_bound:
  assumes "length (the_pending a) \<le> cap" and "\<forall>p \<in> set (completed a). length p \<le> cap"
  shows "length (the_pending (block_flush a)) \<le> cap" and "\<forall>p \<in> set (completed (block_flush a)). length p \<le> cap"
  using assms by (auto simp: block_flush_def the_pending_def split: option.splits)

lemma spec_writes_bound:
  assumes "spec_writes cap xs a = (ks, a')" and "length (the_pending a) \<le> cap" and "\<forall>p \<in> set (completed a). length p \<le> cap"
  shows "\<forall>p \<in> set (completed a'). length p \<le> cap"
  using assms
proof (induction xs arbitrary: a ks)
  case (Cons x xs)
  obtain k a1 ks' where s: "(case x of Write d \<Rightarrow> block_write cap d a | Flush \<Rightarrow> (0, block_flush a)) = (k, a1)"
    "spec_writes cap xs a1 = (ks', a')"
    using Cons.prems(1) by (auto simp: Let_def split: prod.splits)
  have "length (the_pending a1) \<le> cap" "\<forall>p \<in> set (completed a1). length p \<le> cap"
    using s(1) Cons.prems(2,3) block_write_bound [of cap _ a k a1] block_flush_bound [of a cap]
    by (auto split: write_op.splits)
  from Cons.IH [OF s(2) this] show ?case .
qed simp

text \<open>After a flush nothing is pending: what was accepted has been sent.\<close>

lemma spec_writes_append:
  "spec_writes cap (xs @ ys) a = (let (ks, a1) = spec_writes cap xs a; (ls, a2) = spec_writes cap ys a1 in (ks @ ls, a2))"
  by (induction xs arbitrary: a) (simp_all add: Let_def split_beta split: prod.split)

lemma spec_writes_flushed: "spec_writes cap (xs @ [Flush]) a = (ks, a') \<Longrightarrow> the_pending a' = []"
  by (auto simp: spec_writes_append Let_def block_flush_def the_pending_def split: prod.splits option.splits)

lemma spec_writes_count: "spec_writes cap xs a = (ks, a') \<Longrightarrow> length (completed a') \<le> length (completed a) + length xs"
proof (induction xs arbitrary: a ks)
  case (Cons x xs)
  obtain k a1 ks' where s: "(case x of Write d \<Rightarrow> block_write cap d a | Flush \<Rightarrow> (0, block_flush a)) = (k, a1)"
    "spec_writes cap xs a1 = (ks', a')"
    using Cons.prems by (auto simp: Let_def split: prod.splits)
  have "length (completed (block_flush b)) \<le> Suc (length (completed b))" for b
    by (simp add: block_flush_def split: option.split)
  from this [of a] this [of "a\<lparr>pending := p\<rparr>" for p] have "length (completed a1) \<le> Suc (length (completed a))"
    using s(1) by (auto simp: block_write_def Let_def split: write_op.splits if_splits)
  with Cons.IH [OF s(2)] show ?case by simp
qed simp

text \<open>
  C14: writing through a client connection refines the specification of a block buffer.  For every
  sequence of writes and flushes on an open connection with nothing pending, each call returns the
  number of bytes the specification accepts; the contents completed so far have been sent as protected
  records under the client's keys with consecutive record numbers, none larger than the capacity of the
  buffer; the rest of the accepted bytes is in the open record; and together these are exactly the bytes
  accepted from the caller, in order.
\<close>

theorem client_writes_refine_blocks:
  assumes "crypto_laws C" and "transport_laws T sent" and "idle_connection m n c" and "133 \<le> n" and "n < 2 ^ 16"
    and "length (iv (client_traffic (tc_ks c))) = 12"
    and "unat (counter (client_traffic (tc_ks c))) + length xs < 2 ^ 64"
    and "spec_writes (capacity n) xs \<lparr>pending = None, completed = []\<rparr> = (ks, a)"
  shows "\<exists>c'. run_writes C T xs c = (Ok ks, c') \<and> writer_repr C n a c' \<and>
     sent (tc_delegate c') = sent (tc_delegate c) @ concat (sealed_stream C (client_traffic (tc_ks c)) (completed a)) \<and>
     client_traffic (tc_ks c') = after_records (length (completed a)) (client_traffic (tc_ks c)) \<and>
     concat (completed a) @ the_pending a = accepted xs ks \<and>
     (\<forall>p \<in> set (completed a). length p \<le> capacity n)"
proof -
  let ?a = "\<lparr>pending = None, completed = []\<rparr>"
  have repr: "writer_repr C n ?a c"
    using assms(3-5) by (auto simp: writer_repr_def idle_connection_def the_pending_def)
  have "concat (completed a) @ the_pending a = accepted xs ks"
    using spec_writes_data [OF assms(8)] by (simp add: written_def the_pending_def)
  moreover have "\<forall>p \<in> set (completed a). length p \<le> capacity n"
    using spec_writes_bound [OF assms(8)] by (simp add: the_pending_def)
  ultimately show ?thesis
    using run_writes_refines [OF assms(1,2) repr assms(6-8)] by (auto simp: emitted_def)
qed


text \<open>An open connection for the witnesses.\<close>

definition demo_conn :: "'t \<Rightarrow> 't tls_connection" where
  "demo_conn t = \<lparr>tc_delegate = t, tc_opened = True, tc_ks = demo_ks [7] [8], tc_reader = reader_new (replicate 100 0),
     tc_write_buf = wb_idle (replicate 140 0), tc_decrypted = di_default, tc_flush_policy = flush_policy_default\<rparr>"

lemma demo_conn_idle: "idle_connection 100 140 (demo_conn t)"
  by (simp add: demo_conn_def idle_connection_def di_default_def)

lemma demo_conn_traffic:
  "client_traffic (tc_ks (demo_conn t)) = rfc_traffic_keys toy_suite [7]" "server_traffic (tc_ks (demo_conn t)) = rfc_traffic_keys toy_suite [8]"
  "length (iv (rfc_traffic_keys toy_suite ts)) = 12" "counter (rfc_traffic_keys toy_suite ts) = 0"
  using usable_rfc_keys [OF toy_suite_laws, of ts] by (simp_all add: demo_conn_def usable_def)

theorem client_writes_refine_blocks_witness:
  "\<exists>c'. run_writes toy_suite (duplex_transport 6) [Write [1, 2, 3], Write [4, 5, 6, 7, 8, 9], Write [8, 9], Flush, Flush]
      (demo_conn ([], [])) = (Ok [3, 4, 2, 0, 0], c') \<and>
     snd (tc_delegate c') = concat (sealed_stream toy_suite (rfc_traffic_keys toy_suite [7]) [[1, 2, 3, 4, 5, 6, 7], [8, 9]])"
proof -
  have "spec_writes (capacity 140) [Write [1, 2, 3], Write [4, 5, 6, 7, 8, 9], Write [8, 9], Flush, Flush]
      \<lparr>pending = None, completed = []\<rparr> = ([3, 4, 2, 0, 0], \<lparr>pending = None, completed = [[1, 2, 3, 4, 5, 6, 7], [8, 9]]\<rparr>)"
    by (simp add: block_write_def block_flush_def the_pending_def capacity_def)
  from client_writes_refine_blocks [OF toy_suite_laws duplex_transport_laws demo_conn_idle _ _ _ _ this, of "([], [])" 6]
  show ?thesis by (auto simp: demo_conn_traffic) (simp add: demo_conn_def)
qed

section \<open>Reading\<close>

text \<open>
  A connection whose peer has sent the contents \<open>ps\<close> as protected records that were not read yet, and the
  decrypted bytes that were not handed out yet.
\<close>

definition available :: "'t tls_connection \<Rightarrow> bytes" where
  "available c = info_rest (rr_buf (tc_reader c)) (tc_decrypted c)"

definition readable :: "cipher_suite_params \<Rightarrow> 't transport \<Rightarrow> bytes list \<Rightarrow> 't tls_connection \<Rightarrow> bool" where
  "readable C T ps c \<longleftrightarrow> tc_opened c \<and> reader_inv (tc_reader c) \<and>
     (di_consumed (tc_decrypted c) = di_len (tc_decrypted c) \<or> info_inv (rr_buf (tc_reader c)) (tc_decrypted c)) \<and>
     delivers T (tc_delegate c) (concat (sealed_stream C (server_traffic (tc_ks c)) ps)) \<and>
     stream_fits C (length (rr_buf (tc_reader c)) + 5) (server_traffic (tc_ks c)) ps"

text \<open>What reading leaves alone.\<close>

definition only_read :: "('t \<Rightarrow> bytes) \<Rightarrow> 't tls_connection \<Rightarrow> 't tls_connection \<Rightarrow> bool" where
  "only_read sent c c' \<longleftrightarrow> sent (tc_delegate c') = sent (tc_delegate c) \<and> tc_write_buf c' = tc_write_buf c \<and>
     client_state (tc_ks c') = client_state (tc_ks c) \<and> tc_opened c' = tc_opened c \<and> tc_flush_policy c' = tc_flush_policy c \<and>
     length (rr_buf (tc_reader c')) = length (rr_buf (tc_reader c))"

lemma only_read_refl [simp]: "only_read sent c c"
  by (simp add: only_read_def)

lemma only_read_trans: "only_read sent c c1 \<Longrightarrow> only_read sent c1 c2 \<Longrightarrow> only_read sent c c2"
  by (simp add: only_read_def)

lemma info_is_empty_run:
  assumes "di_consumed info = di_len info \<or> info_inv mem info"
  shows "info_is_empty info = Ok (info_rest mem info = [])"
  using assms
  by (auto simp: info_is_empty_def info_len_def usub_def info_inv_def info_rest_def)

lemma read_handler_data:
  assumes "b = \<lparr>cb_buf = cb_buf b, cb_offset = 0, cb_len = length p\<rparr>" and "cb_view b = p" and "length p \<le> length (cb_buf b)"
    and "ad_start ad + length p < n"
  shows "handle_content C (read_handler n) ad CT_ApplicationData b (rk, info, is_open) =
     (Ok (), (rk, \<lparr>di_offset = ad_start ad, di_len = length p, di_consumed = 0\<rparr>, is_open))"
proof -
  have "cb_inv b" using assms(3) by (subst assms(1)) (simp add: cb_inv_def)
  from cb_as_slice_view [OF this] have s: "cb_as_slice b = (Ok p :: (bytes, tls_error) result)" by (simp add: assms(2))
  have "cb_offset b = 0" by (subst assms(1)) simp
  then show ?thesis
    using assms(4) s by (simp add: handle_content_def bind_apply read_handler_def application_data_new_def)
qed

lemma read_application_data_run:
  assumes laws: "crypto_laws C" and tl: "transport_laws T sent" and r: "readable C T (p # ps) c"
  obtains c' where "read_application_data C T c = (Ok (), c')" and "readable C T ps c'" and "available c' = p"
    and "only_read sent c c'"
proof -
  let ?st = "server_traffic (tc_ks c)" and ?rd = "tc_reader c"
  define rec where "rec = sealed_record C ?st p CT_ApplicationData"
  have c: "tc_opened c" "reader_inv ?rd" "stream_fits C (length (rr_buf ?rd) + 5) ?st (p # ps)"
    and dl: "delivers T (tc_delegate c) (rec @ concat (sealed_stream C (?st\<lparr>counter := counter ?st + 1\<rparr>) ps))"
    using r by (simp_all add: readable_def rec_def)
  note fits = stream_fits_Cons [OF c(3)]
  have opened: "opened_record C ?st rec = Some (p @ content_type_code CT_ApplicationData # replicate 0 0)"
    using opened_sealed [OF crypto_lawsD(2) [OF laws] fits(3)] by (simp add: rec_def)
  obtain n where n: "check_record rec = Ok n" "length rec = 5 + n" by (rule opened_recordE [OF opened])
  have n': "n = length p + 1 + tag_len C"
    using length_sealed_record [OF crypto_lawsD(2) [OF laws]] fits(3) n(2) by (simp add: rec_def)
  have le: "n \<le> length (rr_buf ?rd)" using fits(4) n' by simp
  note start = body_start_fits [OF c(2) le]
  obtain t' where t': "read_blocking C T (?rd, tc_delegate c, server_state (tc_ks c)) =
      (Ok (SR_ApplicationData (app_record rec (body_start n ?rd))), (after_body (drop 5 rec) ?rd, t', server_state (tc_ks c)))"
      "delivers T t' (concat (sealed_stream C (?st\<lparr>counter := counter ?st + 1\<rparr>) ps))" "sent t' = sent (tc_delegate c)"
    by (rule read_blocking_protected [OF tl c(2) dl n(1) le, where C = C and rk = "server_state (tc_ks c)"]) blast
  define rd where "rd = after_body (drop 5 rec) ?rd"
  have rd: "length (rr_buf rd) = length (rr_buf ?rd)" "reader_inv rd"
    using reader_inv_after [OF c(2), of "drop 5 rec"] le n(2) start by (simp_all add: rd_def after_body_def)
  obtain b mem' where b: "b = \<lparr>cb_buf = cb_buf b, cb_offset = 0, cb_len = length p\<rparr>" "cb_view b = p"
      "length (cb_buf b) = length rec - 5" "mem' = overwrite (body_start n ?rd) (cb_buf b) (rr_buf rd)"
      "decrypt_record C (read_handler (length (rr_buf rd))) (SR_ApplicationData (app_record rec (body_start n ?rd)))
         ((server_state (tc_ks c), tc_decrypted c, tc_opened c), rr_buf rd) =
      (case handle_content C (read_handler (length (rr_buf rd))) (app_record rec (body_start n ?rd)) CT_ApplicationData b
          (server_state (tc_ks c), tc_decrypted c, tc_opened c) of
         (Ok _, (rk', c')) \<Rightarrow>
           (case increment_counter (r_state rk') of (r, st) \<Rightarrow> (r, ((rk'\<lparr>r_state := st\<rparr>, c'), mem')))
       | (Err e, s') \<Rightarrow> (Err e, (s', mem'))
       | (Panic, s') \<Rightarrow> (Panic, (s', mem')))"
    by (rule decrypt_record_content [OF laws fits(1) opened, where cb = "read_handler (length (rr_buf rd))"
        and start = "body_start n ?rd" and c = "(tc_decrypted c, tc_opened c)" and mem = "rr_buf rd"]) auto
  let ?info = "\<lparr>di_offset = body_start n ?rd, di_len = length p, di_consumed = 0\<rparr>"
  have hc: "handle_content C (read_handler (length (rr_buf rd))) (app_record rec (body_start n ?rd)) CT_ApplicationData b
      (server_state (tc_ks c), tc_decrypted c, tc_opened c) = (Ok (), (server_state (tc_ks c), ?info, tc_opened c))"
    using read_handler_data [OF b(1,2), of "app_record rec (body_start n ?rd)"] b(3) n(2) n' start rd(1) by simp
  have inc: "increment_counter ?st = (Ok (), ?st\<lparr>counter := counter ?st + 1\<rparr>)"
    using fits(1) by (simp add: increment_counter_def usable_def)
  let ?c = "c\<lparr>tc_delegate := t', tc_reader := rd\<lparr>rr_buf := mem'\<rparr>, tc_decrypted := ?info, tc_ks := bump_server (tc_ks c)\<rparr>"
  have run: "read_application_data C T c = (Ok (), ?c)"
    using t'(1) b(5) hc inc
    by (simp add: read_application_data_def bind_apply on_part_apply rd_def [symmetric] bump_server_def)
  have mem: "length mem' = length (rr_buf ?rd)" "info_inv mem' ?info" "info_rest mem' ?info = p"
  proof -
    have l: "length (cb_buf b) = n" "length p \<le> n" using b(3) n(2) n' by simp_all
    have "take (length p) (cb_buf b) = p" using b(1,2) by (metis cb_view_def crypto_buffer.select_convs drop_0)
    then have "take (length p) (drop (body_start n ?rd) mem') = p"
      using start rd(1) l by (simp add: b(4) overwrite_def)
    then show "info_rest mem' ?info = p" by (simp add: info_rest_def)
    show "length mem' = length (rr_buf ?rd)" using start rd(1) l(1) by (simp add: b(4))
    with start l(2) show "info_inv mem' ?info" by (simp add: info_inv_def)
  qed
  show thesis
    by (rule that [OF run])
      (use c(1) rd mem t'(2,3) fits(2) in \<open>simp_all add: readable_def available_def only_read_def reader_inv_def\<close>)
qed

lemma fill_loop_ready: "info_is_empty (tc_decrypted c) = Ok False \<Longrightarrow> fill_loop C T c = Some (Ok (), c)"
  by (subst fill_loop.simps) simp

lemma fill_loop_read:
  "info_is_empty (tc_decrypted c) = Ok True \<Longrightarrow> read_application_data C T c = (Ok u, c') \<Longrightarrow> fill_loop C T c = fill_loop C T c'"
  by (subst fill_loop.simps) simp

lemma readable_is_empty: "readable C T ps c \<Longrightarrow> info_is_empty (tc_decrypted c) = Ok (available c = [])"
  unfolding readable_def available_def by (blast intro: info_is_empty_run)

text \<open>The loop that waits for data passes over empty records and stops at the first byte.\<close>

lemma fill_loop_run:
  assumes laws: "crypto_laws C" and tl: "transport_laws T sent"
    and "readable C T ps c" and "available c @ concat ps \<noteq> []"
  shows "\<exists>c' qs. fill_loop C T c = Some (Ok (), c') \<and> readable C T qs c' \<and> available c' \<noteq> [] \<and>
     available c' @ concat qs = available c @ concat ps \<and> only_read sent c c'"
  using assms(3-)
proof (induction ps arbitrary: c)
  case Nil
  then have "fill_loop C T c = Some (Ok (), c)" by (intro fill_loop_ready) (simp add: readable_is_empty)
  with Nil show ?case by fastforce
next
  case (Cons p ps)
  show ?case
  proof (cases "available c = []")
    case False
    then have "fill_loop C T c = Some (Ok (), c)" by (intro fill_loop_ready) (simp add: readable_is_empty [OF Cons.prems(1)])
    with False Cons.prems show ?thesis by fastforce
  next
    case True
    obtain c1 where c1: "read_application_data C T c = (Ok (), c1)" "readable C T ps c1" "available c1 = p" "only_read sent c c1"
      by (rule read_application_data_run [OF laws tl Cons.prems(1)])
    have "fill_loop C T c = fill_loop C T c1"
      using True by (intro fill_loop_read [OF _ c1(1)]) (simp add: readable_is_empty [OF Cons.prems(1)])
    moreover have "available c1 @ concat ps \<noteq> []" using Cons.prems(2) True c1(3) by simp
    ultimately show ?thesis
      using Cons.IH [OF c1(2)] True c1(3,4) only_read_trans [of sent c c1] by fastforce
  qed
qed

lemma conn_read_run:
  assumes laws: "crypto_laws C" and tl: "transport_laws T sent"
    and r: "readable C T ps c" and ne: "available c @ concat ps \<noteq> []" and buf: "buf \<noteq> []"
  obtains c' qs k where "conn_read C T buf c = Some (Ok (k, overwrite 0 (take k (available c @ concat ps)) buf), c')"
    and "0 < k" and "k \<le> length buf" and "k \<le> length (available c @ concat ps)"
    and "readable C T qs c'" and "available c' @ concat qs = drop k (available c @ concat ps)" and "only_read sent c c'"
proof -
  obtain c1 qs where c1: "fill_loop C T c = Some (Ok (), c1)" "readable C T qs c1" "available c1 \<noteq> []"
      "available c1 @ concat qs = available c @ concat ps" "only_read sent c c1"
    using fill_loop_run [OF laws tl r ne] by blast
  let ?mem = "rr_buf (tc_reader c1)" and ?info = "tc_decrypted c1"
  have inv: "info_inv ?mem ?info" using c1(2,3) by (auto simp: readable_def available_def info_rest_def)
  define k where "k = min (length (available c1)) (length buf)"
  define c' where "c' = c1\<lparr>tc_decrypted := ?info\<lparr>di_consumed := di_consumed ?info + k\<rparr>\<rparr>"
  have k: "0 < k" "k \<le> length buf" "k \<le> length (available c1)" using c1(3) buf by (simp_all add: k_def)
  have tk: "take (length buf) (available c1) = take k (available c1)" by (simp add: k_def min_def)
  have adv: "info_inv ?mem (?info\<lparr>di_consumed := di_consumed ?info + k\<rparr>)" "available c' = drop k (available c1)"
    using info_advance [OF inv, of k] k(3) by (simp_all add: available_def c'_def)
  have pi: "with_read_buffer ?mem (pop_into buf) ?info =
      (Ok (k, overwrite 0 (take k (available c1)) buf), ?info\<lparr>di_consumed := di_consumed ?info + k\<rparr>)"
    using tk by (simp add: with_read_buffer_def bind_apply create_read_buffer_run [OF inv] pop_into_run rb_drop_def
        available_def k_def)
  have "tc_opened c" using r by (simp add: readable_def)
  then have "conn_read C T buf c = Some (Ok (k, overwrite 0 (take k (available c1)) buf), c')"
    using buf c1(1) pi by (simp add: conn_read_def read_buffered_def on_part_apply c'_def)
  moreover have "take k (available c1) = take k (available c @ concat ps)"
    using k(3) by (simp add: c1(4) [symmetric])
  moreover have "k \<le> length (available c @ concat ps)" using k(3) by (simp add: c1(4) [symmetric])
  moreover have "readable C T qs c'" using c1(2) adv(1) by (simp add: readable_def c'_def)
  moreover have "available c' @ concat qs = drop k (available c @ concat ps)"
    using k(3) by (simp add: c1(4) [symmetric] adv(2))
  moreover have "only_read sent c c'" using c1(5) by (simp add: only_read_def c'_def)
  ultimately show thesis using that [of k c' qs] k by simp
qed

text \<open>A sequence of reads into buffers of the caller.\<close>

primrec run_reads ::
  "cipher_suite_params \<Rightarrow> 't transport \<Rightarrow> bytes list \<Rightarrow> 't tls_connection \<Rightarrow>
   (((nat \<times> bytes) list, tls_error) result \<times> 't tls_connection) option" where
  "run_reads C T [] c = Some (Ok [], c)"
| "run_reads C T (buf # bufs) c =
     (case conn_read C T buf c of
        Some (Ok x, c1) \<Rightarrow>
          (case run_reads C T bufs c1 of
             Some (Ok xs, c2) \<Rightarrow> Some (Ok (x # xs), c2)
           | other \<Rightarrow> other)
      | Some (Err e, c1) \<Rightarrow> Some (Err e, c1)
      | Some (Panic, c1) \<Rightarrow> Some (Panic, c1)
      | None \<Rightarrow> None)"

text \<open>The bytes the caller was told had been put at the front of the buffers.\<close>

definition handed_out :: "(nat \<times> bytes) list \<Rightarrow> bytes" where
  "handed_out xs = concat (map (\<lambda>(k, buf). take k buf) xs)"

lemma overwrite_front:
  assumes "k \<le> length ys" and "k \<le> length xs"
  shows "take k (overwrite 0 (take k ys) xs) = take k ys" and "length (overwrite 0 (take k ys) xs) = length xs"
    and "drop k (overwrite 0 (take k ys) xs) = drop k xs"
  using assms by (simp_all add: overwrite_def)

lemma run_reads_run:
  assumes laws: "crypto_laws C" and tl: "transport_laws T sent"
    and "readable C T ps c" and "sum_list (map length bufs) \<le> length (available c @ concat ps)" and "[] \<notin> set bufs"
  shows "\<exists>xs c' qs. run_reads C T bufs c = Some (Ok xs, c') \<and>
     list_all2 (\<lambda>(k, out) buf. 0 < k \<and> k \<le> length buf \<and> length out = length buf \<and> drop k out = drop k buf) xs bufs \<and>
     readable C T qs c' \<and> handed_out xs @ available c' @ concat qs = available c @ concat ps \<and> only_read sent c c'"
  using assms(3-)
proof (induction bufs arbitrary: c ps)
  case Nil
  then show ?case by (auto simp: handed_out_def)
next
  case (Cons buf bufs)
  let ?data = "available c @ concat ps"
  have buf: "buf \<noteq> []" using Cons.prems(3) by auto
  then have "0 < length buf + sum_list (map length bufs)" by simp
  also have "\<dots> \<le> length ?data" using Cons.prems(2) by simp
  finally have ne: "?data \<noteq> []" by (simp only: length_greater_0_conv simp_thms)
  obtain c1 qs k where r: "conn_read C T buf c = Some (Ok (k, overwrite 0 (take k ?data) buf), c1)"
      "0 < k" "k \<le> length buf" "k \<le> length ?data" "readable C T qs c1"
      "available c1 @ concat qs = drop k ?data" "only_read sent c c1"
    by (rule conn_read_run [OF laws tl Cons.prems(1) ne buf])
  have len: "sum_list (map length bufs) \<le> length (available c1 @ concat qs)"
    using Cons.prems(2) r(3) by (simp add: r(6))
  have "[] \<notin> set bufs" using Cons.prems(3) by simp
  from Cons.IH [OF r(5) len this] obtain xs c2 rs where ih: "run_reads C T bufs c1 = Some (Ok xs, c2)"
      "list_all2 (\<lambda>(k, out) buf. 0 < k \<and> k \<le> length buf \<and> length out = length buf \<and> drop k out = drop k buf) xs bufs"
      "readable C T rs c2" "handed_out xs @ available c2 @ concat rs = drop k ?data" "only_read sent c1 c2"
    using r(6) by auto
  let ?out = "overwrite 0 (take k ?data) buf"
  note out = overwrite_front [OF r(4,3)]
  show ?case
  proof (intro exI conjI)
    show "run_reads C T (buf # bufs) c = Some (Ok ((k, ?out) # xs), c2)" using r(1) ih(1) by simp
    show "handed_out ((k, ?out) # xs) @ available c2 @ concat rs = ?data"
      using ih(4) out(1) by (simp add: handed_out_def del: take_append drop_append)
    show "only_read sent c c2" by (rule only_read_trans [OF r(7) ih(5)])
  qed (use r(2,3) ih(2,3) out in simp_all)
qed

lemma length_handed_out:
  assumes "list_all2 (\<lambda>(k, out) buf. 0 < k \<and> k \<le> length buf \<and> length out = length buf \<and> P k out buf) xs bufs"
  shows "length bufs \<le> length (handed_out xs)"
  using assms by (induction rule: list_all2_induct) (auto simp: handed_out_def)

lemma idle_readable:
  assumes "idle_connection n m c" and "delivers T (tc_delegate c) (concat (sealed_stream C (server_traffic (tc_ks c)) ps))"
    and "stream_fits C (n + 5) (server_traffic (tc_ks c)) ps"
  shows "readable C T ps c" and "available c = []"
  using assms by (auto simp: idle_connection_def readable_def available_def info_rest_def)

text \<open>
  C15: reading from an open connection.  When the peer has sent any list of contents as protected
  records, empty ones included, every read into a non-empty buffer returns, for as long as the buffers
  together do not ask for more than was sent: it hands out at least one byte, at most a buffer, leaves
  the rest of the buffer alone, and what the reads hand out joins to a prefix of the contents sent, with
  no byte lost, duplicated or out of order.  Nothing is sent and the writing side does not change.
\<close>

theorem client_reads_in_order:
  assumes "crypto_laws C" and "transport_laws T sent" and "idle_connection n m c"
    and "delivers T (tc_delegate c) (concat (sealed_stream C (server_traffic (tc_ks c)) ps))"
    and "stream_fits C (n + 5) (server_traffic (tc_ks c)) ps"
    and "[] \<notin> set bufs" and "sum_list (map length bufs) \<le> length (concat ps)"
  shows "\<exists>xs c'. run_reads C T bufs c = Some (Ok xs, c') \<and>
     list_all2 (\<lambda>(k, out) buf. 0 < k \<and> k \<le> length buf \<and> length out = length buf \<and> drop k out = drop k buf) xs bufs \<and>
     (\<exists>rest. handed_out xs @ rest = concat ps) \<and> length bufs \<le> length (handed_out xs) \<and> only_read sent c c'"
proof -
  note r = idle_readable [OF assms(3-5)]
  have "sum_list (map length bufs) \<le> length (available c @ concat ps)" using assms(7) r(2) by simp
  from run_reads_run [OF assms(1,2) r(1) this assms(6)] obtain xs c' qs where
    run: "run_reads C T bufs c = Some (Ok xs, c')"
      "list_all2 (\<lambda>(k, out) buf. 0 < k \<and> k \<le> length buf \<and> length out = length buf \<and> drop k out = drop k buf) xs bufs"
      "handed_out xs @ available c' @ concat qs = concat ps" "only_read sent c c'"
    unfolding r(2) by auto
  moreover have "length bufs \<le> length (handed_out xs)" by (rule length_handed_out [OF run(2)])
  ultimately show ?thesis by blast
qed

theorem client_reads_in_order_witness:
  "\<exists>xs c'. run_reads toy_suite (duplex_transport 3) [[0], [0, 0], [0]]
      (demo_conn (concat (sealed_stream toy_suite (rfc_traffic_keys toy_suite [8]) [[], [1, 2, 3], [], [4]]), [])) =
      Some (Ok xs, c') \<and> (\<exists>rest. handed_out xs @ rest = [1, 2, 3, 4]) \<and> 3 \<le> length (handed_out xs)"
proof -
  let ?i = "concat (sealed_stream toy_suite (rfc_traffic_keys toy_suite [8]) [[], [1, 2, 3], [], [4]])"
  have fits: "stream_fits toy_suite (100 + 5) (server_traffic (tc_ks (demo_conn (?i, [] :: bytes)))) [[], [1, 2, 3], [], [4]]"
    using suite_sizesD [OF crypto_lawsD(3) [OF toy_suite_laws]]
    by (simp add: stream_fits_def demo_conn_traffic)
  have "delivers (duplex_transport 3) (tc_delegate (demo_conn (?i, []))) (concat (sealed_stream toy_suite
      (server_traffic (tc_ks (demo_conn (?i, [] :: bytes)))) [[], [1, 2, 3], [], [4]]))"
    by (simp only: demo_conn_traffic) (simp add: demo_conn_def duplex_delivers)
  from client_reads_in_order [OF toy_suite_laws duplex_transport_laws demo_conn_idle this fits, of "[[0], [0, 0], [0]]"]
  show ?thesis by auto
qed

section \<open>The two halves\<close>

text \<open>
  The halves a connection is split into, with their own clones of the transport, and the connection that
  a half is a part of: the state of the reader is read off a connection, and so is the state of the writer.
\<close>

definition reader_of :: "'t tls_connection \<Rightarrow> bool \<times> 't tls_reader" where
  "reader_of c = (case split_connection c of (opened, rd, wr) \<Rightarrow> (opened, rd))"

definition writer_of :: "'t tls_connection \<Rightarrow> bool \<times> 't tls_writer" where
  "writer_of c = (case split_connection c of (opened, rd, wr) \<Rightarrow> (opened, wr))"

abbreviation wr_of :: "'t tls_connection \<Rightarrow> 't tls_writer" where
  "wr_of c \<equiv> snd (writer_of c)"

lemma writer_of_simps [simp]:
  "fst (writer_of c) = tc_opened c" "wr_delegate (wr_of c) = tc_delegate c" "wr_key_schedule (wr_of c) = client_state (tc_ks c)"
  "wr_record_write_buf (wr_of c) = tc_write_buf c" "wr_flush_policy (wr_of c) = tc_flush_policy c"
  by (simp_all add: writer_of_def split_connection_def)

lemma wr_of_update [simp]:
  "wr_of (c\<lparr>tc_delegate := t\<rparr>) = (wr_of c)\<lparr>wr_delegate := t\<rparr>"
  "wr_of (c\<lparr>tc_write_buf := wb\<rparr>) = (wr_of c)\<lparr>wr_record_write_buf := wb\<rparr>"
  "wr_of (c\<lparr>tc_ks := ks\<rparr>) = (wr_of c)\<lparr>wr_key_schedule := client_state ks\<rparr>"
  by (simp_all add: writer_of_def split_connection_def)

lemma conn_increment_write_part:
  "conn_increment_write = on_part (\<lambda>c. client_traffic (tc_ks c))
     (\<lambda>st c. c\<lparr>tc_ks := (tc_ks c)\<lparr>client_state := (client_state (tc_ks c))\<lparr>w_state := st\<rparr>\<rparr>\<rparr>) increment_counter"
  by (rule ext) (simp add: conn_increment_write_def on_client_def on_part_apply)

lemma through_flush: "through wr_of (conn_flush C T) (writer_flush C T)"
  unfolding conn_flush_def writer_flush_def conn_increment_write_part conn_flush_transport_def on_delegate_def
  by (intro through_rules) simp_all

lemma keeps_flush: "keeps tc_opened (conn_flush C T)"
  unfolding conn_flush_def conn_increment_write_def conn_flush_transport_def on_delegate_def
  by (intro keeps_rules) simp_all

lemma through_write: "through writer_of (conn_write C T buf) (writer_write C T buf)"
  unfolding conn_write_def writer_write_def
  by (intro through_bind through_if through_gets through_on_snd keeps_rules through_next_do through_on_part through_const)
    (simp_all add: through_flush keeps_flush)

section \<open>Reading through the reader's half\<close>

text \<open>A property of what the callback owns that the callback keeps is kept by the whole record.\<close>

lemma handshake_loop_callback:
  assumes "\<And>rec rk c. Q c \<Longrightarrow> Q (snd (snd (cb rec (rk, c))))" and "Q c"
  shows "Q (snd (snd (handshake_loop C cb buf (rk, c))))"
  using assms(2)
proof (induction "remaining buf" arbitrary: buf rk c rule: less_induct)
  case less
  show ?case
  proof (cases "remaining buf > 0")
    case True
    obtain r buf' digest where read: "server_handshake_read C (buf, transcript_hash rk) = (r, (buf', digest))"
      by (metis prod.exhaust)
    show ?thesis
    proof (cases r)
      case (Ok inner)
      obtain r' rk' c' where cb: "cb (SR_Handshake inner) (rk\<lparr>transcript_hash := digest\<rparr>, c) = (r', (rk', c'))"
        by (metis prod.exhaust)
      have "Q c'" using assms(1) [OF less.prems, of "SR_Handshake inner" "rk\<lparr>transcript_hash := digest\<rparr>"] cb by simp
      moreover have "remaining buf' < remaining buf"
        using server_handshake_read_decreases [OF read [unfolded Ok]] True by simp
      ultimately have "Q (snd (snd (handshake_loop C cb buf' (rk', c'))))" by (intro less.hyps) simp_all
      with \<open>Q c'\<close> True read Ok cb show ?thesis by (cases r') (simp_all add: handshake_loop.simps [of C cb buf])
    qed (use less.prems True read in \<open>simp_all add: handshake_loop.simps [of C cb buf]\<close>)
  qed (use less.prems in \<open>simp add: handshake_loop.simps\<close>)
qed

lemma handle_content_callback:
  assumes "\<And>rec rk c. Q c \<Longrightarrow> Q (snd (snd (cb rec (rk, c))))" and "Q c"
  shows "Q (snd (snd (handle_content C cb ad ty b (rk, c))))"
proof (cases "cb_as_slice b :: (bytes, tls_error) result")
  case (Ok content)
  have "\<not> (ty \<noteq> CT_Handshake \<and> ty \<noteq> CT_ApplicationData \<and> ty \<noteq> CT_Alert) \<or> handle_content C cb ad ty b (rk, c) = (Err Unimplemented, (rk, c))"
    using Ok by (cases ty) (simp_all add: handle_content_def bind_apply)
  then consider "ty = CT_Handshake" | "ty = CT_ApplicationData" | "ty = CT_Alert"
    | "handle_content C cb ad ty b (rk, c) = (Err Unimplemented, (rk, c))" by blast
  then show ?thesis
    using assms Ok handshake_loop_callback [of Q cb c, OF assms]
    by cases (auto simp: handle_content_def bind_apply split: result.split)
qed (use assms(2) in \<open>simp_all add: handle_content_def bind_apply\<close>)

lemma decrypt_record_callback:
  assumes "\<And>rec rk c. Q c \<Longrightarrow> Q (snd (snd (cb rec (rk, c))))" and "Q c"
  shows "Q (snd (fst (snd (decrypt_record C cb rec ((rk, c), mem)))))"
proof (cases rec)
  case (SR_ApplicationData ad)
  obtain r rk' mem' where o: "open_app_data C ad (rk, mem) = (r, (rk', mem'))" by (metis prod.exhaust)
  show ?thesis
  proof (cases r)
    case (Ok x)
    obtain ty b where x: "x = (ty, b)" by fastforce
    obtain r2 rk2 c2 where h: "handle_content C cb ad ty b (rk', c) = (r2, (rk2, c2))" by (metis prod.exhaust)
    have "Q c2" using handle_content_callback [of Q cb c C ad ty b rk', OF assms] h by simp
    then show ?thesis using SR_ApplicationData o Ok x h
      by (cases r2) (simp_all add: decrypt_record_def bind_apply next_do_apply on_part_apply)
  qed (use SR_ApplicationData o assms(2) in \<open>simp_all add: decrypt_record_def bind_apply on_part_apply\<close>)
qed (use assms in \<open>simp_all add: decrypt_record_def on_part_apply\<close>)

lemma read_handler_never_opens: "\<not> snd c \<Longrightarrow> \<not> snd (snd (snd (read_handler n rec (rk, c))))"
  by (cases c)
    (auto simp: read_handler_def bind_apply next_do_apply Let_def split: server_record.split server_handshake.split result.split)

lemma reader_of_simps [simp]:
  "fst (reader_of c) = tc_opened c" "rd_delegate (snd (reader_of c)) = tc_delegate c"
  "rd_key_schedule (snd (reader_of c)) = server_state (tc_ks c)" "rd_record_reader (snd (reader_of c)) = tc_reader c"
  "rd_decrypted (snd (reader_of c)) = tc_decrypted c"
  by (simp_all add: reader_of_def split_connection_def)

lemma reader_of_update: "reader_of (c\<lparr>tc_decrypted := i\<rparr>) = (fst (reader_of c), (snd (reader_of c))\<lparr>rd_decrypted := i\<rparr>)"
  by (simp add: reader_of_def split_connection_def)

lemma through_read_application_data:
  "through reader_of (read_application_data C T) (reader_read_application_data C T)"
  unfolding read_application_data_def reader_read_application_data_def
proof (intro through_bind)
  fix rec
  have "tc_opened c"
    if "snd (decrypt_record C (read_handler n) rec ((rk, info, tc_opened c), mem)) = ((rk', info', True), mem')"
    for c :: "'b tls_connection" and n rk info mem rk' info' mem'
    using decrypt_record_callback [of "\<lambda>c. \<not> snd c" "read_handler n" "(info, tc_opened c)" C rec rk mem]
      read_handler_never_opens that by fastforce
  then show "through reader_of
     (on_part (\<lambda>c :: 'b tls_connection. ((server_state (tc_ks c), tc_decrypted c, tc_opened c), rr_buf (tc_reader c)))
       (\<lambda>((rk, info, is_open), mem) c. c\<lparr>tc_ks := (tc_ks c)\<lparr>server_state := rk\<rparr>, tc_decrypted := info,
          tc_opened := is_open, tc_reader := (tc_reader c)\<lparr>rr_buf := mem\<rparr>\<rparr>)
       (\<lambda>s. decrypt_record C (read_handler (length (snd s))) rec s))
     (on_part (\<lambda>(b, x). ((rd_key_schedule x, rd_decrypted x, b), rr_buf (rd_record_reader x)))
       (\<lambda>((rk, info, opened), mem) (b, x). (if \<not> opened then False else b,
          x\<lparr>rd_key_schedule := rk, rd_decrypted := info,
            rd_record_reader := (rd_record_reader x)\<lparr>rr_buf := mem\<rparr>\<rparr>))
       (\<lambda>s. decrypt_record C (read_handler (length (snd s))) rec s))"
    by (intro through_on_part_at) (auto simp: reader_of_def split_connection_def split: prod.split)
qed (rule through_on_part, simp_all add: reader_of_def split_connection_def split_beta)

text \<open>The loops agree also in not returning.\<close>

definition through_option :: "('s \<Rightarrow> 'h) \<Rightarrow> ('s \<Rightarrow> ('r \<times> 's) option) \<Rightarrow> ('h \<Rightarrow> ('r \<times> 'h) option) \<Rightarrow> bool" where
  "through_option v f f' \<longleftrightarrow> (\<forall>s. f' (v s) = map_option (\<lambda>(r, s'). (r, v s')) (f s))"

lemma fill_loop_reader:
  assumes "fill_loop C T c = Some y"
  shows "reader_fill_loop C T (reader_of c) = Some (fst y, reader_of (snd y))"
proof (rule fill_loop.raw_induct [where P = "\<lambda>C T c y. reader_fill_loop C T (reader_of c) = Some (fst y, reader_of (snd y))", OF _ assms])
  fix f C T c y
  note step = through_read_application_data [of C T, unfolded through_def, rule_format, of c]
  assume "\<And>C T c y. f C T c = Some y \<Longrightarrow> reader_fill_loop C T (reader_of c) = Some (fst y, reader_of (snd y))"
    and "(case info_is_empty (tc_decrypted c) of
        Ok none_left \<Rightarrow>
          if none_left
          then (case read_application_data C T c of
                  (Ok _, c') \<Rightarrow> f C T c'
                | (Err e, c') \<Rightarrow> Some (Err e, c')
                | (Panic, c') \<Rightarrow> Some (Panic, c'))
          else Some (Ok (), c)
      | Err e \<Rightarrow> Some (Err e, c)
      | Panic \<Rightarrow> Some (Panic, c)) = Some y"
  then show "reader_fill_loop C T (reader_of c) = Some (fst y, reader_of (snd y))"
    by (cases y; cases "read_application_data C T c"; subst reader_fill_loop.simps)
      (auto simp: step split: result.splits if_splits)
qed

lemma reader_fill_loop_whole:
  assumes "reader_fill_loop C T (reader_of c) = Some y"
  shows "\<exists>c'. fill_loop C T c = Some (fst y, c')"
proof -
  have "\<forall>c. s = reader_of c \<longrightarrow> (\<exists>c'. fill_loop C T c = Some (fst y, c'))" if "reader_fill_loop C T s = Some y" for s
  proof (rule reader_fill_loop.raw_induct [where P = "\<lambda>C T s y. \<forall>c. s = reader_of c \<longrightarrow> (\<exists>c'. fill_loop C T c = Some (fst y, c'))", OF _ that],
      intro allI impI)
    fix f C T s y c
    note step = through_read_application_data [of C T, unfolded through_def, rule_format, of c]
    assume ih: "\<And>C T s y. f C T s = Some y \<Longrightarrow> \<forall>c. s = reader_of c \<longrightarrow> (\<exists>c'. fill_loop C T c = Some (fst y, c'))"
      and eq: "s = reader_of c"
      and run: "(case info_is_empty (rd_decrypted (snd s)) of
        Ok none_left \<Rightarrow>
          if none_left
          then (case reader_read_application_data C T s of
                  (Ok _, s') \<Rightarrow> f C T s'
                | (Err e, s') \<Rightarrow> Some (Err e, s')
                | (Panic, s') \<Rightarrow> Some (Panic, s'))
          else Some (Ok (), s)
      | Err e \<Rightarrow> Some (Err e, s)
      | Panic \<Rightarrow> Some (Panic, s)) = Some y"
    from run show "\<exists>c'. fill_loop C T c = Some (fst y, c')" unfolding eq
      by (cases y; cases "read_application_data C T c"; subst fill_loop.simps)
        (auto simp: step split: result.splits if_splits dest: ih)
  qed
  with assms show ?thesis by blast
qed

lemma through_fill_loop: "through_option reader_of (fill_loop C T) (reader_fill_loop C T)"
  unfolding through_option_def
proof
  fix c
  show "reader_fill_loop C T (reader_of c) = map_option (\<lambda>(r, s'). (r, reader_of s')) (fill_loop C T c)"
    using fill_loop_reader [of C T c] reader_fill_loop_whole [of C T c]
    by (cases "fill_loop C T c"; cases "reader_fill_loop C T (reader_of c)") auto
qed

lemma through_read_buffered:
  "through_option reader_of (read_buffered C T op) (reader_read_buffered C T op)"
  unfolding through_option_def
proof
  fix c
  show "reader_read_buffered C T op (reader_of c) = map_option (\<lambda>(r, s'). (r, reader_of s')) (read_buffered C T op c)"
    using through_fill_loop [of C T, unfolded through_option_def, rule_format, of c]
    by (cases "fill_loop C T c")
      (auto simp: reader_read_buffered_def read_buffered_def on_part_apply split_beta reader_of_update split: result.split)
qed

lemma through_consume: "through reader_of (conn_consume n :: ('t, unit) conn_op) (reader_consume n)"
proof -
  have "(\<lambda>s. on_part (\<lambda>(_, x). rd_decrypted x) (\<lambda>i (b, x). (b, x\<lparr>rd_decrypted := i\<rparr>))
       (with_read_buffer (rr_buf (rd_record_reader (snd s))) (pop n)) s) (reader_of c) =
      (case on_part tc_decrypted (\<lambda>i c. c\<lparr>tc_decrypted := i\<rparr>) (with_read_buffer (rr_buf (tc_reader c)) (pop n)) c of
         (r, c') \<Rightarrow> (r, reader_of c'))" for c :: "'t tls_connection"
    by (simp add: on_part_apply split_beta reader_of_update)
  then show ?thesis
    unfolding conn_consume_def reader_consume_def by (intro through_bind) (simp_all add: through_def split_beta)
qed

text \<open>
  C23: splitting a connection changes nothing for either side.  On the halves that \<open>split\<close> makes of any
  connection, writing, flushing, reading, borrowing and consuming return what the same call on the
  whole connection returns, error and panic included, and leave the half in the state that splitting the
  connection after the call would give; a read of the half does not return exactly when the read of the
  connection does not.
\<close>

theorem split_halves_agree:
  "writer_write C T buf (writer_of c) = (case conn_write C T buf c of (r, c') \<Rightarrow> (r, writer_of c')) \<and>
   writer_flush C T (snd (writer_of c)) = (case conn_flush C T c of (r, c') \<Rightarrow> (r, snd (writer_of c'))) \<and>
   reader_read C T buf (reader_of c) = map_option (\<lambda>(r, c'). (r, reader_of c')) (conn_read C T buf c) \<and>
   reader_fill_buf C T (reader_of c) = map_option (\<lambda>(r, c'). (r, reader_of c')) (fill_buf C T c) \<and>
   reader_consume n (reader_of c) = (case conn_consume n c of (r, c') \<Rightarrow> (r, reader_of c'))"
  using through_write [of C T buf] through_flush [of C T] through_consume [of n, unfolded through_def, rule_format, of c]
    through_read_buffered [of C T "pop_into buf"] through_read_buffered [of C T peek_all]
  by (simp add: through_def through_option_def reader_read_def conn_read_def reader_fill_buf_def fill_buf_def split_beta)

section \<open>An interrupted write repeats a nonce\<close>

text \<open>
  \<open>flush\<close> seals the record and only then writes it, and it counts the record only after the write.  When the
  transport fails, the record is gone from the buffer and its number is used again for the next one.
\<close>

lemma conn_flush_interrupted:
  assumes laws: "crypto_laws C" and use: "usable (client_traffic (tc_ks c))"
    and wb: "tc_write_buf c = wb_open RH_ApplicationData p buf" and n: "133 \<le> length buf" "length buf < 2 ^ 16"
    and len: "length p \<le> capacity (length buf)"
    and out: "out = sealed_record C (client_traffic (tc_ks c)) p CT_ApplicationData"
    and fail: "t_write_all T out (tc_delegate c) = (r, t')" "r \<noteq> Ok ()"
  shows "conn_flush C T c = (case r of Err e \<Rightarrow> Err (Io e) | _ \<Rightarrow> Panic,
     c\<lparr>tc_delegate := t', tc_write_buf := wb_idle (overwrite 0 out buf)\<rparr>)"
  using fail close_application_data [OF laws use n len]
  by (cases r) (simp_all add: conn_flush_def bind_apply next_do_apply on_part_apply wb_is_empty_def wb_len_def wb
      wb_open_def [of _ p] on_delegate_def map_err_apply out)

text \<open>
  C24: after an interrupted write the next record is sealed under the same key and nonce.  If the write of the
  record that carries \<open>p\<close> does not succeed (the transport reports an error or, over an async transport, the future is
  dropped), a flush ends with the record number unchanged and the buffer empty; writing \<open>q\<close> and flushing then
  gives the transport, as the next calls find it, the record of \<open>q\<close> under the traffic keys and the record number
  that the record of \<open>p\<close> already had.
\<close>

theorem interrupted_write_reuses_nonce:
  fixes c :: "'t tls_connection"
  assumes "crypto_laws C" and "tc_opened c" and "usable (client_traffic (tc_ks c))"
    and "tc_write_buf c = wb_open RH_ApplicationData p buf" and "133 \<le> length buf" and "length buf < 2 ^ 16"
    and "length p \<le> capacity (length buf)" and "length q < capacity (length buf)"
    and "t_write_all T (sealed_record C (client_traffic (tc_ks c)) p CT_ApplicationData) (tc_delegate c) = (r, t1)" and "r \<noteq> Ok ()"
    and "t_write_all T (sealed_record C (client_traffic (tc_ks c)) q CT_ApplicationData) t1' = (Ok (), t2)"
    and "t_flush T t2 = (Ok (), t3)"
  shows "\<exists>c1 c2 c3. conn_flush C T c = (case r of Err e \<Rightarrow> Err (Io e) | _ \<Rightarrow> Panic, c1) \<and> tc_delegate c1 = t1 \<and>
     client_traffic (tc_ks c1) = client_traffic (tc_ks c) \<and>
     conn_write C T q (c1\<lparr>tc_delegate := t1'\<rparr>) = (Ok (length q), c2) \<and> conn_flush C T c2 = (Ok (), c3) \<and>
     tc_delegate c3 = (if flush_transport (tc_flush_policy c) then t3 else t2)"
proof -
  let ?st = "client_traffic (tc_ks c)" and ?out = "sealed_record C (client_traffic (tc_ks c)) p CT_ApplicationData"
  let ?buf = "overwrite 0 ?out buf"
  let ?c1 = "c\<lparr>tc_delegate := t1', tc_write_buf := wb_idle ?buf\<rparr>"
  have len: "length ?buf = length buf" by (rule length_overwrite_record [OF assms(1,5,6,7)])
  have 1: "conn_flush C T c = (case r of Err e \<Rightarrow> Err (Io e) | _ \<Rightarrow> Panic, c\<lparr>tc_delegate := t1, tc_write_buf := wb_idle ?buf\<rparr>)"
    by (rule conn_flush_interrupted [OF assms(1,3-7) refl assms(9,10)])
  let ?c2 = "?c1\<lparr>tc_write_buf := wb_open RH_ApplicationData q ?buf\<rparr>"
  have 2: "conn_write C T q ?c1 = (Ok (length q), ?c2)"
    using conn_write_append [where c = ?c1 and buf = ?buf and p = "[]" and d = q and k = "length q" and q = q and C = C and T = T]
      assms(2,5,8) len by (simp add: next_do_apply return_def)
  let ?out2 = "sealed_record C ?st q CT_ApplicationData"
  have close: "close_record C (client_state (tc_ks c)) (wb_open RH_ApplicationData q ?buf) =
      (Ok ?out2, wb_idle (overwrite 0 ?out2 ?buf))"
    by (rule close_application_data [OF assms(1,3)]) (use assms(5,6,8) len in simp_all)
  have inc: "on_client increment_counter (tc_ks c) = (Ok (), bump_client (tc_ks c))"
    using client_counter_run [OF assms(3)] by (simp add: increment_client_handshake_counter_def)
  have "\<exists>c3. conn_flush C T ?c2 = (Ok (), c3) \<and> tc_delegate c3 = (if flush_transport (tc_flush_policy c) then t3 else t2)"
    using assms(11,12) close inc
    by (simp add: conn_flush_def bind_apply next_do_apply on_part_apply wb_is_empty_def wb_len_def wb_open_def [of _ q]
        on_delegate_def map_err_apply conn_increment_write_def conn_flush_transport_def return_def)
  then obtain c3 where "conn_flush C T ?c2 = (Ok (), c3)" "tc_delegate c3 = (if flush_transport (tc_flush_policy c) then t3 else t2)"
    by blast
  moreover have upd: "c\<lparr>tc_delegate := t1, tc_write_buf := wb_idle ?buf, tc_delegate := t1'\<rparr> = ?c1" by (cases c) simp
  ultimately show ?thesis
    by (intro exI [of _ "c\<lparr>tc_delegate := t1, tc_write_buf := wb_idle ?buf\<rparr>", OF exI [of _ ?c2, OF exI [of _ c3]]],
        unfold upd) (use 1 2 in simp)
qed

text \<open>A transport that sends what it is given and reports an error for the first write.\<close>

definition flaky_transport :: "(bool \<times> bytes) transport" where
  "flaky_transport = \<lparr>t_read = (\<lambda>n s. (Ok [], s)),
     t_write_all = (\<lambda>bs (fails, out). (if fails then Err 7 else Ok (), (False, out @ bs))), t_flush = return ()\<rparr>"

theorem interrupted_write_reuses_nonce_witness:
  "\<exists>c1 c2 c3. conn_flush toy_suite flaky_transport
       ((demo_conn (True, []))\<lparr>tc_write_buf := wb_open RH_ApplicationData [1, 2] (replicate 140 0)\<rparr>) = (Err (Io 7), c1) \<and>
     conn_write toy_suite flaky_transport [3, 4] c1 = (Ok 2, c2) \<and> conn_flush toy_suite flaky_transport c2 = (Ok (), c3) \<and>
     snd (tc_delegate c3) = sealed_record toy_suite (rfc_traffic_keys toy_suite [7]) [1, 2] CT_ApplicationData @
       sealed_record toy_suite (rfc_traffic_keys toy_suite [7]) [3, 4] CT_ApplicationData"
proof -
  let ?st = "rfc_traffic_keys toy_suite [7]"
  let ?p = "sealed_record toy_suite ?st [1, 2] CT_ApplicationData" and ?q = "sealed_record toy_suite ?st [3, 4] CT_ApplicationData"
  let ?c = "(demo_conn (True, [] :: bytes))\<lparr>tc_write_buf := wb_open RH_ApplicationData [1, 2] (replicate 140 0)\<rparr>"
  have c: "tc_opened ?c" "tc_delegate ?c = (True, [])" "client_traffic (tc_ks ?c) = ?st" "usable (client_traffic (tc_ks ?c))"
    using usable_rfc_keys [OF toy_suite_laws, of "[7]"] by (simp_all add: demo_conn_traffic) (simp_all add: demo_conn_def)
  have w: "t_write_all flaky_transport ?p (tc_delegate ?c) = (Err 7, (False, ?p))"
      "t_write_all flaky_transport ?q (False, ?p) = (Ok (), (False, ?p @ ?q))"
      "t_flush flaky_transport (False, ?p @ ?q) = (Ok (), (False, ?p @ ?q))"
    unfolding c(2) by (simp_all add: flaky_transport_def return_def)
  obtain c1 c2 c3 where run: "conn_flush toy_suite flaky_transport ?c = (Err (Io 7), c1)" "tc_delegate c1 = (False, ?p)"
    "conn_write toy_suite flaky_transport [3, 4] (c1\<lparr>tc_delegate := (False, ?p)\<rparr>) = (Ok 2, c2)"
    "conn_flush toy_suite flaky_transport c2 = (Ok (), c3)" "tc_delegate c3 = (False, ?p @ ?q)"
    using interrupted_write_reuses_nonce [OF toy_suite_laws c(1,4), where p = "[1, 2]" and q = "[3, 4]" and buf = "replicate 140 0"
        and T = flaky_transport, unfolded c(3), OF _ _ _ _ _ w(1) _ w(2,3)]
    by (auto simp: capacity_def)
  moreover have "c1\<lparr>tc_delegate := (False, ?p)\<rparr> = c1" using run(2) by (cases c1) simp
  ultimately show ?thesis by auto
qed

end
