(* ===== verification/Client_Safety.thy ===== *)
theory Client_Safety
  imports Client_Traffic
begin

text \<open>
  What a client can rely on after \<open>open\<close> has returned (src/connection.rs, src/blocking.rs): it has seen a
  Finished with the MAC under the server's handshake traffic secret.  The handshake is a step relation on
  pairs of a \<open>State\<close> and the connection's data, and the result is an invariant of it.
\<close>

section \<open>Opening a record, the other way round\<close>

lemma take_content_type_OkD:
  assumes "b = \<lparr>cb_buf = pt @ rest, cb_offset = 0, cb_len = length pt\<rparr>" and "take_content_type b = (Ok ty, b')"
    and "ty \<noteq> CT_Invalid"
  obtains content z where "pt = content @ content_type_code ty # replicate z 0"
    and "b' = b\<lparr>cb_len := length content\<rparr>"
proof -
  have slice: "cb_as_slice b = (Ok pt :: (bytes, tls_error) result)"
    by (simp add: assms(1) cb_as_slice_def subslice_def)
  show thesis
  proof (cases "inner_content pt")
    case (Ok x)
    obtain ty' content where x: "x = (ty', content)" by fastforce
    obtain z where z: "pt = content @ content_type_code ty' # replicate z 0"
      by (rule inner_content_OkD [OF Ok [unfolded x]])
    have "ty' \<noteq> CT_Invalid" using Ok x by (auto simp: inner_content_def split: option.splits dest!: rposition_split content_type_code_of)
    from take_content_type_run [OF _ this, of b content z rest] assms(1,2) z
    have "ty' = ty" "b' = b\<lparr>cb_len := length content\<rparr>" by auto
    with z show thesis by (intro that) simp_all
  next
    case (Err e)
    show thesis
    proof (cases "rposition (\<lambda>b. b \<noteq> 0) pt")
      case None
      then have "\<forall>x \<in> set pt. x = 0" by (simp add: rposition_None_iff list_all_iff)
      then have "pt \<noteq> [] \<Longrightarrow> last pt = 0" by simp
      with assms(2,3) None slice show thesis
        by (cases "pt = []") (auto simp: take_content_type_def bind_apply next_do_apply return_def content_type_of_def ok_or_def
            split: result.splits prod.splits)
    next
      case (Some i)
      then have "content_type_of (pt ! i) = None" using Err by (simp add: inner_content_def split: option.splits)
      with assms(1,2) Some slice rposition_split [OF Some] show thesis
        by (auto simp: take_content_type_def bind_apply next_do_apply cb_truncate_def usub_def cb_capacity_def cb_as_slice_def subslice_def
            take_Suc_conv_app_nth ok_or_def split: result.splits prod.splits)
    qed
  qed simp
qed

lemma open_app_data_OkD:
  assumes laws: "crypto_laws C" and iv: "length (iv (r_state rk)) = 12" and rec: "check_record rec = Ok n"
    and run: "open_app_data C (app_record rec start) (rk, mem) = (Ok (ty, b), s')" and ty: "ty \<noteq> CT_Invalid"
  obtains z where "opened_record C (r_state rk) rec = Some (cb_view b @ content_type_code ty # replicate z 0)"
    and "cb_inv b" and "fst s' = rk"
proof (cases "opened_record C (r_state rk) rec")
  case None
  with open_app_data_forged [OF laws iv rec] run show thesis by simp
next
  case (Some pt)
  note L = crypto_lawsD [OF laws]
  have nonce: "state_get_nonce C (r_state rk) = Ok (record_nonce (r_state rk))"
    using get_nonce_run [OF suite_sizesD(1) [OF L(3)] iv] by (simp add: state_get_nonce_def record_nonce_def)
  let ?body = "drop 5 rec" let ?k = "length ?body - tag_len C"
  have op: "tag_len C \<le> length ?body"
      "aead_open C (key (r_state rk)) (record_nonce (r_state rk)) (take 5 rec) (take ?k ?body) (drop ?k ?body) = Some pt"
    using Some by (auto simp: opened_record_def Let_def split: if_splits)
  define b0 where "b0 = \<lparr>cb_buf = pt @ drop ?k ?body, cb_offset = 0, cb_len = length pt\<rparr>"
  have "decrypt_in_place C (key (r_state rk)) (record_nonce (r_state rk)) (take 5 rec)
      (cb_wrap_with_pos ?body (length ?body)) = (Ok (), b0)"
    unfolding decrypt_in_place_run [OF L(2)] using op open_length [OF L(2) op(2)] by (simp add: b0_def)
  then have t: "take_content_type b0 = (Ok ty, b)" "fst s' = rk"
    using run by (auto simp: open_app_data_def bind_apply nonce map_err_apply split: result.splits prod.splits)
  obtain content z where c: "pt = content @ content_type_code ty # replicate z 0" "b = b0\<lparr>cb_len := length content\<rparr>"
    by (rule take_content_type_OkD [OF b0_def t(1) ty])
  show thesis
    by (rule that [of z]) (use Some c t(2) in \<open>simp_all add: b0_def cb_view_def cb_inv_def\<close>)
qed

section \<open>Messages of a protected record\<close>

text \<open>The bytes of a Finished over a transcript; the length field is whatever the peer wrote.\<close>

definition is_finished :: "cipher_suite_params \<Rightarrow> bytes \<Rightarrow> bytes \<Rightarrow> bytes \<Rightarrow> bool" where
  "is_finished C secret t msg \<longleftrightarrow>
     (\<exists>len. length len = 3 \<and> msg = handshake_type_code HT_Finished # len @ rfc_finished_mac C secret (hash C t))"

lemma tmap_OkD: "tmap g p b = (Ok x, b') \<Longrightarrow> \<exists>y. p b = (Ok y, b') \<and> x = g y"
  by (auto simp: tmap_def bind_apply split: prod.splits result.splits)

lemma finished_parse_OkD:
  assumes "server_handshake_parse C b = (Ok (ServerFinished f), b')"
  shows "buffer b' = buffer b \<and> pos b' = pos b + 4 + hash_len C \<and> pos b' \<le> length (buffer b) \<and>
    buffer b ! pos b = handshake_type_code HT_Finished \<and> fin_verify f = take (hash_len C) (drop (pos b + 4) (buffer b))"
proof -
  obtain ty b1 where ty: "handshake_type_parse b = (Ok ty, b1)"
    using assms by (cases "handshake_type_parse b"; cases "fst (handshake_type_parse b)")
      (auto simp: server_handshake_parse_def bind_apply map_err_apply)
  then have b1: "b1 = b\<lparr>pos := pos b + 1\<rparr>" "buffer b ! pos b = handshake_type_code ty"
    by (auto simp: handshake_type_parse_def bind_apply read_u8_def split: if_splits)
  have "ty = HT_Finished"
    using assms ty by (cases ty)
      (auto simp: server_handshake_parse_def bind_apply map_err_apply split: prod.splits result.splits dest!: tmap_OkD)
  with b1 assms ty show ?thesis
    by (auto simp: server_handshake_parse_def bind_apply map_err_apply read_u24_def tmap_def finished_parse_def
        from_parse_def pb_fill_def ac_simps split: if_splits)
qed

lemma server_handshake_read_OkD:
  assumes "server_handshake_read C (b, d) = (Ok m, (b', d'))" and "pb_inv b"
  obtains bs where "buffer b' = buffer b" and "pos b' = pos b + length bs" and "pos b' \<le> length (buffer b)"
    and "bs = take (length bs) (drop (pos b) (buffer b))" and "d' = d @ bs"
    and "\<And>f. m = ServerFinished f \<Longrightarrow> fin_hash f = Some (hash C d) \<and>
       (\<exists>len. length len = 3 \<and> bs = handshake_type_code HT_Finished # len @ fin_verify f)"
proof -
  obtain r b1 where run: "server_handshake_parse C b = (r, b1)" by fastforce
  then obtain h where h: "r = Ok h" using assms(1)
    by (cases r) (simp_all add: server_handshake_read_def bind_apply on_part_apply)
  note R = wf_parserD [OF wf_server_handshake_parse assms(2) run]
  define bs where "bs = take (pos b1 - pos b) (drop (pos b) (buffer b))"
  have b1: "buffer b1 = buffer b" "pos b \<le> pos b1" "pos b1 \<le> length (buffer b)"
    using R by (simp_all add: pb_inv_def)
  then have len: "length bs = pos b1 - pos b" by (simp add: bs_def)
  have res: "b' = b1" "d' = d @ bs" "m = with_snapshot C d h"
    using assms(1) run h b1
    by (auto simp: server_handshake_read_def bind_apply next_do_apply on_part_apply subslice_def Let_def with_snapshot_def bs_def
        split: server_handshake.splits)
  show thesis
  proof (rule that [of bs])
    fix f assume "m = ServerFinished f"
    then obtain g where g: "h = ServerFinished g" "f = g\<lparr>fin_hash := Some (hash C d)\<rparr>"
      using res(3) by (cases h) (auto simp: with_snapshot_def)
    note F = finished_parse_OkD [OF run [unfolded h g(1)]]
    define len where "len = take 3 (drop (pos b + 1) (buffer b))"
    have "pos b + 4 \<le> length (buffer b)" using F by simp
    then have l: "length len = 3" unfolding len_def length_take length_drop by linarith
    have 1: "drop (pos b) (buffer b) = handshake_type_code HT_Finished # drop (pos b + 1) (buffer b)"
      using F Cons_nth_drop_Suc [of "pos b" "buffer b"] by simp
    have 2: "pos b1 - pos b = Suc (3 + hash_len C)" using F by simp
    have "fin_verify f = take (hash_len C) (drop (pos b + 4) (buffer b))" using F g(2) by simp
    moreover have "3 + (pos b + 1) = pos b + 4" by simp
    ultimately have "take (3 + hash_len C) (drop (pos b + 1) (buffer b)) = len @ fin_verify f"
      by (simp only: len_def take_add drop_drop)
    with 1 2 have "bs = handshake_type_code HT_Finished # len @ fin_verify f"
      by (simp only: bs_def take_Suc_Cons)
    note this l
    then show "fin_hash f = Some (hash C d) \<and> (\<exists>len. length len = 3 \<and> bs = handshake_type_code HT_Finished # len @ fin_verify f)"
      using g(2) by auto
  qed (use b1 len res in \<open>simp_all add: bs_def\<close>)
qed

text \<open>The callback leaves the keys alone and changes the state only for a Finished that verifies.\<close>

lemma with_verifier_state:
  "with_verifier P op (rk, st, hs, p) = (r, (rk', st', hs', p')) \<Longrightarrow> rk' = rk \<and> st' = st \<and> hs' = hs"
  by (auto simp: with_verifier_def on_part_apply)

lemma verify_handler_OkD:
  assumes "verify_handler C P rec (rk, st, hs, p) = (Ok u, (rk', st', hs', p'))"
  shows "rk' = rk" and "st' = st \<or> (\<exists>f. rec = SR_Handshake (ServerFinished f) \<and>
     verify_finished C (traffic_secret (r_state rk)) f = Ok True \<and> st' \<in> {S_ClientCert, S_ClientFinished})"
proof -
  have "rk' = rk \<and> (st' = st \<or> (\<exists>f. rec = SR_Handshake (ServerFinished f) \<and>
     verify_finished C (traffic_secret (r_state rk)) f = Ok True \<and> st' \<in> {S_ClientCert, S_ClientFinished}))"
  proof (cases "\<exists>m. rec = SR_Handshake m")
    case True
    then obtain m where m: "rec = SR_Handshake m" ..
    from assms show ?thesis unfolding m
      by (cases m)
        (auto simp: verify_handler_def bind_apply return_def dest!: with_verifier_state split: result.splits if_splits)
  next
    case False
    then show ?thesis using assms by (cases rec) (simp_all add: verify_handler_def return_def)
  qed
  then show "rk' = rk" and "st' = st \<or> (\<exists>f. rec = SR_Handshake (ServerFinished f) \<and>
     verify_finished C (traffic_secret (r_state rk)) f = Ok True \<and> st' \<in> {S_ClientCert, S_ClientFinished})" by blast+
qed

lemma verify_finished_OkD:
  assumes "hash_laws C" and "verify_finished C (Initialized secret) f = Ok True" and "fin_hash f = Some (hash C t)"
  shows "fin_verify f = rfc_finished_mac C secret (hash C t)"
  using assms by (simp add: verify_finished_def finished_key_run rfc_finished_mac_def)

lemma handshake_loop_verify_OkD:
  assumes hl: "hash_laws C" and sec: "traffic_secret (r_state rk) = Initialized secret"
    and inv: "pb_inv buf" and run: "handshake_loop C (verify_handler C P) buf (rk, st, hs, p) = (Ok u, (rk', st', hs', p'))"
  shows "r_state rk' = r_state rk \<and> (st' = st \<or> st' \<in> {S_ClientCert, S_ClientFinished} \<and>
     (\<exists>pre msg post. drop (pos buf) (buffer buf) = pre @ msg @ post \<and> is_finished C secret (transcript_hash rk @ pre) msg))"
  using sec inv run
proof (induction "remaining buf" arbitrary: buf rk st hs p rule: less_induct)
  case less
  let ?rest = "drop (pos buf) (buffer buf)"
  show ?case
  proof (cases "remaining buf > 0")
    case True
    obtain r buf1 digest where read: "server_handshake_read C (buf, transcript_hash rk) = (r, (buf1, digest))" by (metis prod.exhaust)
    obtain m where m: "r = Ok m"
      using less.prems(3) True read by (cases r) (simp_all add: handshake_loop.simps [of C _ buf])
    let ?rk = "rk\<lparr>transcript_hash := digest\<rparr>"
    obtain r2 rk2 st2 hs2 p2 where cb: "verify_handler C P (SR_Handshake m) (?rk, st, hs, p) = (r2, (rk2, st2, hs2, p2))"
      by (metis prod.exhaust)
    obtain u2 where r2: "r2 = Ok u2"
      using less.prems(3) True read m cb by (cases r2) (simp_all add: handshake_loop.simps [of C _ buf])
    note H = verify_handler_OkD [OF cb [unfolded r2]]
    obtain bs where bs: "buffer buf1 = buffer buf" "pos buf1 = pos buf + length bs" "pos buf1 \<le> length (buffer buf)"
        "bs = take (length bs) ?rest" "digest = transcript_hash rk @ bs"
        "\<And>f. m = ServerFinished f \<Longrightarrow> fin_hash f = Some (hash C (transcript_hash rk)) \<and>
          (\<exists>len. length len = 3 \<and> bs = handshake_type_code HT_Finished # len @ fin_verify f)"
      by (rule server_handshake_read_OkD [OF read [unfolded m] less.prems(2)]) blast
    have tail: "drop (pos buf1) (buffer buf1) = drop (length bs) ?rest" using bs(1,2) by (simp add: add.commute)
    have rest: "?rest = bs @ drop (pos buf1) (buffer buf1)"
      unfolding tail by (rule append_take_drop_id [of "length bs" ?rest, folded bs(4), symmetric])
    have loop: "handshake_loop C (verify_handler C P) buf1 (rk2, st2, hs2, p2) = (Ok u, (rk', st', hs', p'))"
      using less.prems(3) True read m cb r2 by (simp add: handshake_loop.simps [of C _ buf])
    have dec: "remaining buf1 < remaining buf" using server_handshake_read_decreases [OF read [unfolded m]] True by simp
    have "traffic_secret (r_state rk2) = Initialized secret" "pb_inv buf1" using H(1) less.prems(1) bs(1,3) by (simp_all add: pb_inv_def)
    note IH = less.hyps [OF dec this loop]
    have new: "is_finished C secret (transcript_hash rk) bs \<and> st2 \<in> {S_ClientCert, S_ClientFinished}" if "st2 \<noteq> st"
    proof -
      from H(2) that obtain f where f: "m = ServerFinished f" "verify_finished C (traffic_secret (r_state rk)) f = Ok True"
        "st2 \<in> {S_ClientCert, S_ClientFinished}" by auto
      with verify_finished_OkD [OF hl, of secret f "transcript_hash rk"] bs(6) less.prems(1) show ?thesis
        by (auto simp: is_finished_def)
    qed
    consider "st' = st2" "st2 = st" | "st' = st2" "st2 \<noteq> st" | "st' \<noteq> st2" by blast
    then show ?thesis
    proof cases
      case 1 then show ?thesis using IH H(1) by simp
    next
      case 2
      have "r_state rk' = r_state rk" using IH H(1) by simp
      moreover have "st' \<in> {S_ClientCert, S_ClientFinished}" "is_finished C secret (transcript_hash rk @ []) bs" using 2 new by simp_all
      moreover have "?rest = [] @ bs @ drop (pos buf1) (buffer buf1)" by (simp only: rest append_Nil)
      ultimately show ?thesis by blast
    next
      case 3
      with IH obtain pre msg post where m: "drop (pos buf1) (buffer buf1) = pre @ msg @ post"
        "is_finished C secret (transcript_hash rk2 @ pre) msg" "st' \<in> {S_ClientCert, S_ClientFinished}" by blast
      have "?rest = (bs @ pre) @ msg @ post" by (simp only: rest m(1) append_assoc)
      moreover have "is_finished C secret (transcript_hash rk @ (bs @ pre)) msg" using m(2) bs(5) H(1) by simp
      moreover have "r_state rk' = r_state rk" using IH H(1) by simp
      ultimately show ?thesis using m(3) by blast
    qed
  next
    case False
    then show ?thesis using less.prems(3) by (simp add: handshake_loop.simps [of C _ buf])
  qed
qed

section \<open>What a record proves\<close>

text \<open>
  A record, received when the read half of the key schedule is \<open>rk\<close>, shows that the peer knows the
  server's handshake traffic secret: a protected record opens under the traffic keys to handshake messages
  that include the Finished of the transcript up to it, or a plaintext record is such a Finished, whose
  bytes are then the end of the transcript already.
\<close>

definition proves_server :: "cipher_suite_params \<Rightarrow> read_key_schedule \<Rightarrow> server_record \<Rightarrow> bool" where
  "proves_server C rk rec \<longleftrightarrow> (\<exists>secret. traffic_secret (r_state rk) = Initialized secret \<and>
     (case rec of
        SR_ApplicationData ad \<Rightarrow> \<exists>bs start pre msg post z. ad = app_record bs start \<and>
          opened_record C (r_state rk) bs = Some ((pre @ msg @ post) @ content_type_code CT_Handshake # replicate z 0) \<and>
          is_finished C secret (transcript_hash rk @ pre) msg
      | SR_Handshake (ServerFinished f) \<Rightarrow> \<exists>t msg. transcript_hash rk = t @ msg \<and> is_finished C secret t msg
      | _ \<Rightarrow> False))"

text \<open>The shape of what the reader hands out.\<close>

definition record_shape :: "cipher_suite_params \<Rightarrow> read_key_schedule \<Rightarrow> server_record \<Rightarrow> bool" where
  "record_shape C rk rec \<longleftrightarrow>
     (case rec of
        SR_ApplicationData ad \<Rightarrow> \<exists>bs start n. ad = app_record bs start \<and> check_record bs = Ok n
      | SR_Handshake (ServerFinished f) \<Rightarrow> \<exists>t len. length len = 3 \<and> fin_hash f = Some (hash C t) \<and>
          transcript_hash rk = t @ handshake_type_code HT_Finished # len @ fin_verify f
      | _ \<Rightarrow> True)"

lemma server_record_decode_shape:
  assumes "server_record_decode C header start data (transcript_hash rk) = (Ok rec, d)" and "length header = 5"
  shows "record_shape C (rk\<lparr>transcript_hash := d\<rparr>) rec"
proof (cases "\<exists>m. rec = SR_Handshake m")
  case True
  then obtain m where m: "rec = SR_Handshake m" ..
  obtain b' where read: "server_handshake_read C (pb_new data, transcript_hash rk) = (Ok m, (b', d))"
    using assms(1) m
    by (auto simp: server_record_decode_def bind_apply return_def split: result.splits prod.splits content_type.splits if_splits)
  have "pb_inv (pb_new data)" by simp
  from read this obtain bs where "d = transcript_hash rk @ bs" "\<And>f. m = ServerFinished f \<Longrightarrow> fin_hash f = Some (hash C (transcript_hash rk)) \<and>
       (\<exists>len. length len = 3 \<and> bs = handshake_type_code HT_Finished # len @ fin_verify f)"
    by (rule server_handshake_read_OkD) blast
  then show ?thesis by (cases m) (auto simp: record_shape_def m)
next
  case False
  show ?thesis
  proof (cases rec)
    case (SR_ApplicationData ad)
    have ty: "header_type header = Ok CT_ApplicationData" and ad: "ad = application_data_new start (cb_wrap_with_pos data (length data)) header"
      and len: "content_length header = length data"
      using assms(1) SR_ApplicationData
      by (auto simp: server_record_decode_def bind_apply return_def split: result.splits prod.splits content_type.splits if_splits)
    have "header ! 0 = content_type_code CT_ApplicationData"
      using ty by (auto simp: header_type_def unwrap_def split: option.splits dest: content_type_code_of)
    then have "check_record (header @ data) = Ok (length data)"
      using assms(2) len by (simp add: check_record_def content_length_def nth_append)
    moreover have "ad = app_record (header @ data) start" using assms(2) by (simp add: ad app_record_def)
    ultimately show ?thesis unfolding record_shape_def SR_ApplicationData by auto
  qed (use False in \<open>simp_all add: record_shape_def\<close>)
qed

lemma header_loop_length: "length buf = 5 \<Longrightarrow> header_loop T n buf t = (Ok h, t') \<Longrightarrow> length h = 5"
proof (induction T n buf t rule: header_loop.induct)
  case (1 T n buf t)
  obtain q u where rd: "t_read T (5 - n) t = (q, u)" by (metis surj_pair)
  show ?case
  proof (cases "n < 5 \<and> (\<exists>d. q = Ok d \<and> d \<noteq> [])")
    case True
    then obtain d where d: "n < 5" "q = Ok d" "d \<noteq> []" by blast
    then have "header_loop T (n + length d) (overwrite n (take (5 - n) d) buf) u = (Ok h, t')"
      using "1.prems"(2) rd by (simp add: header_loop.simps [of T n])
    moreover have "length (overwrite n (take (5 - n) d) buf) = 5" using "1.prems"(1) d(1) by simp
    ultimately show ?thesis using "1.IH" [of q u d] rd d by simp
  next
    case False
    then show ?thesis using "1.prems" rd by (cases q) (auto simp: header_loop.simps [of T n] split: if_splits)
  qed
qed

lemma consume_record_OkD:
  assumes "consume_record C header (rd, d) = (Ok rec, (rd', d'))"
  shows "\<exists>start data. server_record_decode C header start data d = (Ok rec, d')"
  using assms
  by (auto simp: consume_record_def Let_def bind_apply next_do_apply on_part_apply split: result.splits) (metis prod.collapse)

lemma read_blocking_shape:
  assumes "read_blocking C T (rd, t, rk) = (Ok rec, (rd', t', rk'))"
  shows "record_shape C rk' rec" and "r_state rk' = r_state rk"
proof -
  obtain r1 t1 where h: "next_record_header_blocking T t = (r1, t1)" by fastforce
  obtain header where r1: "r1 = Ok header" using assms h by (cases r1) (simp_all add: read_blocking_def bind_apply on_part_apply)
  then have header: "length header = 5"
    using h header_loop_length [of "replicate 5 0" T 0 t]
    by (auto simp: next_record_header_blocking_def bind_apply record_header_decode_def split: prod.splits result.splits option.splits)
  obtain r2 rd2 t2 where a: "advance_blocking T (content_length header) (rd, t1) = (r2, (rd2, t2))" by (metis prod.exhaust)
  obtain u where r2: "r2 = Ok u"
    using assms h r1 a by (cases r2) (simp_all add: read_blocking_def bind_apply next_do_apply on_part_apply)
  obtain r3 rd3 d where c: "consume_record C header (rd2, transcript_hash rk) = (r3, (rd3, d))" by (metis prod.exhaust)
  have "r3 = Ok rec" and rk': "rk' = rk\<lparr>transcript_hash := d\<rparr>"
    using assms h r1 a r2 c by (simp_all add: read_blocking_def bind_apply next_do_apply on_part_apply)
  with consume_record_OkD [OF c [unfolded this(1)]] obtain start data where
    "server_record_decode C header start data (transcript_hash rk) = (Ok rec, d)" by blast
  from server_record_decode_shape [OF this header] show "record_shape C rk' rec" by (simp add: rk')
  show "r_state rk' = r_state rk" by (simp add: rk')
qed

section \<open>The step that accepts the server\<close>

lemma decrypt_record_verify_OkD:
  assumes laws: "crypto_laws C" and iv: "length (iv (r_state rk)) = 12" and sec: "traffic_secret (r_state rk) = Initialized secret"
    and shape: "record_shape C rk rec"
    and run: "decrypt_record C (verify_handler C P) rec ((rk, S_ServerVerify, hs, p), mem) = (Ok u, ((rk', st', hs', p'), mem'))"
  shows "(\<exists>n. r_state rk' = (r_state rk)\<lparr>counter := n\<rparr>) \<and>
     (st' = S_ServerVerify \<or> st' \<in> {S_ClientCert, S_ClientFinished} \<and> proves_server C rk rec)"
proof (cases "\<exists>ad. rec = SR_ApplicationData ad")
  case True
  then obtain ad where ad: "rec = SR_ApplicationData ad" ..
  then obtain bs start n where bs: "ad = app_record bs start" "check_record bs = Ok n" using shape by (auto simp: record_shape_def)
  obtain r rk1 mem1 where o: "open_app_data C ad (rk, mem) = (r, (rk1, mem1))" by (metis prod.exhaust)
  obtain ty b where r: "r = Ok (ty, b)" using run ad o by (cases r) (auto simp: decrypt_record_def bind_apply on_part_apply)
  obtain r2 rk2 st2 hs2 p2 where h: "handle_content C (verify_handler C P) ad ty b (rk1, S_ServerVerify, hs, p) = (r2, (rk2, st2, hs2, p2))"
    by (metis prod.exhaust)
  obtain u2 where r2: "r2 = Ok u2" using run ad o r h
    by (cases r2) (simp_all add: decrypt_record_def bind_apply next_do_apply on_part_apply)
  have fin: "st' = st2" "\<exists>n. r_state rk' = (r_state rk2)\<lparr>counter := n\<rparr>"
    using run ad o r h r2
    by (auto simp: decrypt_record_def bind_apply next_do_apply on_part_apply increment_counter_def split: if_splits)
  have ty: "ty = CT_Handshake"
    using h r2 by (cases ty)
      (auto simp: handle_content_def bind_apply verify_handler_def split: result.splits prod.splits)
  obtain z where z: "opened_record C (r_state rk) bs = Some (cb_view b @ content_type_code ty # replicate z 0)" "cb_inv b" "rk1 = rk"
    using open_app_data_OkD [OF laws iv bs(2), of start mem ty b "(rk1, mem1)"] o r bs(1) ty by auto
  have loop: "handshake_loop C (verify_handler C P) (pb_new (cb_view b)) (rk, S_ServerVerify, hs, p) = (Ok u2, (rk2, st2, hs2, p2))"
    using h r2 ty z(2,3) by (simp add: handle_content_def bind_apply cb_as_slice_view)
  have "pb_inv (pb_new (cb_view b))" by simp
  note V = handshake_loop_verify_OkD [OF crypto_lawsD(1) [OF laws] sec this loop]
  have "proves_server C rk rec" if "st2 \<noteq> S_ServerVerify"
  proof -
    from V that obtain pre msg post where f: "cb_view b = pre @ msg @ post" "is_finished C secret (transcript_hash rk @ pre) msg"
      by (auto simp: pb_new_def)
    show ?thesis
      unfolding proves_server_def ad server_record.case using sec bs(1) z(1) [unfolded f(1) ty] f(2) by blast
  qed
  with V fin show ?thesis by auto
next
  case False
  then have v: "verify_handler C P rec (rk, S_ServerVerify, hs, p) = (Ok u, (rk', st', hs', p'))"
    using run by (cases rec; cases "verify_handler C P rec (rk, S_ServerVerify, hs, p)") (auto simp: decrypt_record_def on_part_apply)
  note V = verify_handler_OkD [OF v]
  have "proves_server C rk rec \<and> st' \<in> {S_ClientCert, S_ClientFinished}" if "st' \<noteq> S_ServerVerify"
  proof -
    from V(2) that obtain f where f: "rec = SR_Handshake (ServerFinished f)" "st' \<in> {S_ClientCert, S_ClientFinished}"
      "verify_finished C (traffic_secret (r_state rk)) f = Ok True" by auto
    from shape f(1) obtain t len where t: "length len = 3" "fin_hash f = Some (hash C t)"
      "transcript_hash rk = t @ handshake_type_code HT_Finished # len @ fin_verify f" by (auto simp: record_shape_def)
    have "fin_verify f = rfc_finished_mac C secret (hash C t)"
      by (rule verify_finished_OkD [OF crypto_lawsD(1) [OF laws] _ t(2)]) (use f(3) sec in simp)
    with t sec f show ?thesis unfolding proves_server_def is_finished_def by auto
  qed
  then show ?thesis using V(1) by (cases "st' = S_ServerVerify") (auto intro: exI [of _ "counter (r_state rk)"])
qed

lemma attempt_result:
  assumes "bind (attempt m) (handle_processing_error_blocking C E T) s = (Ok st, s')"
  shows "m s = (Ok st, s')"
proof -
  obtain r s1 where m: "m s = (r, s1)" by fastforce
  show ?thesis
  proof (cases r)
    case (Ok x) then show ?thesis using assms m by (simp add: bind_apply attempt_def handle_processing_error_blocking_def)
  next
    case (Err e)
    then show ?thesis using assms m
      by (auto simp: bind_apply next_do_apply attempt_def handle_processing_error_blocking_def split: tls_error.splits result.splits prod.splits)
  next
    case Panic then show ?thesis using assms m by (simp add: bind_apply attempt_def)
  qed
qed

section \<open>The handshake as a step relation\<close>

inductive reaches ::
  "cipher_suite_params \<Rightarrow> p256_params \<Rightarrow> nat \<Rightarrow> 't transport \<Rightarrow> 'p crypto_provider \<Rightarrow> tls_config \<Rightarrow>
   ('t, 'p) client \<Rightarrow> conn_state \<Rightarrow> ('t, 'p) client \<Rightarrow> bool"
  for C E sig_size T P config s0 where
  start: "reaches C E sig_size T P config s0 S_ClientHello s0"
| step: "reaches C E sig_size T P config s0 st s \<Longrightarrow> st \<noteq> S_ApplicationData \<Longrightarrow>
    process_blocking C E sig_size T P config st s = (Ok st', s') \<Longrightarrow> reaches C E sig_size T P config s0 st' s'"

inductive_cases reaches_start: "reaches C E sig_size T P config s0 S_ClientHello s"

lemma open_loop_reaches:
  assumes "open_loop C E sig_size T P config st s = Some (Ok (), s')" and "reaches C E sig_size T P config s0 st s"
  shows "reaches C E sig_size T P config s0 S_ApplicationData s'"
proof -
  have "fst y = Ok () \<longrightarrow> reaches C E sig_size T P config s0 st s \<longrightarrow> reaches C E sig_size T P config s0 S_ApplicationData (snd y)"
    if "open_loop C E sig_size T P config st s = Some y" for y
  proof (rule open_loop.raw_induct [where Pa = "\<lambda>(((((((C, E), sig_size), T), P), config), st), s) y.
      fst y = Ok () \<longrightarrow> reaches C E sig_size T P config s0 st s \<longrightarrow> reaches C E sig_size T P config s0 S_ApplicationData (snd y)",
      unfolded prod.case, OF _ that])
    fix f C E sig_size T P config st and s :: "('a, 'b) client" and y
    assume ih: "\<And>C E sig_size T P config st s y. f C E sig_size T P config st s = Some y \<Longrightarrow> fst y = Ok () \<longrightarrow>
        reaches C E sig_size T P config s0 st s \<longrightarrow> reaches C E sig_size T P config s0 S_ApplicationData (snd y)"
      and run: "(if st = S_ApplicationData then Some (Ok (), s)
        else case process_blocking C E sig_size T P config st s of
          (Ok st', s') \<Rightarrow> f C E sig_size T P config st' s'
        | (Err e, s') \<Rightarrow> Some (Err e, s')
        | (Panic, s') \<Rightarrow> Some (Panic, s')) = Some y"
    show "fst y = Ok () \<longrightarrow> reaches C E sig_size T P config s0 st s \<longrightarrow> reaches C E sig_size T P config s0 S_ApplicationData (snd y)"
      using run ih reaches.step [of C E sig_size T P config s0 st s]
      by (cases "process_blocking C E sig_size T P config st s") (auto split: if_splits result.splits)
  qed
  with assms show ?thesis by fastforce
qed

section \<open>The invariant\<close>

text \<open>The keys in each state up to the server's Finished.\<close>

fun handshake_inv :: "cipher_suite_params \<Rightarrow> tls_config \<Rightarrow> conn_state \<Rightarrow> ('t, 'p) client \<Rightarrow> bool" where
  "handshake_inv C config S_ClientHello s \<longleftrightarrow> sh_secret (shared (cl_ks s)) = zero_hash C"
| "handshake_inv C config S_ServerHello s \<longleftrightarrow> shared (cl_ks s) = shared_after C (rfc_early_secret C (hello_psk C config))"
| "handshake_inv C config S_ServerVerify s \<longleftrightarrow> (\<exists>ikm t n. server_traffic (cl_ks s) =
     (rfc_traffic_keys C (rfc_handshake_traffic C (hello_psk C config) ikm ''s hs traffic'' t))\<lparr>counter := n\<rparr>)"
| "handshake_inv C config _ s \<longleftrightarrow> True"

lemma keeps_on_keys: "keeps shared m \<Longrightarrow> keeps (\<lambda>s. shared (cl_ks s)) (on_keys m)"
  by (simp add: keeps_def on_keys_def on_part_apply)

lemma keeps_send_record: "keeps (\<lambda>s. shared (cl_ks s)) (send_record C E rec)"
  unfolding send_record_def by (intro keeps_rules) (auto simp: replace_transcript_hash_def)

lemma keeps_respond: "keeps (\<lambda>s. shared (cl_ks s)) (respond_blocking T tx)"
  unfolding respond_blocking_def on_transport_def
  by (intro keeps_rules keeps_on_keys) (simp_all add: on_client_def keeps_on_part)

lemma keeps_modify: "(\<And>s. f (g s) = f s) \<Longrightarrow> keeps f (modify g)"
  by (simp add: keeps_def)

lemma keepsD: "keeps f m \<Longrightarrow> m s = (r, s') \<Longrightarrow> f s' = f s"
  by (auto simp: keeps_def dest: spec [of _ s])

lemma client_hello_step_inv:
  assumes "hash_laws C" and "process_blocking C E sig_size T P config S_ClientHello s = (Ok st', s')"
    and "handshake_inv C config S_ClientHello s"
  shows "st' = S_ServerHello \<and> handshake_inv C config S_ServerHello s'"
proof -
  let ?sh = "\<lambda>s. shared (cl_ks s)"
  let ?s1 = "s\<lparr>cl_ks := early_ks C (hello_psk C config) (cl_ks s)\<rparr>"
  obtain st tx s2 where h: "client_hello C E P config s = (Ok (st, tx), s2)" "next_do (respond_blocking T tx) (return st) s2 = (Ok st', s')"
    using assms(2) by (auto simp: process_blocking_def elim!: bind_OkE)
  have early: "on_keys (initialize_early_secret C (map_option fst (cfg_psk config))) s = (Ok (), ?s1)"
    by (simp add: on_keys_def on_part_apply early_secret_any [OF assms(1)])
  let ?rest = "bind (on_provider (\<lambda>p. case cp_random P p of (bs, p') \<Rightarrow> (Ok bs, p'))) (\<lambda>random.
     bind (on_provider (\<lambda>p. case cp_secret P p of (bs, p') \<Rightarrow> (Ok bs, p'))) (\<lambda>secret.
     bind (send_record C E (client_hello_record config random secret)) (\<lambda>slice.
     next_do (modify (\<lambda>s. s\<lparr>cl_handshake := (cl_handshake s)\<lparr>hs_secret := Some secret\<rparr>\<rparr>))
       (return (S_ServerHello, slice)))))"
  have run: "?rest ?s1 = (Ok (st, tx), s2)" using h(1) by (simp add: client_hello_def next_do_apply [of "on_keys _"] early)
  have "keeps ?sh ?rest"
    unfolding on_provider_def by (intro keeps_rules keeps_send_record keeps_modify) simp_all
  from keepsD [OF this run] have "shared (cl_ks s2) = shared (cl_ks ?s1)" .
  moreover have "keeps ?sh (next_do (respond_blocking T tx) (return st))"
    by (intro keeps_rules keeps_respond) simp_all
  from keepsD [OF this h(2)] have "shared (cl_ks s') = shared (cl_ks s2)" .
  moreover have "shared (early_ks C (hello_psk C config) (cl_ks s)) = shared_after C (rfc_early_secret C (hello_psk C config))"
    using early_ks_ready [of "cl_ks s" C "hello_psk C config"] assms(3) by (simp add: psk_ready_def)
  moreover have "st = S_ServerHello" using run by (auto simp: return_def elim!: bind_OkE next_do_OkE)
  moreover have "st' = st" using h(2) by (auto simp: return_def elim!: next_do_OkE)
  ultimately show ?thesis by simp
qed

lemma receive_record_OkD:
  assumes "receive_record C T s = (Ok rec, s1)"
  shows "record_shape C (server_state (cl_ks s1)) rec" and "server_traffic (cl_ks s1) = server_traffic (cl_ks s)"
    and "shared (cl_ks s1) = shared (cl_ks s)" and "ks_transcript (cl_ks s1) = transcript_hash (server_state (cl_ks s1))"
proof -
  obtain r rd t rk where run: "read_blocking C T (cl_reader s, cl_transport s, server_state (cl_ks s)) = (r, (rd, t, rk))"
    by (metis prod.exhaust)
  with assms have r: "r = Ok rec" and s1: "s1 = s\<lparr>cl_reader := rd, cl_transport := t, cl_ks := (cl_ks s)\<lparr>server_state := rk\<rparr>\<rparr>"
    by (auto simp: receive_record_def on_part_apply)
  from read_blocking_shape [OF run [unfolded r]] s1
  show "record_shape C (server_state (cl_ks s1)) rec" "server_traffic (cl_ks s1) = server_traffic (cl_ks s)"
    "shared (cl_ks s1) = shared (cl_ks s)" "ks_transcript (cl_ks s1) = transcript_hash (server_state (cl_ks s1))"
    by (simp_all add: ks_transcript_def)
qed

lemma server_hello_step_inv:
  assumes "crypto_laws C" and "process_blocking C E sig_size T P config S_ServerHello s = (Ok st', s')"
    and "handshake_inv C config S_ServerHello s"
  shows "st' = S_ServerVerify \<and> handshake_inv C config S_ServerVerify s'"
proof -
  from assms(2) obtain rec s1 where r: "receive_record C T s = (Ok rec, s1)"
      "bind (attempt (process_server_hello C E rec)) (handle_processing_error_blocking C E T) s1 = (Ok st', s')"
    unfolding process_blocking_def conn_state.case by (rule bind_OkE)
  note hello = attempt_result [OF r(2)]
  note R = receive_record_OkD [OF r(1)]
  from hello obtain ikm where ks: "cl_ks s' = handshake_ks C ikm (cl_ks s1)" "st' = S_ServerVerify"
    by (auto simp: process_server_hello_def return_def on_keys_def on_part_apply handshake_secret_ks [OF assms(1)]
        split: server_record.splits server_handshake.splits elim!: bind_OkE next_do_OkE)
  have "sh_secret (shared (cl_ks s1)) = rfc_derive_secret C (rfc_early_secret C (hello_psk C config)) ''derived'' []"
    using assms(3) R(3) by (simp add: shared_after_def)
  then have "server_traffic (cl_ks s') =
      (rfc_traffic_keys C (rfc_handshake_traffic C (hello_psk C config) ikm ''s hs traffic'' (ks_transcript (cl_ks s1))))\<lparr>counter := 0\<rparr>"
    by (simp add: ks(1) handshake_ks_def Let_def rfc_handshake_traffic_def rfc_handshake_secret_def rfc_traffic_keys_def)
  with ks(2) show ?thesis by auto
qed

lemma server_verify_step_inv:
  assumes laws: "crypto_laws C" and "process_blocking C E sig_size T P config S_ServerVerify s = (Ok st', s')"
    and inv: "handshake_inv C config S_ServerVerify s"
  obtains rec s1 where "receive_record C T s = (Ok rec, s1)" and "handshake_inv C config S_ServerVerify s1"
    and "st' = S_ServerVerify \<and> handshake_inv C config S_ServerVerify s' \<or>
      st' \<in> {S_ClientCert, S_ClientFinished} \<and> proves_server C (server_state (cl_ks s1)) rec"
proof -
  from assms(2) obtain rec s1 where r: "receive_record C T s = (Ok rec, s1)"
      "bind (attempt (process_server_verify C P rec)) (handle_processing_error_blocking C E T) s1 = (Ok st', s')"
    unfolding process_blocking_def conn_state.case by (rule bind_OkE)
  note verify = attempt_result [OF r(2)]
  note R = receive_record_OkD [OF r(1)]
  let ?rk = "server_state (cl_ks s1)"
  have inv1: "handshake_inv C config S_ServerVerify s1" using inv R(2) by simp
  then obtain ikm t n where st: "r_state ?rk =
      (rfc_traffic_keys C (rfc_handshake_traffic C (hello_psk C config) ikm ''s hs traffic'' t))\<lparr>counter := n\<rparr>" by auto
  have iv: "length (iv (r_state ?rk)) = 12" using usable_rfc_keys [OF laws] by (simp add: st usable_def)
  obtain r' rk' st2 hs p mem where d: "decrypt_record C (verify_handler C P) rec
      ((?rk, S_ServerVerify, cl_handshake s1, cl_provider s1), rr_buf (cl_reader s1)) = (r', ((rk', st2, hs, p), mem))"
    by (metis prod.exhaust)
  obtain u where r': "r' = Ok u" using verify d by (cases r') (simp_all add: process_server_verify_def)
  have s': "st' = st2" "server_traffic (cl_ks s') = r_state rk'"
    using verify d r' by (auto simp: process_server_verify_def)
  have "traffic_secret (r_state ?rk) = Initialized (rfc_handshake_traffic C (hello_psk C config) ikm ''s hs traffic'' t)"
    by (simp add: st rfc_traffic_keys_def)
  note V = decrypt_record_verify_OkD [OF laws iv this R(1) d [unfolded r']]
  obtain m where "r_state rk' = (r_state ?rk)\<lparr>counter := m\<rparr>" using V by blast
  then have "handshake_inv C config S_ServerVerify s'" by (auto simp: s'(2) st)
  with V s'(1) show thesis by (intro that [OF r(1) inv1]) auto
qed

lemma late_step_inv:
  assumes "process_blocking C E sig_size T P config st s = (Ok st', s')"
    and "st \<in> {S_ClientCert, S_ClientCertVerify, S_ClientFinished, S_ApplicationData}"
  shows "st' \<in> {S_ClientCertVerify, S_ClientFinished, S_ApplicationData}"
  using assms
  by (auto simp: process_blocking_def client_cert_def client_cert_verify_def client_finished_finalize_def return_def Let_def
      elim!: bind_OkE next_do_OkE split: option.splits result.splits prod.splits if_splits)

lemma reaches_accepts:
  assumes "crypto_laws C" and "sh_secret (shared (cl_ks s0)) = zero_hash C" and "reaches C E sig_size T P config s0 st s"
  shows "handshake_inv C config st s \<and> (st \<in> {S_ClientHello, S_ServerHello, S_ServerVerify} \<or>
     st \<in> {S_ClientCert, S_ClientCertVerify, S_ClientFinished, S_ApplicationData} \<and>
     (\<exists>s1 rec s2. reaches C E sig_size T P config s0 S_ServerVerify s1 \<and> receive_record C T s1 = (Ok rec, s2) \<and>
        handshake_inv C config S_ServerVerify s2 \<and> proves_server C (server_state (cl_ks s2)) rec))"
  using assms(3)
proof (induction rule: reaches.induct)
  case start
  then show ?case using assms(2) by simp
next
  case (step st s st' s')
  consider "st = S_ClientHello" | "st = S_ServerHello" | "st = S_ServerVerify"
    | "st \<in> {S_ClientCert, S_ClientCertVerify, S_ClientFinished, S_ApplicationData}" by (cases st) auto
  then show ?case
  proof cases
    case 1
    with client_hello_step_inv [OF crypto_lawsD(1) [OF assms(1)]] step show ?thesis by blast
  next
    case 2
    with server_hello_step_inv [OF assms(1)] step show ?thesis by blast
  next
    case 3
    then have "handshake_inv C config S_ServerVerify s" using step.IH by simp
    with step.hyps(3) obtain rec s1 where v: "receive_record C T s = (Ok rec, s1)" "handshake_inv C config S_ServerVerify s1"
        "st' = S_ServerVerify \<and> handshake_inv C config S_ServerVerify s' \<or>
         st' \<in> {S_ClientCert, S_ClientFinished} \<and> proves_server C (server_state (cl_ks s1)) rec"
      unfolding 3 by (rule server_verify_step_inv [OF assms(1)])
    from v(3) show ?thesis
    proof
      assume "st' \<in> {S_ClientCert, S_ClientFinished} \<and> proves_server C (server_state (cl_ks s1)) rec"
      moreover from this have "handshake_inv C config st' s'" by auto
      ultimately show ?thesis using v(1,2) step.hyps(1) unfolding 3 by blast
    qed simp
  next
    case 4
    note late = late_step_inv [OF step.hyps(3) 4]
    then have "handshake_inv C config st' s'" by auto
    with late 4 step.IH show ?thesis by blast
  qed
qed

text \<open>
  C3: what \<open>open\<close> returning \<open>Ok\<close> means.  Whatever the transport delivers and whatever the provider does, a
  client with a fresh key schedule that reports an open connection has, in a state it reached by the
  steps of the handshake, received a record that contains the Finished message of the transcript so far
  under a secret, and that secret is the server's handshake traffic secret of RFC 8446 for the client's
  PSK and some shared secret of the key exchange.
\<close>

theorem open_only_after_server_finished:
  fixes c :: "'t tls_connection"
  assumes "crypto_laws C" and "sh_secret (shared (tc_ks c)) = zero_hash C"
    and "open_connection C E sig_size T P config provider c = Some (Ok (), c')"
  shows "\<exists>p s1 rec s2 ikm t n. reaches C E sig_size T P config (client_of c p) S_ServerVerify s1 \<and>
     receive_record C T s1 = (Ok rec, s2) \<and> proves_server C (server_state (cl_ks s2)) rec \<and>
     server_traffic (cl_ks s2) =
       (rfc_traffic_keys C (rfc_handshake_traffic C (hello_psk C config) ikm ''s hs traffic'' t))\<lparr>counter := n\<rparr>"
proof -
  obtain r0 p where h: "set_hostname P config provider = (r0, p)" by fastforce
  then have m: "map_option (\<lambda>(r, s). case r of Ok _ \<Rightarrow> (Ok (), (put_client s c)\<lparr>tc_opened := True\<rparr>)
      | Err e \<Rightarrow> (Err e, put_client s c) | Panic \<Rightarrow> (Panic, put_client s c))
      (open_loop C E sig_size T P config S_ClientHello (client_of c p)) = Some (Ok (), c')"
    using assms(3) by (cases r0) (simp_all add: open_connection_def)
  then obtain r s' where "open_loop C E sig_size T P config S_ClientHello (client_of c p) = Some (r, s')" by auto
  with m have run: "open_loop C E sig_size T P config S_ClientHello (client_of c p) = Some (Ok (), s')" by (cases r) simp_all
  let ?s0 = "client_of c p"
  have "reaches C E sig_size T P config ?s0 S_ApplicationData s'" by (rule open_loop_reaches [OF run reaches.start])
  moreover have "sh_secret (shared (cl_ks ?s0)) = zero_hash C" using assms(2) by (simp add: client_of_def)
  ultimately obtain s1 rec s2 where
    "reaches C E sig_size T P config ?s0 S_ServerVerify s1" "receive_record C T s1 = (Ok rec, s2)"
    "handshake_inv C config S_ServerVerify s2" "proves_server C (server_state (cl_ks s2)) rec"
    using reaches_accepts [OF assms(1), of ?s0] by blast
  then show ?thesis by fastforce
qed

theorem open_only_after_server_finished_witness:
  "\<exists>c' p s1 rec s2. open_connection toy_suite toy_p256 64 (duplex_transport 6) toy_provider demo_client_config () demo_new =
       Some (Ok (), c') \<and>
     reaches toy_suite toy_p256 64 (duplex_transport 6) toy_provider demo_client_config (client_of demo_new p) S_ServerVerify s1 \<and>
     receive_record toy_suite (duplex_transport 6) s1 = (Ok rec, s2) \<and> proves_server toy_suite (server_state (cl_ks s2)) rec"
proof -
  obtain c' where c': "open_connection toy_suite toy_p256 64 (duplex_transport 6) toy_provider demo_client_config () demo_new = Some (Ok (), c')"
    using open_demo_connection [where sig = 64] by blast
  have "sh_secret (shared (tc_ks demo_new)) = zero_hash toy_suite" by (simp add: demo_new_def)
  from open_only_after_server_finished [OF toy_suite_laws this c'] c' show ?thesis by blast
qed

section \<open>Termination\<close>

text \<open>
  A transport with a finite supply of input: a read never adds to what is left, and one that yields
  bytes takes from it.
\<close>

definition finite_input :: "'t transport \<Rightarrow> ('t \<Rightarrow> nat) \<Rightarrow> bool" where
  "finite_input T left \<longleftrightarrow> (\<forall>n t r t'. t_read T n t = (r, t') \<longrightarrow>
     left t' \<le> left t \<and> (\<forall>d. r = Ok d \<longrightarrow> d \<noteq> [] \<longrightarrow> left t' < left t))"

lemma reads_respect_left: "finite_input T left \<Longrightarrow> reads_respect T (\<lambda>t t'. left t' \<le> left t)"
  by (auto simp: finite_input_def reads_respect_def reflp_def transp_def)

lemma header_loop_takes:
  assumes fin: "finite_input T left" and run: "header_loop T 0 buf t = (Ok h, t')"
  shows "left t' < left t"
proof -
  obtain q u where rd: "t_read T (5 - 0) t = (q, u)" by (metis surj_pair)
  obtain d where d: "q = Ok d" "d \<noteq> []"
    using run rd by (cases q) (auto simp: header_loop.simps [of T 0] split: if_splits)
  have "header_loop T (0 + length d) (overwrite 0 (take (5 - 0) d) buf) u = (Ok h, t')"
    using run rd d by (simp add: header_loop.simps [of T 0])
  then have "left t' \<le> left u" by (rule header_loop_respects [OF reads_respect_left [OF fin]])
  also have "left u < left t" using fin rd d unfolding finite_input_def by blast
  finally show ?thesis .
qed

lemma read_blocking_takes:
  assumes fin: "finite_input T left" and run: "read_blocking C T (rd, t, rk) = (Ok rec, (rd', t', rk'))"
  shows "left t' < left t"
proof -
  obtain r1 t1 where h: "header_loop T 0 (replicate 5 0) t = (r1, t1)" by fastforce
  obtain header where r1: "r1 = Ok header"
    using run h by (cases r1) (simp_all add: read_blocking_def next_record_header_blocking_def bind_apply on_part_apply)
  obtain r2 rd2 t2 where a: "advance_blocking T (content_length header) (rd, t1) = (r2, (rd2, t2))" by (metis prod.exhaust)
  have "left t2 \<le> left t1"
  proof -
    obtain q3 s3 where e: "ensure_contiguous (content_length header) rd = (q3, s3)" by (metis surj_pair)
    obtain q4 rd4 t4 where 4: "advance_loop T (content_length header) (content_length header) (s3, t1) = (q4, (rd4, t4))"
      by (metis surj_pair)
    from advance_loop_respects [OF reads_respect_left [OF fin] 4] a e 4 show ?thesis
      by (cases q3) (auto simp: advance_blocking_def next_do_apply on_part_apply)
  qed
  moreover have "t' = t2"
    using run h r1 a by (auto simp: read_blocking_def next_record_header_blocking_def bind_apply next_do_apply on_part_apply
        record_header_decode_def split: result.splits option.splits prod.splits)
  moreover have "left t1 < left t" using header_loop_takes [OF fin] h r1 by blast
  ultimately show ?thesis by simp
qed

lemma read_application_data_takes:
  assumes "finite_input T left" and "read_application_data C T c = (Ok u, c')"
  shows "left (tc_delegate c') < left (tc_delegate c)"
proof -
  from assms(2) obtain rec c1 where 1: "on_part (\<lambda>c. (tc_reader c, tc_delegate c, server_state (tc_ks c)))
        (\<lambda>(rd, t, rk) c. c\<lparr>tc_reader := rd, tc_delegate := t, tc_ks := (tc_ks c)\<lparr>server_state := rk\<rparr>\<rparr>)
        (read_blocking C T) c = (Ok rec, c1)"
      "on_part (\<lambda>c. ((server_state (tc_ks c), tc_decrypted c, tc_opened c), rr_buf (tc_reader c)))
       (\<lambda>((rk, info, is_open), mem) c. c\<lparr>tc_ks := (tc_ks c)\<lparr>server_state := rk\<rparr>, tc_decrypted := info,
          tc_opened := is_open, tc_reader := (tc_reader c)\<lparr>rr_buf := mem\<rparr>\<rparr>)
       (\<lambda>s. decrypt_record C (read_handler (length (snd s))) rec s) c1 = (Ok u, c')"
    unfolding read_application_data_def by (rule bind_OkE)
  obtain r rd t rk where rb: "read_blocking C T (tc_reader c, tc_delegate c, server_state (tc_ks c)) = (r, (rd, t, rk))"
    by (metis prod.exhaust)
  with 1(1) have "r = Ok rec" "tc_delegate c1 = t" by (auto simp: on_part_apply)
  with read_blocking_takes [OF assms(1)] rb have "left (tc_delegate c1) < left (tc_delegate c)" by blast
  moreover have "tc_delegate c' = tc_delegate c1" using 1(2) by (auto simp: on_part_apply split: prod.splits)
  ultimately show ?thesis by simp
qed

lemma fill_loop_returns:
  assumes "finite_input T left"
  shows "\<exists>y. fill_loop C T c = Some y"
proof (induction "left (tc_delegate c)" arbitrary: c rule: less_induct)
  case less
  show ?case
  proof (cases "\<exists>u c'. info_is_empty (tc_decrypted c) = Ok True \<and> read_application_data C T c = (Ok u, c')")
    case True
    then obtain u c' where "info_is_empty (tc_decrypted c) = Ok True" "read_application_data C T c = (Ok u, c')" by blast
    with less [OF read_application_data_takes [OF assms this(2)]] show ?thesis by (simp add: fill_loop_read)
  next
    case False
    then show ?thesis
      by (subst fill_loop.simps) (auto split: result.splits prod.splits)
  qed
qed

text \<open>The states in the order in which the handshake passes through them.\<close>

fun rank :: "conn_state \<Rightarrow> nat" where
  "rank S_ClientHello = 0" | "rank S_ServerHello = 1" | "rank S_ServerVerify = 2" | "rank S_ClientCert = 3"
| "rank S_ClientCertVerify = 4" | "rank S_ClientFinished = 5" | "rank S_ApplicationData = 6"

lemma verify_handler_states:
  "fst c \<in> {S_ServerVerify, S_ClientCert, S_ClientFinished} \<Longrightarrow>
   fst (snd (snd (verify_handler C P rec (rk, c)))) \<in> {S_ServerVerify, S_ClientCert, S_ClientFinished}"
proof (cases c)
  case (fields st hs p)
  assume "fst c \<in> {S_ServerVerify, S_ClientCert, S_ClientFinished}"
  then show ?thesis unfolding fields
    by (cases rec; (cases "\<exists>m. rec = SR_Handshake m")?)
      (auto simp: verify_handler_def bind_apply return_def with_verifier_def on_part_apply split: server_handshake.split result.split)
qed

lemma server_verify_rank:
  assumes "process_server_verify C P rec s = (Ok st', s')"
  shows "st' \<in> {S_ServerVerify, S_ClientCert, S_ClientFinished}" and "cl_transport s' = cl_transport s"
proof -
  let ?Q = "\<lambda>c. fst c \<in> {S_ServerVerify, S_ClientCert, S_ClientFinished}"
  have "?Q (snd (fst (snd (decrypt_record C (verify_handler C P) rec
      ((server_state (cl_ks s), S_ServerVerify, cl_handshake s, cl_provider s), rr_buf (cl_reader s))))))"
    using verify_handler_states by (intro decrypt_record_callback [of ?Q "verify_handler C P"]) simp_all
  then show "st' \<in> {S_ServerVerify, S_ClientCert, S_ClientFinished}" "cl_transport s' = cl_transport s"
    using assms by (auto simp: process_server_verify_def split: result.splits prod.splits)
qed

lemma process_blocking_rank:
  assumes fin: "finite_input T left" and run: "process_blocking C E sig_size T P config st s = (Ok st', s')" and "st \<noteq> S_ApplicationData"
  shows "rank st < rank st' \<or> rank st' = rank st \<and> left (cl_transport s') < left (cl_transport s)"
proof (cases "st = S_ServerVerify")
  case True
  from run obtain rec s1 where r: "receive_record C T s = (Ok rec, s1)"
      "bind (attempt (process_server_verify C P rec)) (handle_processing_error_blocking C E T) s1 = (Ok st', s')"
    unfolding True process_blocking_def conn_state.case by (rule bind_OkE)
  note v = server_verify_rank [OF attempt_result [OF r(2)]]
  obtain q rd t rk where "read_blocking C T (cl_reader s, cl_transport s, server_state (cl_ks s)) = (q, (rd, t, rk))"
    by (metis prod.exhaust)
  with r(1) read_blocking_takes [OF fin, of C "cl_reader s" "cl_transport s" "server_state (cl_ks s)"]
  have "left (cl_transport s1) < left (cl_transport s)" by (auto simp: receive_record_def on_part_apply)
  with v True show ?thesis by auto
next
  case False
  show ?thesis
  proof (cases "st \<in> {S_ClientHello, S_ServerHello}")
    case True
    have "st' = (if st = S_ClientHello then S_ServerHello else S_ServerVerify)"
      using run True by (auto simp: process_blocking_def client_hello_def process_server_hello_def return_def
          split: server_record.splits server_handshake.splits elim!: bind_OkE next_do_OkE dest!: attempt_result)
    with True show ?thesis by auto
  next
    case late: False
    show ?thesis
    proof (cases st)
      case S_ClientCert
      from late_step_inv [OF run] show ?thesis by (auto simp: S_ClientCert)
    next
      case S_ClientCertVerify
      have "st' = S_ClientFinished"
        using run by (auto simp: S_ClientCertVerify process_blocking_def client_cert_verify_def return_def Let_def
            elim!: bind_OkE next_do_OkE split: result.splits prod.splits if_splits)
      then show ?thesis by (simp add: S_ClientCertVerify)
    next
      case S_ClientFinished
      have "st' = S_ApplicationData"
        using run by (auto simp: S_ClientFinished process_blocking_def client_finished_finalize_def return_def
            elim!: bind_OkE next_do_OkE)
      then show ?thesis by (simp add: S_ClientFinished)
    qed (use late False assms(3) in simp_all)
  qed
qed

lemma open_loop_returns:
  assumes fin: "finite_input T left"
  shows "\<exists>y. open_loop C E sig_size T P config st s = Some y"
proof (induction "(st, s)" arbitrary: st s
    rule: wf_induct_rule [OF wf_measures [of "[\<lambda>(st, s). 6 - rank st, \<lambda>(st, s). left (cl_transport s)]"]])
  case less: (1 st s)
  show ?case
  proof (cases "st = S_ApplicationData")
    case False
    obtain r s' where run: "process_blocking C E sig_size T P config st s = (r, s')" by fastforce
    show ?thesis
    proof (cases r)
      case (Ok st')
      have "rank st' \<le> 6" by (cases st') simp_all
      with process_blocking_rank [OF fin run [unfolded Ok] False]
      have "\<exists>y. open_loop C E sig_size T P config st' s' = Some y" by (intro less) auto
      then show ?thesis using False run Ok by (subst open_loop.simps) simp
    qed (use False run in \<open>subst open_loop.simps, simp\<close>)+
  qed (subst open_loop.simps, simp)
qed

text \<open>
  C21: the blocking calls that loop over the peer's records return.  On a transport whose input is finite,
  \<open>open\<close> returns (with success, an error or a panic) from every state of a connection and for every
  configuration and provider, and so does every read: each turn of either loop that does not end it takes
  bytes from the transport or moves the handshake to a later state.
\<close>

theorem blocking_calls_return:
  assumes "finite_input T left"
  shows "(\<exists>r c'. open_connection C E sig_size T P config provider c = Some (r, c')) \<and>
     (\<exists>r c'. conn_read C T buf c = Some (r, c')) \<and> (\<exists>r c'. fill_buf C T c = Some (r, c'))"
proof (intro conjI)
  show "\<exists>r c'. open_connection C E sig_size T P config provider c = Some (r, c')"
  proof (cases "set_hostname P config provider")
    case (Pair r p)
    then show ?thesis
      using open_loop_returns [OF assms, of C E sig_size P config S_ClientHello "client_of c p"]
      by (cases r) (auto simp: open_connection_def)
  qed
  show "\<exists>r c'. conn_read C T buf c = Some (r, c')" "\<exists>r c'. fill_buf C T c = Some (r, c')"
    using fill_loop_returns [OF assms, of C c] by (auto simp: conn_read_def fill_buf_def read_buffered_def)
qed

theorem blocking_calls_return_witness:
  "\<exists>r c'. open_connection toy_suite toy_p256 64 (duplex_transport 6) toy_provider demo_client_config ()
     (demo_conn ([22, 3, 3, 0, 1, 0], [])) = Some (r, c')"
proof -
  have "finite_input (duplex_transport 6) (\<lambda>t. length (fst t))"
    by (auto simp: finite_input_def duplex_transport_def)
  then show ?thesis by (rule blocking_calls_return [THEN conjunct1])
qed

end
