(* ===== verification/Hostname.thy ===== *)
theory Hostname
  imports Prelude
begin

text \<open>
  Matching a host name against the names of a certificate: \<open>tls_hostname_match\<close> and
  \<open>tls_hostname_match_impl\<close> of src/pki.rs.  The routine works on bytes and indices; the specification is
  about labels, the parts between the dots.
\<close>

section \<open>The routine\<close>

definition ascii_alnum :: "byte \<Rightarrow> bool" where
  "ascii_alnum b \<longleftrightarrow> 97 \<le> b \<and> b \<le> 122 \<or> 65 \<le> b \<and> b \<le> 90 \<or> 48 \<le> b \<and> b \<le> 57"

definition to_ascii_lowercase :: "byte \<Rightarrow> byte" where
  "to_ascii_lowercase b = (if 65 \<le> b \<and> b \<le> 90 then b + 32 else b)"

text \<open>The two counting loops; a character that may not occur ends the call.\<close>

fun scan_cn :: "bytes \<Rightarrow> nat \<Rightarrow> nat \<Rightarrow> (nat \<times> nat) option" where
  "scan_cn [] cn_labels stars = Some (cn_labels, stars)"
| "scan_cn (b # bs) cn_labels stars =
     (if ascii_alnum b \<or> b = 45 \<or> b = 46 \<or> b = 42
      then scan_cn bs (if b = 46 then cn_labels + 1 else cn_labels) (if b = 42 then stars + 1 else stars)
      else None)"

fun scan_host :: "bytes \<Rightarrow> nat \<Rightarrow> nat option" where
  "scan_host [] host_labels = Some host_labels"
| "scan_host (b # bs) host_labels =
     (if ascii_alnum b \<or> b = 45 \<or> b = 46
      then scan_host bs (if b = 46 then host_labels + 1 else host_labels)
      else None)"

text \<open>The comparison of equally long slices, byte by byte.\<close>

fun eq_ignore_case :: "bytes \<Rightarrow> bytes \<Rightarrow> bool" where
  "eq_ignore_case (a # as) (b # bs) = (if to_ascii_lowercase a \<noteq> to_ascii_lowercase b then False else eq_ignore_case as bs)"
| "eq_ignore_case _ _ = True"

definition tls_hostname_match_impl :: "bytes \<Rightarrow> bytes \<Rightarrow> bool" where
  "tls_hostname_match_impl cn host =
     (case scan_cn cn 1 0 of
        None \<Rightarrow> False
      | Some (cn_labels, stars) \<Rightarrow>
          (case scan_host host 1 of
             None \<Rightarrow> False
           | Some host_labels \<Rightarrow>
               if stars = 0
               then (if length cn \<noteq> length host then False else eq_ignore_case cn host)
               else if stars \<noteq> 1 then False
               else if take 2 cn \<noteq> [42, 46] then False
               else if cn_labels < 3 then False
               else if cn_labels \<noteq> host_labels then False
               else (case position (\<lambda>b. b = 46) host of
                  None \<Rightarrow> False
                | Some dot_idx \<Rightarrow>
                    (let suffix = drop 2 cn; host_suffix = drop (dot_idx + 1) host in
                     if length suffix \<noteq> length host_suffix then False
                     else eq_ignore_case suffix host_suffix))))"

record certificate_names =
  common_name :: "bytes option"
  san_dns_names :: "bytes list"

definition tls_hostname_match :: "certificate_names \<Rightarrow> bytes option \<Rightarrow> bool" where
  "tls_hostname_match names hostname =
     (case hostname of
        None \<Rightarrow> common_name names = None \<and> san_dns_names names = []
      | Some h \<Rightarrow>
          if list_ex (\<lambda>san. tls_hostname_match_impl san h) (san_dns_names names) then True
          else (case common_name names of Some cn \<Rightarrow> tls_hostname_match_impl cn h | None \<Rightarrow> False))"

section \<open>Labels\<close>

text \<open>The parts of a name between its dots.\<close>

fun labels :: "bytes \<Rightarrow> bytes list" where
  "labels [] = [[]]"
| "labels (b # bs) = (if b = 46 then [] # labels bs else (b # hd (labels bs)) # tl (labels bs))"

definition fold_case :: "bytes \<Rightarrow> bytes" where
  "fold_case = map to_ascii_lowercase"

definition dns_char :: "byte \<Rightarrow> bool" where
  "dns_char b \<longleftrightarrow> ascii_alnum b \<or> b = 45 \<or> b = 46"

text \<open>
  What it means to match: both are names over the permitted characters and either they are the same up
  to case, or the certificate's name is a star, alone as the first of at least three labels, and the
  other labels are those of the host up to case.
\<close>

definition name_matches :: "bytes \<Rightarrow> bytes \<Rightarrow> bool" where
  "name_matches cn host \<longleftrightarrow> list_all dns_char host \<and>
     (list_all dns_char cn \<and> fold_case cn = fold_case host \<or>
      (\<exists>rest. cn = 42 # 46 # rest \<and> list_all dns_char rest \<and> 2 \<le> length (labels rest) \<and>
         tl (labels (fold_case host)) = labels (fold_case rest)))"

section \<open>The routine meets the specification\<close>

lemma lowercase_dot [simp]: "to_ascii_lowercase b = 46 \<longleftrightarrow> b = 46"
proof -
  have "b + 32 = 46 \<longleftrightarrow> b = 14" by (simp add: eq_diff_eq [symmetric])
  then show ?thesis by (auto simp: to_ascii_lowercase_def)
qed

lemma scan_cn_run:
  "scan_cn cn l s = (if list_all (\<lambda>b. dns_char b \<or> b = 42) cn then Some (l + count_list cn 46, s + count_list cn 42) else None)"
  by (induction cn arbitrary: l s) (auto simp: dns_char_def)

lemma scan_host_run:
  "scan_host host l = (if list_all dns_char host then Some (l + count_list host 46) else None)"
  by (induction host arbitrary: l) (auto simp: dns_char_def)

lemma eq_ignore_case_run: "length as = length bs \<Longrightarrow> eq_ignore_case as bs \<longleftrightarrow> fold_case as = fold_case bs"
  by (induction as bs rule: eq_ignore_case.induct) (auto simp: fold_case_def)

lemma length_fold_case [simp]: "length (fold_case bs) = length bs"
  by (simp add: fold_case_def)

lemma labels_neq_Nil [simp]: "labels bs \<noteq> []" "[] \<noteq> labels bs"
  by (induction bs) auto

lemma length_labels: "length (labels bs) = Suc (count_list bs 46)"
  by (induction bs) auto

lemma labels_fold_case: "length (labels (fold_case bs)) = length (labels bs)"
  by (induction bs) (auto simp: fold_case_def)

text \<open>Joining the labels gives back the name, so that names with the same labels are equal.\<close>

fun join :: "bytes list \<Rightarrow> bytes" where
  "join [] = []"
| "join [x] = x"
| "join (x # y # zs) = x @ 46 # join (y # zs)"

lemma join_Cons: "ys \<noteq> [] \<Longrightarrow> join (x # ys) = x @ 46 # join ys"
  by (cases ys) simp_all

lemma join_head: "ys \<noteq> [] \<Longrightarrow> join ((b # hd ys) # tl ys) = b # join ys"
  by (cases ys; cases "tl ys") simp_all

lemma join_labels: "join (labels bs) = bs"
  by (induction bs) (auto simp: join_Cons join_head)

lemma labels_inject: "labels xs = labels ys \<longleftrightarrow> xs = ys"
  by (metis join_labels)

text \<open>The first dot separates the first label from the rest.\<close>

lemma position_None: "position P xs = None \<longleftrightarrow> list_all (\<lambda>x. \<not> P x) xs"
  by (induction xs) auto

lemma labels_at_dot:
  "position (\<lambda>b. b = 46) bs = Some i \<Longrightarrow> tl (labels bs) = labels (drop (Suc i) bs)"
  by (induction bs arbitrary: i) (auto split: if_splits)

lemma labels_no_dot: "position (\<lambda>b. b = 46) bs = None \<Longrightarrow> tl (labels bs) = []"
  by (induction bs) (auto split: if_splits)

lemma position_fold_case: "position (\<lambda>b. b = 46) (fold_case bs) = position (\<lambda>b. b = 46) bs"
  by (induction bs) (auto simp: fold_case_def)

lemma tl_labels_fold_case:
  assumes "position (\<lambda>b. b = 46) host = Some i"
  shows "tl (labels (fold_case host)) = labels (fold_case rest) \<longleftrightarrow> fold_case (drop (Suc i) host) = fold_case rest"
  using labels_at_dot [of "fold_case host" i] assms
  by (simp add: position_fold_case labels_inject) (simp add: fold_case_def drop_map)

lemma dns_char_no_star: "dns_char b \<Longrightarrow> b \<noteq> 42"
  by (auto simp: dns_char_def ascii_alnum_def)

lemma no_star_dns: "count_list cn 42 = 0 \<Longrightarrow> list_all (\<lambda>b. dns_char b \<or> b = 42) cn \<longleftrightarrow> list_all dns_char cn"
  by (induction cn) (auto split: if_splits)

lemma dns_no_star: "list_all dns_char cn \<Longrightarrow> count_list cn 42 = 0"
  by (induction cn) (auto dest: dns_char_no_star)

lemma star_count: "count_list (42 # 46 # rest :: bytes) 42 = Suc (count_list rest 42)"
  by simp

lemma match_exact:
  assumes "list_all dns_char cn" and "list_all dns_char host"
  shows "tls_hostname_match_impl cn host \<longleftrightarrow> fold_case cn = fold_case host"
proof -
  have "list_all (\<lambda>b. dns_char b \<or> b = 42) cn" using assms(1) by (auto simp: list_all_iff)
  then have "tls_hostname_match_impl cn host \<longleftrightarrow> length cn = length host \<and> eq_ignore_case cn host"
    using assms(2) dns_no_star [OF assms(1)] by (simp add: tls_hostname_match_impl_def scan_cn_run scan_host_run)
  also have "\<dots> \<longleftrightarrow> fold_case cn = fold_case host"
    using eq_ignore_case_run by (metis length_fold_case)
  finally show ?thesis .
qed

lemma match_wildcard:
  assumes "list_all dns_char rest" and "list_all dns_char host"
  shows "tls_hostname_match_impl (42 # 46 # rest) host \<longleftrightarrow>
     2 \<le> length (labels rest) \<and> tl (labels (fold_case host)) = labels (fold_case rest)"
proof -
  have "list_all (\<lambda>b. dns_char b \<or> b = 42) rest" using assms(1) by (auto simp: list_all_iff)
  then have unf: "tls_hostname_match_impl (42 # 46 # rest) host \<longleftrightarrow>
      2 \<le> length (labels rest) \<and> Suc (length (labels rest)) = length (labels host) \<and>
      (case position (\<lambda>b. b = 46) host of None \<Rightarrow> False
       | Some i \<Rightarrow> length rest = length (drop (Suc i) host) \<and> eq_ignore_case rest (drop (Suc i) host))"
    using assms(2) dns_no_star [OF assms(1)]
    by (auto simp: tls_hostname_match_impl_def scan_cn_run scan_host_run length_labels Let_def dns_char_def
        simp del: length_drop split: option.split)
  show ?thesis
  proof (cases "position (\<lambda>b. b = 46) host")
    case None
    then have "tl (labels (fold_case host)) = []" by (intro labels_no_dot) (simp add: position_fold_case)
    then show ?thesis using None unf by auto
  next
    case (Some i)
    let ?h = "drop (Suc i) host"
    have e: "length rest = length ?h \<and> eq_ignore_case rest ?h \<longleftrightarrow> fold_case ?h = fold_case rest"
      using eq_ignore_case_run [of rest ?h] by (metis length_fold_case)
    have c: "Suc (length (labels rest)) = length (labels host)" if "fold_case ?h = fold_case rest"
    proof -
      have "length (labels rest) = length (tl (labels host))"
        using labels_fold_case [of rest] labels_fold_case [of ?h] labels_at_dot [OF Some] that by simp
      then show ?thesis by (cases "labels host") simp_all
    qed
    show ?thesis
      unfolding unf tl_labels_fold_case [OF Some] using e c Some by auto
  qed
qed

lemma hostname_match_labels: "tls_hostname_match_impl cn host \<longleftrightarrow> name_matches cn host"
proof (cases "list_all dns_char host")
  case host: True
  consider (exact) "list_all dns_char cn"
    | (wild) rest where "cn = 42 # 46 # rest" "list_all dns_char rest"
    | (other) "\<not> list_all dns_char cn" "\<nexists>rest. cn = 42 # 46 # rest \<and> list_all dns_char rest" by blast
  then show ?thesis
  proof cases
    case exact
    then have "\<nexists>rest. cn = 42 # 46 # rest" by (auto dest: dns_char_no_star)
    with exact host match_exact show ?thesis by (auto simp: name_matches_def)
  next
    case wild
    then have "\<not> list_all dns_char cn" by (auto dest: dns_char_no_star)
    with wild host match_wildcard [OF wild(2) host] show ?thesis by (auto simp: name_matches_def)
  next
    case other
    have "\<not> tls_hostname_match_impl cn host"
    proof
      assume m: "tls_hostname_match_impl cn host"
      then have all: "list_all (\<lambda>b. dns_char b \<or> b = 42) cn" by (auto simp: tls_hostname_match_impl_def scan_cn_run split: if_splits)
      then have "count_list cn 42 \<noteq> 0" using no_star_dns other(1) by blast
      then have one: "count_list cn 42 = 1" "take 2 cn = [42, 46]"
        using m all by (auto simp: tls_hostname_match_impl_def scan_cn_run split: if_splits option.splits)
      then have cn: "cn = 42 # 46 # drop 2 cn" by (metis append_Cons append_Nil append_take_drop_id)
      then have "count_list cn 42 = Suc (count_list (drop 2 cn) 42)" using star_count by metis
      with one(1) have "count_list (drop 2 cn) 42 = 0" by simp
      moreover have "list_all (\<lambda>b. dns_char b \<or> b = 42) (drop 2 cn)" using all by (auto simp: list_all_iff dest: in_set_dropD)
      ultimately have "list_all dns_char (drop 2 cn)" using no_star_dns by blast
      with cn other(2) show False by blast
    qed
    with other show ?thesis by (auto simp: name_matches_def)
  qed
next
  case False
  then show ?thesis
    by (auto simp: name_matches_def tls_hostname_match_impl_def scan_host_run split: option.splits)
qed

text \<open>
  C22: matching a name of a certificate against a host.  The routine, which counts dots and stars and
  compares bytes at indices, decides the specification in terms of labels: equality up to case, or a
  star that stands for exactly the first label of the host and is followed by at least two labels equal
  up to case.  Characters other than letters, digits, hyphen and dot never match.
\<close>

theorem hostname_match_spec: "tls_hostname_match_impl cn host \<longleftrightarrow> name_matches cn host"
  by (rule hostname_match_labels)

text \<open>
  Which names are tried: any of the alternative names, and the common name also if there are alternative names, which
  the comment on \<open>tls_hostname_match\<close> excludes.  Without a host name only a certificate without any name passes.
\<close>

lemma hostname_match_names:
  "(tls_hostname_match names (Some host) \<longleftrightarrow>
      (\<exists>san \<in> set (san_dns_names names). name_matches san host) \<or>
      (\<exists>cn. common_name names = Some cn \<and> name_matches cn host)) \<and>
   (tls_hostname_match names None \<longleftrightarrow> names = \<lparr>common_name = None, san_dns_names = []\<rparr>)"
  by (auto simp: tls_hostname_match_def list_ex_iff hostname_match_labels split: option.split)

end
