(* ===== verification/Verifier.thy ===== *)
theory Verifier
  imports Connection
begin

text \<open>
  The interface \<open>TlsVerifier\<close> of src/config.rs: what a certificate verifier promises the client, and what
  follows for the messages \<open>process_server_verify\<close> of src/connection.rs has the verifier look at.
\<close>

section \<open>The client's side\<close>

definition owned_of :: "certificate_ref \<Rightarrow> certificate_owned" where
  "owned_of c = \<lparr>own_request_context = request_context c, own_entries_data = raw_entries c\<rparr>"

text \<open>
  The provider's state after the client has accepted some messages of the server, each given with the
  transcript it was handled with.  What the handler shares with the rest of the client, the transcript
  above all, may change in between.
\<close>

inductive handled :: "cipher_suite_params \<Rightarrow> 'p crypto_provider \<Rightarrow> 'p \<Rightarrow> (bytes \<times> server_record) list \<Rightarrow> 'p \<Rightarrow> bool"
  for C P p where
  start: "handled C P p [] p"
| message: "handled C P p recs q \<Longrightarrow> verify_handler C P rec (rk, st, hs, q) = (Ok (), (rk', st', hs', q')) \<Longrightarrow>
    handled C P p (recs @ [(transcript_hash rk, rec)]) q'"

abbreviation "is_certificate rec \<equiv> (\<exists>c. rec = SR_Handshake (ServerCertificate c))"

abbreviation "is_certificate_verify rec \<equiv> (\<exists>cv. rec = SR_Handshake (ServerCertificateVerify cv))"

text \<open>A provider with a verifier.  The clock of a call is one of \<open>verify_cert\<close>'s arguments.\<close>

definition provides ::
  "'v crypto_provider \<Rightarrow> ('k \<Rightarrow> bytes \<Rightarrow> certificate_ref \<Rightarrow> 'v \<Rightarrow> ((unit, tls_error) result \<times> 'v) option) \<Rightarrow>
   (certificate_verify \<Rightarrow> ('v, unit, tls_error) comp) \<Rightarrow> bool" where
  "provides P verify_cert verify_sig \<longleftrightarrow>
     (\<forall>v. cp_verifier P v = (Ok (), v)) \<and>
     (\<forall>t c v. \<exists>now. verify_cert now t c v = Some (cp_verify_certificate P t c v)) \<and>
     (\<forall>cv v. cp_verify_signature P cv v = verify_sig cv v)"

lemma handler_certificate:
  assumes "provides P vc vs" "verify_handler C P (SR_Handshake (ServerCertificate c)) (rk, st, hs, q) = (Ok (), (rk', st', hs', q'))"
  shows "\<exists>now. vc now (transcript_hash rk) c q = Some (Ok (), q')"
proof -
  have "cp_verify_certificate P (transcript_hash rk) c q = (Ok (), q')"
    using assms by (auto simp: verify_handler_def with_verifier_def on_part_def provides_def bind_def gets_def split: prod.splits)
  then show ?thesis using assms(1) unfolding provides_def by metis
qed

lemma handler_certificate_verify:
  assumes "provides P vc vs" "verify_handler C P (SR_Handshake (ServerCertificateVerify cv)) (rk, st, hs, q) = (Ok (), (rk', st', hs', q'))"
  shows "vs cv q = (Ok (), q')"
  using assms by (auto simp: verify_handler_def with_verifier_def on_part_def provides_def split: prod.splits)

lemma handler_other:
  assumes "verify_handler C P rec (rk, st, hs, q) = (Ok (), (rk', st', hs', q'))" "\<not> is_certificate rec" "\<not> is_certificate_verify rec"
  shows "q' = q"
  using assms by (auto simp: verify_handler_def bind_def return_def throw_def modify_def lift_result_def
      split: server_record.splits server_handshake.splits result.splits if_splits)

lemma handled_certificate:
  assumes "handled C P p recs q" "cp_verifier P q = (Ok (), q)" "cp_verify_certificate P t c q = (Ok (), q')"
  shows "handled C P p (recs @ [(t, SR_Handshake (ServerCertificate c))]) q'"
proof -
  fix rk st hs
  have "verify_handler C P (SR_Handshake (ServerCertificate c)) (rk\<lparr>transcript_hash := t\<rparr>, st, hs, q) =
      (Ok (), (rk\<lparr>transcript_hash := t\<rparr>, st, hs, q'))"
    using assms by (simp add: verify_handler_def with_verifier_def bind_apply gets_def on_part_apply)
  from handled.message [OF assms(1) this] show ?thesis by simp
qed

lemma handled_signature:
  assumes "handled C P p recs q" "cp_verifier P q = (Ok (), q)" "cp_verify_signature P cv q = (Ok (), q')"
  shows "handled C P p (recs @ [(t, SR_Handshake (ServerCertificateVerify cv))]) q'"
proof -
  fix rk st hs
  have "verify_handler C P (SR_Handshake (ServerCertificateVerify cv)) (rk\<lparr>transcript_hash := t\<rparr>, st, hs, q) =
      (Ok (), (rk\<lparr>transcript_hash := t\<rparr>, st, hs, q'))"
    using assms by (simp add: verify_handler_def with_verifier_def bind_apply gets_def on_part_apply)
  from handled.message [OF assms(1) this] show ?thesis by simp
qed

section \<open>The interface\<close>

text \<open>
  \<open>pending\<close> is what an accepted certificate leaves for its signature, \<open>trusts\<close> what accepting a certificate
  means and \<open>proves\<close> what accepting a signature means.
\<close>

locale tls_verifier =
  fixes verify_cert :: "'k \<Rightarrow> bytes \<Rightarrow> certificate_ref \<Rightarrow> 'v \<Rightarrow> ((unit, tls_error) result \<times> 'v) option"
    and verify_sig :: "certificate_verify \<Rightarrow> ('v, unit, tls_error) comp"
    and pending :: "'v \<Rightarrow> (bytes \<times> certificate_owned) option"
    and anchor :: "'v \<Rightarrow> 'a"
    and trusts :: "'k \<Rightarrow> 'a \<Rightarrow> certificate_ref \<Rightarrow> bool"
    and proves :: "bytes \<Rightarrow> certificate_owned \<Rightarrow> certificate_verify \<Rightarrow> bool"
  assumes cert_ok: "verify_cert now t c v = Some (Ok (), v') \<Longrightarrow>
      trusts now (anchor v) c \<and> pending v' = Some (t, owned_of c) \<and> anchor v' = anchor v"
    and sig_none: "pending v = None \<Longrightarrow> fst (verify_sig cv v) \<noteq> Ok ()"
    and sig_ok: "pending v = Some (t, own) \<Longrightarrow> verify_sig cv v = (Ok (), v') \<Longrightarrow>
      proves t own cv \<and> pending v' = None \<and> anchor v' = anchor v"
begin

text \<open>What was left of the last certificate, if no signature has come since.\<close>

definition unsigned :: "'a \<Rightarrow> (bytes \<times> server_record) list \<Rightarrow> bytes \<times> certificate_owned \<Rightarrow> bool" where
  "unsigned a recs to \<longleftrightarrow> (\<exists>us c vs now. recs = us @ (fst to, SR_Handshake (ServerCertificate c)) # vs \<and>
     list_all (\<lambda>(_, rec). \<not> is_certificate rec \<and> \<not> is_certificate_verify rec) vs \<and>
     snd to = owned_of c \<and> trusts now a c)"

lemma handled_pending:
  assumes "handled C P p recs q" "provides P verify_cert verify_sig" "pending p = None"
  shows "anchor q = anchor p \<and> (\<forall>to. pending q = Some to \<longrightarrow> unsigned (anchor p) recs to)"
  using assms(1)
proof induction
  case start
  then show ?case using assms(3) by simp
next
  case (message recs q rec rk st hs rk' st' hs' q')
  consider c where "rec = SR_Handshake (ServerCertificate c)" | cv where "rec = SR_Handshake (ServerCertificateVerify cv)" |
    "\<not> is_certificate rec" "\<not> is_certificate_verify rec" by blast
  then show ?case
  proof cases
    case 1
    with handler_certificate [OF assms(2)] message(2) cert_ok message(3) obtain now where
      "trusts now (anchor p) c" "pending q' = Some (transcript_hash rk, owned_of c)" "anchor q' = anchor p" by metis
    then show ?thesis unfolding unsigned_def 1 by (intro conjI allI impI exI [of _ recs] exI [of _ c] exI [of _ "[]"] exI [of _ now]) auto
  next
    case 2
    with handler_certificate_verify [OF assms(2)] message(2) have v: "verify_sig cv q = (Ok (), q')" by metis
    then obtain t own where "pending q = Some (t, own)" using sig_none [of q cv] by (cases "pending q") auto
    from sig_ok [OF this v] message(3) show ?thesis by simp
  next
    case 3
    then have "q' = q" using handler_other message(2) by metis
    moreover have "unsigned (anchor p) (recs @ [(transcript_hash rk, rec)]) to" if "unsigned (anchor p) recs to" for to
    proof -
      from that obtain us c vs now where "recs = us @ (fst to, SR_Handshake (ServerCertificate c)) # vs"
        "list_all (\<lambda>(_, rec). \<not> is_certificate rec \<and> \<not> is_certificate_verify rec) vs"
        "snd to = owned_of c" "trusts now (anchor p) c" unfolding unsigned_def by blast
      with 3 show ?thesis unfolding unsigned_def
        by (intro exI [of _ us] exI [of _ c] exI [of _ "vs @ [(transcript_hash rk, rec)]"] exI [of _ now]) simp
    qed
    ultimately show ?thesis using message(3) by blast
  qed
qed

lemma handled_prefix: "handled C P p recs q \<Longrightarrow> recs = xs @ ys \<Longrightarrow> \<exists>r. handled C P p xs r"
proof (induction arbitrary: ys rule: handled.induct)
  case start
  then show ?case by (auto intro: handled.start)
next
  case (message recs q rec rk st hs rk' st' hs' q')
  then show ?case by (cases ys rule: rev_cases) (auto intro: handled.message)
qed

lemma signature_after_certificate:
  assumes "handled C P p (xs @ (u, SR_Handshake (ServerCertificateVerify cv)) # ys) q"
    "provides P verify_cert verify_sig" "pending p = None"
  shows "\<exists>us c vs now t. xs = us @ (t, SR_Handshake (ServerCertificate c)) # vs \<and>
     list_all (\<lambda>(_, rec). \<not> is_certificate rec \<and> \<not> is_certificate_verify rec) vs \<and>
     trusts now (anchor p) c \<and> proves t (owned_of c) cv"
proof -
  obtain r where "handled C P p (xs @ [(u, SR_Handshake (ServerCertificateVerify cv))]) r"
    using handled_prefix [OF assms(1), of _ ys] by auto
  then obtain rk st hs rk' st' hs' r0 where r0: "handled C P p xs r0"
    "verify_handler C P (SR_Handshake (ServerCertificateVerify cv)) (rk, st, hs, r0) = (Ok (), (rk', st', hs', r))"
    by (cases rule: handled.cases) auto
  have v: "verify_sig cv r0 = (Ok (), r)" using handler_certificate_verify [OF assms(2) r0(2)] .
  then obtain t own where own: "pending r0 = Some (t, own)" using sig_none [of r0 cv] by (cases "pending r0") auto
  then have "unsigned (anchor p) xs (t, own)" using handled_pending [OF r0(1) assms(2,3)] by blast
  moreover have "proves t own cv" using sig_ok [OF own v] by blast
  ultimately show ?thesis unfolding unsigned_def fst_conv snd_conv by blast
qed

end

end
