(* ===== verification/Pki.thy ===== *)
theory Pki
  imports Hostname Verifier
begin

text \<open>
  The certificate verifier of src/pki.rs with the decoded certificates of src/der\_certificate.rs.  The
  \<open>der\<close> crate (decoding of ASN.1, also of the structures that \<open>derive(Sequence)\<close> generates code for) and
  the signature crates are third-party code and parameters: \<open>der_params\<close> and \<open>sig_params\<close>.
\<close>

section \<open>Decoded certificates\<close>

definition MAX_SAN_DNS_NAMES :: nat where
  "MAX_SAN_DNS_NAMES = 3"

definition HOSTNAME_MAXLEN :: nat where
  "HOSTNAME_MAXLEN = 64"

definition DNS_NAME_TAG :: byte where
  "DNS_NAME_TAG = 0x82"

text \<open>Object identifiers as lists of their arcs; tags and untyped values as the \<open>der\<close> crate has them.\<close>

type_synonym object_identifier = "nat list"

definition COMMON_NAME_OID :: object_identifier where
  "COMMON_NAME_OID = [2, 5, 4, 3]"

definition SUBJECT_ALT_NAME_OID :: object_identifier where
  "SUBJECT_ALT_NAME_OID = [2, 5, 29, 17]"

datatype der_tag = Tag_Sequence | Tag_OctetString | Tag_Null | Tag_Other byte

record any_ref =
  any_tag :: der_tag
  any_value :: bytes

record algorithm_identifier =
  alg_oid :: object_identifier
  alg_parameters :: "any_ref option"

definition ECDSA_SHA256 :: algorithm_identifier where
  "ECDSA_SHA256 = \<lparr>alg_oid = [1, 2, 840, 10045, 4, 3, 2], alg_parameters = None\<rparr>"

definition ECDSA_SHA384 :: algorithm_identifier where
  "ECDSA_SHA384 = \<lparr>alg_oid = [1, 2, 840, 10045, 4, 3, 3], alg_parameters = None\<rparr>"

definition ED25519 :: algorithm_identifier where
  "ED25519 = \<lparr>alg_oid = [1, 3, 101, 112], alg_parameters = None\<rparr>"

definition any_null :: any_ref where
  "any_null = \<lparr>any_tag = Tag_Null, any_value = []\<rparr>"

definition RSA_PKCS1_SHA256 :: algorithm_identifier where
  "RSA_PKCS1_SHA256 = \<lparr>alg_oid = [1, 2, 840, 113549, 1, 1, 11], alg_parameters = Some any_null\<rparr>"

definition RSA_PKCS1_SHA384 :: algorithm_identifier where
  "RSA_PKCS1_SHA384 = \<lparr>alg_oid = [1, 2, 840, 113549, 1, 1, 12], alg_parameters = Some any_null\<rparr>"

definition RSA_PKCS1_SHA512 :: algorithm_identifier where
  "RSA_PKCS1_SHA512 = \<lparr>alg_oid = [1, 2, 840, 113549, 1, 1, 13], alg_parameters = Some any_null\<rparr>"

datatype version = V1 | V2 | V3

definition version_default :: version where
  "version_default = V1"

record attribute_type_and_value =
  attr_oid :: object_identifier
  attr_value :: any_ref

record extension_id_and_value =
  extn_id :: object_identifier
  extn_critical :: "bool option"
  extn_value :: any_ref

text \<open>A time by the seconds since the epoch that \<open>to_unix_duration\<close> of the \<open>der\<close> crate gives for it.\<close>

datatype time = UtcTime u64 | GeneralTime u64

record validity =
  not_before :: time
  not_after :: time

text \<open>A bit string by what its \<open>as_bytes\<close> gives: nothing if it does not consist of whole bytes.\<close>

record subject_public_key_info =
  spki_algorithm :: algorithm_identifier
  public_key :: "bytes option"

record tbs_certificate =
  tbs_version :: version
  serial_number :: bytes
  tbs_signature :: algorithm_identifier
  issuer :: "attribute_type_and_value list list"
  tbs_validity :: validity
  subject :: "attribute_type_and_value list list"
  subject_public_key_info :: subject_public_key_info
  issuer_unique_id :: "bytes option option"
  subject_unique_id :: "bytes option option"
  tbs_extensions :: "extension_id_and_value list option"

record decoded_certificate =
  tbs_certificate :: tbs_certificate
  signature_algorithm :: algorithm_identifier
  dc_signature :: "bytes option"

section \<open>The crates the verifier calls\<close>

text \<open>
  \<open>DecodedCertificate::from_der\<close> and the readers of the \<open>der\<close> crate; \<open>'r\<close> is the state of a \<open>SliceReader\<close>.
  Every error of the crate is dropped by the callers, so that an error is \<open>None\<close>.
\<close>

record 'r der_params =
  der_certificate :: "bytes \<Rightarrow> decoded_certificate option"
  der_new :: "bytes \<Rightarrow> 'r option"
  der_header :: "'r \<Rightarrow> ((der_tag \<times> nat) \<times> 'r) option"
  der_peek_header :: "'r \<Rightarrow> (der_tag \<times> nat) option"
  der_tlv_bytes :: "'r \<Rightarrow> bytes option"
  der_peek_byte :: "'r \<Rightarrow> byte option"
  der_is_finished :: "'r \<Rightarrow> bool"
  der_read_slice :: "nat \<Rightarrow> 'r \<Rightarrow> (bytes \<times> 'r) option"

text \<open>
  One signature algorithm: whether a key and a signature can be decoded, and whether the signature of a
  message verifies under the key.
\<close>

record sig_alg =
  sa_key :: "bytes \<Rightarrow> bool"
  sa_signature :: "bytes \<Rightarrow> bool"
  sa_verify :: "bytes \<Rightarrow> bytes \<Rightarrow> bytes \<Rightarrow> bool"

text \<open>The algorithms of the crates \<open>p256\<close>, \<open>p384\<close>, \<open>ed25519_dalek\<close> and \<open>rsa\<close>, and the features that enable them.\<close>

record sig_params =
  sg_p256 :: sig_alg
  sg_p384 :: sig_alg
  sg_ed25519 :: sig_alg
  sg_pss_sha256 :: sig_alg
  sg_pss_sha384 :: sig_alg
  sg_pss_sha512 :: sig_alg
  sg_pkcs1_sha256 :: sig_alg
  sg_pkcs1_sha384 :: sig_alg
  sg_pkcs1_sha512 :: sig_alg
  has_p384 :: bool
  has_ed25519 :: bool
  has_rsa :: bool

section \<open>Names of a certificate\<close>

text \<open>\<open>core::str::from_utf8\<close>: well-formed UTF-8.\<close>

abbreviation utf8_cont :: "byte \<Rightarrow> bool" where
  "utf8_cont b \<equiv> 0x80 \<le> b \<and> b \<le> 0xBF"

fun utf8_valid :: "bytes \<Rightarrow> bool" where
  "utf8_valid [] = True"
| "utf8_valid (a # bs) =
     (if a \<le> 0x7F then utf8_valid bs
      else if 0xC2 \<le> a \<and> a \<le> 0xDF then
        (case bs of b # rest \<Rightarrow> utf8_cont b \<and> utf8_valid rest | _ \<Rightarrow> False)
      else if 0xE0 \<le> a \<and> a \<le> 0xEF then
        (case bs of
           b # c # rest \<Rightarrow>
             (if a = 0xE0 then 0xA0 \<le> b \<and> b \<le> 0xBF else if a = 0xED then 0x80 \<le> b \<and> b \<le> 0x9F else utf8_cont b) \<and>
             utf8_cont c \<and> utf8_valid rest
         | _ \<Rightarrow> False)
      else if 0xF0 \<le> a \<and> a \<le> 0xF4 then
        (case bs of
           b # c # d # rest \<Rightarrow>
             (if a = 0xF0 then 0x90 \<le> b \<and> b \<le> 0xBF else if a = 0xF4 then 0x80 \<le> b \<and> b \<le> 0x8F else utf8_cont b) \<and>
             utf8_cont c \<and> utf8_cont d \<and> utf8_valid rest
         | _ \<Rightarrow> False)
      else False)"

text \<open>
  \<open>extract_common_name\<close>: the last common name wins, one that is not UTF-8 counts as none, and one that is
  too long is an error.  \<open>None\<close> is an error of the \<open>der\<close> crate.
\<close>

fun common_name_loop :: "attribute_type_and_value list list \<Rightarrow> bytes option \<Rightarrow> bytes option option" where
  "common_name_loop [] cn = Some cn"
| "common_name_loop (elems # rest) cn =
     (case elems of
        [] \<Rightarrow> None
      | attrs # _ \<Rightarrow>
          if attr_oid attrs = COMMON_NAME_OID
          then (if length (any_value (attr_value attrs)) > HOSTNAME_MAXLEN then None
                else common_name_loop rest
                  (if utf8_valid (any_value (attr_value attrs)) then Some (any_value (attr_value attrs)) else None))
          else common_name_loop rest cn)"

definition extract_common_name :: "tbs_certificate \<Rightarrow> bytes option option" where
  "extract_common_name tbs = common_name_loop (subject tbs) None"

text \<open>
  The loop over the general names of one extension.  Whether it ends depends on the \<open>der\<close> crate's
  readers, so it is a partial function: \<open>None\<close> if it does not return, \<open>Some None\<close> for an error.
\<close>

partial_function (option) general_names_loop :: "'r der_params \<Rightarrow> 'r \<Rightarrow> bytes list \<Rightarrow> bytes list option option" where
  "general_names_loop D gn_reader dns_names =
     (if der_is_finished D gn_reader then Some (Some dns_names)
      else case der_peek_byte D gn_reader of
        None \<Rightarrow> Some None
      | Some tag_byte \<Rightarrow>
          (case der_header D gn_reader of
             None \<Rightarrow> Some None
           | Some ((_, len), gn_reader1) \<Rightarrow>
               (case der_read_slice D len gn_reader1 of
                  None \<Rightarrow> Some None
                | Some (gn_value, gn_reader2) \<Rightarrow>
                    if tag_byte = DNS_NAME_TAG
                    then (if \<not> utf8_valid gn_value then Some None
                          else if length gn_value > HOSTNAME_MAXLEN then Some None
                          else let dns_names' = (if length dns_names < MAX_SAN_DNS_NAMES then dns_names @ [gn_value] else dns_names) in
                            if length dns_names' = MAX_SAN_DNS_NAMES then Some (Some dns_names')
                            else general_names_loop D gn_reader2 dns_names')
                    else general_names_loop D gn_reader2 dns_names)))"

definition san_extension :: "'r der_params \<Rightarrow> extension_id_and_value \<Rightarrow> bytes list \<Rightarrow> bytes list option option" where
  "san_extension D elems dns_names =
     (if any_tag (extn_value elems) \<noteq> Tag_OctetString then Some None
      else case der_new D (any_value (extn_value elems)) of
        None \<Rightarrow> Some None
      | Some san_reader \<Rightarrow>
          (case der_header D san_reader of
             None \<Rightarrow> Some None
           | Some ((tag, len), san_reader1) \<Rightarrow>
               if tag \<noteq> Tag_Sequence then Some None
               else (case der_read_slice D len san_reader1 of
                  None \<Rightarrow> Some None
                | Some (san_content, _) \<Rightarrow>
                    (case der_new D san_content of
                       None \<Rightarrow> Some None
                     | Some gn_reader \<Rightarrow> general_names_loop D gn_reader dns_names))))"

fun san_loop :: "'r der_params \<Rightarrow> extension_id_and_value list \<Rightarrow> bytes list \<Rightarrow> bytes list option option" where
  "san_loop D [] dns_names = Some (Some dns_names)"
| "san_loop D (elems # rest) dns_names =
     (if extn_id elems \<noteq> SUBJECT_ALT_NAME_OID then san_loop D rest dns_names
      else case san_extension D elems dns_names of
        Some (Some dns_names') \<Rightarrow> san_loop D rest dns_names'
      | other \<Rightarrow> other)"

definition extract_san_dns_names :: "'r der_params \<Rightarrow> tbs_certificate \<Rightarrow> bytes list option option" where
  "extract_san_dns_names D tbs =
     (case tbs_extensions tbs of None \<Rightarrow> Some (Some []) | Some exts \<Rightarrow> san_loop D exts [])"

section \<open>Signatures\<close>

text \<open>The key is decoded first, then the signature; \<open>bad_sig\<close> is the error for a signature that cannot be.\<close>

definition check_signature :: "sig_alg \<Rightarrow> tls_error \<Rightarrow> bytes \<Rightarrow> bytes \<Rightarrow> bytes \<Rightarrow> (bool, tls_error) result" where
  "check_signature A bad_sig pk msg sig =
     (if \<not> sa_key A pk then Err DecodeError
      else if \<not> sa_signature A sig then Err bad_sig
      else Ok (sa_verify A pk msg sig))"

definition scheme_check ::
  "sig_params \<Rightarrow> signature_scheme \<Rightarrow> bytes \<Rightarrow> bytes \<Rightarrow> bytes \<Rightarrow> (bool, tls_error) result" where
  "scheme_check S scheme pk message sig =
     (if scheme = EcdsaSecp256r1Sha256 then check_signature (sg_p256 S) DecodeError pk message sig
      else if has_p384 S \<and> scheme = EcdsaSecp384r1Sha384 then check_signature (sg_p384 S) DecodeError pk message sig
      else if has_ed25519 S \<and> scheme = Ed25519 then
        (if length pk \<noteq> 32 then Panic else check_signature (sg_ed25519 S) DecodeError pk message sig)
      else if has_rsa S \<and> scheme = RsaPssRsaeSha256 then
        (if \<not> sa_key (sg_pss_sha256 S) pk then Panic
         else check_signature (sg_pss_sha256 S) DecodeError pk message sig)
      else if has_rsa S \<and> scheme = RsaPssRsaeSha384 then check_signature (sg_pss_sha384 S) DecodeError pk message sig
      else if has_rsa S \<and> scheme = RsaPssRsaeSha512 then check_signature (sg_pss_sha512 S) DecodeError pk message sig
      else Err InvalidSignatureScheme)"

definition verify_signature ::
  "'r der_params \<Rightarrow> sig_params \<Rightarrow> bytes \<Rightarrow> certificate_ref \<Rightarrow> certificate_verify \<Rightarrow> (unit, tls_error) result" where
  "verify_signature D S message certificate verify =
     (case cert_entries certificate of
        X509 cert # _ \<Rightarrow>
          (case der_certificate D cert of
             None \<Rightarrow> Err DecodeError
           | Some c \<Rightarrow>
               (case public_key (subject_public_key_info (tbs_certificate c)) of
                  None \<Rightarrow> Err DecodeError
                | Some pk \<Rightarrow>
                    (case scheme_check S (cv_signature_scheme verify) pk message (cv_signature verify) of
                       Ok verified \<Rightarrow> if \<not> verified then Err InvalidSignature else Ok ()
                     | Err e \<Rightarrow> Err e
                     | Panic \<Rightarrow> Panic)))
      | _ \<Rightarrow> Err DecodeError)"

section \<open>One link of a chain\<close>

definition get_certificate_tlv_bytes :: "'r der_params \<Rightarrow> bytes \<Rightarrow> bytes option" where
  "get_certificate_tlv_bytes D input =
     (case der_new D input of
        None \<Rightarrow> None
      | Some reader \<Rightarrow>
          (case der_header D reader of
             None \<Rightarrow> None
           | Some ((top_tag, _), reader1) \<Rightarrow>
               if top_tag \<noteq> Tag_Sequence then None
               else (case der_peek_header D reader1 of
                  None \<Rightarrow> None
                | Some (tag, _) \<Rightarrow> if tag \<noteq> Tag_Sequence then None else der_tlv_bytes D reader1)))"

fun get_cert_time :: "time \<Rightarrow> u64" where
  "get_cert_time (UtcTime t) = t"
| "get_cert_time (GeneralTime t) = t"

definition check_cert_signature :: "sig_alg \<Rightarrow> bytes \<Rightarrow> bytes \<Rightarrow> bytes option \<Rightarrow> (bool, tls_error) result" where
  "check_cert_signature A ca_public_key data sig =
     (if \<not> sa_key A ca_public_key then Err DecodeError
      else case sig of
        None \<Rightarrow> Err (ParseError PInvalidData)
      | Some s \<Rightarrow> check_signature A (ParseError PInvalidData) ca_public_key data s)"

definition algorithm_check ::
  "sig_params \<Rightarrow> algorithm_identifier \<Rightarrow> bytes \<Rightarrow> bytes \<Rightarrow> bytes option \<Rightarrow> (bool, tls_error) result" where
  "algorithm_check S alg ca_public_key data sig =
     (if alg = ECDSA_SHA256 then check_cert_signature (sg_p256 S) ca_public_key data sig
      else if has_p384 S \<and> alg = ECDSA_SHA384 then check_cert_signature (sg_p384 S) ca_public_key data sig
      else if has_ed25519 S \<and> alg = ED25519 then
        (if length ca_public_key \<noteq> 32 then Panic else check_cert_signature (sg_ed25519 S) ca_public_key data sig)
      else if has_rsa S \<and> alg = RSA_PKCS1_SHA256 then check_cert_signature (sg_pkcs1_sha256 S) ca_public_key data sig
      else if has_rsa S \<and> alg = RSA_PKCS1_SHA384 then check_cert_signature (sg_pkcs1_sha384 S) ca_public_key data sig
      else if has_rsa S \<and> alg = RSA_PKCS1_SHA512 then check_cert_signature (sg_pkcs1_sha512 S) ca_public_key data sig
      else Err InvalidSignatureScheme)"

definition expired :: "validity \<Rightarrow> u64 option \<Rightarrow> bool" where
  "expired v now = (case now of None \<Rightarrow> False
     | Some t \<Rightarrow> get_cert_time (not_before v) > t \<or> get_cert_time (not_after v) < t)"

text \<open>\<open>None\<close> if the loop over the alternative names does not return.\<close>

definition verify_certificate ::
  "'r der_params \<Rightarrow> sig_params \<Rightarrow> certificate_entry_ref \<Rightarrow> certificate_entry_ref \<Rightarrow> u64 option \<Rightarrow>
   (certificate_names, tls_error) result option" where
  "verify_certificate D S verifier certificate now =
     (case verifier of
        RawPublicKey _ \<Rightarrow> Some (Err DecodeError)
      | X509 ca \<Rightarrow>
          (case der_certificate D ca of
             None \<Rightarrow> Some (Err DecodeError)
           | Some ca_certificate \<Rightarrow>
               (case certificate of
                  RawPublicKey _ \<Rightarrow> Some (Err InvalidCertificate)
                | X509 cert \<Rightarrow>
                    (case der_certificate D cert of
                       None \<Rightarrow> Some (Err DecodeError)
                     | Some parsed \<Rightarrow>
                         (case public_key (subject_public_key_info (tbs_certificate ca_certificate)) of
                            None \<Rightarrow> Some (Err DecodeError)
                          | Some ca_public_key \<Rightarrow>
                              (case extract_common_name (tbs_certificate parsed) of
                                 None \<Rightarrow> Some (Err DecodeError)
                               | Some cn \<Rightarrow>
                                   map_option (\<lambda>sans. case sans of
                                       None \<Rightarrow> Err DecodeError
                                     | Some names \<Rightarrow>
                                         if expired (tbs_validity (tbs_certificate parsed)) now then Err InvalidCertificate
                                         else (case get_certificate_tlv_bytes D cert of
                                            None \<Rightarrow> Err DecodeError
                                          | Some certificate_data \<Rightarrow>
                                              (case algorithm_check S (signature_algorithm parsed) ca_public_key
                                                      certificate_data (dc_signature parsed) of
                                                 Ok verified \<Rightarrow>
                                                   if \<not> verified then Err InvalidCertificate
                                                   else Ok \<lparr>common_name = cn, san_dns_names = names\<rparr>
                                               | Err e \<Rightarrow> Err e
                                               | Panic \<Rightarrow> Panic)))
                                     (extract_san_dns_names D (tbs_certificate parsed))))))))"

section \<open>The chain\<close>

record certificate_chain =
  cc_prev :: certificate_entry_ref
  cc_entries :: "certificate_entry_ref list"
  cc_idx :: int

definition chain_new :: "certificate_entry_ref \<Rightarrow> certificate_ref \<Rightarrow> certificate_chain" where
  "chain_new ca chain = \<lparr>cc_prev = ca, cc_entries = cert_entries chain, cc_idx = int (length (cert_entries chain)) - 1\<rparr>"

definition chain_next :: "(certificate_chain, (certificate_entry_ref \<times> certificate_entry_ref) option, tls_error) comp" where
  "chain_next = (\<lambda>it.
     if cc_idx it < 0 then (Ok None, it)
     else case index_at (cc_entries it) (nat (cc_idx it)) of
       Ok cur \<Rightarrow> (Ok (Some (cc_prev it, cur)), it\<lparr>cc_prev := cur, cc_idx := cc_idx it - 1\<rparr>)
     | Err e \<Rightarrow> (Err e, it)
     | Panic \<Rightarrow> (Panic, it))"

text \<open>
  \<open>for (p, q) in chain { names = verify_certificate(p, q, Clock::now())?; }\<close>.  The clock is read anew for
  each certificate: \<open>now i\<close> is what it gives when the \<open>i\<close>th entry is looked at.
\<close>

function chain_loop ::
  "'r der_params \<Rightarrow> sig_params \<Rightarrow> (nat \<Rightarrow> u64 option) \<Rightarrow> certificate_names \<Rightarrow> certificate_chain \<Rightarrow>
   (certificate_names, tls_error) result option" where
  "chain_loop D S now names it =
     (case chain_next it of
        (Ok None, _) \<Rightarrow> Some (Ok names)
      | (Ok (Some (p, q)), it') \<Rightarrow>
          (case verify_certificate D S p q (now (nat (cc_idx it))) of
             Some (Ok names') \<Rightarrow> chain_loop D S now names' it'
           | other \<Rightarrow> other)
      | (Err e, _) \<Rightarrow> Some (Err e)
      | (Panic, _) \<Rightarrow> Some Panic)"
  by pat_completeness auto

termination
  by (relation "measure (\<lambda>(D, S, now, names, it). nat (cc_idx it + 1))")
    (auto simp: chain_next_def split: if_splits result.splits)

declare chain_loop.simps [simp del]

section \<open>The verifier\<close>

text \<open>\<open>CertVerifier\<close>: the trust anchor, the host name, and what the last certificate left for its signature.\<close>

record cert_verifier =
  cv_ca :: certificate_entry_ref
  cv_host :: "bytes option"
  cv_transcript :: "bytes option"
  cv_certificate :: "certificate_owned option"

definition cert_verifier_new :: "certificate_entry_ref \<Rightarrow> cert_verifier" where
  "cert_verifier_new ca = \<lparr>cv_ca = ca, cv_host = None, cv_transcript = None, cv_certificate = None\<rparr>"

definition set_hostname_verification :: "bytes \<Rightarrow> (cert_verifier, unit, tls_error) comp" where
  "set_hostname_verification hostname = (\<lambda>v.
     if length hostname > 64 then (Err InsufficientSpace, v) else (Ok (), v\<lparr>cv_host := Some hostname\<rparr>))"

definition cv_verify_certificate ::
  "'r der_params \<Rightarrow> sig_params \<Rightarrow> nat \<Rightarrow> (nat \<Rightarrow> u64 option) \<Rightarrow> bytes \<Rightarrow> certificate_ref \<Rightarrow> cert_verifier \<Rightarrow>
   ((unit, tls_error) result \<times> cert_verifier) option" where
  "cv_verify_certificate D S cert_size now transcript cert v =
     map_option (\<lambda>r. case r of
         Ok names \<Rightarrow>
           if \<not> tls_hostname_match names (cv_host v) then (Err InvalidCertificate, v)
           else (case certificate_try_from_ref cert_size cert of
              Ok owned \<Rightarrow> (Ok (), v\<lparr>cv_certificate := Some owned, cv_transcript := Some transcript\<rparr>)
            | Err e \<Rightarrow> (Err e, v)
            | Panic \<Rightarrow> (Panic, v))
       | Err e \<Rightarrow> (Err e, v)
       | Panic \<Rightarrow> (Panic, v))
       (chain_loop D S now \<lparr>common_name = None, san_dns_names = []\<rparr> (chain_new (cv_ca v) cert))"

definition server_signature_context :: bytes where
  "server_signature_context = ascii ''TLS 1.3, server CertificateVerify'' @ [0]"

definition signed_message :: "cipher_suite_params \<Rightarrow> bytes \<Rightarrow> bytes" where
  "signed_message C transcript = replicate 64 0x20 @ server_signature_context @ hash C transcript"

text \<open>\<open>unwrap!(self.certificate_transcript.take())\<close> panics without an earlier certificate.\<close>

definition cv_verify_signature ::
  "'r der_params \<Rightarrow> sig_params \<Rightarrow> cipher_suite_params \<Rightarrow> certificate_verify \<Rightarrow> (cert_verifier, unit, tls_error) comp" where
  "cv_verify_signature D S C verify = (\<lambda>v.
     case cv_transcript v of
       None \<Rightarrow> (Panic, v)
     | Some t \<Rightarrow>
         (let v1 = v\<lparr>cv_transcript := None\<rparr> in
          if length (signed_message C t) > 146 then (Err EncodeError, v1)
          else case cv_certificate v of
            None \<Rightarrow> (Panic, v1)
          | Some owned \<Rightarrow>
              (case certificate_ref_try_from owned of
                 Ok certificate \<Rightarrow> (verify_signature D S (signed_message C t) certificate verify, v1)
               | Err e \<Rightarrow> (Err e, v1)
               | Panic \<Rightarrow> (Panic, v1))))"

section \<open>Laws of the crates\<close>

text \<open>A header takes at least one byte from a reader, and no read gives bytes back.\<close>

definition der_laws :: "'r der_params \<Rightarrow> ('r \<Rightarrow> nat) \<Rightarrow> bool" where
  "der_laws D left \<longleftrightarrow>
     (\<forall>r h r'. der_header D r = Some (h, r') \<longrightarrow> left r' < left r) \<and>
     (\<forall>n r s r'. der_read_slice D n r = Some (s, r') \<longrightarrow> left r' \<le> left r)"

lemma general_names_loop_returns:
  assumes "der_laws D left"
  shows "\<exists>y. general_names_loop D r names = Some y"
proof (induction "left r" arbitrary: r names rule: less_induct)
  case less
  have step: "\<exists>y. general_names_loop D r2 names' = Some y"
    if "der_header D r = Some (h, r1)" "der_read_slice D n r1 = Some (s, r2)" for h r1 n s r2 names'
  proof (rule less)
    have "left r1 < left r" "left r2 \<le> left r1" using assms that unfolding der_laws_def by blast+
    then show "left r2 < left r" by simp
  qed
  show ?case
    by (subst general_names_loop.simps) (auto simp: Let_def step split: option.split)
qed

lemma extract_san_returns:
  assumes "der_laws D left"
  shows "\<exists>y. extract_san_dns_names D tbs = Some y"
proof -
  have ext: "\<exists>y. san_extension D e names = Some y" for e names
    using general_names_loop_returns [OF assms] by (auto simp: san_extension_def split: option.split)
  have "\<exists>y. san_loop D es names = Some y" for es names
  proof (induction es arbitrary: names)
    case (Cons e es)
    obtain y where "san_extension D e names = Some y" using ext by blast
    with Cons show ?case by (cases y) auto
  qed simp
  then show ?thesis by (auto simp: extract_san_dns_names_def split: option.split)
qed

lemma verify_certificate_returns:
  assumes "der_laws D left"
  shows "\<exists>y. verify_certificate D S p q now = Some y"
  using extract_san_returns [OF assms]
  by (auto simp: verify_certificate_def split: certificate_entry_ref.split option.split)

section \<open>The links of a chain\<close>

text \<open>
  The iterator gives the pairs of a certificate and the one it is to be signed with, from the anchor
  down; here each pair has the index of its certificate with it.
\<close>

type_synonym link = "nat \<times> certificate_entry_ref \<times> certificate_entry_ref"

fun links :: "certificate_entry_ref \<Rightarrow> certificate_entry_ref list \<Rightarrow> link list" where
  "links p [] = []"
| "links p (q # qs) = (length qs, p, q) # links q qs"

fun links_loop ::
  "'r der_params \<Rightarrow> sig_params \<Rightarrow> (nat \<Rightarrow> u64 option) \<Rightarrow> certificate_names \<Rightarrow> link list \<Rightarrow>
   (certificate_names, tls_error) result option" where
  "links_loop D S now names [] = Some (Ok names)"
| "links_loop D S now names ((i, p, q) # rest) =
     (case verify_certificate D S p q (now i) of
        Some (Ok names') \<Rightarrow> links_loop D S now names' rest
      | other \<Rightarrow> other)"

lemma chain_loop_at:
  "k \<le> length es \<Longrightarrow> chain_loop D S now names \<lparr>cc_prev = p, cc_entries = es, cc_idx = int k - 1\<rparr> =
     links_loop D S now names (links p (rev (take k es)))"
proof (induction k arbitrary: p names)
  case 0
  then show ?case by (subst chain_loop.simps) (simp add: chain_next_def)
next
  case (Suc k)
  have "rev (take (Suc k) es) = es ! k # rev (take k es)" using Suc.prems by (simp add: take_Suc_conv_app_nth)
  moreover have "chain_next \<lparr>cc_prev = p, cc_entries = es, cc_idx = int (Suc k) - 1\<rparr> =
      (Ok (Some (p, es ! k)), \<lparr>cc_prev = es ! k, cc_entries = es, cc_idx = int k - 1\<rparr>)"
    using Suc.prems by (simp add: chain_next_def index_at_def)
  moreover have "length (rev (take k es)) = k" using Suc.prems by simp
  ultimately show ?case
    using Suc by (subst chain_loop.simps) (simp split: option.split result.split)
qed

lemma chain_loop_links:
  "chain_loop D S now names (chain_new ca cert) = links_loop D S now names (links ca (rev (cert_entries cert)))"
  using chain_loop_at [of "length (cert_entries cert)" "cert_entries cert" D S now names ca] by (simp add: chain_new_def)

lemma links_nth:
  "i < length qs \<Longrightarrow> links p qs ! i = (length qs - Suc i, if i = 0 then p else qs ! (i - 1), qs ! i)"
  by (induction qs arbitrary: p i) (auto simp: nth_Cons split: nat.split)

lemma length_links [simp]: "length (links p qs) = length qs"
  by (induction qs arbitrary: p) auto

lemma links_loop_returns:
  assumes "der_laws D left"
  shows "\<exists>y. links_loop D S now names ls = Some y"
proof (induction ls arbitrary: names)
  case (Cons pq ls)
  obtain i p q where pq: "pq = (i, p, q)" by (cases pq)
  obtain r where "verify_certificate D S p q (now i) = Some r" using verify_certificate_returns [OF assms] by blast
  with Cons show ?case by (cases r) (auto simp: pq)
qed simp

section \<open>What a verified chain means\<close>

text \<open>The algorithm a certificate is signed with, if it is enabled.\<close>

definition algorithm_of :: "sig_params \<Rightarrow> algorithm_identifier \<Rightarrow> sig_alg option" where
  "algorithm_of S alg =
     (if alg = ECDSA_SHA256 then Some (sg_p256 S)
      else if has_p384 S \<and> alg = ECDSA_SHA384 then Some (sg_p384 S)
      else if has_ed25519 S \<and> alg = ED25519 then Some (sg_ed25519 S)
      else if has_rsa S \<and> alg = RSA_PKCS1_SHA256 then Some (sg_pkcs1_sha256 S)
      else if has_rsa S \<and> alg = RSA_PKCS1_SHA384 then Some (sg_pkcs1_sha384 S)
      else if has_rsa S \<and> alg = RSA_PKCS1_SHA512 then Some (sg_pkcs1_sha512 S)
      else None)"

text \<open>
  \<open>q\<close> is a certificate, valid at the time if there is a clock, whose signature verifies under the key of the certificate
  \<open>p\<close>; key and signature have the form the algorithm asks for.
\<close>

definition vouches_for ::
  "'r der_params \<Rightarrow> sig_params \<Rightarrow> u64 option \<Rightarrow> certificate_entry_ref \<Rightarrow> certificate_entry_ref \<Rightarrow> bool" where
  "vouches_for D S now p q \<longleftrightarrow>
     (\<exists>ca cert ca_certificate parsed pk data A s. p = X509 ca \<and> q = X509 cert \<and>
        der_certificate D ca = Some ca_certificate \<and> der_certificate D cert = Some parsed \<and>
        public_key (subject_public_key_info (tbs_certificate ca_certificate)) = Some pk \<and>
        (\<forall>t. now = Some t \<longrightarrow> get_cert_time (not_before (tbs_validity (tbs_certificate parsed))) \<le> t \<and>
           t \<le> get_cert_time (not_after (tbs_validity (tbs_certificate parsed)))) \<and>
        get_certificate_tlv_bytes D cert = Some data \<and> algorithm_of S (signature_algorithm parsed) = Some A \<and>
        (signature_algorithm parsed = ED25519 \<longrightarrow> length pk = 32) \<and>
        dc_signature parsed = Some s \<and> sa_key A pk \<and> sa_signature A s \<and> sa_verify A pk data s)"

lemma expired_iff:
  "\<not> expired v now \<longleftrightarrow> (\<forall>t. now = Some t \<longrightarrow> get_cert_time (not_before v) \<le> t \<and> t \<le> get_cert_time (not_after v))"
  by (auto simp: expired_def split: option.split)

definition names_of :: "'r der_params \<Rightarrow> certificate_entry_ref \<Rightarrow> certificate_names option" where
  "names_of D q = (case q of
     X509 cert \<Rightarrow>
       (case der_certificate D cert of
          None \<Rightarrow> None
        | Some parsed \<Rightarrow>
            (case (extract_common_name (tbs_certificate parsed), extract_san_dns_names D (tbs_certificate parsed)) of
               (Some cn, Some (Some sans)) \<Rightarrow> Some \<lparr>common_name = cn, san_dns_names = sans\<rparr>
             | _ \<Rightarrow> None))
   | RawPublicKey _ \<Rightarrow> None)"

lemma check_cert_signature_iff:
  "check_cert_signature A pk data sig = Ok True \<longleftrightarrow>
     (\<exists>s. sig = Some s \<and> sa_key A pk \<and> sa_signature A s \<and> sa_verify A pk data s)"
  by (auto simp: check_cert_signature_def check_signature_def split: option.splits)

lemma first_enabled:
  "(if b1 then f a1 else if b2 then f a2 else if b3 then (if c then Panic else f a3)
    else if b4 then f a4 else if b5 then f a5 else if b6 then f a6 else Err e) = Ok y \<longleftrightarrow>
   (\<exists>a. (if b1 then Some a1 else if b2 then Some a2 else if b3 then Some a3
    else if b4 then Some a4 else if b5 then Some a5 else if b6 then Some a6 else None) = Some a \<and>
    (\<not> b1 \<and> \<not> b2 \<and> b3 \<longrightarrow> \<not> c) \<and> f a = Ok y)"
  by simp

lemma ed25519_distinct: "ED25519 \<noteq> ECDSA_SHA256" "ED25519 \<noteq> ECDSA_SHA384"
  by (simp_all add: ED25519_def ECDSA_SHA256_def ECDSA_SHA384_def)

lemma algorithm_check_iff:
  "algorithm_check S alg pk data sig = Ok True \<longleftrightarrow>
     (\<exists>A s. algorithm_of S alg = Some A \<and> (alg = ED25519 \<longrightarrow> length pk = 32) \<and>
        sig = Some s \<and> sa_key A pk \<and> sa_signature A s \<and> sa_verify A pk data s)"
proof -
  have "algorithm_check S alg pk data sig = Ok True \<longleftrightarrow>
    (\<exists>A. algorithm_of S alg = Some A \<and>
       (alg \<noteq> ECDSA_SHA256 \<and> \<not> (has_p384 S \<and> alg = ECDSA_SHA384) \<and> (has_ed25519 S \<and> alg = ED25519) \<longrightarrow>
          \<not> length pk \<noteq> 32) \<and>
       check_cert_signature A pk data sig = Ok True)"
    unfolding algorithm_check_def algorithm_of_def
    by (rule first_enabled [where f = "\<lambda>A. check_cert_signature A pk data sig"])
  moreover have "algorithm_of S ED25519 = Some A \<longrightarrow> has_ed25519 S" for A
    by (simp add: algorithm_of_def ED25519_def ECDSA_SHA256_def ECDSA_SHA384_def RSA_PKCS1_SHA256_def RSA_PKCS1_SHA384_def
        RSA_PKCS1_SHA512_def)
  ultimately show ?thesis unfolding check_cert_signature_iff using ed25519_distinct by metis
qed

lemma verify_certificate_OkD:
  assumes ok: "verify_certificate D S p q now = Some (Ok names)"
  shows "vouches_for D S now p q \<and> names_of D q = Some names"
proof -
  obtain ca cert where pq: "p = X509 ca" "q = X509 cert"
    using ok by (cases p; cases q) (simp_all add: verify_certificate_def split: option.splits)
  obtain cac where cac: "der_certificate D ca = Some cac"
    using ok by (cases "der_certificate D ca") (auto simp: verify_certificate_def pq)
  obtain parsed where parsed: "der_certificate D cert = Some parsed"
    using ok by (cases "der_certificate D cert") (auto simp: verify_certificate_def pq cac)
  obtain pk where pk: "public_key (subject_public_key_info (tbs_certificate cac)) = Some pk"
    using ok by (cases "public_key (subject_public_key_info (tbs_certificate cac))")
      (auto simp: verify_certificate_def pq cac parsed)
  obtain cn where cn: "extract_common_name (tbs_certificate parsed) = Some cn"
    using ok by (cases "extract_common_name (tbs_certificate parsed)")
      (auto simp: verify_certificate_def pq cac parsed pk)
  obtain sans where sans: "extract_san_dns_names D (tbs_certificate parsed) = Some (Some sans)"
    using ok by (cases "extract_san_dns_names D (tbs_certificate parsed)")
      (auto simp: verify_certificate_def pq cac parsed pk cn split: option.splits)
  note ok = ok [unfolded verify_certificate_def pq, simplified cac parsed pk cn sans option.simps certificate_entry_ref.simps]
  from ok have time: "\<not> expired (tbs_validity (tbs_certificate parsed)) now" by (auto split: if_splits)
  with ok obtain data where data: "get_certificate_tlv_bytes D cert = Some data"
    by (cases "get_certificate_tlv_bytes D cert") auto
  have check: "algorithm_check S (signature_algorithm parsed) pk data (dc_signature parsed) = Ok True"
    "names = \<lparr>common_name = cn, san_dns_names = sans\<rparr>"
    using ok time data by (auto split: result.splits if_splits)
  from check(1) [unfolded algorithm_check_iff] pq cac parsed pk time data have "vouches_for D S now p q"
    unfolding vouches_for_def expired_iff by blast
  moreover have "names_of D q = Some names" by (simp add: names_of_def pq parsed cn sans check(2))
  ultimately show ?thesis ..
qed

lemma names_of_SomeD:
  assumes "names_of D (X509 cert) = Some names" "der_certificate D cert = Some parsed"
  obtains cn sans where "extract_common_name (tbs_certificate parsed) = Some cn"
    "extract_san_dns_names D (tbs_certificate parsed) = Some (Some sans)"
    "names = \<lparr>common_name = cn, san_dns_names = sans\<rparr>"
  using assms by (auto simp: names_of_def split: option.splits)

lemma verify_certificate_iff:
  "verify_certificate D S p q now = Some (Ok names) \<longleftrightarrow> vouches_for D S now p q \<and> names_of D q = Some names"
proof
  assume "vouches_for D S now p q \<and> names_of D q = Some names"
  then obtain ca cert cac parsed pk data A s where v: "p = X509 ca" "q = X509 cert"
    "der_certificate D ca = Some cac" "der_certificate D cert = Some parsed"
    "public_key (subject_public_key_info (tbs_certificate cac)) = Some pk"
    "\<not> expired (tbs_validity (tbs_certificate parsed)) now" "get_certificate_tlv_bytes D cert = Some data"
    and check: "algorithm_check S (signature_algorithm parsed) pk data (dc_signature parsed) = Ok True"
    and names: "names_of D (X509 cert) = Some names"
    unfolding vouches_for_def algorithm_check_iff expired_iff by blast
  from names_of_SomeD [OF names v(4)] obtain cn sans where "extract_common_name (tbs_certificate parsed) = Some cn"
    "extract_san_dns_names D (tbs_certificate parsed) = Some (Some sans)"
    "names = \<lparr>common_name = cn, san_dns_names = sans\<rparr>" .
  with v check show "verify_certificate D S p q now = Some (Ok names)" by (simp add: verify_certificate_def)
qed (rule verify_certificate_OkD)

lemma links_loop_iff:
  "links_loop D S now names ls = Some (Ok names') \<longleftrightarrow>
     (\<forall>(i, p, q) \<in> set ls. vouches_for D S (now i) p q \<and> names_of D q \<noteq> None) \<and>
     (if ls = [] then names' = names else names_of D (snd (snd (last ls))) = Some names')"
proof (induction ls arbitrary: names)
  case (Cons l rest)
  obtain i p q where l: "l = (i, p, q)" by (cases l)
  have "links_loop D S now names (l # rest) = Some (Ok names') \<longleftrightarrow>
     (\<exists>names1. verify_certificate D S p q (now i) = Some (Ok names1) \<and> links_loop D S now names1 rest = Some (Ok names'))"
    by (auto simp: l split: option.split result.split)
  then show ?case unfolding Cons verify_certificate_iff by (cases rest) (auto simp: l)
qed auto

text \<open>The certificate that is to vouch for the \<open>i\<close>th entry: the next one of the chain, and the anchor for the last.\<close>

definition issuer_at :: "certificate_entry_ref \<Rightarrow> certificate_entry_ref list \<Rightarrow> nat \<Rightarrow> certificate_entry_ref" where
  "issuer_at ca es i = (if Suc i < length es then es ! Suc i else ca)"

definition chain_accepted ::
  "'r der_params \<Rightarrow> sig_params \<Rightarrow> (nat \<Rightarrow> u64 option) \<Rightarrow> certificate_entry_ref \<Rightarrow> certificate_entry_ref list \<Rightarrow> bool" where
  "chain_accepted D S now ca es \<longleftrightarrow>
     (\<forall>i < length es. vouches_for D S (now i) (issuer_at ca es i) (es ! i) \<and> names_of D (es ! i) \<noteq> None)"

definition host_accepted :: "'r der_params \<Rightarrow> certificate_entry_ref list \<Rightarrow> bytes option \<Rightarrow> bool" where
  "host_accepted D es host \<longleftrightarrow>
     (case es of
        [] \<Rightarrow> host = None
      | leaf # _ \<Rightarrow> \<exists>names. names_of D leaf = Some names \<and> tls_hostname_match names host)"

lemma set_links_rev: "set (links ca (rev es)) = {(i, issuer_at ca es i, es ! i) | i. i < length es}"
proof -
  let ?n = "length es"
  have at: "links ca (rev es) ! (?n - Suc i) = (i, issuer_at ca es i, es ! i)" if "i < ?n" for i
    using that by (simp add: links_nth issuer_at_def rev_nth Suc_diff_Suc)
  have "set (links ca (rev es)) = (\<lambda>j. links ca (rev es) ! j) ` {..<?n}" by (auto simp: set_conv_nth)
  also have "{..<?n} = (\<lambda>i. ?n - Suc i) ` {..<?n}"
  proof -
    have "j \<in> (\<lambda>i. ?n - Suc i) ` {..<?n}" if "j < ?n" for j
      using that by (intro image_eqI [of _ _ "?n - Suc j"]) auto
    then show ?thesis by auto
  qed
  also have "(\<lambda>j. links ca (rev es) ! j) ` \<dots> = (\<lambda>i. (i, issuer_at ca es i, es ! i)) ` {..<?n}"
    unfolding image_image by (rule image_cong) (simp_all add: at)
  finally show ?thesis by auto
qed

lemma last_links: "qs \<noteq> [] \<Longrightarrow> snd (snd (last (links p qs))) = last qs"
  by (induction qs arbitrary: p) (auto simp: neq_Nil_conv)

lemma chain_loop_iff:
  "chain_loop D S now names (chain_new ca cert) = Some (Ok names') \<longleftrightarrow>
     chain_accepted D S now ca (cert_entries cert) \<and>
     (case cert_entries cert of [] \<Rightarrow> names' = names | leaf # _ \<Rightarrow> names_of D leaf = Some names')"
proof -
  let ?ls = "links ca (rev (cert_entries cert))"
  have "?ls = [] \<longleftrightarrow> cert_entries cert = []" by (metis length_0_conv length_links length_rev)
  then have "(if ?ls = [] then names' = names else names_of D (snd (snd (last ?ls))) = Some names') \<longleftrightarrow>
     (case cert_entries cert of [] \<Rightarrow> names' = names | leaf # _ \<Rightarrow> names_of D leaf = Some names')"
    by (cases "cert_entries cert") (simp_all add: last_links)
  then show ?thesis
    unfolding chain_loop_links links_loop_iff chain_accepted_def set_links_rev by auto
qed

lemma cv_verify_certificate_iff:
  "cv_verify_certificate D S n now t cert v = Some (Ok (), v') \<longleftrightarrow>
     chain_accepted D S now (cv_ca v) (cert_entries cert) \<and> host_accepted D (cert_entries cert) (cv_host v) \<and>
     length (request_context cert) \<le> 256 \<and> length (raw_entries cert) \<le> n \<and>
     v' = v\<lparr>cv_certificate := Some \<lparr>own_request_context = request_context cert, own_entries_data = raw_entries cert\<rparr>,
       cv_transcript := Some t\<rparr>"
proof -
  let ?r = "chain_loop D S now \<lparr>common_name = None, san_dns_names = []\<rparr> (chain_new (cv_ca v) cert)"
  have "cv_verify_certificate D S n now t cert v = Some (Ok (), v') \<longleftrightarrow>
     (\<exists>names. ?r = Some (Ok names) \<and> tls_hostname_match names (cv_host v)) \<and>
     length (request_context cert) \<le> 256 \<and> length (raw_entries cert) \<le> n \<and>
     v' = v\<lparr>cv_certificate := Some \<lparr>own_request_context = request_context cert, own_entries_data = raw_entries cert\<rparr>,
       cv_transcript := Some t\<rparr>"
  proof (cases ?r)
    case (Some r)
    then show ?thesis
      by (cases r) (auto simp: cv_verify_certificate_def certificate_try_from_ref_def)
  qed (simp add: cv_verify_certificate_def)
  then show ?thesis
    unfolding chain_loop_iff host_accepted_def
    by (cases "cert_entries cert") (auto simp: tls_hostname_match_def split: option.splits)
qed

section \<open>The verifier as the client's\<close>

text \<open>The algorithm a signature scheme of the handshake stands for, if it is enabled.\<close>

definition scheme_algorithm :: "sig_params \<Rightarrow> signature_scheme \<Rightarrow> sig_alg option" where
  "scheme_algorithm S scheme =
     (if scheme = EcdsaSecp256r1Sha256 then Some (sg_p256 S)
      else if has_p384 S \<and> scheme = EcdsaSecp384r1Sha384 then Some (sg_p384 S)
      else if has_ed25519 S \<and> scheme = Ed25519 then Some (sg_ed25519 S)
      else if has_rsa S \<and> scheme = RsaPssRsaeSha256 then Some (sg_pss_sha256 S)
      else if has_rsa S \<and> scheme = RsaPssRsaeSha384 then Some (sg_pss_sha384 S)
      else if has_rsa S \<and> scheme = RsaPssRsaeSha512 then Some (sg_pss_sha512 S)
      else None)"

definition leaf_signs :: "'r der_params \<Rightarrow> sig_params \<Rightarrow> bytes \<Rightarrow> certificate_entry_ref list \<Rightarrow> certificate_verify \<Rightarrow> bool" where
  "leaf_signs D S message es verify \<longleftrightarrow>
     (\<exists>cert rest parsed pk A. es = X509 cert # rest \<and> der_certificate D cert = Some parsed \<and>
        public_key (subject_public_key_info (tbs_certificate parsed)) = Some pk \<and>
        scheme_algorithm S (cv_signature_scheme verify) = Some A \<and> sa_verify A pk message (cv_signature verify))"

definition cv_pending :: "cert_verifier \<Rightarrow> (bytes \<times> certificate_owned) option" where
  "cv_pending v = (case (cv_transcript v, cv_certificate v) of (Some t, Some own) \<Rightarrow> Some (t, own) | _ \<Rightarrow> None)"

lemma check_signature_OkD: "check_signature A e pk msg sig = Ok True \<Longrightarrow> sa_verify A pk msg sig"
  by (auto simp: check_signature_def split: if_splits)

lemma scheme_check_OkD:
  "scheme_check S scheme pk msg sig = Ok True \<Longrightarrow> \<exists>A. scheme_algorithm S scheme = Some A \<and> sa_verify A pk msg sig"
  unfolding scheme_check_def scheme_algorithm_def
  by (cases scheme) (auto split: if_splits dest: check_signature_OkD)

lemma verify_signature_OkD:
  "verify_signature D S message certificate verify = Ok () \<Longrightarrow> leaf_signs D S message (cert_entries certificate) verify"
  unfolding verify_signature_def leaf_signs_def
  by (auto split: list.splits certificate_entry_ref.splits option.splits result.splits if_splits dest: scheme_check_OkD)

text \<open>The certificates that were kept are read again for the signature.\<close>

definition leaf_signs_owned ::
  "'r der_params \<Rightarrow> sig_params \<Rightarrow> cipher_suite_params \<Rightarrow> bytes \<Rightarrow> certificate_owned \<Rightarrow> certificate_verify \<Rightarrow> bool" where
  "leaf_signs_owned D S C t own verify \<longleftrightarrow>
     (\<exists>c. certificate_ref_try_from own = Ok c \<and> leaf_signs D S (signed_message C t) (cert_entries c) verify)"

lemma cv_verify_signature_OkD:
  assumes "cv_verify_signature D S C verify v = (Ok (), v')" "cv_pending v = Some (t, own)"
  shows "leaf_signs_owned D S C t own verify \<and> v' = v\<lparr>cv_transcript := None\<rparr>"
  using assms
  by (auto simp: cv_verify_signature_def cv_pending_def leaf_signs_owned_def Let_def
      split: option.splits if_splits result.splits dest: verify_signature_OkD)

interpretation pv: tls_verifier "\<lambda>now. cv_verify_certificate D S n now" "cv_verify_signature D S C" cv_pending
  "\<lambda>v. (cv_ca v, cv_host v)"
  "\<lambda>now (ca, host) c. chain_accepted D S now ca (cert_entries c) \<and> host_accepted D (cert_entries c) host"
  "leaf_signs_owned D S C"
  for D :: "'r der_params" and S n C
proof (unfold_locales, goal_cases)
  case (1 now t c v v')
  then show ?case unfolding cv_verify_certificate_iff by (auto simp: cv_pending_def owned_of_def)
next
  case (2 v verify)
  then show ?case by (auto simp: cv_verify_signature_def cv_pending_def Let_def split: option.splits)
next
  case (3 v t own verify v')
  from cv_verify_signature_OkD [OF 3(2,1)] show ?case by (auto simp: cv_pending_def)
qed

section \<open>A certificate to check\<close>

text \<open>
  A toy decoder and a toy algorithm, for the witnesses: certificates are for the host \<open>a\<close>, a header is one
  byte, and the signature \<open>2\<close> verifies under the key \<open>1\<close>.
\<close>

definition toy_der :: "bytes der_params" where
  "toy_der = \<lparr>der_certificate = (\<lambda>_. Some \<lparr>tbs_certificate =
       \<lparr>tbs_version = V3, serial_number = [], tbs_signature = ECDSA_SHA256, issuer = [],
        tbs_validity = \<lparr>not_before = UtcTime 10, not_after = UtcTime 20\<rparr>,
        subject = [[\<lparr>attr_oid = COMMON_NAME_OID, attr_value = \<lparr>any_tag = Tag_Other 12, any_value = [97]\<rparr>\<rparr>]],
        subject_public_key_info = \<lparr>spki_algorithm = ECDSA_SHA256, public_key = Some [1]\<rparr>,
        issuer_unique_id = None, subject_unique_id = None, tbs_extensions = None\<rparr>,
       signature_algorithm = ECDSA_SHA256, dc_signature = Some [2]\<rparr>),
     der_new = Some,
     der_header = (\<lambda>r. case r of [] \<Rightarrow> None | b # r' \<Rightarrow> Some ((Tag_Sequence, length r'), r')),
     der_peek_header = (\<lambda>r. case r of [] \<Rightarrow> None | b # r' \<Rightarrow> Some (Tag_Sequence, length r')),
     der_tlv_bytes = Some,
     der_peek_byte = (\<lambda>r. case r of [] \<Rightarrow> None | b # r' \<Rightarrow> Some b),
     der_is_finished = (\<lambda>r. r = []),
     der_read_slice = (\<lambda>n r. if n \<le> length r then Some (take n r, drop n r) else None)\<rparr>"

definition toy_alg :: sig_alg where
  "toy_alg = \<lparr>sa_key = (\<lambda>pk. pk = [1]), sa_signature = (\<lambda>s. length s = 1), sa_verify = (\<lambda>pk msg s. pk = [1] \<and> s = [2])\<rparr>"

definition toy_sigs :: sig_params where
  "toy_sigs = \<lparr>sg_p256 = toy_alg, sg_p384 = toy_alg, sg_ed25519 = toy_alg, sg_pss_sha256 = toy_alg, sg_pss_sha384 = toy_alg,
     sg_pss_sha512 = toy_alg, sg_pkcs1_sha256 = toy_alg, sg_pkcs1_sha384 = toy_alg, sg_pkcs1_sha512 = toy_alg,
     has_p384 = False, has_ed25519 = False, has_rsa = False\<rparr>"

lemma toy_der_laws: "der_laws toy_der length"
  by (auto simp: der_laws_def toy_der_def split: list.splits if_splits)

lemma cv_verify_certificate_returns:
  assumes "der_laws D left"
  shows "\<exists>r. cv_verify_certificate D S n now t cert v = Some r"
proof -
  obtain r where "links_loop D S now \<lparr>common_name = None, san_dns_names = []\<rparr> (links (cv_ca v) (rev (cert_entries cert))) = Some r"
    using links_loop_returns [OF assms] by blast
  then show ?thesis by (simp add: cv_verify_certificate_def chain_loop_links)
qed

definition toy_verifier :: cert_verifier where
  "toy_verifier = (cert_verifier_new (X509 [9]))\<lparr>cv_host := Some [97]\<rparr>"

definition pki_provider :: "(cert_verifier crypto_provider)" where
  "pki_provider = \<lparr>cp_random = (\<lambda>p. (replicate 32 5, p)), cp_secret = (\<lambda>p. ([6], p)), cp_verifier = return (),
     cp_set_hostname = set_hostname_verification,
     cp_verify_certificate = (\<lambda>t c v. the (cv_verify_certificate toy_der toy_sigs 64 (\<lambda>_. Some 15) t c v)),
     cp_verify_signature = cv_verify_signature toy_der toy_sigs toy_suite,
     cp_client_cert = (\<lambda>p. (None, p)), cp_signer = throw Unimplemented\<rparr>"

lemma pki_provides:
  "provides pki_provider (\<lambda>now. cv_verify_certificate toy_der toy_sigs 64 now) (cv_verify_signature toy_der toy_sigs toy_suite)"
proof -
  have "cv_verify_certificate toy_der toy_sigs 64 (\<lambda>_. Some 15) t c v = Some (the (cv_verify_certificate toy_der toy_sigs 64 (\<lambda>_. Some 15) t c v))" for t c v
    using cv_verify_certificate_returns [OF toy_der_laws, of toy_sigs 64 "\<lambda>_. Some 15" t c v] by auto
  then show ?thesis unfolding provides_def by (auto simp: pki_provider_def return_def)
qed

definition toy_certificate :: certificate_ref where
  "toy_certificate = \<lparr>raw_entries = [0, 0, 2, 7, 7, 0, 0], request_context = [], cert_entries = [X509 [7, 7]]\<rparr>"

lemma toy_certificate_parse: "\<exists>buf. fst (certificate_ref_parse buf) = Ok toy_certificate"
  by (rule exI [of _ "pb_new [0, 0, 0, 7, 0, 0, 2, 7, 7, 0, 0]"]) code_simp

definition toy_signature :: certificate_verify where
  "toy_signature = \<lparr>cv_signature_scheme = EcdsaSecp256r1Sha256, cv_signature = [2]\<rparr>"

lemmas toy_evals = toy_der_def toy_sigs_def toy_alg_def toy_certificate_def toy_verifier_def cert_verifier_new_def toy_signature_def
  verify_certificate_def algorithm_check_def check_cert_signature_def check_signature_def extract_common_name_def
  extract_san_dns_names_def expired_def get_certificate_tlv_bytes_def HOSTNAME_MAXLEN_def tls_hostname_match_def
  tls_hostname_match_impl_def ascii_alnum_def certificate_try_from_ref_def owned_of_def verify_signature_def scheme_check_def

lemma toy_handled:
  "\<exists>q. handled toy_suite pki_provider toy_verifier
     [([5], SR_Handshake (ServerCertificate toy_certificate)), ([6], SR_Handshake (ServerCertificateVerify toy_signature))] q"
proof -
  let ?v = "toy_verifier\<lparr>cv_certificate := Some (owned_of toy_certificate), cv_transcript := Some [5]\<rparr>"
  have "cv_verify_certificate toy_der toy_sigs 64 (\<lambda>_. Some 15) [5] toy_certificate toy_verifier = Some (Ok (), ?v)"
    unfolding cv_verify_certificate_def chain_loop_links by (simp add: toy_evals)
  then have "cp_verify_certificate pki_provider [5] toy_certificate toy_verifier = (Ok (), ?v)" by (simp add: pki_provider_def)
  from handled_certificate [OF handled.start _ this]
  have first: "handled toy_suite pki_provider toy_verifier [([5], SR_Handshake (ServerCertificate toy_certificate))] ?v"
    by (simp add: pki_provider_def return_def)
  have "certificate_ref_try_from (owned_of toy_certificate) = Ok toy_certificate" by code_simp
  then have "cv_verify_signature toy_der toy_sigs toy_suite toy_signature ?v = (Ok (), ?v\<lparr>cv_transcript := None\<rparr>)"
    by (simp add: cv_verify_signature_def Let_def toy_evals signed_message_def server_signature_context_def toy_suite_def ascii_def)
  then have "cp_verify_signature pki_provider toy_signature ?v = (Ok (), ?v\<lparr>cv_transcript := None\<rparr>)" by (simp add: pki_provider_def)
  from handled_signature [OF first _ this, of "[6]"] show ?thesis by (auto simp: pki_provider_def return_def)
qed

lemma reparse:
  "fst (certificate_ref_parse buf) = Ok c \<Longrightarrow> \<exists>c'. certificate_ref_try_from (owned_of c) = Ok c' \<and> cert_entries c' = cert_entries c"
  by (auto simp: certificate_ref_parse_def certificate_ref_try_from_def owned_of_def bind_apply lift_result_def return_def
      split: result.splits prod.splits)

lemma leaf_signs_parsed:
  assumes "leaf_signs_owned D S C t (owned_of c) verify" "fst (certificate_ref_parse buf) = Ok c"
  shows "leaf_signs D S (signed_message C t) (cert_entries c) verify"
  using assms(1) reparse [OF assms(2)] by (auto simp: leaf_signs_owned_def)

section \<open>Properties\<close>

text \<open>
  C10: the certificate verifier accepts a server's certificates, for an anchor, a clock and a host name,
  exactly if every certificate of the chain is within its validity and signed, with an enabled
  algorithm, by the key of the next one, the last one by the anchor's key, the names of every certificate
  can be read and those of the first match the host name (a chain without certificates passes if there is no host
  name), and the certificates fit its store.  It then has kept the certificates and the transcript.
\<close>

theorem certificate_accepted_iff:
  "cv_verify_certificate D S n now t cert v = Some (Ok (), v') \<longleftrightarrow>
     chain_accepted D S now (cv_ca v) (cert_entries cert) \<and> host_accepted D (cert_entries cert) (cv_host v) \<and>
     length (request_context cert) \<le> 256 \<and> length (raw_entries cert) \<le> n \<and>
     v' = v\<lparr>cv_certificate := Some \<lparr>own_request_context = request_context cert, own_entries_data = raw_entries cert\<rparr>,
       cv_transcript := Some t\<rparr>"
  by (rule cv_verify_certificate_iff)

text \<open>
  C11: whatever a server sends in its flight, if the client, with the certificate verifier of src/pki.rs, accepts a
  CertificateVerify, it has accepted a Certificate before, with no other Certificate or CertificateVerify in between, whose chain
  leads to the verifier's anchor and whose first certificate is for the host name; and the signature
  verifies, under the key of that first certificate and with an enabled algorithm, for the context string and the hash of the
  transcript up to that Certificate.
\<close>

theorem server_proves_possession:
  assumes "provides P (\<lambda>now. cv_verify_certificate D S n now) (cv_verify_signature D S C)"
    and "handled C P v (xs @ (u, SR_Handshake (ServerCertificateVerify verify)) # ys) v'" "cv_transcript v = None"
    and "\<forall>t c. (t, SR_Handshake (ServerCertificate c)) \<in> set xs \<longrightarrow> (\<exists>buf. fst (certificate_ref_parse buf) = Ok c)"
  shows "\<exists>us t c vs now. xs = us @ (t, SR_Handshake (ServerCertificate c)) # vs \<and>
     list_all (\<lambda>(_, rec). \<not> is_certificate rec \<and> \<not> is_certificate_verify rec) vs \<and>
     chain_accepted D S now (cv_ca v) (cert_entries c) \<and> host_accepted D (cert_entries c) (cv_host v) \<and>
     leaf_signs D S (signed_message C t) (cert_entries c) verify"
proof -
  have "cv_pending v = None" using assms(3) by (simp add: cv_pending_def)
  from pv.signature_after_certificate [OF assms(2,1) this]
  obtain us c vs now t where split: "xs = us @ (t, SR_Handshake (ServerCertificate c)) # vs"
    "list_all (\<lambda>(_, rec). \<not> is_certificate rec \<and> \<not> is_certificate_verify rec) vs"
    "chain_accepted D S now (cv_ca v) (cert_entries c)" "host_accepted D (cert_entries c) (cv_host v)"
    and signs: "leaf_signs_owned D S C t (owned_of c) verify"
    unfolding prod.case by blast
  obtain buf where "fst (certificate_ref_parse buf) = Ok c" using assms(4) split(1) by auto
  with signs have "leaf_signs D S (signed_message C t) (cert_entries c) verify" by (rule leaf_signs_parsed)
  with split show ?thesis by blast
qed

theorem server_proves_possession_witness:
  "\<exists>us t c vs now. [([5], SR_Handshake (ServerCertificate toy_certificate))] = us @ (t, SR_Handshake (ServerCertificate c)) # vs \<and>
     list_all (\<lambda>(_, rec). \<not> is_certificate rec \<and> \<not> is_certificate_verify rec) vs \<and>
     chain_accepted toy_der toy_sigs now (X509 [9]) (cert_entries c) \<and> host_accepted toy_der (cert_entries c) (Some [97]) \<and>
     leaf_signs toy_der toy_sigs (signed_message toy_suite t) (cert_entries c) toy_signature"
proof -
  obtain q where q: "handled toy_suite pki_provider toy_verifier ([([5], SR_Handshake (ServerCertificate toy_certificate))] @
     ([6], SR_Handshake (ServerCertificateVerify toy_signature)) # []) q" using toy_handled by auto
  from server_proves_possession [OF pki_provides q] toy_certificate_parse show ?thesis
    by (simp add: toy_verifier_def cert_verifier_new_def)
qed

text \<open>
  C35: checking a server's certificates returns, whatever they are, if the readers of the ASN.1 decoder
  consume what they read.
\<close>

theorem certificate_check_returns:
  assumes "der_laws D left"
  shows "\<exists>r. cv_verify_certificate D S n now t cert v = Some r"
  by (rule cv_verify_certificate_returns [OF assms])

theorem certificate_check_returns_witness:
  "\<exists>r. cv_verify_certificate toy_der toy_sigs 64 (\<lambda>_. Some 15) [5] toy_certificate toy_verifier = Some r"
  by (rule certificate_check_returns [OF toy_der_laws])

end
