(* ===== verification/Webpki.thy ===== *)
theory Webpki
  imports Pki
begin

text \<open>
  The other certificate verifier, of src/webpki.rs.  The \<open>webpki\<close> crate is third-party code and a
  parameter.  The verifier meets the same interface as the one of src/pki.rs.
\<close>

section \<open>The crate\<close>

datatype webpki_algorithm =
    W_ECDSA_P256_SHA256 | W_ECDSA_P256_SHA384 | W_ECDSA_P384_SHA256 | W_ECDSA_P384_SHA384 | W_ED25519
  | W_RSA_PKCS1_2048_8192_SHA256 | W_RSA_PKCS1_2048_8192_SHA384 | W_RSA_PKCS1_2048_8192_SHA512
  | W_RSA_PSS_2048_8192_SHA256_LEGACY_KEY | W_RSA_PSS_2048_8192_SHA384_LEGACY_KEY | W_RSA_PSS_2048_8192_SHA512_LEGACY_KEY

text \<open>
  \<open>'e\<close> is an \<open>EndEntityCert\<close> and \<open>'a\<close> a \<open>TrustAnchor\<close>.  The verifier drops the errors of the crate, so that
  the checks are predicates; \<open>wp_verify_for_usage\<close> is for the usage \<open>server_auth\<close>, no intermediate certificates and
  no revocation lists, and \<open>wp_valid_for_name\<close> is false for what is not a name.
\<close>

record ('e, 'a) webpki_params =
  wp_end_entity :: "bytes \<Rightarrow> 'e option"
  wp_trust_anchor :: "bytes \<Rightarrow> 'a option"
  wp_verify_for_usage :: "webpki_algorithm list \<Rightarrow> 'a list \<Rightarrow> u64 \<Rightarrow> 'e \<Rightarrow> bool"
  wp_valid_for_name :: "bytes \<Rightarrow> 'e \<Rightarrow> bool"
  wp_verify_signature :: "webpki_algorithm \<Rightarrow> bytes \<Rightarrow> bytes \<Rightarrow> 'e \<Rightarrow> bool"

section \<open>Signature algorithms\<close>

text \<open>The conversion of a signature scheme without the feature \<open>alloc\<close>, and with it.\<close>

fun scheme_try_into :: "signature_scheme \<Rightarrow> (webpki_algorithm, tls_error) result" where
  "scheme_try_into RsaPkcs1Sha256 = Err InvalidSignatureScheme"
| "scheme_try_into RsaPkcs1Sha384 = Err InvalidSignatureScheme"
| "scheme_try_into RsaPkcs1Sha512 = Err InvalidSignatureScheme"
| "scheme_try_into EcdsaSecp256r1Sha256 = Ok W_ECDSA_P256_SHA256"
| "scheme_try_into EcdsaSecp384r1Sha384 = Ok W_ECDSA_P384_SHA384"
| "scheme_try_into EcdsaSecp521r1Sha512 = Err InvalidSignatureScheme"
| "scheme_try_into RsaPssRsaeSha256 = Err InvalidSignatureScheme"
| "scheme_try_into RsaPssRsaeSha384 = Err InvalidSignatureScheme"
| "scheme_try_into RsaPssRsaeSha512 = Err InvalidSignatureScheme"
| "scheme_try_into Ed25519 = Ok W_ED25519"
| "scheme_try_into Ed448 = Err InvalidSignatureScheme"
| "scheme_try_into Sha224Ecdsa = Err InvalidSignatureScheme"
| "scheme_try_into Sha224Rsa = Err InvalidSignatureScheme"
| "scheme_try_into Sha224Dsa = Err InvalidSignatureScheme"
| "scheme_try_into RsaPssPssSha256 = Err InvalidSignatureScheme"
| "scheme_try_into RsaPssPssSha384 = Err InvalidSignatureScheme"
| "scheme_try_into RsaPssPssSha512 = Err InvalidSignatureScheme"
| "scheme_try_into RsaPkcs1Sha1 = Err InvalidSignatureScheme"
| "scheme_try_into EcdsaSha1 = Err InvalidSignatureScheme"
| "scheme_try_into MlDsa44 = Err InvalidSignatureScheme"
| "scheme_try_into MlDsa65 = Err InvalidSignatureScheme"
| "scheme_try_into MlDsa87 = Err InvalidSignatureScheme"
| "scheme_try_into Sha256BrainpoolP256r1 = Err InvalidSignatureScheme"
| "scheme_try_into Sha384BrainpoolP384r1 = Err InvalidSignatureScheme"
| "scheme_try_into Sha512BrainpoolP512r1 = Err InvalidSignatureScheme"

fun scheme_try_into_alloc :: "signature_scheme \<Rightarrow> (webpki_algorithm, tls_error) result" where
  "scheme_try_into_alloc RsaPkcs1Sha256 = Ok W_RSA_PKCS1_2048_8192_SHA256"
| "scheme_try_into_alloc RsaPkcs1Sha384 = Ok W_RSA_PKCS1_2048_8192_SHA384"
| "scheme_try_into_alloc RsaPkcs1Sha512 = Ok W_RSA_PKCS1_2048_8192_SHA512"
| "scheme_try_into_alloc EcdsaSecp256r1Sha256 = Ok W_ECDSA_P256_SHA256"
| "scheme_try_into_alloc EcdsaSecp384r1Sha384 = Ok W_ECDSA_P384_SHA384"
| "scheme_try_into_alloc EcdsaSecp521r1Sha512 = Err InvalidSignatureScheme"
| "scheme_try_into_alloc RsaPssRsaeSha256 = Ok W_RSA_PSS_2048_8192_SHA256_LEGACY_KEY"
| "scheme_try_into_alloc RsaPssRsaeSha384 = Ok W_RSA_PSS_2048_8192_SHA384_LEGACY_KEY"
| "scheme_try_into_alloc RsaPssRsaeSha512 = Ok W_RSA_PSS_2048_8192_SHA512_LEGACY_KEY"
| "scheme_try_into_alloc Ed25519 = Ok W_ED25519"
| "scheme_try_into_alloc Ed448 = Err InvalidSignatureScheme"
| "scheme_try_into_alloc Sha224Ecdsa = Err InvalidSignatureScheme"
| "scheme_try_into_alloc Sha224Rsa = Err InvalidSignatureScheme"
| "scheme_try_into_alloc Sha224Dsa = Err InvalidSignatureScheme"
| "scheme_try_into_alloc RsaPssPssSha256 = Err InvalidSignatureScheme"
| "scheme_try_into_alloc RsaPssPssSha384 = Err InvalidSignatureScheme"
| "scheme_try_into_alloc RsaPssPssSha512 = Err InvalidSignatureScheme"
| "scheme_try_into_alloc RsaPkcs1Sha1 = Err InvalidSignatureScheme"
| "scheme_try_into_alloc EcdsaSha1 = Err InvalidSignatureScheme"
| "scheme_try_into_alloc MlDsa44 = Err InvalidSignatureScheme"
| "scheme_try_into_alloc MlDsa65 = Err InvalidSignatureScheme"
| "scheme_try_into_alloc MlDsa87 = Err InvalidSignatureScheme"
| "scheme_try_into_alloc Sha256BrainpoolP256r1 = Err InvalidSignatureScheme"
| "scheme_try_into_alloc Sha384BrainpoolP384r1 = Err InvalidSignatureScheme"
| "scheme_try_into_alloc Sha512BrainpoolP512r1 = Err InvalidSignatureScheme"

definition to_webpki :: "bool \<Rightarrow> signature_scheme \<Rightarrow> (webpki_algorithm, tls_error) result" where
  "to_webpki alloc = (if alloc then scheme_try_into_alloc else scheme_try_into)"

definition ALL_SIGALGS :: "webpki_algorithm list" where
  "ALL_SIGALGS = [W_ECDSA_P256_SHA256, W_ECDSA_P256_SHA384, W_ECDSA_P384_SHA256, W_ECDSA_P384_SHA384, W_ED25519]"

section \<open>The verifier\<close>

record webpki_verifier =
  wv_ca :: certificate_entry_ref
  wv_host :: "bytes option"
  wv_transcript :: "bytes option"
  wv_certificate :: "certificate_owned option"

definition webpki_verifier_new :: "certificate_entry_ref \<Rightarrow> webpki_verifier" where
  "webpki_verifier_new ca = \<lparr>wv_ca = ca, wv_host = None, wv_transcript = None, wv_certificate = None\<rparr>"

definition wv_set_hostname_verification :: "bytes \<Rightarrow> (webpki_verifier, unit, tls_error) comp" where
  "wv_set_hostname_verification hostname = (\<lambda>v.
     if length hostname > 64 then (Err InsufficientSpace, v) else (Ok (), v\<lparr>wv_host := Some hostname\<rparr>))"

text \<open>The function \<open>verify_signature\<close>.\<close>

definition webpki_verify_signature ::
  "('e, 'a) webpki_params \<Rightarrow> bool \<Rightarrow> bytes \<Rightarrow> certificate_ref \<Rightarrow> certificate_verify \<Rightarrow> (unit, tls_error) result" where
  "webpki_verify_signature W alloc message certificate verify =
     (case cert_entries certificate of
        X509 certificate # _ \<Rightarrow>
          (case wp_end_entity W certificate of
             None \<Rightarrow> Err DecodeError
           | Some cert \<Rightarrow>
               (case to_webpki alloc (cv_signature_scheme verify) of
                  Ok pkisig \<Rightarrow>
                    if wp_verify_signature W pkisig message (cv_signature verify) cert then Ok () else Err InvalidSignature
                | Err e \<Rightarrow> Err e
                | Panic \<Rightarrow> Panic))
      | _ \<Rightarrow> Err InvalidSignature)"

text \<open>The function \<open>verify_certificate\<close>: its two flags are the pair of the inner cases.\<close>

definition webpki_verify_certificate ::
  "('e, 'a) webpki_params \<Rightarrow> bytes option \<Rightarrow> certificate_entry_ref \<Rightarrow> certificate_ref \<Rightarrow> u64 option \<Rightarrow> (unit, tls_error) result" where
  "webpki_verify_certificate W verify_host ca certificate now =
     (case (case ca of
          RawPublicKey _ \<Rightarrow> Ok (False, False)
        | X509 ca \<Rightarrow>
            (case wp_trust_anchor W ca of
               None \<Rightarrow> Err DecodeError
             | Some trust \<Rightarrow>
                 (case cert_entries certificate of
                    X509 certificate # _ \<Rightarrow>
                      (case wp_end_entity W certificate of
                         None \<Rightarrow> Err DecodeError
                       | Some cert \<Rightarrow>
                           (let time = (case now of Some now \<Rightarrow> now | None \<Rightarrow> 0);
                                verified = wp_verify_for_usage W ALL_SIGALGS [trust] time cert;
                                host_verified = (case verify_host of
                                   Some server_name \<Rightarrow> wp_valid_for_name W server_name cert
                                 | None \<Rightarrow> False)
                            in Ok (verified, host_verified)))
                  | _ \<Rightarrow> Ok (False, False)))) of
        Ok (verified, host_verified) \<Rightarrow>
          if \<not> verified then Err InvalidCertificate
          else if \<not> host_verified \<and> verify_host \<noteq> None then Err InvalidCertificate
          else Ok ()
      | Err e \<Rightarrow> Err e
      | Panic \<Rightarrow> Panic)"

definition wv_verify_certificate ::
  "('e, 'a) webpki_params \<Rightarrow> nat \<Rightarrow> u64 option \<Rightarrow> bytes \<Rightarrow> certificate_ref \<Rightarrow> (webpki_verifier, unit, tls_error) comp" where
  "wv_verify_certificate W cert_size now transcript cert = (\<lambda>v.
     case webpki_verify_certificate W (wv_host v) (wv_ca v) cert now of
       Ok _ \<Rightarrow>
         (case certificate_try_from_ref cert_size cert of
            Ok owned \<Rightarrow> (Ok (), v\<lparr>wv_certificate := Some owned, wv_transcript := Some transcript\<rparr>)
          | Err e \<Rightarrow> (Err e, v)
          | Panic \<Rightarrow> (Panic, v))
     | Err e \<Rightarrow> (Err e, v)
     | Panic \<Rightarrow> (Panic, v))"

text \<open>The message of a signature is put together in a vector with room for 130 bytes.\<close>

definition wv_verify_signature ::
  "('e, 'a) webpki_params \<Rightarrow> bool \<Rightarrow> cipher_suite_params \<Rightarrow> certificate_verify \<Rightarrow> (webpki_verifier, unit, tls_error) comp" where
  "wv_verify_signature W alloc C verify = (\<lambda>v.
     case wv_transcript v of
       None \<Rightarrow> (Panic, v)
     | Some t \<Rightarrow>
         (let v1 = v\<lparr>wv_transcript := None\<rparr> in
          if length (signed_message C t) > 130 then (Err EncodeError, v1)
          else case wv_certificate v of
            None \<Rightarrow> (Panic, v1)
          | Some owned \<Rightarrow>
              (case certificate_ref_try_from owned of
                 Ok certificate \<Rightarrow> (webpki_verify_signature W alloc (signed_message C t) certificate verify, v1)
               | Err e \<Rightarrow> (Err e, v1)
               | Panic \<Rightarrow> (Panic, v1))))"

section \<open>What it accepts\<close>

definition anchor_vouches ::
  "('e, 'a) webpki_params \<Rightarrow> u64 option \<Rightarrow> certificate_entry_ref \<times> bytes option \<Rightarrow> certificate_ref \<Rightarrow> bool" where
  "anchor_vouches W now a certificate \<longleftrightarrow>
     (\<exists>ca leaf rest trust cert. fst a = X509 ca \<and> cert_entries certificate = X509 leaf # rest \<and>
        wp_trust_anchor W ca = Some trust \<and> wp_end_entity W leaf = Some cert \<and>
        wp_verify_for_usage W ALL_SIGALGS [trust] (case now of Some t \<Rightarrow> t | None \<Rightarrow> 0) cert \<and>
        (\<forall>host. snd a = Some host \<longrightarrow> wp_valid_for_name W host cert))"

definition webpki_leaf_signs ::
  "('e, 'a) webpki_params \<Rightarrow> bool \<Rightarrow> bytes \<Rightarrow> certificate_entry_ref list \<Rightarrow> certificate_verify \<Rightarrow> bool" where
  "webpki_leaf_signs W alloc message es verify \<longleftrightarrow>
     (\<exists>leaf rest cert alg. es = X509 leaf # rest \<and> wp_end_entity W leaf = Some cert \<and>
        to_webpki alloc (cv_signature_scheme verify) = Ok alg \<and> wp_verify_signature W alg message (cv_signature verify) cert)"

definition wv_pending :: "webpki_verifier \<Rightarrow> (bytes \<times> certificate_owned) option" where
  "wv_pending v = (case (wv_transcript v, wv_certificate v) of (Some t, Some own) \<Rightarrow> Some (t, own) | _ \<Rightarrow> None)"

lemma webpki_verify_certificate_iff:
  "webpki_verify_certificate W host ca certificate now = Ok () \<longleftrightarrow> anchor_vouches W now (ca, host) certificate"
  unfolding webpki_verify_certificate_def anchor_vouches_def
  by (auto simp: Let_def split: certificate_entry_ref.splits option.splits list.splits)

lemma webpki_verify_signature_iff:
  "webpki_verify_signature W alloc message c verify = Ok () \<longleftrightarrow> webpki_leaf_signs W alloc message (cert_entries c) verify"
  unfolding webpki_verify_signature_def webpki_leaf_signs_def
  by (auto split: certificate_entry_ref.splits option.splits list.splits result.splits if_splits)

lemma wv_verify_certificate_iff:
  "wv_verify_certificate W n now t cert v = (Ok (), v') \<longleftrightarrow>
     anchor_vouches W now (wv_ca v, wv_host v) cert \<and>
     length (request_context cert) \<le> 256 \<and> length (raw_entries cert) \<le> n \<and>
     v' = v\<lparr>wv_certificate := Some (owned_of cert), wv_transcript := Some t\<rparr>"
  unfolding webpki_verify_certificate_iff [symmetric]
  by (cases "webpki_verify_certificate W (wv_host v) (wv_ca v) cert now")
    (auto simp: wv_verify_certificate_def certificate_try_from_ref_def owned_of_def)

definition webpki_leaf_signs_owned ::
  "('e, 'a) webpki_params \<Rightarrow> bool \<Rightarrow> cipher_suite_params \<Rightarrow> bytes \<Rightarrow> certificate_owned \<Rightarrow> certificate_verify \<Rightarrow> bool" where
  "webpki_leaf_signs_owned W alloc C t own verify \<longleftrightarrow>
     (\<exists>c. certificate_ref_try_from own = Ok c \<and> webpki_leaf_signs W alloc (signed_message C t) (cert_entries c) verify)"

lemma wv_verify_signature_OkD:
  assumes "wv_verify_signature W alloc C verify v = (Ok (), v')" "wv_pending v = Some (t, own)"
  shows "webpki_leaf_signs_owned W alloc C t own verify \<and> v' = v\<lparr>wv_transcript := None\<rparr>"
  using assms
  by (auto simp: wv_verify_signature_def wv_pending_def webpki_leaf_signs_owned_def Let_def webpki_verify_signature_iff
      split: option.splits if_splits result.splits)

interpretation wv: tls_verifier "\<lambda>now t c v. Some (wv_verify_certificate W n now t c v)" "wv_verify_signature W alloc C" wv_pending
  "\<lambda>v. (wv_ca v, wv_host v)" "anchor_vouches W" "webpki_leaf_signs_owned W alloc C"
  for W :: "('e, 'a) webpki_params" and n alloc C
proof (unfold_locales, goal_cases)
  case (1 now t c v v')
  then show ?case by (simp add: wv_verify_certificate_iff wv_pending_def)
next
  case (2 v verify)
  then show ?case by (auto simp: wv_verify_signature_def wv_pending_def Let_def split: option.splits)
next
  case (3 v t own verify v')
  from wv_verify_signature_OkD [OF 3(2,1)] show ?case by (auto simp: wv_pending_def)
qed

lemma webpki_leaf_signs_parsed:
  assumes "webpki_leaf_signs_owned W alloc C t (owned_of c) verify" "fst (certificate_ref_parse buf) = Ok c"
  shows "webpki_leaf_signs W alloc (signed_message C t) (cert_entries c) verify"
  using assms(1) reparse [OF assms(2)] by (auto simp: webpki_leaf_signs_owned_def)

section \<open>A certificate to check\<close>

definition toy_webpki :: "(bytes, bytes) webpki_params" where
  "toy_webpki = \<lparr>wp_end_entity = Some, wp_trust_anchor = Some,
     wp_verify_for_usage = (\<lambda>algs anchors t cert. anchors = [[9]] \<and> t = 15), wp_valid_for_name = (\<lambda>name cert. name = [97]),
     wp_verify_signature = (\<lambda>alg msg s cert. s = [2])\<rparr>"

definition webpki_provider :: "webpki_verifier crypto_provider" where
  "webpki_provider = \<lparr>cp_random = (\<lambda>p. (replicate 32 5, p)), cp_secret = (\<lambda>p. ([6], p)), cp_verifier = return (),
     cp_set_hostname = wv_set_hostname_verification,
     cp_verify_certificate = wv_verify_certificate toy_webpki 64 (Some 15),
     cp_verify_signature = wv_verify_signature toy_webpki False toy_suite,
     cp_client_cert = (\<lambda>p. (None, p)), cp_signer = throw Unimplemented\<rparr>"

lemma webpki_provides:
  "provides webpki_provider (\<lambda>now t c v. Some (wv_verify_certificate toy_webpki 64 now t c v)) (wv_verify_signature toy_webpki False toy_suite)"
  unfolding provides_def by (auto simp: webpki_provider_def return_def)

definition toy_webpki_verifier :: webpki_verifier where
  "toy_webpki_verifier = (webpki_verifier_new (X509 [9]))\<lparr>wv_host := Some [97]\<rparr>"

lemma toy_webpki_handled:
  "\<exists>q. handled toy_suite webpki_provider toy_webpki_verifier
     [([5], SR_Handshake (ServerCertificate toy_certificate)), ([6], SR_Handshake (ServerCertificateVerify toy_signature))] q"
proof -
  let ?v = "toy_webpki_verifier\<lparr>wv_certificate := Some (owned_of toy_certificate), wv_transcript := Some [5]\<rparr>"
  have "wv_verify_certificate toy_webpki 64 (Some 15) [5] toy_certificate toy_webpki_verifier = (Ok (), ?v)"
    unfolding wv_verify_certificate_iff anchor_vouches_def
    by (simp add: toy_webpki_def toy_webpki_verifier_def webpki_verifier_new_def toy_certificate_def)
  then have "cp_verify_certificate webpki_provider [5] toy_certificate toy_webpki_verifier = (Ok (), ?v)"
    by (simp add: webpki_provider_def)
  from handled_certificate [OF handled.start _ this]
  have first: "handled toy_suite webpki_provider toy_webpki_verifier [([5], SR_Handshake (ServerCertificate toy_certificate))] ?v"
    by (simp add: webpki_provider_def return_def)
  have "certificate_ref_try_from (owned_of toy_certificate) = Ok toy_certificate" by code_simp
  then have "wv_verify_signature toy_webpki False toy_suite toy_signature ?v = (Ok (), ?v\<lparr>wv_transcript := None\<rparr>)"
    by (simp add: wv_verify_signature_def Let_def toy_webpki_def webpki_verify_signature_def signed_message_def
        server_signature_context_def toy_suite_def ascii_def toy_certificate_def toy_signature_def to_webpki_def)
  then have "cp_verify_signature webpki_provider toy_signature ?v = (Ok (), ?v\<lparr>wv_transcript := None\<rparr>)"
    by (simp add: webpki_provider_def)
  from handled_signature [OF first _ this, of "[6]"] show ?thesis by (auto simp: webpki_provider_def return_def)
qed

section \<open>Properties\<close>

text \<open>
  C37: the verifier of src/webpki.rs accepts a server's certificates exactly if the anchor is a certificate, the
  first entry is one that the \<open>webpki\<close> crate verifies as a server's directly under the anchor at the clock's
  time (at the epoch without a clock) and for the host name if there is one, and the certificates
  fit its store.  The other entries do not matter.  It then has kept the certificates and the transcript.
\<close>

theorem webpki_certificate_accepted_iff:
  "wv_verify_certificate W n now t cert v = (Ok (), v') \<longleftrightarrow>
     (\<exists>ca leaf rest trust c. wv_ca v = X509 ca \<and> cert_entries cert = X509 leaf # rest \<and>
        wp_trust_anchor W ca = Some trust \<and> wp_end_entity W leaf = Some c \<and>
        wp_verify_for_usage W ALL_SIGALGS [trust] (case now of Some t \<Rightarrow> t | None \<Rightarrow> 0) c \<and>
        (wv_host v = None \<or> (\<exists>host. wv_host v = Some host \<and> wp_valid_for_name W host c))) \<and>
     length (request_context cert) \<le> 256 \<and> length (raw_entries cert) \<le> n \<and>
     v' = v\<lparr>wv_certificate := Some (owned_of cert), wv_transcript := Some t\<rparr>"
  unfolding wv_verify_certificate_iff anchor_vouches_def by (cases "wv_host v") auto

text \<open>
  C38: with the verifier of src/webpki.rs, too, a CertificateVerify is only accepted if a Certificate was before,
  with no other Certificate or CertificateVerify in between, whose first certificate is vouched for by the anchor, and if the
  signature verifies under that certificate for the context string and the hash of the transcript up to
  that Certificate.
\<close>

theorem webpki_server_proves_possession:
  assumes "provides P (\<lambda>now t c v. Some (wv_verify_certificate W n now t c v)) (wv_verify_signature W alloc C)"
    and "handled C P v (xs @ (u, SR_Handshake (ServerCertificateVerify verify)) # ys) v'" "wv_transcript v = None"
    and "\<forall>t c. (t, SR_Handshake (ServerCertificate c)) \<in> set xs \<longrightarrow> (\<exists>buf. fst (certificate_ref_parse buf) = Ok c)"
  shows "\<exists>us t c vs now. xs = us @ (t, SR_Handshake (ServerCertificate c)) # vs \<and>
     list_all (\<lambda>(_, rec). \<not> is_certificate rec \<and> \<not> is_certificate_verify rec) vs \<and>
     anchor_vouches W now (wv_ca v, wv_host v) c \<and> webpki_leaf_signs W alloc (signed_message C t) (cert_entries c) verify"
proof -
  have "wv_pending v = None" using assms(3) by (simp add: wv_pending_def)
  from wv.signature_after_certificate [OF assms(2,1) this]
  obtain us c vs now t where split: "xs = us @ (t, SR_Handshake (ServerCertificate c)) # vs"
    "list_all (\<lambda>(_, rec). \<not> is_certificate rec \<and> \<not> is_certificate_verify rec) vs"
    "anchor_vouches W now (wv_ca v, wv_host v) c"
    and signs: "webpki_leaf_signs_owned W alloc C t (owned_of c) verify"
    by blast
  obtain buf where "fst (certificate_ref_parse buf) = Ok c" using assms(4) split(1) by auto
  with signs have "webpki_leaf_signs W alloc (signed_message C t) (cert_entries c) verify" by (rule webpki_leaf_signs_parsed)
  with split show ?thesis by blast
qed

theorem webpki_server_proves_possession_witness:
  "\<exists>us t c vs now. [([5], SR_Handshake (ServerCertificate toy_certificate))] = us @ (t, SR_Handshake (ServerCertificate c)) # vs \<and>
     list_all (\<lambda>(_, rec). \<not> is_certificate rec \<and> \<not> is_certificate_verify rec) vs \<and>
     anchor_vouches toy_webpki now (X509 [9], Some [97]) c \<and>
     webpki_leaf_signs toy_webpki False (signed_message toy_suite t) (cert_entries c) toy_signature"
proof -
  obtain q where q: "handled toy_suite webpki_provider toy_webpki_verifier ([([5], SR_Handshake (ServerCertificate toy_certificate))] @
     ([6], SR_Handshake (ServerCertificateVerify toy_signature)) # []) q" using toy_webpki_handled by auto
  from webpki_server_proves_possession [OF webpki_provides q] toy_certificate_parse show ?thesis
    by (simp add: toy_webpki_verifier_def webpki_verifier_new_def)
qed

text \<open>
  C39: with a hash of more than 32 bytes, as in the SHA-384 suites, no signature is ever accepted by the
  verifier of src/webpki.rs: the signed message does not fit its vector.
\<close>

theorem webpki_long_hash_rejected:
  assumes "\<forall>m. length (hash C m) > 32"
  shows "fst (wv_verify_signature W alloc C verify v) \<noteq> Ok () \<and>
    (wv_transcript v \<noteq> None \<longleftrightarrow> fst (wv_verify_signature W alloc C verify v) = Err EncodeError)"
proof -
  have "length (signed_message C t) > 130" for t
    using assms [rule_format, of t] by (simp add: signed_message_def server_signature_context_def ascii_def)
  then show ?thesis by (auto simp: wv_verify_signature_def Let_def split: option.split)
qed

theorem webpki_long_hash_rejected_witness:
  "fst (wv_verify_signature toy_webpki False (toy_suite\<lparr>hash := (\<lambda>m. replicate 48 0)\<rparr>) toy_signature
     (toy_webpki_verifier\<lparr>wv_transcript := Some [1], wv_certificate := Some (owned_of toy_certificate)\<rparr>)) = Err EncodeError"
  using webpki_long_hash_rejected [of "toy_suite\<lparr>hash := (\<lambda>m. replicate 48 0)\<rparr>" toy_webpki False toy_signature
     "toy_webpki_verifier\<lparr>wv_transcript := Some [1], wv_certificate := Some (owned_of toy_certificate)\<rparr>"] by simp

end
