(* ===== verification/Provider.thy ===== *)
theory Provider
  imports Connection
begin

text \<open>
  The providers that src/config.rs itself has: the default methods of \<open>CryptoProvider\<close>, \<open>NoVerify\<close>, \<open>NoClock\<close>,
  \<open>NoSign\<close> and \<open>UnsecureProvider\<close>.  Random numbers and the elliptic curve's keys are the caller's and the \<open>p256\<close>
  crate's and so parameters.
\<close>

section \<open>Defaults\<close>

definition no_verify_set_hostname :: "bytes \<Rightarrow> ('v, unit, tls_error) comp" where
  "no_verify_set_hostname hostname = return ()"

definition no_verify_certificate :: "bytes \<Rightarrow> certificate_ref \<Rightarrow> ('v, unit, tls_error) comp" where
  "no_verify_certificate transcript cert = return ()"

definition no_verify_signature :: "certificate_verify \<Rightarrow> ('v, unit, tls_error) comp" where
  "no_verify_signature verify = return ()"

definition no_clock_now :: "u64 option" where
  "no_clock_now = None"

text \<open>\<open>NoSign::try_sign\<close> is \<open>unimplemented!()\<close>.\<close>

definition no_sign :: "bytes \<Rightarrow> (bytes, tls_error) result" where
  "no_sign msg = Panic"

definition default_verifier :: "('p, unit, tls_error) comp" where
  "default_verifier = throw Unimplemented"

definition default_signer :: "('p, (bytes \<Rightarrow> bytes) \<times> signature_scheme, tls_error) comp" where
  "default_signer = throw Unimplemented"

definition default_client_cert :: "'p \<Rightarrow> certificate_entry_ref option \<times> 'p" where
  "default_client_cert p = (None, p)"

section \<open>The provider without verification\<close>

text \<open>
  The two draws a ClientHello makes, 32 bytes and a secret of the curve, and \<open>SecretKey::from_sec1_der\<close> with
  \<open>SigningKey\<close>: the signatures under a key, if it can be decoded.
\<close>

record 'g rng_params =
  rng_bytes :: "'g \<Rightarrow> bytes \<times> 'g"
  rng_secret :: "'g \<Rightarrow> bytes \<times> 'g"
  sec1_signing_key :: "bytes \<Rightarrow> (bytes \<Rightarrow> bytes) option"

record 'g unsecure_provider =
  up_rng :: 'g
  up_priv_key :: "bytes option"
  up_client_cert :: "certificate_entry_ref option"

definition unsecure_provider_new :: "'g \<Rightarrow> 'g unsecure_provider" where
  "unsecure_provider_new rng = \<lparr>up_rng = rng, up_priv_key = None, up_client_cert = None\<rparr>"

definition with_priv_key :: "bytes \<Rightarrow> 'g unsecure_provider \<Rightarrow> 'g unsecure_provider" where
  "with_priv_key priv_key p = p\<lparr>up_priv_key := Some priv_key\<rparr>"

definition with_cert :: "certificate_entry_ref \<Rightarrow> 'g unsecure_provider \<Rightarrow> 'g unsecure_provider" where
  "with_cert cert p = p\<lparr>up_client_cert := Some cert\<rparr>"

definition up_signer :: "'g rng_params \<Rightarrow> ('g unsecure_provider, (bytes \<Rightarrow> bytes) \<times> signature_scheme, tls_error) comp" where
  "up_signer G =
     bind (gets up_priv_key) (\<lambda>priv_key.
     bind (lift_result (ok_or InvalidPrivateKey priv_key)) (\<lambda>key_der.
     bind (lift_result (ok_or InvalidPrivateKey (sec1_signing_key G key_der))) (\<lambda>sign.
     return (sign, EcdsaSecp256r1Sha256))))"

definition up_draw :: "('g \<Rightarrow> bytes \<times> 'g) \<Rightarrow> 'g unsecure_provider \<Rightarrow> bytes \<times> 'g unsecure_provider" where
  "up_draw draw p = (case draw (up_rng p) of (bs, g) \<Rightarrow> (bs, p\<lparr>up_rng := g\<rparr>))"

text \<open>\<open>impl CryptoProvider for UnsecureProvider\<close>: no verifier of its own.\<close>

definition unsecure :: "'g rng_params \<Rightarrow> 'g unsecure_provider crypto_provider" where
  "unsecure G = \<lparr>cp_random = up_draw (rng_bytes G), cp_secret = up_draw (rng_secret G),
     cp_verifier = default_verifier, cp_set_hostname = no_verify_set_hostname,
     cp_verify_certificate = no_verify_certificate, cp_verify_signature = no_verify_signature,
     cp_client_cert = (\<lambda>p. (up_client_cert p, p)), cp_signer = up_signer G\<rparr>"

record 'p tls_context =
  ctx_config :: tls_config
  ctx_crypto_provider :: 'p

definition tls_context_new :: "tls_config \<Rightarrow> 'p \<Rightarrow> 'p tls_context" where
  "tls_context_new config crypto_provider = \<lparr>ctx_config = config, ctx_crypto_provider = crypto_provider\<rparr>"

text \<open>Without a verifier, and with \<open>NoVerify\<close>, every Certificate and CertificateVerify passes.\<close>

lemma unsecure_certificate:
  "verify_handler C (unsecure G) (SR_Handshake (ServerCertificate cert)) s = (Ok (), s)"
  "verify_handler C (unsecure G) (SR_Handshake (ServerCertificateVerify verify)) s = (Ok (), s)"
  by (cases s; simp add: verify_handler_def with_verifier_def unsecure_def default_verifier_def bind_apply on_part_apply)+

lemma up_signer_run:
  "up_signer G p = (case up_priv_key p of
     None \<Rightarrow> (Err InvalidPrivateKey, p)
   | Some k \<Rightarrow> (case sec1_signing_key G k of None \<Rightarrow> (Err InvalidPrivateKey, p)
       | Some sign \<Rightarrow> (Ok (sign, EcdsaSecp256r1Sha256), p)))"
  by (simp add: up_signer_def bind_apply ok_or_def split: option.split)

end
