(* ===== verification/Futures.thy ===== *)
theory Futures
  imports Connection
begin

text \<open>
  The async twins of the record reader (src/record\_reader.rs: \<open>read\<close>, \<open>next_record_header\<close>, \<open>advance\<close>) and of
  the handshake driver (src/connection.rs: \<open>State::process\<close>, \<open>handle_processing_error\<close>, \<open>respond\<close>).

  A future makes progress when it is polled.  The methods of an async transport are the only places
  where the program's own futures wait, so a poll of one of them goes on to the first method of the
  transport that is pending.  Whoever polls may lose patience and drop the future: what the functions that were waiting had in
  local variables is gone, and what they had changed through references stays.  The patience, the number of
  further polls, is therefore part of the state.
\<close>

section \<open>Waiting\<close>

datatype 'a poll = Ready 'a | Pending

text \<open>
  The transport is the caller's implementation of \<open>embedded_io_async\<close>'s \<open>Read\<close> and \<open>Write\<close>.  Each method gives what
  one poll of its future does; the state includes a future in progress, which \<open>a_drop\<close> drops.
\<close>

record 't async_transport =
  a_read :: "nat \<Rightarrow> 't \<Rightarrow> (bytes, io_error_kind) result poll \<times> 't"
  a_write_all :: "bytes \<Rightarrow> 't \<Rightarrow> (unit, io_error_kind) result poll \<times> 't"
  a_flush :: "'t \<Rightarrow> (unit, io_error_kind) result poll \<times> 't"
  a_drop :: "'t \<Rightarrow> 't"

text \<open>\<open>None\<close>: the future was dropped.\<close>

type_synonym 't waiting = "'t \<times> nat option"

text \<open>
  \<open>.await\<close>.  A dropped future, like a panic, runs no more code of the functions that wait for it; its result is \<open>Panic\<close>
  with the patience \<open>None\<close>, which tells it from a panic of the program.
\<close>

fun poll_loop :: "('t \<Rightarrow> ('a, 'e) result poll \<times> 't) \<Rightarrow> ('t \<Rightarrow> 't) \<Rightarrow> nat \<Rightarrow> 't \<Rightarrow> ('a, 'e) result \<times> 't waiting" where
  "poll_loop f drop_it n t =
     (case f t of
        (Ready r, t') \<Rightarrow> (r, (t', Some n))
      | (Pending, t') \<Rightarrow> (case n of 0 \<Rightarrow> (Panic, (drop_it t', None)) | Suc k \<Rightarrow> poll_loop f drop_it k t'))"

declare poll_loop.simps [simp del]

definition await :: "('t \<Rightarrow> ('a, 'e) result poll \<times> 't) \<Rightarrow> ('t \<Rightarrow> 't) \<Rightarrow> ('t waiting, 'a, 'e) comp" where
  "await f drop_it = (\<lambda>(t, patience). case patience of None \<Rightarrow> (Panic, (t, None)) | Some n \<Rightarrow> poll_loop f drop_it n t)"

definition await_read :: "'t async_transport \<Rightarrow> nat \<Rightarrow> ('t waiting, bytes, io_error_kind) comp" where
  "await_read A n = await (a_read A n) (a_drop A)"

definition await_write_all :: "'t async_transport \<Rightarrow> bytes \<Rightarrow> ('t waiting, unit, io_error_kind) comp" where
  "await_write_all A bs = await (a_write_all A bs) (a_drop A)"

definition await_flush :: "'t async_transport \<Rightarrow> ('t waiting, unit, io_error_kind) comp" where
  "await_flush A = await (a_flush A) (a_drop A)"

section \<open>Reading a record\<close>

function async_header_loop :: "'t async_transport \<Rightarrow> nat \<Rightarrow> bytes \<Rightarrow> ('t waiting, bytes, tls_error) comp" where
  "async_header_loop A total_read buf t =
     (if total_read = 5 then (Ok buf, t)
      else if total_read > 5 then (Panic, t)
      else case await_read A (5 - total_read) t of
        (Ok d, t') \<Rightarrow>
          (if d = [] then (Err IoError, t')
           else async_header_loop A (total_read + length d) (overwrite total_read (take (5 - total_read) d) buf) t')
      | (Err k, t') \<Rightarrow> (Err (Io k), t')
      | (Panic, t') \<Rightarrow> (Panic, t'))"
  by pat_completeness auto

termination
  by (relation "measure (\<lambda>(A, n, buf, t). 5 - n)") (auto simp: neq_Nil_conv)

declare async_header_loop.simps [simp del]

definition next_record_header :: "'t async_transport \<Rightarrow> ('t waiting, bytes, tls_error) comp" where
  "next_record_header A =
     bind (async_header_loop A 0 (replicate 5 0)) (\<lambda>buf. lift_result (record_header_decode buf))"

function async_advance_loop ::
  "'t async_transport \<Rightarrow> nat \<Rightarrow> nat \<Rightarrow> (record_reader \<times> 't waiting, unit, tls_error) comp" where
  "async_advance_loop A amount remain (rd, t) =
     (if rr_pending rd < amount then
        (let start = rr_decoded rd + rr_pending rd in
         if start + remain > length (rr_buf rd) then (Panic, (rd, t))
         else case await_read A remain t of
           (Ok d, t') \<Rightarrow>
             (if d = [] then (Err IoError, (rd, t'))
              else let rd' = rd\<lparr>rr_buf := overwrite start (take remain d) (rr_buf rd)\<rparr> in
                if remain < length d then (Panic, (rd', t'))
                else async_advance_loop A amount (remain - length d)
                       (rd'\<lparr>rr_pending := rr_pending rd + length d\<rparr>, t'))
         | (Err k, t') \<Rightarrow> (Err (Io k), (rd, t'))
         | (Panic, t') \<Rightarrow> (Panic, (rd, t')))
      else (Ok (), (rd, t)))"
  by pat_completeness auto

termination
  by (relation "measure (\<lambda>(A, amount, remain, s). remain)") (auto simp: neq_Nil_conv)

declare async_advance_loop.simps [simp del]

definition advance :: "'t async_transport \<Rightarrow> nat \<Rightarrow> (record_reader \<times> 't waiting, unit, tls_error) comp" where
  "advance A amount =
     next_do (on_part fst (\<lambda>rd (_, t). (rd, t)) (ensure_contiguous amount)) (async_advance_loop A amount amount)"

definition read_record ::
  "cipher_suite_params \<Rightarrow> 't async_transport \<Rightarrow>
   (record_reader \<times> 't waiting \<times> read_key_schedule, server_record, tls_error) comp" where
  "read_record C A =
     bind (on_part (\<lambda>(rd, t, rk). t) (\<lambda>t (rd, _, rk). (rd, t, rk)) (next_record_header A)) (\<lambda>header.
     next_do (on_part (\<lambda>(rd, t, rk). (rd, t)) (\<lambda>(rd, t) (_, _, rk). (rd, t, rk))
        (advance A (content_length header)))
       (on_part (\<lambda>(rd, t, rk). (rd, transcript_hash rk))
          (\<lambda>(rd, digest) (_, t, rk). (rd, t, rk\<lparr>transcript_hash := digest\<rparr>)) (consume_record C header)))"

section \<open>The handshake driver\<close>

text \<open>\<open>record_reader.read(transport, key_schedule.read_state())\<close>.\<close>

definition receive_record_async ::
  "cipher_suite_params \<Rightarrow> 't async_transport \<Rightarrow> ('t waiting, 'p, server_record) client_op" where
  "receive_record_async C A =
     on_part (\<lambda>s. (cl_reader s, cl_transport s, server_state (cl_ks s)))
       (\<lambda>(rd, t, rk) s. s\<lparr>cl_reader := rd, cl_transport := t, cl_ks := (cl_ks s)\<lparr>server_state := rk\<rparr>\<rparr>)
       (read_record C A)"

definition respond :: "'t async_transport \<Rightarrow> bytes \<Rightarrow> ('t waiting, 'p, unit) client_op" where
  "respond A tx =
     next_do (on_transport (await_write_all A tx))
    (next_do (on_keys (on_client increment_counter))
       (on_transport (await_flush A)))"

definition handle_processing_error ::
  "cipher_suite_params \<Rightarrow> p256_params \<Rightarrow> 't async_transport \<Rightarrow> (conn_state, tls_error) result \<Rightarrow>
   ('t waiting, 'p, conn_state) client_op" where
  "handle_processing_error C E A result =
     (case result of
        Err (AbortHandshake level description) \<Rightarrow>
          bind (send_record C E (CR_Alert \<lparr>alert_level = level, alert_description = description\<rparr> False)) (\<lambda>tx.
          next_do (respond A tx) (lift_result result))
      | _ \<Rightarrow> lift_result result)"

definition process ::
  "cipher_suite_params \<Rightarrow> p256_params \<Rightarrow> nat \<Rightarrow> 't async_transport \<Rightarrow> 'p crypto_provider \<Rightarrow> tls_config \<Rightarrow> conn_state \<Rightarrow>
   ('t waiting, 'p, conn_state) client_op" where
  "process C E sig_size A P config st =
     (case st of
        S_ClientHello \<Rightarrow>
          bind (client_hello C E P config) (\<lambda>(st', tx). next_do (respond A tx) (return st'))
      | S_ServerHello \<Rightarrow>
          bind (receive_record_async C A) (\<lambda>rec.
          bind (attempt (process_server_hello C E rec)) (handle_processing_error C E A))
      | S_ServerVerify \<Rightarrow>
          bind (receive_record_async C A) (\<lambda>rec.
          bind (attempt (process_server_verify C P rec)) (handle_processing_error C E A))
      | S_ClientCert \<Rightarrow>
          bind (client_cert C E P) (\<lambda>(st', tx). next_do (respond A tx) (return st'))
      | S_ClientCertVerify \<Rightarrow>
          bind (client_cert_verify C E sig_size P) (\<lambda>(result, tx).
          next_do (respond A tx) (lift_result result))
      | S_ClientFinished \<Rightarrow>
          bind (client_finished C E) (\<lambda>tx.
          next_do (respond A tx) (client_finished_finalize C))
      | S_ApplicationData \<Rightarrow> return S_ApplicationData)"

section \<open>The awaited transport\<close>

lemma poll_loop_run:
  "f t = (Ready r, t') \<Longrightarrow> poll_loop f d n t = (r, (t', Some n))"
  "f t = (Pending, t') \<Longrightarrow> poll_loop f d 0 t = (Panic, (d t', None))"
  "f t = (Pending, t') \<Longrightarrow> poll_loop f d (Suc n) t = poll_loop f d n t'"
  by (simp_all add: poll_loop.simps [of f d])

text \<open>A transport on which the blocking functions do what the async ones do.\<close>

definition awaited :: "'t async_transport \<Rightarrow> 't waiting transport" where
  "awaited A = \<lparr>t_read = await_read A, t_write_all = await_write_all A, t_flush = await_flush A\<rparr>"

lemma awaited_simps [simp]:
  "t_read (awaited A) = await_read A" "t_write_all (awaited A) = await_write_all A" "t_flush (awaited A) = await_flush A"
  by (simp_all add: awaited_def)

lemma header_loop_awaited: "async_header_loop A n buf t = header_loop (awaited A) n buf t"
  by (induction A n buf t rule: async_header_loop.induct)
    (subst async_header_loop.simps, subst header_loop.simps, auto split: result.splits prod.splits)

lemma advance_loop_awaited: "async_advance_loop A amount remain s = advance_loop (awaited A) amount remain s"
  by (induction A amount remain s rule: async_advance_loop.induct)
    (subst async_advance_loop.simps, subst advance_loop.simps, auto simp: Let_def split: result.splits prod.splits)

lemma next_record_header_awaited: "next_record_header A = next_record_header_blocking (awaited A)"
  unfolding next_record_header_def next_record_header_blocking_def header_loop_awaited ..

lemma advance_awaited: "advance A amount = advance_blocking (awaited A) amount"
  unfolding advance_def advance_blocking_def by (simp add: advance_loop_awaited [abs_def])

lemma read_record_awaited: "read_record C A = read_blocking C (awaited A)"
  unfolding read_record_def read_blocking_def next_record_header_awaited advance_awaited ..

lemma receive_record_awaited: "receive_record_async C A = receive_record C (awaited A)"
  unfolding receive_record_async_def receive_record_def read_record_awaited ..

lemma respond_awaited: "respond A tx = respond_blocking (awaited A) tx"
  unfolding respond_def respond_blocking_def by simp

lemma handle_processing_error_awaited: "handle_processing_error C E A = handle_processing_error_blocking C E (awaited A)"
  unfolding handle_processing_error_def [abs_def] handle_processing_error_blocking_def [abs_def] respond_awaited ..

lemma process_awaited: "process C E sig_size A P config st = process_blocking C E sig_size (awaited A) P config st"
  unfolding process_def process_blocking_def receive_record_awaited respond_awaited handle_processing_error_awaited ..

end
