(* ===== verification/Asynch.thy ===== *)
theory Asynch
  imports Futures Blocking
begin

text \<open>
  \<open>TlsConnection\<close>, \<open>TlsReader\<close> and \<open>TlsWriter\<close> of src/asynch.rs over an async transport.  Their fields are those of
  the structures of src/blocking.rs; the transport's state has the patience of the call in progress with it.
  The theory shows that the async operations do what the blocking ones do on the awaited transport.
\<close>

section \<open>The connection\<close>

type_synonym 't async_connection = "'t waiting tls_connection"

type_synonym 't async_reader = "'t waiting tls_reader"

type_synonym 't async_writer = "'t waiting tls_writer"

definition async_connection_new ::
  "cipher_suite_params \<Rightarrow> 't waiting \<Rightarrow> bytes \<Rightarrow> bytes \<Rightarrow> ('t async_connection, tls_error) result" where
  "async_connection_new C delegate record_read_buf record_write_buf =
     (case wb_new record_write_buf of
        Ok wb \<Rightarrow> Ok \<lparr>tc_delegate = delegate, tc_opened = False, tc_ks = ks_new C, tc_reader = reader_new record_read_buf,
                     tc_write_buf = wb, tc_decrypted = di_default, tc_flush_policy = flush_policy_default\<rparr>
      | Err e \<Rightarrow> Err e
      | Panic \<Rightarrow> Panic)"

definition async_set_flush_policy :: "flush_policy \<Rightarrow> 't async_connection \<Rightarrow> 't async_connection" where
  "async_set_flush_policy policy c = c\<lparr>tc_flush_policy := policy\<rparr>"

text \<open>The loop of \<open>open\<close>, on the parts of the connection the handshake works on.\<close>

partial_function (option) async_open_loop ::
  "cipher_suite_params \<Rightarrow> p256_params \<Rightarrow> nat \<Rightarrow> 't async_transport \<Rightarrow> 'p crypto_provider \<Rightarrow> tls_config \<Rightarrow> conn_state \<Rightarrow>
   ('t waiting, 'p) client \<Rightarrow> ((unit, tls_error) result \<times> ('t waiting, 'p) client) option" where
  "async_open_loop C E sig_size A P config st s =
     (if st = S_ApplicationData then Some (Ok (), s)
      else case process C E sig_size A P config st s of
        (Ok st', s') \<Rightarrow> async_open_loop C E sig_size A P config st' s'
      | (Err e, s') \<Rightarrow> Some (Err e, s')
      | (Panic, s') \<Rightarrow> Some (Panic, s'))"

definition async_open ::
  "cipher_suite_params \<Rightarrow> p256_params \<Rightarrow> nat \<Rightarrow> 't async_transport \<Rightarrow> 'p crypto_provider \<Rightarrow> tls_config \<Rightarrow> 'p \<Rightarrow> 't async_connection \<Rightarrow>
   ((unit, tls_error) result \<times> 't async_connection) option" where
  "async_open C E sig_size A P config provider c =
     (case set_hostname P config provider of
        (Ok _, p) \<Rightarrow>
          map_option (\<lambda>(r, s). case r of
              Ok _ \<Rightarrow> (Ok (), (put_client s c)\<lparr>tc_opened := True\<rparr>)
            | Err e \<Rightarrow> (Err e, put_client s c)
            | Panic \<Rightarrow> (Panic, put_client s c))
            (async_open_loop C E sig_size A P config S_ClientHello (client_of c p))
      | (Err e, _) \<Rightarrow> Some (Err e, c)
      | (Panic, _) \<Rightarrow> Some (Panic, c))"

section \<open>Writing\<close>

definition async_flush_transport :: "'t async_transport \<Rightarrow> ('t waiting, unit) conn_op" where
  "async_flush_transport A = on_delegate (await_flush A)"

definition async_flush :: "cipher_suite_params \<Rightarrow> 't async_transport \<Rightarrow> ('t waiting, unit) conn_op" where
  "async_flush C A =
     bind (gets (\<lambda>c. wb_is_empty (tc_write_buf c))) (\<lambda>empty.
     if empty then return ()
     else
     bind (gets (\<lambda>c. client_state (tc_ks c))) (\<lambda>w.
     bind (on_part tc_write_buf (\<lambda>b c. c\<lparr>tc_write_buf := b\<rparr>) (close_record C w)) (\<lambda>slice.
     next_do (on_delegate (await_write_all A slice))
    (next_do conn_increment_write
    (bind (gets (\<lambda>c. flush_transport (tc_flush_policy c))) (\<lambda>strict.
     if strict then async_flush_transport A else return ()))))))"

definition async_write :: "cipher_suite_params \<Rightarrow> 't async_transport \<Rightarrow> bytes \<Rightarrow> ('t waiting, nat) conn_op" where
  "async_write C A buf =
     bind (gets tc_opened) (\<lambda>opened.
     if opened then
       bind (gets (\<lambda>c. wb_contains RH_ApplicationData (tc_write_buf c))) (\<lambda>has.
       next_do (if \<not> has
          then next_do (async_flush C A)
                 (on_part tc_write_buf (\<lambda>b c. c\<lparr>tc_write_buf := b\<rparr>) (start_record RH_ApplicationData))
          else return ())
      (bind (on_part tc_write_buf (\<lambda>b c. c\<lparr>tc_write_buf := b\<rparr>) (wb_append buf)) (\<lambda>buffered.
       bind (\<lambda>c. (wb_is_full (tc_write_buf c), c)) (\<lambda>full.
       next_do (if full then async_flush C A else return ()) (return buffered)))))
     else throw MissingHandshake)"

section \<open>Reading\<close>

definition async_read_application_data :: "cipher_suite_params \<Rightarrow> 't async_transport \<Rightarrow> ('t waiting, unit) conn_op" where
  "async_read_application_data C A =
     bind (on_part (\<lambda>c. (tc_reader c, tc_delegate c, server_state (tc_ks c)))
        (\<lambda>(rd, t, rk) c. c\<lparr>tc_reader := rd, tc_delegate := t, tc_ks := (tc_ks c)\<lparr>server_state := rk\<rparr>\<rparr>)
        (read_record C A)) (\<lambda>rec.
     on_part (\<lambda>c. ((server_state (tc_ks c), tc_decrypted c, tc_opened c), rr_buf (tc_reader c)))
       (\<lambda>((rk, info, is_open), mem) c. c\<lparr>tc_ks := (tc_ks c)\<lparr>server_state := rk\<rparr>, tc_decrypted := info,
          tc_opened := is_open, tc_reader := (tc_reader c)\<lparr>rr_buf := mem\<rparr>\<rparr>)
       (\<lambda>s. decrypt_record C (read_handler (length (snd s))) rec s))"

partial_function (option) async_fill_loop ::
  "cipher_suite_params \<Rightarrow> 't async_transport \<Rightarrow> 't async_connection \<Rightarrow> ((unit, tls_error) result \<times> 't async_connection) option" where
  "async_fill_loop C A c =
     (case info_is_empty (tc_decrypted c) of
        Ok none_left \<Rightarrow>
          if none_left
          then (case async_read_application_data C A c of
                  (Ok _, c') \<Rightarrow> async_fill_loop C A c'
                | (Err e, c') \<Rightarrow> Some (Err e, c')
                | (Panic, c') \<Rightarrow> Some (Panic, c'))
          else Some (Ok (), c)
      | Err e \<Rightarrow> Some (Err e, c)
      | Panic \<Rightarrow> Some (Panic, c))"

text \<open>\<open>read_buffered\<close> followed by an operation on the borrowed buffer and its drop.\<close>

definition async_read_buffered ::
  "cipher_suite_params \<Rightarrow> 't async_transport \<Rightarrow> (read_buffer, 'a, tls_error) comp \<Rightarrow> 't async_connection \<Rightarrow>
   (('a, tls_error) result \<times> 't async_connection) option" where
  "async_read_buffered C A op c =
     (if tc_opened c
      then map_option (\<lambda>(r, c'). case r of
          Ok _ \<Rightarrow> on_part tc_decrypted (\<lambda>i c. c\<lparr>tc_decrypted := i\<rparr>)
                    (with_read_buffer (rr_buf (tc_reader c')) op) c'
        | Err e \<Rightarrow> (Err e, c')
        | Panic \<Rightarrow> (Panic, c')) (async_fill_loop C A c)
      else Some (Err MissingHandshake, c))"

definition async_read ::
  "cipher_suite_params \<Rightarrow> 't async_transport \<Rightarrow> bytes \<Rightarrow> 't async_connection \<Rightarrow>
   ((nat \<times> bytes, tls_error) result \<times> 't async_connection) option" where
  "async_read C A buf c =
     (if buf = [] then Some (Ok (0, buf), c) else async_read_buffered C A (pop_into buf) c)"

definition async_fill_buf ::
  "cipher_suite_params \<Rightarrow> 't async_transport \<Rightarrow> 't async_connection \<Rightarrow> ((bytes, tls_error) result \<times> 't async_connection) option" where
  "async_fill_buf C A c = async_read_buffered C A peek_all c"

definition async_consume :: "nat \<Rightarrow> ('t waiting, unit) conn_op" where
  "async_consume amt =
     bind (\<lambda>c. on_part tc_decrypted (\<lambda>i c. c\<lparr>tc_decrypted := i\<rparr>)
       (with_read_buffer (rr_buf (tc_reader c)) (pop amt)) c) (\<lambda>_. return ())"

section \<open>Closing\<close>

definition async_close_internal :: "cipher_suite_params \<Rightarrow> p256_params \<Rightarrow> 't async_transport \<Rightarrow> ('t waiting, unit) conn_op" where
  "async_close_internal C E A =
     next_do (async_flush C A)
    (bind (gets tc_opened) (\<lambda>is_opened.
     bind (gets (\<lambda>c. client_state (tc_ks c))) (\<lambda>w.
     bind (on_part (\<lambda>c. (tc_write_buf c, ks_transcript (tc_ks c)))
        (\<lambda>(wb, t) c. c\<lparr>tc_write_buf := wb, tc_ks := replace_transcript_hash t (tc_ks c)\<rparr>)
        (write_record C (p256_public E) (close_notify is_opened) w)) (\<lambda>slice.
     next_do (on_delegate (await_write_all A slice))
    (next_do conn_increment_write (async_flush_transport A))))))"

text \<open>\<open>close\<close> gives the transport back in either case.\<close>

definition async_close ::
  "cipher_suite_params \<Rightarrow> p256_params \<Rightarrow> 't async_transport \<Rightarrow> 't async_connection \<Rightarrow> (unit, tls_error) result \<times> 't waiting" where
  "async_close C E A c = (case async_close_internal C E A c of (r, c') \<Rightarrow> (r, tc_delegate c'))"

section \<open>The two halves\<close>

text \<open>
  \<open>split\<close>: the reader and the writer get a clone of the transport each and share the \<open>opened\<close> flag.
  The flag is a cell both halves access atomically; it is a component of the state of an operation.
\<close>

definition async_split :: "'t async_connection \<Rightarrow> bool \<times> 't async_reader \<times> 't async_writer" where
  "async_split c = (tc_opened c,
     \<lparr>rd_delegate = tc_delegate c, rd_key_schedule = server_state (tc_ks c), rd_record_reader = tc_reader c,
      rd_decrypted = tc_decrypted c\<rparr>,
     \<lparr>wr_delegate = tc_delegate c, wr_key_schedule = client_state (tc_ks c), wr_record_write_buf = tc_write_buf c,
      wr_flush_policy = tc_flush_policy c\<rparr>)"

definition async_writer_flush :: "cipher_suite_params \<Rightarrow> 't async_transport \<Rightarrow> ('t async_writer, unit, tls_error) comp" where
  "async_writer_flush C A =
     bind (gets (\<lambda>x. wb_is_empty (wr_record_write_buf x))) (\<lambda>empty.
     if empty then return ()
     else
     bind (gets wr_key_schedule) (\<lambda>w.
     bind (on_part wr_record_write_buf (\<lambda>b x. x\<lparr>wr_record_write_buf := b\<rparr>) (close_record C w)) (\<lambda>slice.
     next_do (on_part wr_delegate (\<lambda>t x. x\<lparr>wr_delegate := t\<rparr>) (map_err Io (await_write_all A slice)))
    (next_do (on_part (\<lambda>x. w_state (wr_key_schedule x))
        (\<lambda>st x. x\<lparr>wr_key_schedule := (wr_key_schedule x)\<lparr>w_state := st\<rparr>\<rparr>) increment_counter)
    (bind (gets (\<lambda>x. flush_transport (wr_flush_policy x))) (\<lambda>strict.
     if strict then on_part wr_delegate (\<lambda>t x. x\<lparr>wr_delegate := t\<rparr>) (map_err Io (await_flush A))
     else return ()))))))"

definition async_writer_write ::
  "cipher_suite_params \<Rightarrow> 't async_transport \<Rightarrow> bytes \<Rightarrow> (bool \<times> 't async_writer, nat, tls_error) comp" where
  "async_writer_write C A buf =
     bind (gets fst) (\<lambda>opened.
     if opened then
       on_part snd (\<lambda>x (b, _). (b, x))
        (bind (gets (\<lambda>x. wb_contains RH_ApplicationData (wr_record_write_buf x))) (\<lambda>has.
         next_do (if \<not> has
            then next_do (async_writer_flush C A)
                   (on_part wr_record_write_buf (\<lambda>b x. x\<lparr>wr_record_write_buf := b\<rparr>) (start_record RH_ApplicationData))
            else return ())
        (bind (on_part wr_record_write_buf (\<lambda>b x. x\<lparr>wr_record_write_buf := b\<rparr>) (wb_append buf)) (\<lambda>buffered.
         bind (\<lambda>x. (wb_is_full (wr_record_write_buf x), x)) (\<lambda>full.
         next_do (if full then async_writer_flush C A else return ()) (return buffered))))))
     else throw MissingHandshake)"

definition async_reader_read_application_data ::
  "cipher_suite_params \<Rightarrow> 't async_transport \<Rightarrow> (bool \<times> 't async_reader, unit, tls_error) comp" where
  "async_reader_read_application_data C A =
     bind (on_part (\<lambda>(_, x). (rd_record_reader x, rd_delegate x, rd_key_schedule x))
        (\<lambda>(rd, t, rk) (b, x). (b, x\<lparr>rd_record_reader := rd, rd_delegate := t, rd_key_schedule := rk\<rparr>))
        (read_record C A)) (\<lambda>rec.
     on_part (\<lambda>(b, x). ((rd_key_schedule x, rd_decrypted x, b), rr_buf (rd_record_reader x)))
       (\<lambda>((rk, info, opened), mem) (b, x). (if \<not> opened then False else b,
          x\<lparr>rd_key_schedule := rk, rd_decrypted := info,
            rd_record_reader := (rd_record_reader x)\<lparr>rr_buf := mem\<rparr>\<rparr>))
       (\<lambda>s. decrypt_record C (read_handler (length (snd s))) rec s))"

partial_function (option) async_reader_fill_loop ::
  "cipher_suite_params \<Rightarrow> 't async_transport \<Rightarrow> bool \<times> 't async_reader \<Rightarrow>
   ((unit, tls_error) result \<times> bool \<times> 't async_reader) option" where
  "async_reader_fill_loop C A s =
     (case info_is_empty (rd_decrypted (snd s)) of
        Ok none_left \<Rightarrow>
          if none_left
          then (case async_reader_read_application_data C A s of
                  (Ok _, s') \<Rightarrow> async_reader_fill_loop C A s'
                | (Err e, s') \<Rightarrow> Some (Err e, s')
                | (Panic, s') \<Rightarrow> Some (Panic, s'))
          else Some (Ok (), s)
      | Err e \<Rightarrow> Some (Err e, s)
      | Panic \<Rightarrow> Some (Panic, s))"

definition async_reader_read_buffered ::
  "cipher_suite_params \<Rightarrow> 't async_transport \<Rightarrow> (read_buffer, 'a, tls_error) comp \<Rightarrow> bool \<times> 't async_reader \<Rightarrow>
   (('a, tls_error) result \<times> bool \<times> 't async_reader) option" where
  "async_reader_read_buffered C A op s =
     (if fst s
      then map_option (\<lambda>(r, s'). case r of
          Ok _ \<Rightarrow> on_part (\<lambda>(_, x). rd_decrypted x) (\<lambda>i (b, x). (b, x\<lparr>rd_decrypted := i\<rparr>))
                    (with_read_buffer (rr_buf (rd_record_reader (snd s'))) op) s'
        | Err e \<Rightarrow> (Err e, s')
        | Panic \<Rightarrow> (Panic, s')) (async_reader_fill_loop C A s)
      else Some (Err MissingHandshake, s))"

definition async_reader_read ::
  "cipher_suite_params \<Rightarrow> 't async_transport \<Rightarrow> bytes \<Rightarrow> bool \<times> 't async_reader \<Rightarrow>
   ((nat \<times> bytes, tls_error) result \<times> bool \<times> 't async_reader) option" where
  "async_reader_read C A buf s =
     (if buf = [] then Some (Ok (0, buf), s) else async_reader_read_buffered C A (pop_into buf) s)"

definition async_reader_fill_buf ::
  "cipher_suite_params \<Rightarrow> 't async_transport \<Rightarrow> bool \<times> 't async_reader \<Rightarrow>
   ((bytes, tls_error) result \<times> bool \<times> 't async_reader) option" where
  "async_reader_fill_buf C A s = async_reader_read_buffered C A peek_all s"

definition async_reader_consume :: "nat \<Rightarrow> (bool \<times> 't async_reader, unit, tls_error) comp" where
  "async_reader_consume amt =
     bind (\<lambda>s. on_part (\<lambda>(_, x). rd_decrypted x) (\<lambda>i (b, x). (b, x\<lparr>rd_decrypted := i\<rparr>))
       (with_read_buffer (rr_buf (rd_record_reader (snd s))) (pop amt)) s) (\<lambda>_. return ())"

section \<open>The blocking operations on the awaited transport\<close>

text \<open>Loops with the same body: each returns what the other returns.\<close>

lemma option_eqI: "(\<And>y. a = Some y \<Longrightarrow> b = Some y) \<Longrightarrow> (\<And>y. b = Some y \<Longrightarrow> a = Some y) \<Longrightarrow> a = b"
  by (cases a; cases b) auto

lemma open_loop_awaited: "async_open_loop C E sig A P config st s = open_loop C E sig (awaited A) P config st s"
proof (rule option_eqI)
  fix y assume run: "async_open_loop C E sig A P config st s = Some y"
  show "open_loop C E sig (awaited A) P config st s = Some y"
  proof (rule async_open_loop.raw_induct [where Pa = "\<lambda>(((((((C, E), sig), A), P), config), st), s) y.
      open_loop C E sig (awaited A) P config st s = Some y", unfolded prod.case, OF _ run])
    fix f C E sig A P config st and s :: "('a waiting, 'b) client" and y
    assume ih: "\<And>C E sig A P config st s y. f C E sig A P config st s = Some y \<Longrightarrow> open_loop C E sig (awaited A) P config st s = Some y"
      and body: "(if st = S_ApplicationData then Some (Ok (), s)
        else case process C E sig A P config st s of
          (Ok st', s') \<Rightarrow> f C E sig A P config st' s'
        | (Err e, s') \<Rightarrow> Some (Err e, s')
        | (Panic, s') \<Rightarrow> Some (Panic, s')) = Some y"
    show "open_loop C E sig (awaited A) P config st s = Some y"
      using body by (subst open_loop.simps) (auto simp: process_awaited split: if_splits result.splits prod.splits dest: ih)
  qed
next
  fix y assume run: "open_loop C E sig (awaited A) P config st s = Some y"
  have "\<forall>A. T = awaited A \<longrightarrow> async_open_loop C E sig A P config st s = Some y" if "open_loop C E sig T P config st s = Some y" for T
  proof (rule open_loop.raw_induct [where Pa = "\<lambda>(((((((C, E), sig), T), P), config), st), s) y.
      \<forall>A. T = awaited A \<longrightarrow> async_open_loop C E sig A P config st s = Some y", unfolded prod.case, OF _ that], intro allI impI)
    fix f C E sig T P config st and s :: "('a waiting, 'b) client" and y A
    assume ih: "\<And>C E sig T P config st s y. f C E sig T P config st s = Some y \<Longrightarrow>
        \<forall>A. T = awaited A \<longrightarrow> async_open_loop C E sig A P config st s = Some y"
      and body: "(if st = S_ApplicationData then Some (Ok (), s)
        else case process_blocking C E sig T P config st s of
          (Ok st', s') \<Rightarrow> f C E sig T P config st' s'
        | (Err e, s') \<Rightarrow> Some (Err e, s')
        | (Panic, s') \<Rightarrow> Some (Panic, s')) = Some y" and T: "T = awaited A"
    show "async_open_loop C E sig A P config st s = Some y"
      using body unfolding T
      by (subst async_open_loop.simps) (auto simp: process_awaited split: if_splits result.splits prod.splits dest: ih)
  qed
  with run show "async_open_loop C E sig A P config st s = Some y" by blast
qed

lemma open_awaited: "async_open C E sig A P config p c = open_connection C E sig (awaited A) P config p c"
  unfolding async_open_def open_connection_def open_loop_awaited ..

lemma flush_awaited: "async_flush C A = conn_flush C (awaited A)"
  unfolding async_flush_def conn_flush_def async_flush_transport_def conn_flush_transport_def awaited_simps ..

lemma write_awaited: "async_write C A = conn_write C (awaited A)"
  unfolding async_write_def [abs_def] conn_write_def [abs_def] flush_awaited ..

lemma close_internal_awaited: "async_close_internal C E A = close_internal C E (awaited A)"
  unfolding async_close_internal_def close_internal_def flush_awaited async_flush_transport_def conn_flush_transport_def awaited_simps ..

lemma close_awaited: "async_close C E A = close_connection C E (awaited A)"
  unfolding async_close_def [abs_def] close_connection_def [abs_def] close_internal_awaited ..

lemma consume_awaited: "async_consume n = conn_consume n" "async_reader_consume n = reader_consume n"
  unfolding async_consume_def conn_consume_def async_reader_consume_def reader_consume_def by (rule refl)+

lemma read_application_data_awaited: "async_read_application_data C A = read_application_data C (awaited A)"
  unfolding async_read_application_data_def read_application_data_def read_record_awaited ..

lemma fill_loop_awaited: "async_fill_loop C A c = fill_loop C (awaited A) c"
proof (rule option_eqI)
  fix y assume run: "async_fill_loop C A c = Some y"
  show "fill_loop C (awaited A) c = Some y"
  proof (rule async_fill_loop.raw_induct [where P = "\<lambda>C A c y. fill_loop C (awaited A) c = Some y", OF _ run])
    fix f C A c y
    assume "\<And>C A c y. f C A c = Some y \<Longrightarrow> fill_loop C (awaited A) c = Some y"
      and "(case info_is_empty (tc_decrypted c) of
          Ok none_left \<Rightarrow>
            if none_left
            then (case async_read_application_data C A c of
                    (Ok _, c') \<Rightarrow> f C A c'
                  | (Err e, c') \<Rightarrow> Some (Err e, c')
                  | (Panic, c') \<Rightarrow> Some (Panic, c'))
            else Some (Ok (), c)
        | Err e \<Rightarrow> Some (Err e, c)
        | Panic \<Rightarrow> Some (Panic, c)) = Some y"
    then show "fill_loop C (awaited A) c = Some y"
      by (subst fill_loop.simps) (auto simp: read_application_data_awaited split: if_splits result.splits prod.splits)
  qed
next
  fix y assume run: "fill_loop C (awaited A) c = Some y"
  have "\<forall>A. T = awaited A \<longrightarrow> async_fill_loop C A c = Some y" if "fill_loop C T c = Some y" for T
  proof (rule fill_loop.raw_induct [where P = "\<lambda>C T c y. \<forall>A. T = awaited A \<longrightarrow> async_fill_loop C A c = Some y", OF _ that],
      intro allI impI)
    fix f C T c y A
    assume "\<And>C T c y. f C T c = Some y \<Longrightarrow> \<forall>A. T = awaited A \<longrightarrow> async_fill_loop C A c = Some y"
      and "(case info_is_empty (tc_decrypted c) of
          Ok none_left \<Rightarrow>
            if none_left
            then (case read_application_data C T c of
                    (Ok _, c') \<Rightarrow> f C T c'
                  | (Err e, c') \<Rightarrow> Some (Err e, c')
                  | (Panic, c') \<Rightarrow> Some (Panic, c'))
            else Some (Ok (), c)
        | Err e \<Rightarrow> Some (Err e, c)
        | Panic \<Rightarrow> Some (Panic, c)) = Some y" and "T = awaited A"
    then show "async_fill_loop C A c = Some y"
      by (subst async_fill_loop.simps) (auto simp: read_application_data_awaited split: if_splits result.splits prod.splits)
  qed
  with run show "async_fill_loop C A c = Some y" by blast
qed

lemma read_awaited: "async_read C A = conn_read C (awaited A)"
  unfolding async_read_def [abs_def] conn_read_def [abs_def] async_read_buffered_def [abs_def] read_buffered_def [abs_def]
    fill_loop_awaited ..

lemma fill_buf_awaited: "async_fill_buf C A = fill_buf C (awaited A)"
  unfolding async_fill_buf_def [abs_def] fill_buf_def [abs_def] async_read_buffered_def [abs_def] read_buffered_def [abs_def]
    fill_loop_awaited ..

lemma writer_flush_awaited: "async_writer_flush C A = writer_flush C (awaited A)"
  unfolding async_writer_flush_def writer_flush_def awaited_simps ..

lemma writer_write_awaited: "async_writer_write C A = writer_write C (awaited A)"
  unfolding async_writer_write_def [abs_def] writer_write_def [abs_def] writer_flush_awaited ..

lemma reader_read_application_data_awaited:
  "async_reader_read_application_data C A = reader_read_application_data C (awaited A)"
  unfolding async_reader_read_application_data_def reader_read_application_data_def read_record_awaited ..

lemma reader_fill_loop_awaited: "async_reader_fill_loop C A c = reader_fill_loop C (awaited A) c"
proof (rule option_eqI)
  fix y assume run: "async_reader_fill_loop C A c = Some y"
  show "reader_fill_loop C (awaited A) c = Some y"
  proof (rule async_reader_fill_loop.raw_induct [where P = "\<lambda>C A c y. reader_fill_loop C (awaited A) c = Some y", OF _ run])
    fix f C A and c :: "bool \<times> 'a async_reader" and y
    assume ih: "\<And>C A c y. f C A c = Some y \<Longrightarrow> reader_fill_loop C (awaited A) c = Some y"
      and body: "(case info_is_empty (rd_decrypted (snd c)) of
          Ok none_left \<Rightarrow>
            if none_left
            then (case async_reader_read_application_data C A c of
                    (Ok _, c') \<Rightarrow> f C A c'
                  | (Err e, c') \<Rightarrow> Some (Err e, c')
                  | (Panic, c') \<Rightarrow> Some (Panic, c'))
            else Some (Ok (), c)
        | Err e \<Rightarrow> Some (Err e, c)
        | Panic \<Rightarrow> Some (Panic, c)) = Some y"
    from body show "reader_fill_loop C (awaited A) c = Some y"
      by (subst reader_fill_loop.simps)
        (auto simp: reader_read_application_data_awaited split: if_splits result.splits prod.splits dest: ih)
  qed
next
  fix y assume run: "reader_fill_loop C (awaited A) c = Some y"
  have "\<forall>A. T = awaited A \<longrightarrow> async_reader_fill_loop C A c = Some y" if "reader_fill_loop C T c = Some y" for T
  proof (rule reader_fill_loop.raw_induct [where P = "\<lambda>C T c y. \<forall>A. T = awaited A \<longrightarrow> async_reader_fill_loop C A c = Some y", OF _ that],
      intro allI impI)
    fix f C T and c :: "bool \<times> 'a async_reader" and y A
    assume ih: "\<And>C T c y. f C T c = Some y \<Longrightarrow> \<forall>A. T = awaited A \<longrightarrow> async_reader_fill_loop C A c = Some y"
      and body: "(case info_is_empty (rd_decrypted (snd c)) of
          Ok none_left \<Rightarrow>
            if none_left
            then (case reader_read_application_data C T c of
                    (Ok _, c') \<Rightarrow> f C T c'
                  | (Err e, c') \<Rightarrow> Some (Err e, c')
                  | (Panic, c') \<Rightarrow> Some (Panic, c'))
            else Some (Ok (), c)
        | Err e \<Rightarrow> Some (Err e, c)
        | Panic \<Rightarrow> Some (Panic, c)) = Some y" and T: "T = awaited A"
    from body show "async_reader_fill_loop C A c = Some y"
      unfolding T by (subst async_reader_fill_loop.simps)
        (auto simp: reader_read_application_data_awaited split: if_splits result.splits prod.splits dest: ih)
  qed
  with run show "async_reader_fill_loop C A c = Some y" by blast
qed

lemma reader_read_awaited: "async_reader_read C A = reader_read C (awaited A)"
  unfolding async_reader_read_def [abs_def] reader_read_def [abs_def] async_reader_read_buffered_def [abs_def]
    reader_read_buffered_def [abs_def] reader_fill_loop_awaited ..

lemma reader_fill_buf_awaited: "async_reader_fill_buf C A = reader_fill_buf C (awaited A)"
  unfolding async_reader_fill_buf_def [abs_def] reader_fill_buf_def [abs_def] async_reader_read_buffered_def [abs_def]
    reader_read_buffered_def [abs_def] reader_fill_loop_awaited ..

end
