(* ===== verification/Timing.thy ===== *)
theory Timing
  imports Asynch
begin

text \<open>
  How long an async transport makes its caller wait does not matter: an async operation either is
  dropped or does what the blocking operation does on the transport without the waiting.  And what a dropped future leaves behind.
\<close>

section \<open>Following an operation until the future is dropped\<close>

text \<open>
  \<open>follows live v m m'\<close>: as long as \<open>live\<close> holds of the state, \<open>m\<close> does on it what \<open>m'\<close> does on what \<open>v\<close> shows of it.
\<close>

definition follows :: "('s \<Rightarrow> bool) \<Rightarrow> ('s \<Rightarrow> 'h) \<Rightarrow> ('s, 'a, 'e) comp \<Rightarrow> ('h, 'a, 'e) comp \<Rightarrow> bool" where
  "follows live v m m' \<longleftrightarrow> (\<forall>s. live s \<longrightarrow>
     live (snd (m s)) \<and> m' (v s) = (fst (m s), v (snd (m s))) \<or> \<not> live (snd (m s)) \<and> fst (m s) = Panic)"

lemma followsE:
  assumes "follows live v m m'" "live s"
  obtains r s' where "m s = (r, s')" "live s'" "m' (v s) = (r, v s')" | s' where "m s = (Panic, s')" "\<not> live s'"
  using assms unfolding follows_def by (cases "m s") fastforce

lemma followsI:
  "(\<And>s r s'. live s \<Longrightarrow> m s = (r, s') \<Longrightarrow> live s' \<and> m' (v s) = (r, v s') \<or> \<not> live s' \<and> r = Panic) \<Longrightarrow> follows live v m m'"
  unfolding follows_def by (metis prod.collapse)

named_theorems follows_rules

lemma follows_bind [follows_rules]:
  assumes "follows live v m m'" and "\<And>x. follows live v (f x) (f' x)"
  shows "follows live v (bind m f) (bind m' f')"
proof (rule followsI)
  fix s r s2 assume s: "live s" "bind m f s = (r, s2)"
  from assms(1) s(1) show "live s2 \<and> bind m' f' (v s) = (r, v s2) \<or> \<not> live s2 \<and> r = Panic"
  proof (cases rule: followsE)
    case (1 q s1)
    show ?thesis
    proof (cases q)
      case (Ok x)
      from assms(2) [of x] 1(2) show ?thesis using s(2) 1 Ok by (cases rule: followsE) (auto simp: bind_apply)
    qed (use s(2) 1 in \<open>auto simp: bind_apply\<close>)
  next
    case (2 s1)
    then show ?thesis using s(2) by (auto simp: bind_apply)
  qed
qed

lemma follows_next_do [follows_rules]: "follows live v m m' \<Longrightarrow> follows live v k k' \<Longrightarrow> follows live v (next_do m k) (next_do m' k')"
  unfolding next_do_def by (rule follows_bind) simp_all

lemma follows_pure:
  assumes "through v m m'" "keeps live m"
  shows "follows live v m m'"
  using assms by (auto simp: follows_def through_def keeps_def)

lemma follows_basic [follows_rules]:
  "follows live v (return x) (return x)" "follows live v (throw e) (throw e)" "follows live v (lift_result r) (lift_result r)"
  "follows live v panic panic"
  by (simp_all add: follows_def)

lemma follows_gets [follows_rules]: "(\<And>s. f' (v s) = f s) \<Longrightarrow> follows live v (gets f) (gets f')"
  by (simp add: follows_def)

lemma follows_const [follows_rules]: "(\<And>s. f' (v s) = f s) \<Longrightarrow> follows live v (\<lambda>s. (f s, s)) (\<lambda>s. (f' s, s))"
  by (simp add: follows_def)

lemma follows_modify [follows_rules]:
  "(\<And>s. v (f s) = f' (v s)) \<Longrightarrow> (\<And>s. live (f s) = live s) \<Longrightarrow> follows live v (modify f) (modify f')"
  by (simp add: follows_def)

lemma follows_if [follows_rules]:
  "(b \<Longrightarrow> follows live v m m') \<Longrightarrow> (\<not> b \<Longrightarrow> follows live v k k') \<Longrightarrow> follows live v (if b then m else k) (if b then m' else k')"
  by simp

lemma follows_map_err: "follows live v m m' \<Longrightarrow> follows live v (map_err g m) (map_err g m')"
  unfolding follows_def by (auto simp: map_err_apply)

lemma follows_attempt: "follows live v m m' \<Longrightarrow> follows live v (attempt m) (attempt m')"
  unfolding follows_def attempt_def by (fastforce split: prod.split result.split)

text \<open>On a part of the state that holds the transport, and on one that does not.\<close>

lemma follows_on_part:
  assumes "follows live1 v1 m m'"
    and "\<And>s. live s = live1 (sel s)" "\<And>s. sel' (v s) = v1 (sel s)"
    and "\<And>x s. live (upd x s) = live1 x" "\<And>x s. v (upd x s) = upd' (v1 x) (v s)"
  shows "follows live v (on_part sel upd m) (on_part sel' upd' m')"
  using assms unfolding follows_def on_part_apply by fastforce

lemma follows_other_part:
  assumes "\<And>s. sel' (v s) = sel s" "\<And>x s. v (upd x s) = upd' x (v s)" "\<And>x s. live (upd x s) = live s"
  shows "follows live v (on_part sel upd m) (on_part sel' upd' m)"
  by (rule follows_pure) (auto intro: through_on_part keeps_on_part simp: assms)

section \<open>The transport\<close>

text \<open>
  \<open>T\<close> is the async transport \<open>A\<close> without the waiting: \<open>v\<close> shows the state of \<open>A\<close> as one of \<open>T\<close>, on which a poll that is
  pending changes nothing and one that is ready does what the method of \<open>T\<close> does.
\<close>

definition poll_follows :: "('a \<Rightarrow> 't) \<Rightarrow> ('a \<Rightarrow> ('x, 'e) result poll \<times> 'a) \<Rightarrow> ('t, 'x, 'e) comp \<Rightarrow> bool" where
  "poll_follows v f g \<longleftrightarrow> (\<forall>t. case f t of (Ready r, t') \<Rightarrow> g (v t) = (r, v t') | (Pending, t') \<Rightarrow> v t' = v t)"

definition without_waiting :: "('a \<Rightarrow> 't) \<Rightarrow> 'a async_transport \<Rightarrow> 't transport \<Rightarrow> bool" where
  "without_waiting v A T \<longleftrightarrow> (\<forall>n. poll_follows v (a_read A n) (t_read T n)) \<and>
     (\<forall>bs. poll_follows v (a_write_all A bs) (t_write_all T bs)) \<and> poll_follows v (a_flush A) (t_flush T)"

definition waiting_live :: "'a waiting \<Rightarrow> bool" where
  "waiting_live t \<longleftrightarrow> snd t \<noteq> None"

abbreviation seen :: "('a \<Rightarrow> 't) \<Rightarrow> 'a waiting \<Rightarrow> 't" where
  "seen v t \<equiv> v (fst t)"

lemma poll_loop_follows:
  assumes "poll_follows v f g" "poll_loop f d n t = (r, (t', q))"
  shows "q \<noteq> None \<and> g (v t) = (r, v t') \<or> q = None \<and> r = Panic"
  using assms(2)
proof (induction n arbitrary: t)
  case 0
  from assms(1) [unfolded poll_follows_def, rule_format, of t] 0 show ?case
    by (auto simp: poll_loop.simps [of f d 0 t] split: prod.splits poll.splits)
next
  case (Suc n)
  note step = assms(1) [unfolded poll_follows_def, rule_format, of t]
  obtain p u where f: "f t = (p, u)" by fastforce
  show ?case
  proof (cases p)
    case (Ready r')
    with f step Suc.prems show ?thesis by (auto simp: poll_loop.simps [of f d "Suc n" t])
  next
    case Pending
    with f step Suc.prems have "v u = v t" "poll_loop f d n u = (r, (t', q))" by (auto simp: poll_loop.simps [of f d "Suc n" t])
    with Suc.IH [of u] show ?thesis by simp
  qed
qed

lemma await_follows: "poll_follows v f g \<Longrightarrow> follows waiting_live (seen v) (await f d) g"
proof (rule followsI, goal_cases)
  case (1 s r s')
  obtain t n where s: "s = (t, Some n)" using 1(2) by (cases s) (auto simp: waiting_live_def)
  obtain t' q where s': "s' = (t', q)" by fastforce
  from poll_loop_follows [OF 1(1), of d n t r t' q] 1(3) show ?case by (auto simp: await_def s s' waiting_live_def)
qed

lemma awaited_follows:
  assumes "without_waiting v A T"
  shows "follows waiting_live (seen v) (t_read (awaited A) n) (t_read T n)"
    and "follows waiting_live (seen v) (t_write_all (awaited A) bs) (t_write_all T bs)"
    and "follows waiting_live (seen v) (t_flush (awaited A)) (t_flush T)"
  using assms unfolding without_waiting_def
  by (auto simp: await_read_def await_write_all_def await_flush_def intro: await_follows)

section \<open>Reading a record\<close>

definition transport_follows :: "('s \<Rightarrow> bool) \<Rightarrow> ('s \<Rightarrow> 'h) \<Rightarrow> 's transport \<Rightarrow> 'h transport \<Rightarrow> bool" where
  "transport_follows live v T1 T2 \<longleftrightarrow> (\<forall>n. follows live v (t_read T1 n) (t_read T2 n)) \<and>
     (\<forall>bs. follows live v (t_write_all T1 bs) (t_write_all T2 bs)) \<and> follows live v (t_flush T1) (t_flush T2)"

lemma transport_followsD:
  assumes "transport_follows live v T1 T2"
  shows "follows live v (t_read T1 n) (t_read T2 n)" "follows live v (t_write_all T1 bs) (t_write_all T2 bs)"
    "follows live v (t_flush T1) (t_flush T2)"
  using assms by (simp_all add: transport_follows_def)

lemma awaited_transport_follows: "without_waiting v A T \<Longrightarrow> transport_follows waiting_live (seen v) (awaited A) T"
  unfolding transport_follows_def using awaited_follows by blast

lemma header_loop_follows:
  assumes T: "transport_follows live v T1 T2"
  shows "follows live v (header_loop T1 n buf) (header_loop T2 n buf)"
proof (rule followsI)
  fix t r t' assume "live t" "header_loop T1 n buf t = (r, t')"
  then show "live t' \<and> header_loop T2 n buf (v t) = (r, v t') \<or> \<not> live t' \<and> r = Panic"
  proof (induction "5 - n" arbitrary: n buf t rule: less_induct)
    case less
    show ?case
    proof (cases "n < 5")
      case True
      from transport_followsD(1) [OF T, of "5 - n"] less.prems(1) show ?thesis
      proof (cases rule: followsE)
        case (1 q u)
        show ?thesis
        proof (cases "\<exists>d. q = Ok d \<and> d \<noteq> []")
          case True
          then obtain d where d: "q = Ok d" "d \<noteq> []" by blast
          with 1 less.prems(2) \<open>n < 5\<close>
          have "header_loop T1 (n + length d) (overwrite n (take (5 - n) d) buf) u = (r, t')"
            by (simp add: header_loop.simps [of T1 n])
          moreover have "5 - (n + length d) < 5 - n" using d \<open>n < 5\<close> by (cases d) auto
          ultimately show ?thesis using less.hyps [OF _ 1(2)] d 1 \<open>n < 5\<close> by (simp add: header_loop.simps [of T2 n])
        next
          case False
          with 1 less.prems(2) \<open>n < 5\<close> show ?thesis
            by (cases q) (auto simp: header_loop.simps [of T1 n] header_loop.simps [of T2 n])
        qed
      next
        case (2 u)
        with less.prems(2) True show ?thesis by (auto simp: header_loop.simps [of T1 n])
      qed
    next
      case False
      with less.prems show ?thesis by (auto simp: header_loop.simps [of T1 n] header_loop.simps [of T2 n] split: if_splits)
    qed
  qed
qed

abbreviation reading :: "('s \<Rightarrow> 'h) \<Rightarrow> 'r \<times> 's \<Rightarrow> 'r \<times> 'h" where
  "reading v s \<equiv> (fst s, v (snd s))"

lemma advance_loop_follows:
  assumes T: "transport_follows live v T1 T2"
  shows "follows (\<lambda>s. live (snd s)) (reading v) (advance_loop T1 amount remain) (advance_loop T2 amount remain)"
proof (rule followsI)
  fix s r s' assume "live (snd s)" "advance_loop T1 amount remain s = (r, s')"
  then show "live (snd s') \<and> advance_loop T2 amount remain (reading v s) = (r, reading v s') \<or> \<not> live (snd s') \<and> r = Panic"
  proof (induction remain arbitrary: s rule: less_induct)
    case (less remain)
    obtain rd t where s: "s = (rd, t)" by fastforce
    let ?start = "rr_decoded rd + rr_pending rd"
    show ?case
    proof (cases "rr_pending rd < amount \<and> ?start + remain \<le> length (rr_buf rd)")
      case True
      from transport_followsD(1) [OF T, of remain] less.prems(1) [unfolded s snd_conv] show ?thesis
      proof (cases rule: followsE)
        case (1 q u)
        show ?thesis
        proof (cases "\<exists>d. q = Ok d \<and> d \<noteq> [] \<and> length d \<le> remain")
          case d: True
          then obtain d where d: "q = Ok d" "d \<noteq> []" "length d \<le> remain" by blast
          let ?s1 = "(rd\<lparr>rr_buf := overwrite ?start (take remain d) (rr_buf rd), rr_pending := rr_pending rd + length d\<rparr>, u)"
          have "advance_loop T1 amount (remain - length d) ?s1 = (r, s')"
            using less.prems(2) 1 d True by (simp add: s advance_loop.simps [of T1 amount remain])
          moreover have "remain - length d < remain" using d by (cases d) auto
          ultimately have "live (snd s') \<and> advance_loop T2 amount (remain - length d) (reading v ?s1) = (r, reading v s') \<or>
              \<not> live (snd s') \<and> r = Panic" using less.IH [of "remain - length d" ?s1] 1 by simp
          with 1 d True show ?thesis by (simp add: s advance_loop.simps [of T2 amount remain])
        next
          case False
          with 1 True less.prems(2) show ?thesis
            by (cases q) (auto simp: s Let_def advance_loop.simps [of T1 amount remain] advance_loop.simps [of T2 amount remain]
              split: if_splits)
        qed
      next
        case (2 u)
        with less.prems(2) True show ?thesis by (auto simp: s Let_def advance_loop.simps [of T1 amount remain])
      qed
    next
      case False
      with less.prems show ?thesis
        by (auto simp: s Let_def advance_loop.simps [of T1 amount remain] advance_loop.simps [of T2 amount remain] split: if_splits)
    qed
  qed
qed

abbreviation record_view :: "('s \<Rightarrow> 'h) \<Rightarrow> 'r \<times> 's \<times> 'k \<Rightarrow> 'r \<times> 'h \<times> 'k" where
  "record_view v s \<equiv> (fst s, v (fst (snd s)), snd (snd s))"

lemma read_blocking_follows:
  assumes T: "transport_follows live v T1 T2"
  shows "follows (\<lambda>s. live (fst (snd s))) (record_view v) (read_blocking C T1) (read_blocking C T2)"
proof -
  let ?live = "\<lambda>s. live (fst (snd s))"
  have header: "follows ?live (record_view v) (on_part (\<lambda>(rd, t, rk). t) (\<lambda>t (rd, _, rk). (rd, t, rk)) (next_record_header_blocking T1))
      (on_part (\<lambda>(rd, t, rk). t) (\<lambda>t (rd, _, rk). (rd, t, rk)) (next_record_header_blocking T2))"
    unfolding next_record_header_blocking_def
    by (rule follows_on_part [where ?live1.0 = live and ?v1.0 = v]) (auto intro!: follows_rules header_loop_follows [OF T])
  have body: "follows ?live (record_view v) (on_part (\<lambda>(rd, t, rk). (rd, t)) (\<lambda>(rd, t) (_, _, rk). (rd, t, rk)) (advance_blocking T1 n))
      (on_part (\<lambda>(rd, t, rk). (rd, t)) (\<lambda>(rd, t) (_, _, rk). (rd, t, rk)) (advance_blocking T2 n))" for n
    unfolding advance_blocking_def
    by (rule follows_on_part [where ?live1.0 = "\<lambda>s. live (snd s)" and ?v1.0 = "reading v"])
      (auto intro!: follows_rules advance_loop_follows [OF T] follows_other_part)
  show ?thesis unfolding read_blocking_def
    by (intro follows_rules header body follows_other_part) auto
qed

section \<open>The handshake\<close>

definition client_view :: "('s \<Rightarrow> 'h) \<Rightarrow> ('s, 'p) client \<Rightarrow> ('h, 'p) client" where
  "client_view v s = \<lparr>cl_transport = v (cl_transport s), cl_handshake = cl_handshake s, cl_reader = cl_reader s,
     cl_tx = cl_tx s, cl_ks = cl_ks s, cl_provider = cl_provider s\<rparr>"

lemma client_view_simps [simp]:
  "cl_transport (client_view v s) = v (cl_transport s)" "cl_handshake (client_view v s) = cl_handshake s"
  "cl_reader (client_view v s) = cl_reader s" "cl_tx (client_view v s) = cl_tx s" "cl_ks (client_view v s) = cl_ks s"
  "cl_provider (client_view v s) = cl_provider s"
  "client_view v (s\<lparr>cl_transport := t\<rparr>) = (client_view v s)\<lparr>cl_transport := v t\<rparr>"
  "client_view v (s\<lparr>cl_handshake := h\<rparr>) = (client_view v s)\<lparr>cl_handshake := h\<rparr>"
  "client_view v (s\<lparr>cl_reader := rd\<rparr>) = (client_view v s)\<lparr>cl_reader := rd\<rparr>"
  "client_view v (s\<lparr>cl_tx := wb\<rparr>) = (client_view v s)\<lparr>cl_tx := wb\<rparr>"
  "client_view v (s\<lparr>cl_ks := k\<rparr>) = (client_view v s)\<lparr>cl_ks := k\<rparr>"
  "client_view v (s\<lparr>cl_provider := p\<rparr>) = (client_view v s)\<lparr>cl_provider := p\<rparr>"
  by (simp_all add: client_view_def)

abbreviation client_follows :: "('s \<Rightarrow> bool) \<Rightarrow> ('s \<Rightarrow> 'h) \<Rightarrow> ('s, 'p, 'a) client_op \<Rightarrow> ('h, 'p, 'a) client_op \<Rightarrow> bool" where
  "client_follows live v \<equiv> follows (\<lambda>s. live (cl_transport s)) (client_view v)"

lemma follows_on_keys [follows_rules]: "client_follows live v (on_keys m) (on_keys m)"
  unfolding on_keys_def by (rule follows_other_part) simp_all

lemma follows_on_provider [follows_rules]: "client_follows live v (on_provider m) (on_provider m)"
  unfolding on_provider_def by (rule follows_other_part) simp_all

lemma follows_on_transport: "follows live v m m' \<Longrightarrow> client_follows live v (on_transport m) (on_transport m')"
  unfolding on_transport_def by (rule follows_on_part [OF follows_map_err]) simp_all

lemma follows_send_record [follows_rules]: "client_follows live v (send_record C E rec) (send_record C E rec)"
  unfolding send_record_def by (intro follows_rules follows_other_part) auto

lemma receive_record_follows:
  assumes "transport_follows live v T1 T2"
  shows "client_follows live v (receive_record C T1) (receive_record C T2)"
  unfolding receive_record_def by (rule follows_on_part [OF read_blocking_follows [OF assms]]) auto

lemma respond_follows:
  assumes "transport_follows live v T1 T2"
  shows "client_follows live v (respond_blocking T1 tx) (respond_blocking T2 tx)"
  unfolding respond_blocking_def by (intro follows_rules follows_on_transport transport_followsD [OF assms])

lemma handle_processing_error_follows:
  assumes "transport_follows live v T1 T2"
  shows "client_follows live v (handle_processing_error_blocking C E T1 result) (handle_processing_error_blocking C E T2 result)"
  unfolding handle_processing_error_blocking_def
  by (auto split: result.split tls_error.split intro!: follows_rules respond_follows [OF assms])

lemma follows_add: "follows live v
   (\<lambda>s. case certificate_add c ctx of (Ok _, cert) \<Rightarrow> (Ok (st, cert), s) | (Err e, _) \<Rightarrow> (Err e, s) | (Panic, _) \<Rightarrow> (Panic, s))
   (\<lambda>s. case certificate_add c ctx of (Ok _, cert) \<Rightarrow> (Ok (st, cert), s) | (Err e, _) \<Rightarrow> (Err e, s) | (Panic, _) \<Rightarrow> (Panic, s))"
  by (auto simp: follows_def split: prod.split result.split)

lemma client_steps_follow:
  "client_follows live v (client_hello C E P config) (client_hello C E P config)"
  "client_follows live v (process_server_hello C E rec) (process_server_hello C E rec)"
  "client_follows live v (client_cert C E P) (client_cert C E P)"
  "client_follows live v (client_finished C E) (client_finished C E)"
  "client_follows live v (client_finished_finalize C) (client_finished_finalize C)"
  unfolding client_hello_def process_server_hello_def client_cert_def client_finished_def client_finished_finalize_def
  by (auto split: server_record.split server_handshake.split option.split prod.split
      intro!: follows_rules follows_map_err follows_add)

lemma process_server_verify_follows:
  "client_follows live v (process_server_verify C P rec) (process_server_verify C P rec)"
  by (rule followsI) (auto simp: process_server_verify_def split: prod.splits)

lemma client_cert_verify_follows:
  "client_follows live v (client_cert_verify C E sig P) (client_cert_verify C E sig P)"
proof -
  have "client_follows live v (\<lambda>s. case cp_signer P (cl_provider s) of
         (Ok (sign, scheme), p') \<Rightarrow>
           (let msg = replicate 64 0x20 @ signature_context @ hash C (ks_transcript (cl_ks s)); s' = s\<lparr>cl_provider := p'\<rparr> in
            if length msg > 146 then (Err EncodeError, s')
            else if length (sign msg) > sig then (Panic, s')
            else (Ok (Ok S_ClientFinished, CR_Handshake (ClientCertVerify
                    \<lparr>cv_signature_scheme = scheme, cv_signature = sign msg\<rparr>) True), s'))
       | (Err e, p') \<Rightarrow> (Ok (Err e, CR_Alert (alert_new AL_Warning AD_CloseNotify) True), s\<lparr>cl_provider := p'\<rparr>)
       | (Panic, p') \<Rightarrow> (Panic, s\<lparr>cl_provider := p'\<rparr>))
     (\<lambda>s. case cp_signer P (cl_provider s) of
         (Ok (sign, scheme), p') \<Rightarrow>
           (let msg = replicate 64 0x20 @ signature_context @ hash C (ks_transcript (cl_ks s)); s' = s\<lparr>cl_provider := p'\<rparr> in
            if length msg > 146 then (Err EncodeError, s')
            else if length (sign msg) > sig then (Panic, s')
            else (Ok (Ok S_ClientFinished, CR_Handshake (ClientCertVerify
                    \<lparr>cv_signature_scheme = scheme, cv_signature = sign msg\<rparr>) True), s'))
       | (Err e, p') \<Rightarrow> (Ok (Err e, CR_Alert (alert_new AL_Warning AD_CloseNotify) True), s\<lparr>cl_provider := p'\<rparr>)
       | (Panic, p') \<Rightarrow> (Panic, s\<lparr>cl_provider := p'\<rparr>))"
    by (rule followsI) (auto simp: Let_def split: prod.splits result.splits if_splits)
  then show ?thesis unfolding client_cert_verify_def by (intro follows_rules) (auto split: prod.split intro!: follows_rules)
qed

lemma process_blocking_follows:
  assumes "transport_follows live v T1 T2"
  shows "client_follows live v (process_blocking C E sig T1 P config st) (process_blocking C E sig T2 P config st)"
  unfolding process_blocking_def
  by (auto split: conn_state.split prod.split
      intro!: follows_rules client_steps_follow receive_record_follows [OF assms] respond_follows [OF assms]
        handle_processing_error_follows [OF assms] follows_attempt process_server_verify_follows client_cert_verify_follows)

section \<open>Loops\<close>

text \<open>
  The loops of the program that may not end are partial functions.  Each repeats a step until there is a
  result, and returns just what some number of steps gives.
\<close>

fun run_steps :: "nat \<Rightarrow> ('s \<Rightarrow> 's + 'y) \<Rightarrow> 's \<Rightarrow> 'y option" where
  "run_steps 0 step s = None"
| "run_steps (Suc n) step s = (case step s of Inl s' \<Rightarrow> run_steps n step s' | Inr y \<Rightarrow> Some y)"

locale step_loop =
  fixes loop :: "'s \<Rightarrow> 'y option" and step :: "'s \<Rightarrow> 's + 'y"
  assumes unfold_loop: "loop s = (case step s of Inl s' \<Rightarrow> loop s' | Inr y \<Rightarrow> Some y)"
    and least: "loop s = Some y \<Longrightarrow> \<exists>n. run_steps n step s = Some y"
begin

lemma loop_run_steps: "run_steps n step s = Some y \<Longrightarrow> loop s = Some y"
proof (induction n arbitrary: s)
  case (Suc n)
  then show ?case by (subst unfold_loop) (auto split: sum.splits)
qed simp

lemma loop_iff: "loop s = Some y \<longleftrightarrow> (\<exists>n. run_steps n step s = Some y)"
  using least loop_run_steps by blast

end

definition open_step ::
  "cipher_suite_params \<Rightarrow> p256_params \<Rightarrow> nat \<Rightarrow> 't transport \<Rightarrow> 'p crypto_provider \<Rightarrow> tls_config \<Rightarrow>
   conn_state \<times> ('t, 'p) client \<Rightarrow> (conn_state \<times> ('t, 'p) client) + (unit, tls_error) result \<times> ('t, 'p) client" where
  "open_step C E sig T P config = (\<lambda>(st, s).
     if st = S_ApplicationData then Inr (Ok (), s)
     else case process_blocking C E sig T P config st s of
       (Ok st', s') \<Rightarrow> Inl (st', s')
     | (Err e, s') \<Rightarrow> Inr (Err e, s')
     | (Panic, s') \<Rightarrow> Inr (Panic, s'))"

lemma open_loop_steps:
  assumes "open_loop C E sig T P config st s = Some y"
  shows "\<exists>n. run_steps n (open_step C E sig T P config) (st, s) = Some y"
proof (rule open_loop.raw_induct [where Pa = "\<lambda>(((((((C, E), sig), T), P), config), st), s) y.
    \<exists>n. run_steps n (open_step C E sig T P config) (st, s) = Some y", unfolded prod.case, OF _ assms])
  fix f C E sig T P config st and s :: "('a, 'b) client" and y
  assume ih: "\<And>C E sig T P config st s y. f C E sig T P config st s = Some y \<Longrightarrow>
      \<exists>n. run_steps n (open_step C E sig T P config) (st, s) = Some y"
    and body: "(if st = S_ApplicationData then Some (Ok (), s)
      else case process_blocking C E sig T P config st s of
        (Ok st', s') \<Rightarrow> f C E sig T P config st' s'
      | (Err e, s') \<Rightarrow> Some (Err e, s')
      | (Panic, s') \<Rightarrow> Some (Panic, s')) = Some y"
  show "\<exists>n. run_steps n (open_step C E sig T P config) (st, s) = Some y"
  proof (cases "st \<noteq> S_ApplicationData \<and> (\<exists>st' s'. process_blocking C E sig T P config st s = (Ok st', s'))")
    case True
    then obtain st' s' where p: "st \<noteq> S_ApplicationData" "process_blocking C E sig T P config st s = (Ok st', s')" by blast
    with body ih obtain n where "run_steps n (open_step C E sig T P config) (st', s') = Some y" by fastforce
    with p show ?thesis by (intro exI [of _ "Suc n"]) (simp add: open_step_def)
  next
    case False
    with body show ?thesis by (intro exI [of _ "Suc 0"]) (auto simp: open_step_def split: prod.splits result.splits if_splits)
  qed
qed

interpretation ol: step_loop "\<lambda>(st, s). open_loop C E sig T P config st s" "open_step C E sig T P config"
  for C E sig and T :: "'t transport" and P :: "'p crypto_provider" and config
proof (unfold_locales, goal_cases)
  case (1 s)
  show ?case
    by (cases s, simp only: prod.case, subst open_loop.simps) (auto simp: open_step_def split: prod.split result.split)
next
  case (2 s y)
  then show ?case by (cases s) (auto dest: open_loop_steps)
qed

definition fill_step ::
  "cipher_suite_params \<Rightarrow> 't transport \<Rightarrow> 't tls_connection \<Rightarrow>
   't tls_connection + (unit, tls_error) result \<times> 't tls_connection" where
  "fill_step C T c =
     (case info_is_empty (tc_decrypted c) of
        Ok none_left \<Rightarrow>
          if none_left
          then (case read_application_data C T c of
                  (Ok _, c') \<Rightarrow> Inl c'
                | (Err e, c') \<Rightarrow> Inr (Err e, c')
                | (Panic, c') \<Rightarrow> Inr (Panic, c'))
          else Inr (Ok (), c)
      | Err e \<Rightarrow> Inr (Err e, c)
      | Panic \<Rightarrow> Inr (Panic, c))"

lemma fill_loop_steps:
  assumes "fill_loop C T c = Some y"
  shows "\<exists>n. run_steps n (fill_step C T) c = Some y"
proof (rule fill_loop.raw_induct [where P = "\<lambda>C T c y. \<exists>n. run_steps n (fill_step C T) c = Some y", OF _ assms])
  fix f C T c y
  assume ih: "\<And>C T c y. f C T c = Some y \<Longrightarrow> \<exists>n. run_steps n (fill_step C T) c = Some y"
    and body: "(case info_is_empty (tc_decrypted c) of
        Ok none_left \<Rightarrow>
          if none_left
          then (case read_application_data C T c of
                  (Ok _, c') \<Rightarrow> f C T c'
                | (Err e, c') \<Rightarrow> Some (Err e, c')
                | (Panic, c') \<Rightarrow> Some (Panic, c'))
          else Some (Ok (), c)
      | Err e \<Rightarrow> Some (Err e, c)
      | Panic \<Rightarrow> Some (Panic, c)) = Some y"
  show "\<exists>n. run_steps n (fill_step C T) c = Some y"
  proof (cases "info_is_empty (tc_decrypted c) = (Ok True :: (bool, tls_error) result) \<and> (\<exists>u c'. read_application_data C T c = (Ok u, c'))")
    case True
    then obtain u c' where p: "info_is_empty (tc_decrypted c) = (Ok True :: (bool, tls_error) result)"
      "read_application_data C T c = (Ok u, c')" by blast
    with body ih obtain n where "run_steps n (fill_step C T) c' = Some y" by fastforce
    with p show ?thesis by (intro exI [of _ "Suc n"]) (simp add: fill_step_def)
  next
    case False
    with body show ?thesis by (intro exI [of _ "Suc 0"]) (auto simp: fill_step_def split: prod.splits result.splits if_splits)
  qed
qed

interpretation fl: step_loop "fill_loop C T" "fill_step C T" for C and T :: "'t transport"
proof (unfold_locales, goal_cases)
  case (1 s)
  show ?case by (subst fill_loop.simps) (auto simp: fill_step_def split: prod.split result.split)
next
  case (2 s y)
  then show ?case by (rule fill_loop_steps)
qed

text \<open>A loop whose step follows the other's follows the other.\<close>

definition step_follows :: "('s \<Rightarrow> bool) \<Rightarrow> ('s \<Rightarrow> 'h) \<Rightarrow> ('d \<Rightarrow> bool) \<Rightarrow> ('d \<Rightarrow> 'e) \<Rightarrow>
  ('s \<Rightarrow> 's + (unit, 'x) result \<times> 'd) \<Rightarrow> ('h \<Rightarrow> 'h + (unit, 'x) result \<times> 'e) \<Rightarrow> bool" where
  "step_follows live v live' w step step' \<longleftrightarrow> (\<forall>s. live s \<longrightarrow> (case step s of
     Inl s' \<Rightarrow> live s' \<and> step' (v s) = Inl (v s')
   | Inr (r, d) \<Rightarrow> live' d \<and> step' (v s) = Inr (r, w d) \<or> \<not> live' d \<and> r = Panic))"

lemma run_steps_follow:
  assumes "step_follows live v live' w step step'"
  shows "live s \<Longrightarrow> run_steps n step s = Some (r, d) \<Longrightarrow>
    live' d \<and> run_steps n step' (v s) = Some (r, w d) \<or> \<not> live' d \<and> r = Panic"
proof (induction n arbitrary: s)
  case (Suc n)
  note st = assms [unfolded step_follows_def, rule_format, OF Suc.prems(1)]
  show ?case
  proof (cases "step s")
    case (Inl s')
    with st Suc show ?thesis by simp
  next
    case (Inr y)
    with st Suc.prems show ?thesis by auto
  qed
qed simp

lemma run_steps_returns:
  assumes "step_follows live v live' w step step'"
  shows "live s \<Longrightarrow> run_steps n step' (v s) = Some y \<Longrightarrow> \<exists>y. run_steps n step s = Some y"
proof (induction n arbitrary: s)
  case (Suc n)
  note st = assms [unfolded step_follows_def, rule_format, OF Suc.prems(1)]
  show ?case
  proof (cases "step s")
    case (Inl s')
    with st Suc show ?thesis by simp
  qed simp
qed simp

lemma loop_follows:
  assumes "step_loop loop step" "step_loop loop' step'" "step_follows live v live' w step step'" "live s"
  shows "case loop s of
      None \<Rightarrow> loop' (v s) = None
    | Some (r, d) \<Rightarrow> live' d \<and> loop' (v s) = Some (r, w d) \<or> \<not> live' d \<and> r = Panic"
proof (cases "loop s")
  case None
  have "loop' (v s) = None"
  proof (rule ccontr)
    assume "loop' (v s) \<noteq> None"
    then obtain n y where "run_steps n step' (v s) = Some y" using step_loop.loop_iff [OF assms(2)] by blast
    from run_steps_returns [OF assms(3,4) this] have "\<exists>y. loop s = Some y" using step_loop.loop_iff [OF assms(1)] by blast
    with None show False by simp
  qed
  with None show ?thesis by simp
next
  case (Some y)
  obtain r d where y: "y = (r, d)" by fastforce
  with Some obtain n where "run_steps n step s = Some (r, d)" using step_loop.loop_iff [OF assms(1)] by blast
  from run_steps_follow [OF assms(3,4) this] Some y show ?thesis using step_loop.loop_iff [OF assms(2)] by auto
qed

lemma open_step_follows:
  assumes "transport_follows live v T1 T2"
  shows "step_follows (\<lambda>(st, s). live (cl_transport s)) (\<lambda>(st, s). (st, client_view v s)) (\<lambda>s. live (cl_transport s)) (client_view v)
    (open_step C E sig T1 P config) (open_step C E sig T2 P config)"
  unfolding step_follows_def
proof (intro allI impI, clarify)
  fix st :: conn_state and s :: "('a, 'c) client" assume "live (cl_transport s)"
  then have live: "(\<lambda>s. live (cl_transport s)) s" .
  from process_blocking_follows [OF assms, of C E sig P config st] live
  show "case open_step C E sig T1 P config (st, s) of
      Inl s' \<Rightarrow> (case s' of (st, s) \<Rightarrow> live (cl_transport s)) \<and>
        open_step C E sig T2 P config (st, client_view v s) = Inl (case s' of (st, s) \<Rightarrow> (st, client_view v s))
    | Inr (r, d) \<Rightarrow> live (cl_transport d) \<and> open_step C E sig T2 P config (st, client_view v s) = Inr (r, client_view v d) \<or>
        \<not> live (cl_transport d) \<and> r = Panic"
    by (cases rule: followsE) (use live in \<open>auto simp: open_step_def split: result.split\<close>)
qed

section \<open>The connection\<close>

definition conn_view :: "('s \<Rightarrow> 'h) \<Rightarrow> 's tls_connection \<Rightarrow> 'h tls_connection" where
  "conn_view v c = \<lparr>tc_delegate = v (tc_delegate c), tc_opened = tc_opened c, tc_ks = tc_ks c, tc_reader = tc_reader c,
     tc_write_buf = tc_write_buf c, tc_decrypted = tc_decrypted c, tc_flush_policy = tc_flush_policy c\<rparr>"

lemma conn_view_simps [simp]:
  "tc_delegate (conn_view v c) = v (tc_delegate c)" "tc_opened (conn_view v c) = tc_opened c" "tc_ks (conn_view v c) = tc_ks c"
  "tc_reader (conn_view v c) = tc_reader c" "tc_write_buf (conn_view v c) = tc_write_buf c"
  "tc_decrypted (conn_view v c) = tc_decrypted c" "tc_flush_policy (conn_view v c) = tc_flush_policy c"
  "conn_view v (c\<lparr>tc_delegate := t\<rparr>) = (conn_view v c)\<lparr>tc_delegate := v t\<rparr>"
  "conn_view v (c\<lparr>tc_opened := b\<rparr>) = (conn_view v c)\<lparr>tc_opened := b\<rparr>"
  "conn_view v (c\<lparr>tc_ks := k\<rparr>) = (conn_view v c)\<lparr>tc_ks := k\<rparr>"
  "conn_view v (c\<lparr>tc_reader := rd\<rparr>) = (conn_view v c)\<lparr>tc_reader := rd\<rparr>"
  "conn_view v (c\<lparr>tc_write_buf := wb\<rparr>) = (conn_view v c)\<lparr>tc_write_buf := wb\<rparr>"
  "conn_view v (c\<lparr>tc_decrypted := i\<rparr>) = (conn_view v c)\<lparr>tc_decrypted := i\<rparr>"
  by (simp_all add: conn_view_def)

abbreviation conn_follows :: "('s \<Rightarrow> bool) \<Rightarrow> ('s \<Rightarrow> 'h) \<Rightarrow> ('s, 'a) conn_op \<Rightarrow> ('h, 'a) conn_op \<Rightarrow> bool" where
  "conn_follows live v \<equiv> follows (\<lambda>c. live (tc_delegate c)) (conn_view v)"

lemma on_delegate_follows: "follows live v m m' \<Longrightarrow> conn_follows live v (on_delegate m) (on_delegate m')"
  unfolding on_delegate_def by (rule follows_on_part [OF follows_map_err]) simp_all

lemma conn_flush_follows:
  assumes "transport_follows live v T1 T2"
  shows "conn_follows live v (conn_flush C T1) (conn_flush C T2)"
  unfolding conn_flush_def conn_increment_write_def conn_flush_transport_def
  by (intro follows_rules follows_other_part on_delegate_follows transport_followsD [OF assms]) simp_all

lemma conn_write_follows:
  assumes "transport_follows live v T1 T2"
  shows "conn_follows live v (conn_write C T1 buf) (conn_write C T2 buf)"
  unfolding conn_write_def
  by (intro follows_rules follows_other_part conn_flush_follows [OF assms]) simp_all

lemma close_internal_follows:
  assumes "transport_follows live v T1 T2"
  shows "conn_follows live v (close_internal C E T1) (close_internal C E T2)"
  unfolding close_internal_def conn_increment_write_def conn_flush_transport_def
  by (intro follows_rules follows_other_part on_delegate_follows conn_flush_follows [OF assms] transport_followsD [OF assms]) auto

lemma read_application_data_follows:
  assumes "transport_follows live v T1 T2"
  shows "conn_follows live v (read_application_data C T1) (read_application_data C T2)"
  unfolding read_application_data_def
  by (intro follows_rules follows_other_part follows_on_part [OF read_blocking_follows [OF assms]]) auto

lemma conn_consume_follows: "conn_follows live v (conn_consume n) (conn_consume n)"
  unfolding conn_consume_def
  by (intro follows_rules) (simp add: follows_def on_part_apply)

lemma fill_step_follows:
  assumes "transport_follows live v T1 T2"
  shows "step_follows (\<lambda>c. live (tc_delegate c)) (conn_view v) (\<lambda>c. live (tc_delegate c)) (conn_view v)
    (fill_step C T1) (fill_step C T2)"
  unfolding step_follows_def
proof (intro allI impI)
  fix c :: "'a tls_connection" assume "live (tc_delegate c)"
  then have live: "(\<lambda>c. live (tc_delegate c)) c" .
  from read_application_data_follows [OF assms, of C] live
  show "case fill_step C T1 c of
      Inl c' \<Rightarrow> live (tc_delegate c') \<and> fill_step C T2 (conn_view v c) = Inl (conn_view v c')
    | Inr (r, d) \<Rightarrow> live (tc_delegate d) \<and> fill_step C T2 (conn_view v c) = Inr (r, conn_view v d) \<or>
        \<not> live (tc_delegate d) \<and> r = Panic"
    by (cases rule: followsE) (use live in \<open>auto simp: fill_step_def split: result.split\<close>)
qed

text \<open>Operations that may not return.\<close>

definition follows_option :: "('s \<Rightarrow> bool) \<Rightarrow> ('s \<Rightarrow> 'h) \<Rightarrow> ('s \<Rightarrow> (('a, 'e) result \<times> 's) option) \<Rightarrow>
  ('h \<Rightarrow> (('a, 'e) result \<times> 'h) option) \<Rightarrow> bool" where
  "follows_option live v f f' \<longleftrightarrow> (\<forall>s. live s \<longrightarrow> (case f s of
     None \<Rightarrow> f' (v s) = None
   | Some (r, s') \<Rightarrow> live s' \<and> f' (v s) = Some (r, v s') \<or> \<not> live s' \<and> r = Panic))"

abbreviation conn_follows_option where
  "conn_follows_option live v \<equiv> follows_option (\<lambda>c. live (tc_delegate c)) (conn_view v)"

lemma fill_loop_follows:
  assumes "transport_follows live v T1 T2"
  shows "conn_follows_option live v (fill_loop C T1) (fill_loop C T2)"
  unfolding follows_option_def
  using loop_follows [OF fl.step_loop_axioms fl.step_loop_axioms fill_step_follows [OF assms]] by blast

lemma read_buffered_follows:
  assumes "transport_follows live v T1 T2"
  shows "conn_follows_option live v (read_buffered C T1 op) (read_buffered C T2 op)"
  unfolding follows_option_def
proof (intro allI impI)
  fix c :: "'a tls_connection" assume live: "live (tc_delegate c)"
  note loop = fill_loop_follows [OF assms, of C, unfolded follows_option_def, rule_format, of c, OF live]
  show "case read_buffered C T1 op c of
      None \<Rightarrow> read_buffered C T2 op (conn_view v c) = None
    | Some (r, c') \<Rightarrow> live (tc_delegate c') \<and> read_buffered C T2 op (conn_view v c) = Some (r, conn_view v c') \<or>
        \<not> live (tc_delegate c') \<and> r = Panic"
  proof (cases "fill_loop C T1 c")
    case None
    with loop live show ?thesis by (auto simp: read_buffered_def)
  next
    case (Some y)
    obtain r c' where y: "y = (r, c')" by fastforce
    with Some loop live show ?thesis by (cases r) (auto simp: read_buffered_def on_part_apply)
  qed
qed

lemma open_connection_follows:
  assumes "transport_follows live v T1 T2"
  shows "conn_follows_option live v (open_connection C E sig T1 P config p) (open_connection C E sig T2 P config p)"
  unfolding follows_option_def
proof (intro allI impI)
  fix c :: "'a tls_connection" assume live: "live (tc_delegate c)"
  obtain q p' where host: "set_hostname P config p = (q, p')" by fastforce
  let ?s = "client_of c p'"
  have view: "client_view v ?s = client_of (conn_view v c) p'" "live (cl_transport ?s)"
    using live by (simp_all add: client_of_def client_view_def)
  have put: "put_client (client_view v s) (conn_view v c) = conn_view v (put_client s c)"
    "tc_delegate (put_client s c) = cl_transport s" for s :: "('a, 'c) client"
    by (simp_all add: put_client_def conn_view_def)
  have loop: "case open_loop C E sig T1 P config S_ClientHello ?s of
      None \<Rightarrow> open_loop C E sig T2 P config S_ClientHello (client_view v ?s) = None
    | Some (r, d) \<Rightarrow> live (cl_transport d) \<and> open_loop C E sig T2 P config S_ClientHello (client_view v ?s) = Some (r, client_view v d) \<or>
        \<not> live (cl_transport d) \<and> r = Panic"
    using loop_follows [OF ol.step_loop_axioms ol.step_loop_axioms open_step_follows [OF assms, of C E sig P config],
        of "(S_ClientHello, ?s)"] view(2) unfolding prod.case by blast
  show "case open_connection C E sig T1 P config p c of
      None \<Rightarrow> open_connection C E sig T2 P config p (conn_view v c) = None
    | Some (r, c') \<Rightarrow> live (tc_delegate c') \<and> open_connection C E sig T2 P config p (conn_view v c) = Some (r, conn_view v c') \<or>
        \<not> live (tc_delegate c') \<and> r = Panic"
  proof (cases "open_loop C E sig T1 P config S_ClientHello ?s")
    case None
    with loop host live show ?thesis by (cases q) (auto simp: open_connection_def view)
  next
    case (Some y)
    obtain r d where y: "y = (r, d)" by fastforce
    with Some loop host live show ?thesis
      by (cases q; cases r) (auto simp: open_connection_def view put)
  qed
qed

end
