(* ===== verification/Async_Guarantees.thy ===== *)
theory Async_Guarantees
  imports Timing Client_Safety
begin

text \<open>
  What the async connection of src/asynch.rs guarantees: the blocking connection's behaviour on the transport
  without the waiting, as long as no future is dropped, and what a dropped future leaves behind.
\<close>

section \<open>Transports that wait\<close>

text \<open>Any transport, made to be pending \<open>k\<close> times before each answer.\<close>

definition lazy_poll :: "nat \<Rightarrow> ('t, 'a, 'e) comp \<Rightarrow> nat \<times> 't \<Rightarrow> ('a, 'e) result poll \<times> nat \<times> 't" where
  "lazy_poll k m = (\<lambda>(j, t). if j < k then (Pending, (Suc j, t)) else case m t of (r, t') \<Rightarrow> (Ready r, (0, t')))"

definition lazy :: "nat \<Rightarrow> 't transport \<Rightarrow> (nat \<times> 't) async_transport" where
  "lazy k T = \<lparr>a_read = (\<lambda>n. lazy_poll k (t_read T n)), a_write_all = (\<lambda>bs. lazy_poll k (t_write_all T bs)),
     a_flush = lazy_poll k (t_flush T), a_drop = (\<lambda>(j, t). (0, t))\<rparr>"

lemma lazy_without_waiting: "without_waiting snd (lazy k T) T"
  by (auto simp: without_waiting_def lazy_def poll_follows_def lazy_poll_def split: prod.split)

text \<open>A transport by the answers it has for the polls of a read, pending for each \<open>None\<close>.\<close>

definition scripted :: "bytes option list async_transport" where
  "scripted = \<lparr>a_read = (\<lambda>n t. case t of
         [] \<Rightarrow> (Pending, []) | None # rest \<Rightarrow> (Pending, rest) | Some d # rest \<Rightarrow> (Ready (Ok d), rest)),
     a_write_all = (\<lambda>bs t. (Ready (Ok ()), t)), a_flush = (\<lambda>t. (Ready (Ok ()), t)), a_drop = (\<lambda>t. t)\<rparr>"

lemma scripted_run:
  "poll_loop (a_read scripted m) (a_drop scripted) n (Some d # rest) = (Ok d, (rest, Some n))"
  "poll_loop (a_read scripted m) (a_drop scripted) 0 (None # rest) = (Panic, (rest, None))"
  by (rule poll_loop_run(1); simp add: scripted_def)
    (rule poll_loop_run(2) [THEN trans], simp_all add: scripted_def)

section \<open>A read that is dropped in a header\<close>

lemma next_record_header_run:
  assumes "poll_loop (a_read A 5) (a_drop A) n t = (Ok h, (t', Some m))" "length h = 5"
  shows "next_record_header A (t, Some n) = (record_header_decode h, (t', Some m))"
proof -
  have "h \<noteq> []" using assms(2) by auto
  then have "async_header_loop A 0 (replicate 5 0) (t, Some n) = (Ok h, (t', Some m))"
    using assms by (simp add: async_header_loop.simps [of A 0] async_header_loop.simps [of A 5] await_read_def await_def
        overwrite_def)
  then show ?thesis by (simp add: next_record_header_def bind_apply)
qed

lemma next_record_header_dropped:
  assumes "poll_loop (a_read A 5) (a_drop A) n t = (Ok d, (t1, Some m))" "0 < length d" "length d < 5"
    and "poll_loop (a_read A (5 - length d)) (a_drop A) m t1 = (Panic, (t2, None))"
  shows "next_record_header A (t, Some n) = (Panic, (t2, None))"
proof -
  have "d \<noteq> []" using assms(2) by auto
  then have "async_header_loop A 0 (replicate 5 0) (t, Some n) = (Panic, (t2, None))"
    using assms by (simp add: async_header_loop.simps [of A 0] async_header_loop.simps [of A "length d"] await_read_def await_def)
  then show ?thesis by (simp add: next_record_header_def bind_apply)
qed

lemma async_read_dropped:
  assumes "tc_opened c" "info_is_empty (tc_decrypted c) = (Ok True :: (bool, tls_error) result)" "buf \<noteq> []"
    and "next_record_header A (tc_delegate c) = (Panic, t')"
  shows "async_read C A buf c = Some (Panic, c\<lparr>tc_delegate := t'\<rparr>)"
proof -
  have "read_record C A (tc_reader c, tc_delegate c, server_state (tc_ks c)) = (Panic, (tc_reader c, t', server_state (tc_ks c)))"
    using assms(4) by (simp add: read_record_def bind_apply on_part_apply)
  then have "async_read_application_data C A c = (Panic, c\<lparr>tc_delegate := t'\<rparr>)"
    by (simp add: async_read_application_data_def bind_apply on_part_apply)
  then have "async_fill_loop C A c = Some (Panic, c\<lparr>tc_delegate := t'\<rparr>)"
    using assms(2) by (simp add: async_fill_loop.simps [of C A c])
  with assms(1,3) show ?thesis by (simp add: async_read_def async_read_buffered_def)
qed

section \<open>Properties\<close>

text \<open>
  C12: how long an async transport keeps its caller waiting does not matter.  If \<open>T\<close> is the async transport \<open>A\<close> without the
  waiting, then opening, writing, flushing, reading, filling the buffer and closing on \<open>A\<close> give the result and leave
  the connection that the blocking operations give and leave on \<open>T\<close>, and do not return only if those do not; unless the future
  is dropped before it is ready.
\<close>

theorem waiting_does_not_matter:
  assumes "without_waiting v A T"
  shows "conn_follows_option waiting_live (seen v) (async_open C E sig A P config p) (open_connection C E sig T P config p) \<and>
    conn_follows waiting_live (seen v) (async_write C A data) (conn_write C T data) \<and>
    conn_follows waiting_live (seen v) (async_flush C A) (conn_flush C T) \<and>
    conn_follows_option waiting_live (seen v) (async_read C A buf) (conn_read C T buf) \<and>
    conn_follows_option waiting_live (seen v) (async_fill_buf C A) (fill_buf C T) \<and>
    conn_follows waiting_live (seen v) (async_consume n) (conn_consume n) \<and>
    conn_follows waiting_live (seen v) (async_close_internal C E A) (close_internal C E T)"
proof -
  note T = awaited_transport_follows [OF assms]
  have "conn_follows_option waiting_live (seen v) (conn_read C (awaited A) buf) (conn_read C T buf)"
  proof (cases "buf = []")
    case False
    then have "conn_read C (awaited A) buf = read_buffered C (awaited A) (pop_into buf)"
      "conn_read C T buf = read_buffered C T (pop_into buf)" by (simp_all add: conn_read_def fun_eq_iff)
    then show ?thesis using read_buffered_follows [OF T, of C "pop_into buf"] by simp
  qed (simp add: follows_option_def conn_read_def)
  moreover have "conn_follows_option waiting_live (seen v) (fill_buf C (awaited A)) (fill_buf C T)"
    using read_buffered_follows [OF T, of C peek_all] unfolding fill_buf_def [abs_def] .
  ultimately show ?thesis
    unfolding open_awaited [abs_def] write_awaited flush_awaited read_awaited fill_buf_awaited consume_awaited close_internal_awaited
    by (intro conjI open_connection_follows [OF T] conn_write_follows [OF T] conn_flush_follows [OF T] conn_consume_follows
      close_internal_follows [OF T])
qed

theorem waiting_does_not_matter_witness:
  "\<exists>r c'. async_open toy_suite toy_p256 64 (lazy 3 (duplex_transport 6)) toy_provider demo_client_config ()
      (conn_view (\<lambda>t. ((0, t), Some 1000)) demo_new) = Some (r, c') \<and>
     (r = Ok () \<and> idle_connection 2000 2000 (conn_view (seen snd) c') \<or> snd (tc_delegate c') = None)"
proof -
  let ?c = "conn_view (\<lambda>t. ((0 :: nat, t), Some (1000 :: nat))) demo_new"
  have view: "conn_view (seen snd) ?c = demo_new" "waiting_live (tc_delegate ?c)" by (simp_all add: conn_view_def waiting_live_def)
  obtain c' where "open_connection toy_suite toy_p256 64 (duplex_transport 6) toy_provider demo_client_config () demo_new = Some (Ok (), c')"
    "idle_connection 2000 2000 c'" using open_demo_connection [where sig = 64] by auto
  moreover have "case async_open toy_suite toy_p256 64 (lazy 3 (duplex_transport 6)) toy_provider demo_client_config () ?c of
      None \<Rightarrow> open_connection toy_suite toy_p256 64 (duplex_transport 6) toy_provider demo_client_config () demo_new = None
    | Some (r, s') \<Rightarrow> waiting_live (tc_delegate s') \<and>
        open_connection toy_suite toy_p256 64 (duplex_transport 6) toy_provider demo_client_config () demo_new =
          Some (r, conn_view (seen snd) s') \<or> \<not> waiting_live (tc_delegate s') \<and> r = Panic"
    using conjunct1 [OF waiting_does_not_matter [OF lazy_without_waiting [of 3 "duplex_transport 6"]],
      unfolded follows_option_def, rule_format, of ?c toy_suite toy_p256 64 toy_provider demo_client_config "()", OF view(2)]
    unfolding view(1) .
  ultimately show ?thesis
    by (cases "async_open toy_suite toy_p256 64 (lazy 3 (duplex_transport 6)) toy_provider demo_client_config () ?c")
      (auto simp: waiting_live_def)
qed

text \<open>
  C25: a read whose future is dropped after some bytes of a record's header have come loses them: the
  connection is as it was before the call, but the transport has handed the bytes out, and the next call takes the
  following five bytes of the stream for a header.
\<close>

theorem dropped_read_loses_header:
  assumes "tc_opened c" and "info_is_empty (tc_decrypted c) = (Ok True :: (bool, tls_error) result)" and "buf \<noteq> []"
    and "tc_delegate c = (t, Some n)"
    and "poll_loop (a_read A 5) (a_drop A) n t = (Ok d, (t1, Some m))" and "0 < length d" and "length d < 5"
    and "poll_loop (a_read A (5 - length d)) (a_drop A) m t1 = (Panic, (t2, None))"
    and "poll_loop (a_read A 5) (a_drop A) k t2 = (Ok h, (t3, Some j))" and "length h = 5"
  shows "async_read C A buf c = Some (Panic, c\<lparr>tc_delegate := (t2, None)\<rparr>) \<and>
    next_record_header A (t2, Some k) = (record_header_decode h, (t3, Some j))"
  using async_read_dropped [OF assms(1-3), of A "(t2, None)"] next_record_header_dropped [OF assms(5-8)]
    next_record_header_run [OF assms(9,10)] assms(4) by simp

theorem dropped_read_loses_header_witness:
  "async_read toy_suite scripted [0] (demo_conn ([Some [23, 3], None, Some [3, 0, 17, 1, 2]], Some 0)) =
     Some (Panic, (demo_conn ([Some [23, 3], None, Some [3, 0, 17, 1, 2]], Some 0))\<lparr>tc_delegate := ([Some [3, 0, 17, 1, 2]], None)\<rparr>) \<and>
   next_record_header scripted ([Some [3, 0, 17, 1, 2]], Some 0) = (record_header_decode [3, 0, 17, 1, 2], ([], Some 0))"
  by (rule dropped_read_loses_header [where d = "[23, 3]" and n = 0 and m = 0 and
        t = "[Some [23, 3], None, Some [3, 0, 17, 1, 2]]" and ?t1.0 = "[None, Some [3, 0, 17, 1, 2]]"])
    (simp_all add: demo_conn_def di_default_def info_is_empty_def info_len_def usub_def scripted_run)

end
