(* ===== verification/Nonces.thy ===== *)
theory Nonces
  imports Client_Traffic
begin

text \<open>
  The nonces of the records that the two sides seal once the handshake is over: the calls of a server session
  (src/server.rs) and the writes of a client (src/blocking.rs), in any order.
\<close>

section \<open>Records under one key\<close>

text \<open>Records that are sealed under the key and the IV of \<open>st\<close>, no two of them with the same nonce.\<close>

definition fresh_nonces :: "cipher_suite_params \<Rightarrow> key_schedule_state \<Rightarrow> bytes list \<Rightarrow> bool" where
  "fresh_nonces C st recs \<longleftrightarrow> (\<exists>ws.
     recs = map (\<lambda>(n, content, ty). sealed_record C (st\<lparr>counter := n\<rparr>) content ty) ws \<and>
     distinct (map (\<lambda>(n, content, ty). record_nonce (st\<lparr>counter := n\<rparr>)) ws))"

lemma record_nonce_inject:
  assumes "length (iv st) = 12" and "record_nonce (st\<lparr>counter := a\<rparr>) = record_nonce (st\<lparr>counter := b\<rparr>)"
  shows "a = b"
proof -
  have "replicate 4 0 @ be64 a = replicate 4 0 @ be64 b"
    by (rule map2_xor_inject [of "iv st"]) (use assms in \<open>simp_all add: record_nonce_def\<close>)
  then show ?thesis by (auto dest: be64_inject)
qed

lemma fresh_noncesI:
  assumes "length (iv st) = 12" and "distinct (map fst ws)"
    and "recs = map (\<lambda>(n, content, ty). sealed_record C (st\<lparr>counter := n\<rparr>) content ty) ws"
  shows "fresh_nonces C st recs"
proof -
  have "inj_on (\<lambda>n. record_nonce (st\<lparr>counter := n\<rparr>)) (set (map fst ws))"
    by (rule inj_onI) (rule record_nonce_inject [OF assms(1)])
  with assms(2) have "distinct (map (\<lambda>n. record_nonce (st\<lparr>counter := n\<rparr>)) (map fst ws))" by (simp only: distinct_map)
  then have "distinct (map (\<lambda>(n, content, ty). record_nonce (st\<lparr>counter := n\<rparr>)) ws)"
    by (simp add: comp_def case_prod_unfold)
  with assms(3) show ?thesis unfolding fresh_nonces_def by blast
qed

section \<open>The server\<close>

text \<open>
  The calls of a session's user once the handshake is over, and the records they return, up to a call that panics.  A
  call that fails does not return a record, and the user may go on.
\<close>

datatype session_call =
    SealData bytes bytes
  | SealAlert alert_level alert_description bytes
  | OpenData bytes bytes
  | OpenDataOrAlert bytes bytes

fun call :: "cipher_suite_params \<Rightarrow> session_call \<Rightarrow> (tls_server_session, bytes list, tls_error) comp" where
  "call C (SealData p out) = bind (session_encrypt_app_data C p out) (\<lambda>r. return [r])"
| "call C (SealAlert level description out) = bind (session_encrypt_alert C level description out) (\<lambda>r. return [r])"
| "call C (OpenData r buf) = bind (session_decrypt_app_data C r buf) (\<lambda>_. return [])"
| "call C (OpenDataOrAlert r buf) = bind (session_decrypt_app_data_or_alert C r buf) (\<lambda>_. return [])"

fun serve :: "cipher_suite_params \<Rightarrow> session_call list \<Rightarrow> tls_server_session \<Rightarrow> bytes list" where
  "serve C [] s = []"
| "serve C (c # cs) s = (case call C c s of
       (Ok recs, s') \<Rightarrow> recs @ serve C cs s'
     | (Err e, s') \<Rightarrow> serve C cs s'
     | (Panic, s') \<Rightarrow> [])"

lemma counter_exhausted: "counter (server_traffic ks) = - 1 \<Longrightarrow> increment_server_handshake_counter ks = (Panic, ks)"
  by (simp add: increment_server_handshake_counter_def on_server_def on_part_apply increment_counter_def)

lemma write_protected_record_exhausted:
  assumes "crypto_laws C" and "length (iv (server_traffic ks)) = 12" and "counter (server_traffic ks) = - 1"
    and "write_protected_record C content ct (ks, out) = (r, (ks', out'))"
  shows "(r = Panic \<or> (\<exists>e. r = Err e)) \<and> ks' = ks"
  using assms(4)
  by (auto simp: write_protected_record_def Let_def bind_apply next_do_apply on_part_apply server_key_run
      server_nonce_run [OF crypto_lawsD(3) [OF assms(1)] assms(2)] counter_exhausted [OF assms(3)]
      split: prod.splits result.splits)

lemma write_protected_record_step:
  assumes "crypto_laws C" and "length (iv (server_traffic ks)) = 12"
    and "length content + 1 + tag_len C < 2 ^ 16" and "length content + 6 + tag_len C \<le> length out"
    and "write_protected_record C content ct (ks, out) = (r, (ks', out'))"
  shows "r = Ok (sealed_record C (server_traffic ks) content ct) \<and> counter (server_traffic ks) \<noteq> - 1 \<and> ks' = bump_server ks \<or>
     (r = Panic \<or> (\<exists>e. r = Err e)) \<and> ks' = ks"
  using write_protected_record_exhausted [OF assms(1,2) _ assms(5)]
    write_protected_record_run [OF assms(1) _ assms(3,4), of ks ct] assms(2,5)
  by (cases "counter (server_traffic ks) = - 1") (auto simp: usable_def)

lemma read_keeps_server:
  "read_protected_record C rec (ks, buf) = (r, (ks', buf')) \<Longrightarrow> server_state ks' = server_state ks"
  by (auto simp: read_protected_record_def bind_apply next_do_apply on_part_apply client_key_run throw_def lift_result_def
      client_handshake_aead_nonce_def increment_client_handshake_counter_def on_client_def increment_counter_def
      split: prod.splits result.splits if_splits)

abbreviation "session_keys s \<equiv> server_traffic (ss_schedule s)"

text \<open>What a call does to the keys the server seals with.\<close>

lemma call_seals:
  assumes laws: "crypto_laws C" and iv: "length (iv (session_keys s)) = 12" and run: "call C c s = (r, s')"
  shows "(\<exists>content ty. r = Ok [sealed_record C (session_keys s) content ty] \<and> counter (session_keys s) \<noteq> - 1 \<and>
       session_keys s' = (session_keys s)\<lparr>counter := counter (session_keys s) + 1\<rparr>) \<or>
     (r = Ok [] \<or> r = Panic \<or> (\<exists>e. r = Err e)) \<and> session_keys s' = session_keys s"
proof (cases c)
  case (SealData p out)
  obtain r1 ks1 out1 where w: "write_protected_record C p CT_ApplicationData (ss_schedule s, out) = (r1, (ks1, out1))"
    by (metis prod.exhaust)
  show ?thesis
  proof (cases "length p + 1 + tag_len C < 2 ^ 16 \<and> length p + 6 + tag_len C \<le> length out")
    case True
    with write_protected_record_step [OF laws iv _ _ w] run w show ?thesis
      by (auto simp: SealData session_encrypt_app_data_def session_with_buffer_def encrypt_application_data_def bind_apply
          Let_def return_def) blast+
  next
    case False
    then have "\<exists>e. encrypt_application_data C p (ss_schedule s, out) = (Err e, (ss_schedule s, out))"
      by (cases "length out < length p + 6 + tag_len C") (auto simp: encrypt_application_data_def bind_apply Let_def throw_def)
    with run show ?thesis by (auto simp: SealData session_encrypt_app_data_def session_with_buffer_def bind_apply)
  qed
next
  case (SealAlert level description out)
  let ?c = "[alert_level_code level, alert_description_code description]"
  obtain r1 ks1 out1 where w: "write_protected_record C ?c CT_Alert (ss_schedule s, out) = (r1, (ks1, out1))"
    by (metis prod.exhaust)
  have t: "tag_len C = 16" using suite_sizesD [OF crypto_lawsD(3) [OF laws]] by simp
  show ?thesis
  proof (cases "8 + tag_len C \<le> length out")
    case True
    with write_protected_record_step [OF laws iv _ _ w] run w t show ?thesis
      by (auto simp: SealAlert session_encrypt_alert_def session_with_buffer_def encrypt_alert_record_def bind_apply return_def) blast+
  qed (use run t in \<open>auto simp: SealAlert session_encrypt_alert_def session_with_buffer_def encrypt_alert_record_def bind_apply
      throw_def\<close>)
next
  case (OpenData rec buf)
  obtain r1 ks1 buf1 where o: "read_protected_record C rec (ss_schedule s, buf) = (r1, (ks1, buf1))" by (metis prod.exhaust)
  with run read_keeps_server [OF o] show ?thesis
    by (auto simp: OpenData session_decrypt_app_data_def session_with_buffer_def decrypt_application_data_def bind_apply return_def
        throw_def split: result.splits if_splits)
next
  case (OpenDataOrAlert rec buf)
  obtain r1 ks1 buf1 where o: "read_protected_record C rec (ss_schedule s, buf) = (r1, (ks1, buf1))" by (metis prod.exhaust)
  have "\<exists>r2. decrypt_app_data_or_alert C rec (ss_schedule s, buf) = (r2, (ks1, buf1))"
    using o by (auto simp: decrypt_app_data_or_alert_def bind_apply return_def throw_def lift_result_def
        split: result.splits content_type.splits prod.splits)
  with run read_keeps_server [OF o] show ?thesis
    by (auto simp: OpenDataOrAlert session_decrypt_app_data_or_alert_def session_with_buffer_def bind_apply return_def
        split: result.splits)
qed

lemma serve_seals:
  assumes laws: "crypto_laws C" and "length (iv (session_keys s)) = 12"
  shows "\<exists>ws. serve C cs s = map (\<lambda>(n, content, ty). sealed_record C ((session_keys s)\<lparr>counter := n\<rparr>) content ty) ws \<and>
     distinct (map fst ws) \<and> (\<forall>n \<in> set (map fst ws). counter (session_keys s) \<le> n)"
  using assms(2)
proof (induction cs arbitrary: s)
  case (Cons c cs)
  let ?k = "session_keys s"
  obtain r s' where run: "call C c s = (r, s')" by fastforce
  from call_seals [OF laws Cons.prems run] show ?case
  proof
    assume "\<exists>content ty. r = Ok [sealed_record C ?k content ty] \<and> counter ?k \<noteq> - 1 \<and>
      session_keys s' = ?k\<lparr>counter := counter ?k + 1\<rparr>"
    then obtain content ty where r: "r = Ok [sealed_record C ?k content ty]" "counter ?k \<noteq> - 1"
      "session_keys s' = ?k\<lparr>counter := counter ?k + 1\<rparr>" by blast
    from Cons.IH [of s'] Cons.prems r(3) obtain ws where
      ws: "serve C cs s' = map (\<lambda>(n, content, ty). sealed_record C (?k\<lparr>counter := n\<rparr>) content ty) ws"
        "distinct (map fst ws)" "\<forall>n \<in> set (map fst ws). counter ?k + 1 \<le> n" by auto
    have "counter ?k < n" if "n \<in> set (map fst ws)" for n
      using word_less_succ [OF r(2)] ws(3) that by (meson order_less_le_trans)
    with ws run r(1) show ?thesis
      by (intro exI [of _ "(counter ?k, content, ty) # ws"]) (fastforce intro: less_imp_le)
  next
    assume "(r = Ok [] \<or> r = Panic \<or> (\<exists>e. r = Err e)) \<and> session_keys s' = ?k"
    with Cons.IH [of s'] Cons.prems run show ?thesis by (auto intro: exI [of _ "[]"])
  qed
qed simp

section \<open>The client\<close>

lemma sealed_stream_fresh:
  assumes "length (iv st) = 12" and "length ps < 2 ^ 64"
  shows "fresh_nonces C st (sealed_stream C st ps)"
proof (rule fresh_noncesI [OF assms(1)])
  let ?ws = "map (\<lambda>i. (counter st + word_of_nat i, ps ! i, CT_ApplicationData)) [0..<length ps]"
  have "inj_on (\<lambda>i. counter st + word_of_nat i) (set [0..<length ps])"
    using assms(2) by (auto intro!: inj_onI simp: word_of_nat_eq_iff take_bit_nat_eq_self)
  then show "distinct (map fst ?ws)" by (simp add: comp_def distinct_map)
  show "sealed_stream C st ps = map (\<lambda>(n, content, ty). sealed_record C (st\<lparr>counter := n\<rparr>) content ty) ?ws"
    by (simp add: sealed_stream_def after_records_def)
qed

section \<open>Properties\<close>

text \<open>
  C18: the two sides never seal two records under the same key and nonce.  The server: whatever calls a session's
  user makes, with whatever results, sealing data and alerts and opening records in any order, the records
  that are returned are sealed under the session's write key with pairwise different nonces; the record
  number is not bounded here, since a call that would have to use one again panics.  The client: whatever a
  user of an open connection writes and flushes, if the transport accepts what it is given, the bytes sent are
  records under the client's write key with pairwise different nonces.
\<close>

theorem nonces_never_repeat:
  assumes "crypto_laws C" and "length (iv (server_traffic (ss_schedule s))) = 12"
    and "transport_laws T sent" and "idle_connection m n c" and "133 \<le> n" and "n < 2 ^ 16"
    and "length (iv (client_traffic (tc_ks c))) = 12"
    and "unat (counter (client_traffic (tc_ks c))) + length xs < 2 ^ 64"
  shows "fresh_nonces C (server_traffic (ss_schedule s)) (serve C calls s) \<and>
    (\<exists>ks c' recs. run_writes C T xs c = (Ok ks, c') \<and> sent (tc_delegate c') = sent (tc_delegate c) @ concat recs \<and>
       fresh_nonces C (client_traffic (tc_ks c)) recs)"
proof
  from serve_seals [OF assms(1,2), of calls] obtain ws where
    "serve C calls s = map (\<lambda>(n, content, ty). sealed_record C ((session_keys s)\<lparr>counter := n\<rparr>) content ty) ws"
    "distinct (map fst ws)" by blast
  from fresh_noncesI [OF assms(2) this(2,1)] show "fresh_nonces C (session_keys s) (serve C calls s)" .
  let ?a = "\<lparr>pending = None, completed = []\<rparr>"
  obtain ks a where spec: "spec_writes (capacity n) xs ?a = (ks, a)" by fastforce
  have repr: "writer_repr C n ?a c"
    using assms(4-6) by (auto simp: writer_repr_def idle_connection_def the_pending_def)
  from run_writes_refines [OF assms(1,3) repr assms(7,8) spec] obtain c' ps where
    1: "run_writes C T xs c = (Ok ks, c')" "completed a = ps" "emitted C T sent ps c c'" by auto
  have "length ps < 2 ^ 64" using spec_writes_count [OF spec] 1(2) assms(8) by simp
  from sealed_stream_fresh [OF assms(7) this] 1 show "\<exists>ks c' recs. run_writes C T xs c = (Ok ks, c') \<and>
      sent (tc_delegate c') = sent (tc_delegate c) @ concat recs \<and> fresh_nonces C (client_traffic (tc_ks c)) recs"
    unfolding emitted_def by blast
qed

theorem nonces_never_repeat_witness:
  "let s = \<lparr>ss_schedule = demo_ks [7] [8], ss_hrr_state = hrr_default\<rparr>;
     calls = [SealData [1, 2] (replicate 60 0), SealData [1] [], SealAlert AL_Warning AD_CloseNotify (replicate 60 0)] in
   fresh_nonces toy_suite (server_traffic (ss_schedule s)) (serve toy_suite calls s) \<and>
   (\<exists>ks c' recs. run_writes toy_suite (duplex_transport 6) [Write [1, 2, 3], Write (replicate 20 7), Flush] (demo_conn ([], [])) = (Ok ks, c') \<and>
     snd (tc_delegate c') = concat recs \<and> fresh_nonces toy_suite (client_traffic (tc_ks (demo_conn ([], [])))) recs)"
  unfolding Let_def
  using nonces_never_repeat [OF toy_suite_laws _ duplex_transport_laws demo_conn_idle, of
      "\<lparr>ss_schedule = demo_ks [7] [8], ss_hrr_state = hrr_default\<rparr>" "([], [])" "[Write [1, 2, 3], Write (replicate 20 7), Flush]"
      "[SealData [1, 2] (replicate 60 0), SealData [1] [], SealAlert AL_Warning AD_CloseNotify (replicate 60 0)]" 6]
  by (simp add: demo_conn_traffic) (simp add: demo_conn_def)

end
