(* ===== verification/Pki_Client.thy ===== *)
theory Pki_Client
  imports Pki Client_Handshake
begin

text \<open>
  A client (src/blocking.rs, src/connection.rs) whose provider has the certificate verifier of src/pki.rs: what
  the order of the server's Certificate and CertificateVerify messages does to it.
\<close>

section \<open>The order of the messages\<close>

text \<open>Whether the last Certificate among some messages is still without its CertificateVerify.\<close>

fun await_step :: "bool \<Rightarrow> server_handshake \<Rightarrow> bool" where
  "await_step b (ServerCertificate _) = True"
| "await_step b (ServerCertificateVerify _) = False"
| "await_step b _ = b"

definition awaits_signature :: "server_handshake list \<Rightarrow> bool" where
  "awaits_signature = foldl await_step False"

lemma asked_transcript:
  assumes "provides P (\<lambda>now. cv_verify_certificate D S n now) (cv_verify_signature D S C)" and "asked P t m v = (Ok (), v')"
  shows "(cv_transcript v' \<noteq> None) = await_step (cv_transcript v \<noteq> None) m"
proof (cases m)
  case (ServerCertificate c)
  then have "cp_verify_certificate P t c v = (Ok (), v')"
    using assms by (simp add: if_verifier_def provides_def)
  then obtain now where "cv_verify_certificate D S n now t c v = Some (Ok (), v')"
    using assms(1) unfolding provides_def by metis
  then show ?thesis by (simp add: ServerCertificate cv_verify_certificate_iff)
next
  case (ServerCertificateVerify cv)
  then have "cv_verify_signature D S C cv v = (Ok (), v')"
    using assms by (simp add: if_verifier_def provides_def)
  then show ?thesis
    by (auto simp: ServerCertificateVerify cv_verify_signature_def Let_def split: option.splits if_splits result.splits)
qed (use assms(2) in \<open>simp_all add: return_def throw_def\<close>)

lemma approved_transcript:
  assumes "provides P (\<lambda>now. cv_verify_certificate D S n now) (cv_verify_signature D S C)" and "approved P t g v = Some v'"
  shows "(cv_transcript v' \<noteq> None) = foldl await_step (cv_transcript v \<noteq> None) (map snd g)"
  using assms(2)
proof (induction g arbitrary: t v)
  case (Cons bm g)
  then obtain bs m v1 where "bm = (bs, m)" "asked P (t @ bs) m v = (Ok (), v1)" "approved P (t @ bs) g v1 = Some v'"
    by (cases bm) (auto split: prod.splits result.splits)
  with Cons.IH [of "t @ bs" v1] asked_transcript [OF assms(1)] show ?case by simp
qed simp

lemma signature_panics:
  assumes "provides P vc (cv_verify_signature D S C)" and "cv_transcript v = None"
  shows "fst (asked P t (ServerCertificateVerify cv) v) = Panic"
  using assms by (simp add: if_verifier_def provides_def cv_verify_signature_def)

lemma set_hostname_transcript:
  assumes "cp_set_hostname P = set_hostname_verification" and "\<And>v. cp_verifier P v = (Ok (), v)"
    and "set_hostname P config v = (Ok (), v')"
  shows "cv_transcript v' = cv_transcript v"
  using assms by (auto simp: set_hostname_def set_hostname_verification_def split: option.splits if_splits)

section \<open>A peer for the witness\<close>

text \<open>It sends a CertificateVerify right after \<open>EncryptedExtensions\<close>, to a client with a server name.\<close>

definition named_config :: tls_config where
  "named_config = demo_client_config\<lparr>cfg_server_name := Some [97]\<rparr>"

definition verify_message :: bytes where
  "verify_message = handshake_bytes HT_CertificateVerify (be16 (signature_scheme_code EcdsaSecp256r1Sha256) @ vec16 [2])"

definition bad_hello :: bytes where
  "bad_hello = hello_message toy_suite (p256_public toy_p256) (hello_of named_config (replicate 32 5) [6])
     (rfc_binder_key toy_suite (hello_psk toy_suite named_config)) []"

definition bad_secret :: bytes where
  "bad_secret = rfc_handshake_traffic toy_suite (hello_psk toy_suite named_config) [42] ''s hs traffic'' (bad_hello @ demo_server_hello)"

definition bad_flight :: "(bytes \<times> server_handshake) list list" where
  "bad_flight = [] @ ([(ee_message, EncryptedExtensions)] @ (verify_message, ServerCertificateVerify toy_signature) # []) # []"

definition bad_input :: bytes where
  "bad_input = handshake_record demo_server_hello @ flight_records toy_suite (rfc_traffic_keys toy_suite bad_secret) bad_flight"

definition bad_new :: "(bytes \<times> bytes) tls_connection" where
  "bad_new = demo_new\<lparr>tc_delegate := (bad_input, [])\<rparr>"

lemma message_of_verify: "message_of toy_suite verify_message (ServerCertificateVerify toy_signature)"
proof -
  have eq: "verify_message = handshake_bytes HT_CertificateVerify
      (be16 (signature_scheme_code (cv_signature_scheme toy_signature)) @ vec16 (cv_signature toy_signature))"
    by (simp add: verify_message_def toy_signature_def)
  show ?thesis
    unfolding eq by (rule message_ofI [OF parses_certificate_verify _ server_handshake_parse_def]) (simp_all add: toy_signature_def)
qed

lemma bad_facts:
  "tls_connection_new toy_suite (bad_input, []) (replicate 2000 0) (replicate 2000 0) = Ok bad_new"
  "set_hostname pki_provider named_config (cert_verifier_new (X509 [9])) = (Ok (), toy_verifier)"
  "cp_random pki_provider toy_verifier = (replicate 32 5, toy_verifier)" "cp_secret pki_provider toy_verifier = ([6], toy_verifier)"
  "hello_fits toy_suite toy_p256 (hello_of named_config (replicate 32 5) [6]) (length (replicate 2000 (0 :: byte)))"
  "approved pki_provider (bad_hello @ demo_server_hello) (concat ([] @ [[(ee_message, EncryptedExtensions)]])) toy_verifier = Some toy_verifier"
  "flight_fits toy_suite (length (replicate 2000 (0 :: byte))) (rfc_traffic_keys toy_suite bad_secret) bad_flight"
  "delivers (duplex_transport 6) (bad_input, []) (handshake_record demo_server_hello @
     flight_records toy_suite (rfc_traffic_keys toy_suite bad_secret) bad_flight @ [])"
proof -
  show "flight_fits toy_suite (length (replicate 2000 (0 :: byte))) (rfc_traffic_keys toy_suite bad_secret) bad_flight"
    using usable_rfc_keys [OF toy_suite_laws, of bad_secret] message_of_ee [of toy_suite] message_of_verify
    by (simp add: bad_flight_def flight_fits_def usable_def rfc_traffic_keys_def ee_message_def handshake_bytes_def
        verify_message_def toy_suite_def)
  show "hello_fits toy_suite toy_p256 (hello_of named_config (replicate 32 5) [6]) (length (replicate 2000 (0 :: byte)))"
    by (simp add: hello_fits_def client_hello_written_def client_hello_body_def hello_of_def named_config_def demo_client_config_def
        client_extensions_def option_list_def che_written_bytes_def extension_bytes_def psk_placeholder_ext_def
        psk_ch_placeholder_def toy_suite_def toy_p256_def key_share_entry_bytes_def server_name_list_single_def
        server_name_bytes_def Let_def)
qed (use duplex_delivers [of 6 bad_input "[]"] in
    \<open>simp_all add: tls_connection_new_def wb_new_def TLS_RECORD_OVERHEAD_def bad_new_def demo_new_def wb_idle_def set_hostname_def
      set_hostname_verification_def pki_provider_def toy_verifier_def cert_verifier_new_def named_config_def return_def bad_input_def\<close>)

section \<open>Properties\<close>

text \<open>
  C36: a server can make a client with the verifier of src/pki.rs panic, whatever its configuration and host
  name.  Let the client open a connection with a new verifier.  If the server's flight has a CertificateVerify at a
  point where no Certificate waits for one (before any Certificate, or a second time after the same one), and the messages before it are
  \<open>EncryptedExtensions\<close> or accepted by the verifier, then \<open>open\<close> does not return an error but panics.
\<close>

theorem early_certificate_verify_panics:
  assumes "crypto_laws C" and "transport_laws T sent" and "tls_connection_new C t rbuf wbuf = Ok c"
    and "provides P (\<lambda>now. cv_verify_certificate D S n now) (cv_verify_signature D S C)"
    and "cp_set_hostname P = set_hostname_verification"
    and "set_hostname P config (cert_verifier_new ca) = (Ok (), v)"
    and "cp_random P v = (random, v)" "cp_secret P v = (secret, v)"
    and "hello_fits C E (hello_of config random secret) (length wbuf)"
    and "psk = hello_psk C config"
    and "m = hello_message C (p256_public E) (hello_of config random secret) (rfc_binder_key C psk) []"
    and "message_of C sh (ServerHello es)" "length sh < 2 ^ 16" "length sh \<le> length rbuf"
    and "calculate_shared_secret (p256_dh E) secret es = Some ikm"
    and "sts = rfc_handshake_traffic C psk ikm ''s hs traffic'' (m @ sh)"
    and "gs = qs @ (g @ (bs, ServerCertificateVerify cv) # g') # gs'"
    and "approved P (m @ sh) (concat (qs @ [g])) v = Some v'"
    and "\<not> awaits_signature (map snd (concat (qs @ [g])))"
    and "flight_fits C (length rbuf) (rfc_traffic_keys C sts) gs"
    and "delivers T t (handshake_record sh @ flight_records C (rfc_traffic_keys C sts) gs @ rest)"
  shows "\<exists>c'. open_connection C E sig T P config (cert_verifier_new ca) c = Some (Panic, c')"
proof -
  have "\<And>v. cp_verifier P v = (Ok (), v)" using assms(4) by (simp add: provides_def)
  from set_hostname_transcript [OF assms(5) this assms(6)] have "cv_transcript v = None"
    by (simp add: cert_verifier_new_def)
  with approved_transcript [OF assms(4,18)] assms(19) have "cv_transcript v' = None"
    by (simp add: awaits_signature_def)
  note bad = signature_panics [OF assms(4) this]
  show ?thesis by (rule open_connection_panics [OF assms(1-3,6-18) bad assms(20,21)])
qed

theorem early_certificate_verify_panics_witness:
  "\<exists>c'. open_connection toy_suite toy_p256 64 (duplex_transport 6) pki_provider named_config (cert_verifier_new (X509 [9])) bad_new =
     Some (Panic, c')"
proof -
  have "cp_set_hostname pki_provider = set_hostname_verification" by (simp add: pki_provider_def)
  moreover have "\<not> awaits_signature (map snd (concat ([] @ [[(ee_message, EncryptedExtensions)]])))"
    by (simp add: awaits_signature_def)
  ultimately show ?thesis
    by (intro early_certificate_verify_panics [OF toy_suite_laws duplex_transport_laws bad_facts(1) pki_provides _ bad_facts(2-5) refl
        bad_hello_def demo_server_hello_message(1) demo_facts(6-8) bad_secret_def bad_flight_def bad_facts(6) _ bad_facts(7,8)])
qed

end
