(* ===== verification/Spec2Isabelle.thy ===== *)
theory Spec2Isabelle
  imports Server_Guarantees Config Extensions Client_Safety Webpki Provider Async_Guarantees Nonces Pki_Client
begin

text \<open>
  A verification of a TLS 1.3 stack for embedded devices: a client with blocking and async connections
  and an I/O-free server for external PSKs.  Paths are relative to the crate's root.

  \<^bold>\<open>The program\<close>

  A client (src/blocking.rs, src/asynch.rs) owns a transport, a key schedule (src/key\_schedule.rs), a
  record reader (src/record\_reader.rs) and a write buffer (src/write\_buffer.rs).  \<open>open\<close> runs the state
  machine of src/connection.rs, which writes and reads the handshake messages of src/handshake/ with the
  extensions of src/extensions/, asks a verifier (src/pki.rs or src/webpki.rs) about certificates, and ends with the
  keys for application data.  \<open>write\<close>, \<open>flush\<close> and \<open>read\<close> then go through the two buffers.  The server
  (src/server.rs) gets messages and records as byte strings and returns the bytes to send; it has the
  same key schedule and the same parsers.

  \<^bold>\<open>How it is modelled\<close>

  Every function of the source is a definition of the same name, with a prefix where two modules share
  one.  What Rust passes as \<open>&mut\<close> is the state of a computation (\<open>comp\<close> in Prelude), which ends in \<open>Ok\<close>, in
  \<open>Err\<close> or in \<open>Panic\<close>; the state is returned in all three cases.  Structs are records with the source's
  fields, enums are datatypes.  Slices and \<open>heapless\<close> vectors are lists with their capacity checks written
  out; a borrowed part of a buffer is a position in it.  Counters and code points are words of their width.

  \<^item> Prelude, Errors: results, computations, checked slices, big-endian numbers; src/lib.rs, the errors.
  \<^item> Parse\_Buffer, Crypto\_Buffer, Wire\_Types: src/parse\_buffer.rs, src/buffer.rs and the enumerations of
    src/alert.rs, src/content\_types.rs, src/cipher\_suites.rs, src/change\_cipher\_spec.rs, src/flush\_policy.rs.
  \<^item> Crypto, Aead: the interface to the cryptographic crates, and AEAD in place over a \<open>CryptoBuffer\<close>.
  \<^item> Key\_Schedule: src/key\_schedule.rs, src/handshake/finished.rs, src/handshake/binder.rs.
  \<^item> Extension\_Data, Extensions: src/extensions/.  The methods that the macro of extension\_group\_macro.rs
    writes for each message are defined once over the message's dispatch function.
  \<^item> Config, Provider: src/config.rs, the builder of \<open>TlsConfig\<close> and the providers the crate has itself.
  \<^item> Handshake, Records: src/handshake/, src/record.rs, src/application\_data.rs.
  \<^item> Server: src/server.rs.  Server\_Records, Server\_Handshake, Server\_Traffic and Server\_Guarantees hold what
    is shown of it.
  \<^item> Record\_Crypto: \<open>encrypt\<close> and \<open>decrypt_record\<close> of src/connection.rs.
  \<^item> Write\_Buffer, Record\_Reader, Read\_Buffer: src/write\_buffer.rs, src/record\_reader.rs, src/read\_buffer.rs
    and src/common/.
  \<^item> Connection, Blocking: the state machine of src/connection.rs with its blocking driver, and
    src/blocking.rs.  Duplex, Client\_Handshake, Client\_Traffic and Client\_Safety hold what is shown of them, Nonces
    what is shown of the records of both sides.
  \<^item> Futures, Asynch: the async reader and driver, and src/asynch.rs.  Timing and Async\_Guarantees hold what is
    shown of them.
  \<^item> Hostname, Verifier, Pki, Webpki: host name matching, the interface \<open>TlsVerifier\<close>, and its two
    implementations src/pki.rs (with src/der\_certificate.rs) and src/webpki.rs.  Pki\_Client is about a client with the
    verifier of src/pki.rs.

  \<^bold>\<open>Code outside the repository\<close>

  The cryptographic crates are fields of \<open>cipher_suite_params\<close>, \<open>p256_params\<close> and \<open>sig_params\<close>, and an argument
  \<open>x25519\<close>; the \<open>der\<close> and \<open>webpki\<close> crates are \<open>der_params\<close> and \<open>webpki_params\<close>; the transport, the clock and the caller's
  provider are arguments too.  What a theorem needs of them is a hypothesis: \<open>crypto_laws\<close> (lengths, and that
  opening inverts sealing), the laws of a reliable byte stream (Duplex), of a finite one (Client\_Safety), and
  of readers that consume what they read (Pki).  Nothing is assumed about the strength of the
  cryptography: a theorem says which MAC, signature or ciphertext was checked, not that it is
  hard to forge.  \<open>toy_suite\<close> and the other concrete instances satisfy the hypotheses in the witnesses.

  \<^bold>\<open>What is shown\<close>

  \<^item> Encodings: each parser reads back what the encoder writes, for lists through the locale \<open>list_codec\<close> and for the
    extensions of each message through the locale \<open>extension_group\<close>.
  \<^item> Key schedule: the secrets, keys and IVs are those of RFC 8446 section 7.1, written down a second time
    as functions of the inputs (\<open>rfc_*\<close>).
  \<^item> Nonces: what either side seals after the handshake, in any sequence of calls, has pairwise different nonces under
    its key, as long as the client's transport accepts what it is given.  If it does not, Client\_Traffic shows a
    nonce that is used twice.
  \<^item> Server: what it answers and when, on every branch; the first flight, the HelloRetryRequest and the keys
    are those of RFC 8446; only a ClientHello with a valid binder is answered; a Finished is accepted exactly if it is
    right; no input makes it panic; data and alerts are read back as they were written.
  \<^item> Client handshake: against a peer that follows RFC 8446, sends certificates the verifier accepts or none, does not ask for
    one, and does not divide a message over records, \<open>open\<close> returns with the right messages
    sent and the right keys.  Against any peer, it returns \<open>Ok\<close> only after the server's Finished was
    verified.  The state machine is a step relation there, and the result an invariant of it.
  \<^item> Client data: writing refines a block buffer, reading hands out the peer's bytes in order, in whatever
    chunks they come; the split halves do what the whole connection does.
  \<^item> Certificates: a verifier accepts exactly the chains of the specification; the locale \<open>tls_verifier\<close>
    gives, for both verifiers, that an accepted CertificateVerify was made with the accepted certificate's key.  A
    CertificateVerify at the wrong place makes the client panic.
  \<^item> Async: the async operations do what the blocking ones do on the transport without the waiting, unless
    their future is dropped.  The locale \<open>step_loop\<close> carries this through the loops.
  \<^item> This theory: the server's whole handshake, and the crate's client and server in one statement: the
    client's hello, which the server reads and authenticates, and application data in both directions.

  \<^bold>\<open>Loops and bounds\<close>

  Loops over data that shrinks are \<open>fun\<close>s, so that they return is part of the definition.  A loop that
  the environment controls (\<open>open\<close>, filling the read buffer, the names in a certificate's extension) is a
  \<open>partial_function\<close> with \<open>None\<close> for not returning, and that it does return is proved: for a transport with finite input,
  and for a decoder that consumes.  The polls of a future have no such bound in the program; in the
  model the caller has a number of polls left, the patience, and drops the future when it is used
  up.  Since every theorem holds for every patience, no number had to be chosen.  A dropped future
  has no result; it is the value \<open>Panic\<close> with the patience gone.  \<open>usize\<close> values are natural numbers: they
  are lengths of and positions in slices, which are below \<open>2^63\<close>.

  \<^bold>\<open>Not modelled\<close>

  \<^item> src/fmt.rs and the \<open>defmt\<close> formatters: logging, without effect on the state.
  \<^item> src/crypto\_engine.rs: an empty struct whose methods do nothing, made only by the unused
    \<open>initialize_crypto_engine\<close> of src/handshake/server\_hello.rs.
  \<^item> src/server\_self\_loop\_test.rs and the \<open>tests\<close> modules: test code.
  \<^item> The implementations of the \<open>embedded_io\<close> traits that only forward to the methods above, \<open>as_ref\<close> and
    \<open>reborrow\<close> methods, and the declarations of src/lib.rs.
  \<^item> The order in which two halves of a split connection are used at the same time from two threads: they
    share only the flag \<open>opened\<close>, and each call is a step of its own here.
\<close>

section \<open>A whole handshake\<close>

text \<open>
  C1: the server's side of a whole handshake.  Let a ClientHello (the first one, or the one after a retry) be well
  formed, with a binder that is valid for the configured PSK and a key exchange the server can do, and let the
  output buffer have room for the answer.  Then the session answers with its first flight, and if the next record is
  the client's Finished over the transcript, under the handshake keys of RFC 8446, the session accepts it.
  It then has the application traffic keys that RFC 8446 prescribes for both directions, and the transcript
  that ends with the client's Finished.
\<close>

theorem handshake_completes:
  assumes "crypto_laws C" and "awaiting_hello C x25519 config sess t"
    and "admit config msg (ss_hrr_state sess) = Ok (hello, Use mode, idx, b)"
    and "binder_valid C config t hello msg b"
    and "kex_secret C x25519 config mode = Ok ikm"
    and "server_hello_extensions config idx mode = Ok exts"
    and "sh = server_hello_message config (cr_legacy_session_id hello) exts"
    and "length sh + hash_len C + 59 \<le> length out"
    and "T = t @ msg @ sh"
    and "sts = rfc_handshake_traffic C (psk_secret config) ikm ''s hs traffic'' T"
    and "cts = rfc_handshake_traffic C (psk_secret config) ikm ''c hs traffic'' T"
    and "T2 = T @ ee_message @ finished_message C sts (T @ ee_message)"
    and "rec = sealed_record C (rfc_traffic_keys C cts) (finished_message C cts T2) CT_Handshake"
  shows "\<exists>flight sess1 sess2.
     session_process_client_hello C x25519 config msg out sess = (Ok (FirstFlight flight), sess1) \<and>
     session_process_client_finished C rec sess1 = (Ok (), sess2) \<and>
     client_traffic (ss_schedule sess2) =
       rfc_traffic_keys C (rfc_application_traffic C (psk_secret config) ikm ''c ap traffic'' T2) \<and>
     server_traffic (ss_schedule sess2) =
       rfc_traffic_keys C (rfc_application_traffic C (psk_secret config) ikm ''s ap traffic'' T2) \<and>
     ks_transcript (ss_schedule sess2) = T2 @ finished_message C cts T2"
proof -
  from first_flight_session [OF assms(1-7,9,10,8)] obtain flight sess1 where
    1: "session_process_client_hello C x25519 config msg out sess = (Ok (FirstFlight flight), sess1)"
      "shared (ss_schedule sess1) = shared_after C (rfc_handshake_secret C (psk_secret config) ikm)"
      "client_traffic (ss_schedule sess1) = rfc_traffic_keys C cts" "ks_transcript (ss_schedule sess1) = T2"
    unfolding assms(11,12) by blast
  let ?fin = "finished_message C cts T2"
  have "process_client_finished C rec (ss_schedule sess1) =
      (Ok (), transcript_update ?fin (master_ks C (bump_client (ss_schedule sess1))))"
    using process_client_finished_sealed [OF assms(1), of "ss_schedule sess1" cts ?fin] usable_rfc_keys [OF assms(1)]
    by (simp add: 1 assms(13))
  then have "session_process_client_finished C rec sess1 = (Ok (), sess1\<lparr>ss_schedule :=
      transcript_update ?fin (master_ks C (bump_client (ss_schedule sess1)))\<rparr>)"
    by (simp add: session_process_client_finished_def on_part_apply)
  with 1 master_ks_rfc [of "bump_client (ss_schedule sess1)" C "psk_secret config" ikm] show ?thesis
    by simp
qed

theorem handshake_completes_witness:
  "\<exists>flight rec sess1 sess2. session_process_client_hello toy_suite (\<lambda>_ _. []) (demo_config None)
     (demo_msg [PskKe] (demo_binder [PskKe])) (replicate 400 0) (session_new toy_suite) = (Ok (FirstFlight flight), sess1) \<and>
     session_process_client_finished toy_suite rec sess1 = (Ok (), sess2)"
  using handshake_completes [OF toy_suite_laws awaiting_hello.fresh demo_use(1-4) refl demo_use(5) refl refl refl refl refl]
  by blast

section \<open>Client and server together\<close>

lemma find_client_extensions:
  "find_map (\<lambda>e. case e of CHE_PskKeyExchangeModes x \<Rightarrow> Some x | _ \<Rightarrow> None) (client_extensions pub ch @ es) = Some [PskDheKe]"
  "find_map (\<lambda>e. case e of CHE_KeyShare x \<Rightarrow> Some x | _ \<Rightarrow> None) (client_extensions pub ch @ es) =
     Some [\<lparr>ks_group = Secp256r1, ks_opaque = pub (ch_secret ch)\<rparr>]"
  "find_map (\<lambda>e. case e of CHE_SupportedGroups x \<Rightarrow> Some x | _ \<Rightarrow> None) (client_extensions pub ch @ es) =
     Some (cfg_named_groups (ch_config ch))"
  "find_map (\<lambda>e. case e of CHE_PreSharedKey x \<Rightarrow> Some x | _ \<Rightarrow> None) (client_extensions pub ch @ [psk_final_ext C ids b]) =
     Some \<lparr>psk_identities = ids, psk_binders = map (\<lambda>_. b) ids, psk_hash_size = hash_len C\<rparr>"
  by (simp_all add: client_extensions_def Let_def option_list_def psk_final_ext_def split: option.split)

lemma position_member: "x \<in> set xs \<Longrightarrow> \<exists>i < length xs. xs ! i = x \<and> position (\<lambda>y. y = x) xs = Some i"
  by (induction xs) auto

lemma client_hello_parsed:
  assumes "client_hello_ok C pub ch ids b" and "length b = hash_len C"
  shows "parse_client_hello (client_hello_final C pub ch ids b) =
    Ok \<lparr>cr_legacy_version = LEGACY_VERSION, cr_random = ch_random ch, cr_legacy_session_id = [],
         cr_cipher_suites = be16 (code_point C), cr_legacy_compression_methods = [0],
         cr_extensions = client_extensions pub ch @ [psk_final_ext C ids b],
         cr_binders_start_offset = length (client_hello_prefix C pub ch ids ((1 + hash_len C) * length ids))\<rparr>"
  using client_hello_final_parse [OF assms, of CLIENT_HELLO_MAX_EXTENSIONS "[]"]
  by (simp add: parse_client_hello_def CLIENT_HELLO_MAX_EXTENSIONS_def is_empty_def)

lemma own_client_hello:
  assumes laws: "hash_laws C" and psk: "cfg_psk (ch_config ch) = Some (psk_secret config, ids)" and id: "psk_identity config \<in> set ids"
    and b: "b = rfc_finished_mac C (rfc_binder_key C (psk_secret config))
      (hash C (client_hello_prefix C pub ch ids ((1 + hash_len C) * length ids)))"
    and ok: "client_hello_ok C pub ch ids b"
    and m: "m = hello_message C pub ch (rfc_binder_key C (psk_secret config)) []"
  obtains hello i where "parse_client_hello m = Ok hello" and "cr_random hello = ch_random ch"
    and "cr_extensions hello = client_extensions pub ch @ [psk_final_ext C ids b]"
    and "i < length ids" and "ids ! i = psk_identity config" and "locate_our_identity hello config = Ok (word_of_nat i, b)"
    and "binder_valid C config [] hello m b" and "cr_binders_start_offset hello \<le> length m"
proof -
  have len: "length b = hash_len C" by (simp add: b length_rfc_finished_mac [OF laws])
  have m': "m = client_hello_final C pub ch ids b" using psk b m by (simp add: hello_message_def)
  obtain i where i: "i < length ids" "ids ! i = psk_identity config" "position (\<lambda>y. y = psk_identity config) ids = Some i"
    using position_member [OF id] by blast
  let ?prefix = "client_hello_prefix C pub ch ids ((1 + hash_len C) * length ids)"
  let ?hello = "\<lparr>cr_legacy_version = LEGACY_VERSION, cr_random = ch_random ch, cr_legacy_session_id = [],
         cr_cipher_suites = be16 (code_point C), cr_legacy_compression_methods = [0],
         cr_extensions = client_extensions pub ch @ [psk_final_ext C ids b], cr_binders_start_offset = length ?prefix\<rparr>"
  have pre: "take (length ?prefix) m = ?prefix" "length ?prefix \<le> length m"
    using client_hello_final_split [OF len refl, of pub ch ids] by (simp_all add: m')
  show thesis
    by (rule that [OF client_hello_parsed [OF ok len, folded m'] _ _ i(1,2)])
      (use pre i in \<open>simp_all add: binder_valid_def b locate_our_identity_def find_client_extensions index_at_def\<close>)
qed

text \<open>
  C33: the ClientHello of the crate's own client at its server.  What a new client with a PSK sends in its
  first step is one record, and the server's parser reads its message back: the client's random value and the
  extensions it wrote, in order.  A server with the same PSK under one of the client's identities finds
  that identity and its binder, and its check of the binder succeeds and leaves the early secrets of the PSK.
\<close>

theorem own_client_hello_authenticated:
  assumes "crypto_laws C" and "transport_laws T sent" and "fresh_client C rbuf wbuf s" and "delivers T (cl_transport s) x"
    and "cp_random P (cl_provider s) = (random, p1)" "cp_secret P p1 = (secret, p2)"
    and "ch = hello_of cfg random secret" and "hello_fits C E ch (length wbuf)"
    and "cfg_psk cfg = Some (psk_secret config, ids)" and "psk_identity config \<in> set ids"
    and "b = rfc_finished_mac C (rfc_binder_key C (psk_secret config))
      (hash C (client_hello_prefix C (p256_public E) ch ids ((1 + hash_len C) * length ids)))"
    and "client_hello_ok C (p256_public E) ch ids b"
  shows "\<exists>s1 m hello i s2. process_blocking C E sig T P cfg S_ClientHello s = (Ok S_ServerHello, s1) \<and>
     sent (cl_transport s1) = sent (cl_transport s) @ [22, 3, 1] @ vec16 m \<and>
     parse_client_hello m = Ok hello \<and> cr_random hello = random \<and>
     cr_extensions hello = client_extensions (p256_public E) ch @ [psk_final_ext C ids b] \<and>
     i < length ids \<and> ids ! i = psk_identity config \<and> locate_our_identity hello config = Ok (word_of_nat i, b) \<and>
     authenticate_psk C config m hello False b (session_st (session_new C) out) = (Ok (), s2) \<and>
     psk_ready C (psk_secret config) (sv_ks s2)"
proof -
  let ?pub = "p256_public E" let ?psk = "psk_secret config" let ?ks = "early_ks C ?psk (ks_new C)"
  define m where "m = hello_message C ?pub ch (rfc_binder_key C ?psk) []"
  have psk: "hello_psk C cfg = ?psk" using assms(9) by (simp add: hello_psk_def)
  have s: "cl_tx s = wb_idle wbuf" "cl_ks s = ks_new C" using assms(3) by (simp_all add: fresh_client_def)
  have bk: "rfc_binder_key C ?psk = rfc_derive_secret C (hkdf_extract C (sh_secret (shared (cl_ks s))) (hello_psk C cfg)) ''ext binder'' []"
    by (simp add: s psk rfc_binder_key_def rfc_early_secret_def)
  from client_hello_step [OF assms(1,2,4) s(1) _ assms(5,6), of E cfg ?ks m "[22, 3, 1] @ vec16 m" sig] obtain t1 where
    1: "process_blocking C E sig T P cfg S_ClientHello s = (Ok S_ServerHello, s\<lparr>cl_transport := t1,
        cl_tx := wb_idle (overwrite 0 ([22, 3, 1] @ vec16 m) wbuf), cl_ks := bump_client (transcript_update m ?ks), cl_provider := p2,
        cl_handshake := (cl_handshake s)\<lparr>hs_secret := Some secret\<rparr>\<rparr>)"
    "sent t1 = sent (cl_transport s) @ [22, 3, 1] @ vec16 m"
    using assms(7,8) usable_new [OF assms(1)] bk by (auto simp: s psk m_def)
  have "cfg_psk (ch_config ch) = Some (?psk, ids)" using assms(7,9) by (simp add: hello_of_def)
  then obtain hello i where 2: "parse_client_hello m = Ok hello" "cr_random hello = ch_random ch"
    "cr_extensions hello = client_extensions ?pub ch @ [psk_final_ext C ids b]"
    "i < length ids" "ids ! i = psk_identity config" "locate_our_identity hello config = Ok (word_of_nat i, b)"
    "binder_valid C config [] hello m b" "cr_binders_start_offset hello \<le> length m"
    using own_client_hello [OF crypto_lawsD(1) [OF assms(1)] _ assms(10-12) m_def] by blast
  let ?s = "session_st (session_new C) out"
  have ready: "psk_ready C ?psk ?ks" by (simp add: early_ks_ready)
  then have "authenticate_psk C config m hello False b ?s = (Ok (), ?s\<lparr>sv_ks := ?ks\<rparr>)"
    using authenticate_psk_run [OF crypto_lawsD(1) [OF assms(1)] 2(8), of config False b ?s] 2(7)
    by (simp add: auth_ks_def auth_transcript_def binder_valid_def psk_ready_def session_new_def)
  with 1 2 ready assms(7) show ?thesis
    by (intro exI [of _ "s\<lparr>cl_transport := t1,
        cl_tx := wb_idle (overwrite 0 ([22, 3, 1] @ vec16 m) wbuf), cl_ks := bump_client (transcript_update m ?ks), cl_provider := p2,
        cl_handshake := (cl_handshake s)\<lparr>hs_secret := Some secret\<rparr>\<rparr>"] exI [of _ m] exI [of _ hello] exI [of _ i]
        exI [of _ "?s\<lparr>sv_ks := ?ks\<rparr>"]) (simp add: hello_of_def)
qed

theorem own_client_hello_authenticated_witness:
  "\<exists>s1 m hello i b s2. process_blocking toy_suite toy_p256 64 (duplex_transport 6) toy_provider demo_client_config S_ClientHello
       (client_of demo_new ()) = (Ok S_ServerHello, s1) \<and> snd (cl_transport s1) = [22, 3, 1] @ vec16 m \<and>
     parse_client_hello m = Ok hello \<and> locate_our_identity hello (demo_config None) = Ok (i, b) \<and>
     authenticate_psk toy_suite (demo_config None) m hello False b (session_st (session_new toy_suite) []) = (Ok (), s2)"
proof -
  let ?config = "demo_config None"
  let ?ch = "hello_of demo_client_config (replicate 32 5) [6]" and ?pub = "p256_public toy_p256"
  define b where "b = rfc_finished_mac toy_suite (rfc_binder_key toy_suite (psk_secret ?config))
      (hash toy_suite (client_hello_prefix toy_suite ?pub ?ch [[105]] ((1 + hash_len toy_suite) * length [[105 :: byte]])))"
  have "length b = 32" by (simp add: b_def length_rfc_finished_mac [OF crypto_lawsD(1) [OF toy_suite_laws]]) (simp add: toy_suite_def)
  then have ok: "client_hello_ok toy_suite ?pub ?ch [[105]] b"
    by (simp add: client_hello_ok_def hello_of_def demo_client_config_def client_extensions_def option_list_def Let_def
        psk_final_ext_def che_ok_def toy_p256_def wire_bytes_def extension_bytes_def key_share_entry_bytes_def
        psk_ch_bytes_def psk_ch_ok_def psk_identity_bytes_def toy_suite_def)
  have fresh: "fresh_client toy_suite (replicate 2000 0) (replicate 2000 0) (client_of demo_new ())"
    by (simp add: fresh_client_def client_of_def demo_new_def)
  have dl: "delivers (duplex_transport 6) (cl_transport (client_of demo_new ())) demo_input"
    using duplex_delivers [of 6 demo_input "[]"] by (simp add: client_of_def demo_new_def)
  have rng: "cp_random toy_provider (cl_provider (client_of demo_new ())) = (replicate 32 5, ())" "cp_secret toy_provider () = ([6], ())"
    by (simp_all add: toy_provider_def)
  have psk: "cfg_psk demo_client_config = Some (psk_secret ?config, [[105]])" "psk_identity ?config \<in> set [[105]]"
    by (simp_all add: demo_client_config_def demo_config_def)
  have "snd (cl_transport (client_of demo_new ())) = []" by (simp add: client_of_def demo_new_def)
  with own_client_hello_authenticated [OF toy_suite_laws duplex_transport_laws fresh dl rng refl demo_facts(5) psk b_def ok,
      where out = "[]" and sig = 64]
  show ?thesis by fastforce
qed

text \<open>
  The key exchange with such a client fails: it offers only \<open>psk_dhe_ke\<close> with a secp256r1 share, and the server has only
  \<open>psk_ke\<close> and X25519, so that it asks for another hello at best, if the client's configuration lists X25519.
\<close>

lemma own_client_hello_not_answered:
  assumes "cr_extensions hello = client_extensions pub ch @ [psk_final_ext C ids b]"
  shows "decide_kex hello config False =
     (if dhe_keypair config \<noteq> None \<and> X25519 \<in> set (cfg_named_groups (ch_config ch))
      then Ok (Retry X25519) else Err (fatal AD_HandshakeFailure))"
  using assms
  by (auto simp: decide_kex_def find_client_extensions find_client_x25519_share_def client_supports_group_def list_ex_iff)

section \<open>Application data from end to end\<close>

text \<open>
  C8: from the client's application to the server's.  Whatever a client writes to an open connection,
  in pieces of any length with flushes anywhere, and flushes at the end, a server whose read keys are the
  client's write keys gets back from the records that were sent: each record decrypts, and the contents
  joined are exactly the bytes the client's calls accepted.  Both ends are then at the same record number.
\<close>

theorem client_data_reaches_server:
  assumes "crypto_laws C" and "transport_laws T sent" and "idle_connection m n c" and "133 \<le> n" and "n < 2 ^ 16"
    and "usable (client_traffic (tc_ks c))"
    and "unat (counter (client_traffic (tc_ks c))) + length xs + 1 < 2 ^ 64"
    and "client_traffic (ss_schedule s) = client_traffic (tc_ks c)" and "n \<le> length buf"
  shows "\<exists>ks c' recs ps s'. run_writes C T (xs @ [Flush]) c = (Ok ks, c') \<and>
     sent (tc_delegate c') = sent (tc_delegate c) @ concat recs \<and>
     receive_stream C buf recs s = (Ok ps, s') \<and> concat ps = accepted (xs @ [Flush]) ks \<and>
     client_traffic (ss_schedule s') = client_traffic (tc_ks c')"
proof -
  let ?a = "\<lparr>pending = None, completed = []\<rparr>" and ?st = "client_traffic (tc_ks c)"
  obtain ks a where spec: "spec_writes (capacity n) (xs @ [Flush]) ?a = (ks, a)" by fastforce
  have repr: "writer_repr C n ?a c" using assms(3-5) by (auto simp: writer_repr_def idle_connection_def the_pending_def)
  have "length (iv ?st) = 12" "unat (counter ?st) + length (xs @ [Flush]) < 2 ^ 64"
    using assms(6,7) by (simp_all add: usable_def)
  from run_writes_refines [OF assms(1,2) repr this spec] obtain c' where
    run: "run_writes C T (xs @ [Flush]) c = (Ok ks, c')" "emitted C T sent (completed a) c c'" by auto
  have tag: "tag_len C = 16" using suite_sizesD [OF crypto_lawsD(3) [OF assms(1)]] by simp
  have len: "\<forall>p \<in> set (completed a). length p \<le> capacity n"
    using spec_writes_bound [OF spec] by (simp add: the_pending_def)
  have "length (completed a) \<le> length (xs @ [Flush])" using spec_writes_count [OF spec] by simp
  then have "stream_fits C (length buf) ?st (completed a)"
    using len assms(4-7,9) tag by (fastforce simp: stream_fits_def usable_def capacity_def)
  then have "stream_fits C (length buf) (client_traffic (ss_schedule s)) (completed a)" by (simp add: assms(8))
  from receive_stream_run [OF assms(1) this] obtain s' where
    "receive_stream C buf (sealed_stream C ?st (completed a)) s = (Ok (completed a), s')"
    "client_traffic (ss_schedule s') = after_records (length (completed a)) ?st" by (auto simp: assms(8))
  moreover have "concat (completed a) = accepted (xs @ [Flush]) ks"
    using spec_writes_data [OF spec] spec_writes_flushed [OF spec] by (simp add: written_def the_pending_def)
  ultimately show ?thesis using run by (auto simp: emitted_def)
qed

theorem client_data_reaches_server_witness:
  "\<exists>ks c' recs ps s'. run_writes toy_suite (duplex_transport 6) ([Write [1, 2, 3], Write (replicate 20 7)] @ [Flush]) (demo_conn ([], [])) =
      (Ok ks, c') \<and> snd (tc_delegate c') = concat recs \<and>
     receive_stream toy_suite (replicate 140 0) recs \<lparr>ss_schedule = demo_ks [7] [8], ss_hrr_state = hrr_default\<rparr> = (Ok ps, s') \<and>
     concat ps = accepted ([Write [1, 2, 3], Write (replicate 20 7)] @ [Flush]) ks"
proof -
  have st: "client_traffic (tc_ks (demo_conn ([] :: bytes, [] :: bytes))) = client_traffic (demo_ks [7] [8])" by (simp add: demo_conn_def)
  have "usable (client_traffic (tc_ks (demo_conn ([] :: bytes, [] :: bytes))))"
    using usable_rfc_keys [OF toy_suite_laws] by (simp add: demo_conn_traffic)
  from client_data_reaches_server [OF toy_suite_laws duplex_transport_laws [of 6] demo_conn_idle _ _ this, where xs = "[Write [1, 2, 3], Write (replicate 20 7)]" and buf = "replicate 140 0"
      and s = "\<lparr>ss_schedule = demo_ks [7] [8], ss_hrr_state = hrr_default\<rparr>"] st
  show ?thesis by (auto simp: demo_conn_traffic) (auto simp: demo_conn_def)
qed

text \<open>
  C9: from the server's application to the client's.  The records a server writes for a list of messages
  are read by a client with mirrored keys, over any transport that delivers their bytes however it cuts
  them: as many reads as there are bytes, each of one byte, hand out exactly the messages joined.  The
  client's side of the connection that writes is not touched.
\<close>

theorem server_data_reaches_client:
  assumes "crypto_laws C" and "transport_laws T sent" and "idle_connection n m c"
    and "server_traffic (ss_schedule s) = server_traffic (tc_ks c)"
    and "stream_fits C (length out) (server_traffic (tc_ks c)) ps" and "length out \<le> n + 5"
    and "send_stream C out ps s = (Ok recs, s')" and "delivers T (tc_delegate c) (concat recs)"
  shows "\<exists>xs c'. run_reads C T (replicate (length (concat ps)) [x]) c = Some (Ok xs, c') \<and>
     handed_out xs = concat ps \<and> only_read sent c c'"
proof -
  let ?st = "server_traffic (tc_ks c)" and ?bufs = "replicate (length (concat ps)) [x]"
  have "recs = sealed_stream C ?st ps" using send_stream_run [OF assms(1), of out s ps] assms(4,5,7) by auto
  moreover have "stream_fits C (n + 5) ?st ps" using assms(5,6) by (fastforce simp: stream_fits_def)
  ultimately have r: "readable C T ps c" "available c = []" using idle_readable [OF assms(3)] assms(8) by blast+
  have "sum_list (map length ?bufs) \<le> length (available c @ concat ps)" "[] \<notin> set ?bufs" by (simp_all add: r(2) sum_list_replicate)
  from run_reads_run [OF assms(1,2) r(1) this] obtain xs c' qs where
    run: "run_reads C T ?bufs c = Some (Ok xs, c')"
      "list_all2 (\<lambda>(k, out) buf. 0 < k \<and> k \<le> length buf \<and> length out = length buf \<and> drop k out = drop k buf) xs ?bufs"
      "handed_out xs @ available c' @ concat qs = concat ps" "only_read sent c c'"
    unfolding r(2) by auto
  have "length (concat ps) \<le> length (handed_out xs)" using length_handed_out [OF run(2)] by simp
  moreover have "length (handed_out xs) + length (available c' @ concat qs) = length (concat ps)"
    unfolding run(3) [symmetric] by simp
  ultimately have "length (available c' @ concat qs) = 0" by linarith
  then have "available c' @ concat qs = []" by (simp only: length_0_conv)
  with run show ?thesis by auto
qed

theorem server_data_reaches_client_witness:
  "\<exists>recs s' xs c'. send_stream toy_suite (replicate 60 0) [[1, 2], [], [3]] \<lparr>ss_schedule = demo_ks [7] [8], ss_hrr_state = hrr_default\<rparr> =
       (Ok recs, s') \<and>
     run_reads toy_suite (duplex_transport 3) [[0], [0], [0]] (demo_conn (concat recs, [])) = Some (Ok xs, c') \<and>
     handed_out xs = [1, 2, 3]"
proof -
  let ?s = "\<lparr>ss_schedule = demo_ks [7] [8], ss_hrr_state = hrr_default\<rparr>" and ?ps = "[[1, 2], [], [3]] :: bytes list"
  have tag: "tag_len toy_suite = 16" by (simp add: toy_suite_def)
  have fits: "stream_fits toy_suite (length (replicate 60 (0 :: byte))) (server_traffic (tc_ks (demo_conn t))) ?ps" for t :: "bytes \<times> bytes"
    using tag by (simp add: stream_fits_def demo_conn_traffic)
  have st: "server_traffic (ss_schedule ?s) = server_traffic (tc_ks (demo_conn t))" for t :: "bytes \<times> bytes" by (simp add: demo_conn_def)
  obtain recs s' where recs: "send_stream toy_suite (replicate 60 0) ?ps ?s = (Ok recs, s')"
    using send_stream_run [OF toy_suite_laws, of "replicate 60 0" ?s ?ps] fits st by auto
  have "delivers (duplex_transport 3) (tc_delegate (demo_conn (concat recs, []))) (concat recs)"
    using duplex_delivers by (simp add: demo_conn_def)
  from server_data_reaches_client [OF toy_suite_laws duplex_transport_laws demo_conn_idle st fits _ recs this, where x = 0] recs
  show ?thesis by (auto simp: eval_nat_numeral)
qed

end
